(* ===== verification/Prelude.thy ===== *)
theory Prelude
  imports Complex_Main "HOL-Library.Word" "HOL-Library.Log_Nat"
begin

text \<open>
  Shared ground of the development: the collections of rewrite rules that the component
  theories feed and use, and the generic facts on lists, powers of two and integers that
  more than one component needs.  Nothing here mentions the program.
\<close>

named_theorems fp_exact \<open>floating-point operations that are exact on the operands at hand\<close>
named_theorems wf_intros \<open>introduction rules for the well-formedness invariants\<close>

section \<open>Lists\<close>

lemma nth_append_singleton [simp]: "(xs @ [x]) ! length xs = x"
  by simp

lemma list_all2_snocE:
  assumes "list_all2 P (xs @ [x]) ys"
  obtains ys' y where "ys = ys' @ [y]" and "list_all2 P xs ys'" and "P x y"
  using assms by (auto simp: list_all2_append1 list_all2_Cons1)

text \<open>
  A ring of fixed length: overwriting the oldest element and moving the head by one is, read
  from the head on, dropping the first element and appending the new one.
\<close>

lemma rotate_overwrite:
  assumes "i < length xs"
  shows "rotate ((i + 1) mod length xs) (xs[i := x]) = tl (rotate i xs) @ [x]"
proof -
  have r: "rotate i xs = drop i xs @ take i xs"
    using assms by (simp add: rotate_drop_take)
  have u: "xs[i := x] = take i xs @ x # drop (i + 1) xs"
    using assms by (simp add: upd_conv_take_nth_drop)
  have "rotate (i + 1) (xs[i := x]) = drop (i + 1) xs @ take i xs @ [x]"
  proof -
    have "rotate (length (take i xs @ [x])) ((take i xs @ [x]) @ drop (i + 1) xs)
        = drop (i + 1) xs @ take i xs @ [x]"
      by (rule rotate_append)
    then show ?thesis using assms u by simp
  qed
  moreover have "tl (rotate i xs) @ [x] = drop (i + 1) xs @ take i xs @ [x]"
    using assms by (simp add: r Cons_nth_drop_Suc [symmetric])
  moreover have "rotate ((i + 1) mod length xs) (xs[i := x]) = rotate (i + 1) (xs[i := x])"
    by (metis length_list_update rotate_conv_mod)
  ultimately show ?thesis by simp
qed

lemma hd_rotate_nth: "i < length xs \<Longrightarrow> hd (rotate i xs) = xs ! i"
  by (cases "xs = []") (simp_all add: hd_rotate_conv_nth)

lemma sum_list_replicate_zero [simp]: "sum_list (replicate n (0 :: 'a :: monoid_add)) = 0"
  by (induction n) auto

section \<open>Powers of two with integer exponents\<close>

abbreviation two_powi :: "int \<Rightarrow> rat" where
  "two_powi e \<equiv> 2 powi e"

lemma two_powi_pos [simp]: "0 < two_powi e"
  by (simp add: zero_less_power_int)

lemma two_powi_nonneg [simp]: "0 \<le> two_powi e"
  by (simp add: less_imp_le)

lemma two_powi_neq_0 [simp]: "two_powi e \<noteq> 0"
  by simp

lemma two_powi_add: "two_powi (a + b) = two_powi a * two_powi b"
  by (simp add: power_int_add)

lemma two_powi_diff: "two_powi (a - b) = two_powi a / two_powi b"
  by (simp add: power_int_diff)

lemma two_powi_le_iff [simp]: "two_powi a \<le> two_powi b \<longleftrightarrow> a \<le> b"
proof
  assume "two_powi a \<le> two_powi b"
  then show "a \<le> b"
    by (metis linorder_not_less one_less_numeral_iff power_int_strict_increasing semiring_norm(76))
qed (simp add: power_int_increasing)

lemma two_powi_less_iff [simp]: "two_powi a < two_powi b \<longleftrightarrow> a < b"
  by (simp add: not_le [symmetric])

lemma two_powi_nonneg_int: "0 \<le> e \<Longrightarrow> two_powi e = of_int (2 ^ nat e)"
  by (simp add: power_int_def)

lemma two_powi_neg1_mult: "two_powi (e - 1) = two_powi e / 2"
  by (simp add: power_int_diff)

end
