(* ===== verification/Rounding.thy ===== *)
theory Rounding
  imports Prelude
begin

text \<open>
  Rounding of rational numbers to the grid of IEEE 754 binary64 (to nearest, ties to
  even): the executable function \<open>rnd\<close>, the numbers it fixes, its error bound and its
  monotonicity.  Overflow and the special values are the business of \<open>Binary64\<close>.
\<close>

section \<open>Rounding\<close>

definition ilog2 :: "rat \<Rightarrow> int" where
  "ilog2 q = (let (n, d) = quotient_of q; k = bitlen n - bitlen d
     in if 2 powi k \<le> q then k else k - 1)"

text \<open>Round half to even, on rationals.\<close>

definition rne :: "rat \<Rightarrow> int" where
  "rne x = (let f = \<lfloor>x\<rfloor>; d = x - of_int f
     in if d < 1 / 2 then f else if 1 / 2 < d then f + 1
        else if even f then f else f + 1)"

text \<open>
  The unit in the last place of the binade of \<open>q\<close>: 53 significant bits, and never below
  the smallest subnormal \<open>2 ^ -1074\<close>.
\<close>

definition ulp_exp :: "rat \<Rightarrow> int" where
  "ulp_exp q = max (ilog2 \<bar>q\<bar> - 52) (- 1074)"

definition rnd :: "rat \<Rightarrow> rat" where
  "rnd q = (if q = 0 then 0 else of_int (rne (q / 2 powi ulp_exp q)) * 2 powi ulp_exp q)"

subsection \<open>The binary logarithm\<close>

lemma ilog2_bounds:
  assumes "0 < q"
  shows "two_powi (ilog2 q) \<le> q" and "q < two_powi (ilog2 q + 1)"
proof -
  obtain n d where nd: "quotient_of q = (n, d)" by fastforce
  have d: "0 < d" using nd by (rule quotient_of_denom_pos)
  have q: "q = of_int n / of_int d" using nd by (rule quotient_of_div)
  have n: "0 < n" using assms d unfolding q by (simp add: zero_less_divide_iff)
  let ?k = "bitlen n - bitlen d"
  have bn: "1 \<le> bitlen n" and bd: "1 \<le> bitlen d"
    using n d by (simp_all add: bitlen_ge_iff_power)
  have n_lo: "two_powi (bitlen n - 1) \<le> of_int n" and n_hi: "of_int n < two_powi (bitlen n)"
    using bitlen_bounds [OF n] bn
    by (simp_all add: two_powi_nonneg_int del: of_int_power of_int_numeral)
  have d_lo: "two_powi (bitlen d - 1) \<le> of_int d" and d_hi: "of_int d < two_powi (bitlen d)"
    using bitlen_bounds [OF d] bd
    by (simp_all add: two_powi_nonneg_int del: of_int_power of_int_numeral)
  have hi: "q < two_powi (?k + 1)"
  proof -
    have "q < two_powi (bitlen n) / two_powi (bitlen d - 1)"
      unfolding q using n_hi d_lo n d by (intro frac_less) auto
    also have "\<dots> = two_powi (?k + 1)"
      by (simp add: two_powi_diff [symmetric] algebra_simps)
    finally show ?thesis .
  qed
  have lo: "two_powi (?k - 1) \<le> q"
  proof -
    have "two_powi (?k - 1) = two_powi (bitlen n - 1) / two_powi (bitlen d)"
      by (simp add: two_powi_diff [symmetric] algebra_simps)
    also have "\<dots> \<le> q"
      unfolding q using n_lo d_hi n d by (intro frac_le) auto
    finally show ?thesis .
  qed
  have il: "ilog2 q = (if two_powi ?k \<le> q then ?k else ?k - 1)"
    by (simp add: ilog2_def nd Let_def)
  show "two_powi (ilog2 q) \<le> q" using lo by (simp add: il)
  show "q < two_powi (ilog2 q + 1)" using hi by (simp add: il)
qed

lemma ilog2_unique:
  assumes "0 < q" and "two_powi k \<le> q" and "q < two_powi (k + 1)"
  shows "ilog2 q = k"
proof -
  have "two_powi (ilog2 q) < two_powi (k + 1)" "two_powi k < two_powi (ilog2 q + 1)"
    using ilog2_bounds [OF assms(1)] assms(2,3) by linarith+
  then show ?thesis by simp
qed

lemma ilog2_mono: "0 < q \<Longrightarrow> q \<le> r \<Longrightarrow> ilog2 q \<le> ilog2 r"
proof -
  assume "0 < q" and "q \<le> r"
  then have "two_powi (ilog2 q) < two_powi (ilog2 r + 1)"
    using ilog2_bounds(1) [of q] ilog2_bounds(2) [of r] by linarith
  then show ?thesis by simp
qed

subsection \<open>Rounding to an integer\<close>

lemma rne_of_int [simp]: "rne (of_int n) = n"
  by (simp add: rne_def)

lemma rne_bounds: "of_int (rne x) \<le> x + 1 / 2" "x - 1 / 2 \<le> of_int (rne x)"
  unfolding rne_def Let_def using floor_correct [of x] by (simp_all split: if_split) linarith+

lemma rne_error: "\<bar>of_int (rne x) - x\<bar> \<le> 1 / 2"
  using rne_bounds [of x] by linarith

lemma rne_mono: "x \<le> y \<Longrightarrow> rne x \<le> rne y"
proof -
  assume xy: "x \<le> y"
  then have f: "\<lfloor>x\<rfloor> \<le> \<lfloor>y\<rfloor>" by (rule floor_mono)
  show ?thesis
  proof (cases "\<lfloor>x\<rfloor> = \<lfloor>y\<rfloor>")
    case True
    then show ?thesis using xy by (auto simp: rne_def Let_def)
  next
    case False
    with f have "\<lfloor>x\<rfloor> + 1 \<le> \<lfloor>y\<rfloor>" by simp
    moreover have "rne x \<le> \<lfloor>x\<rfloor> + 1" "\<lfloor>y\<rfloor> \<le> rne y"
      by (auto simp: rne_def Let_def)
    ultimately show ?thesis by linarith
  qed
qed

lemma rne_nonneg: "0 \<le> x \<Longrightarrow> 0 \<le> rne x"
  using rne_mono [of 0 x] rne_of_int [of 0] by simp

lemma rne_minus: "rne (- x) = - rne x"
proof (cases "x \<in> \<int>")
  case True
  then obtain n where "x = of_int n" by (auto elim: Ints_cases)
  then show ?thesis by (metis of_int_minus rne_of_int)
next
  case False
  have fl: "\<lfloor>- x\<rfloor> = - \<lfloor>x\<rfloor> - 1"
    using False by (metis (no_types, lifting) Ints_of_int add_diff_cancel_right' ceiling_def
        ceiling_altdef diff_minus_eq_add minus_diff_eq uminus_add_conv_diff)
  define d where "d = x - of_int \<lfloor>x\<rfloor>"
  have d': "- x - of_int (- \<lfloor>x\<rfloor> - 1) = 1 - d" by (simp add: d_def)
  show ?thesis
    unfolding rne_def Let_def fl d' d_def [symmetric] by (simp split: if_split) linarith?
qed

subsection \<open>Rounding to the grid of binary64\<close>

text \<open>
  The numbers of the grid: 53-bit integers scaled by a power of two, at least the smallest
  subnormal.  Overflow is decided later, by the magnitude of the rounded number.
\<close>

definition on_grid :: "rat \<Rightarrow> bool" where
  "on_grid q \<longleftrightarrow> (\<exists>m e. q = of_int m * 2 powi e \<and> \<bar>m\<bar> < 2 ^ 53 \<and> - 1074 \<le> e)"

lemma on_gridI: "q = of_int m * 2 powi e \<Longrightarrow> \<bar>m\<bar> < 2 ^ 53 \<Longrightarrow> - 1074 \<le> e \<Longrightarrow> on_grid q"
  by (auto simp: on_grid_def)

lemma on_gridI_le:
  assumes "q = of_int m * 2 powi e" and "\<bar>m\<bar> \<le> 2 ^ 53" and "- 1074 \<le> e"
  shows "on_grid q"
proof (cases "\<bar>m\<bar> < 2 ^ 53")
  case True
  then show ?thesis using assms by (auto intro: on_gridI)
next
  case False
  then have "m = 2 ^ 53 \<or> m = - (2 ^ 53)" using assms(2) by (simp add: abs_if split: if_splits)
  then show ?thesis
  proof
    assume "m = 2 ^ 53"
    then have "q = of_int (2 ^ 52) * 2 powi (e + 1)" by (simp add: assms(1) two_powi_add)
    then show ?thesis by (rule on_gridI) (use assms(3) in auto)
  next
    assume "m = - (2 ^ 53)"
    then have "q = of_int (- (2 ^ 52)) * 2 powi (e + 1)" by (simp add: assms(1) two_powi_add)
    then show ?thesis by (rule on_gridI) (use assms(3) in auto)
  qed
qed

lemma on_grid_of_int: "\<bar>n\<bar> \<le> 2 ^ 53 \<Longrightarrow> on_grid (of_int n)"
  by (rule on_gridI_le [where e = 0]) auto

lemma on_grid_minus [simp]: "on_grid (- q) \<longleftrightarrow> on_grid q"
proof -
  have "on_grid q \<Longrightarrow> on_grid (- q)" for q
  proof -
    assume "on_grid q"
    then obtain m e where "q = of_int m * 2 powi e" "\<bar>m\<bar> < 2 ^ 53" "- 1074 \<le> e"
      unfolding on_grid_def by blast
    then show ?thesis by (intro on_gridI [where m = "- m" and e = e]) simp_all
  qed
  from this [of q] this [of "- q"] show ?thesis by auto
qed

lemma rnd_zero [simp]: "rnd 0 = 0"
  by (simp add: rnd_def)

lemma ulp_exp_minus [simp]: "ulp_exp (- q) = ulp_exp q"
  by (simp add: ulp_exp_def)

lemma rnd_minus: "rnd (- q) = - rnd q"
  by (simp add: rnd_def rne_minus)

text \<open>Numbers of the grid are fixed by rounding.\<close>

lemma rnd_on_grid:
  assumes "on_grid q"
  shows "rnd q = q"
proof (cases "q = 0")
  case False
  obtain m e where q: "q = of_int m * 2 powi e" and m: "\<bar>m\<bar> < 2 ^ 53" and e: "- 1074 \<le> e"
    using assms by (auto simp: on_grid_def)
  have "\<bar>q\<bar> < 2 powi (53 + e)"
  proof -
    have "\<bar>q\<bar> = of_int \<bar>m\<bar> * 2 powi e" by (simp add: q abs_mult)
    also have "\<dots> < of_int (2 ^ 53) * 2 powi e"
      using m by (intro mult_strict_right_mono) (simp_all only: of_int_less_iff two_powi_pos)
    also have "\<dots> = 2 powi (53 + e)" by (simp add: two_powi_add)
    finally show ?thesis .
  qed
  then have "two_powi (ilog2 \<bar>q\<bar>) < two_powi (53 + e)"
    using ilog2_bounds(1) [of "\<bar>q\<bar>"] False by linarith
  then have "ulp_exp q \<le> e" using e by (simp add: ulp_exp_def)
  then have "two_powi (e - ulp_exp q) = of_int (2 ^ nat (e - ulp_exp q))"
    by (intro two_powi_nonneg_int) simp
  then have "q / 2 powi ulp_exp q = of_int (m * 2 ^ nat (e - ulp_exp q))"
    unfolding q of_int_mult two_powi_diff by (metis times_divide_eq_right)
  then have "of_int (rne (q / 2 powi ulp_exp q)) = q / 2 powi ulp_exp q"
    by (simp only: rne_of_int)
  then show ?thesis using False by (simp add: rnd_def)
qed simp

lemma rnd_of_int: "\<bar>n\<bar> \<le> 2 ^ 53 \<Longrightarrow> rnd (of_int n) = of_int n"
  by (simp add: rnd_on_grid on_grid_of_int)

lemma rne_abs_le: "\<bar>x\<bar> \<le> of_int n \<Longrightarrow> \<bar>rne x\<bar> \<le> n"
  using rne_mono [of x "of_int n"] rne_mono [of "of_int (- n)" x]
  unfolding rne_of_int by (simp add: abs_le_iff)

lemma abs_less_ulp: "q \<noteq> 0 \<Longrightarrow> \<bar>q\<bar> < 2 powi (ulp_exp q + 53)"
proof -
  assume "q \<noteq> 0"
  then have "\<bar>q\<bar> < two_powi (ilog2 \<bar>q\<bar> + 1)" by (intro ilog2_bounds) simp
  also have "\<dots> \<le> two_powi (ulp_exp q + 53)" by (simp add: ulp_exp_def)
  finally show ?thesis .
qed

lemma rne_ulp_le: "\<bar>rne (q / 2 powi ulp_exp q)\<bar> \<le> 2 ^ 53"
proof (cases "q = 0")
  case False
  have "\<bar>q / 2 powi ulp_exp q\<bar> = \<bar>q\<bar> / 2 powi ulp_exp q" by simp
  also have "\<dots> \<le> of_int (2 ^ 53)"
    using abs_less_ulp [OF False] by (simp add: field_simps two_powi_add)
  finally show ?thesis by (rule rne_abs_le)
qed (use rne_of_int [of 0] in simp)

lemma on_grid_rnd [simp]: "on_grid (rnd q)"
proof (cases "q = 0")
  case True
  then show ?thesis by (auto intro: on_gridI [where m = 0 and e = 0])
next
  case False
  then show ?thesis
    by (intro on_gridI_le [OF _ rne_ulp_le]) (auto simp: rnd_def ulp_exp_def)
qed

lemma rnd_idem [simp]: "rnd (rnd q) = rnd q"
  by (simp add: rnd_on_grid)

lemma rnd_error: "\<bar>rnd q - q\<bar> \<le> 2 powi ulp_exp q / 2"
proof -
  let ?u = "two_powi (ulp_exp q)"
  have "\<bar>rnd q - q\<bar> = \<bar>of_int (rne (q / ?u)) - q / ?u\<bar> * ?u" if "q \<noteq> 0"
  proof -
    have "rnd q - q = (of_int (rne (q / ?u)) - q / ?u) * ?u"
      using that by (simp add: rnd_def field_simps)
    then show ?thesis by (simp add: abs_mult)
  qed
  moreover have "\<bar>of_int (rne (q / ?u)) - q / ?u\<bar> * ?u \<le> 1 / 2 * ?u"
    by (intro mult_right_mono rne_error) simp
  ultimately show ?thesis by (cases "q = 0") simp_all
qed

lemma rnd_nonneg: "0 \<le> q \<Longrightarrow> 0 \<le> rnd q"
  by (simp add: rnd_def rne_nonneg)

lemma rnd_ge: "q \<noteq> 0 \<Longrightarrow> n \<le> rne (q / 2 powi ulp_exp q) \<Longrightarrow> of_int n * 2 powi ulp_exp q \<le> rnd q"
  by (simp add: rnd_def mult_right_mono)

lemma rnd_le: "q \<noteq> 0 \<Longrightarrow> rne (q / 2 powi ulp_exp q) \<le> n \<Longrightarrow> rnd q \<le> of_int n * 2 powi ulp_exp q"
  by (simp add: rnd_def mult_right_mono)

lemma rnd_pos_mono:
  assumes "0 < q" and "q \<le> r"
  shows "rnd q \<le> rnd r"
proof -
  let ?e = "ulp_exp q" and ?f = "ulp_exp r"
  have "?e \<le> ?f" using assms ilog2_mono [OF assms] by (simp add: ulp_exp_def)
  then consider "?e = ?f" | "?e < ?f" by fastforce
  then show ?thesis
  proof cases
    case 1
    have "rne (q / 2 powi ?f) \<le> rne (r / 2 powi ?f)"
      using assms by (intro rne_mono) (simp add: divide_right_mono)
    then show ?thesis using assms 1 by (simp add: rnd_def mult_right_mono)
  next
    case 2
    then have f: "?f = ilog2 r - 52" using assms by (simp add: ulp_exp_def max_def split: if_splits)
    have "of_int (2 ^ 52) \<le> r / 2 powi ?f"
      using ilog2_bounds(1) [of r] assms unfolding f
      by (simp add: two_powi_diff pos_le_divide_eq)
    then have "2 ^ 52 \<le> rne (r / 2 powi ?f)"
      using rne_mono [of "of_int (2 ^ 52)" "r / 2 powi ?f"] unfolding rne_of_int by simp
    then have "of_int (2 ^ 52) * 2 powi ?f \<le> rnd r"
      using assms by (intro rnd_ge) simp_all
    moreover have "rnd q \<le> of_int (2 ^ 53) * 2 powi ?e"
    proof -
      have "rne (q / 2 powi ?e) \<le> 2 ^ 53" using rne_ulp_le [of q] by simp
      then show ?thesis using assms by (intro rnd_le) simp_all
    qed
    moreover have "of_int (2 ^ 53) * two_powi ?e \<le> of_int (2 ^ 52) * two_powi ?f"
    proof -
      have "two_powi (?e + 53) \<le> two_powi (?f + 52)" using 2 by simp
      then show ?thesis by (simp add: two_powi_add)
    qed
    ultimately show ?thesis by linarith
  qed
qed

lemma rnd_mono: "q \<le> r \<Longrightarrow> rnd q \<le> rnd r"
proof -
  assume qr: "q \<le> r"
  have np: "x \<le> 0 \<Longrightarrow> rnd x \<le> 0" for x
    using rnd_nonneg [of "- x"] by (simp add: rnd_minus)
  consider "0 < q" | "r < 0" | "q \<le> 0" "0 \<le> r" by linarith
  then show ?thesis
  proof cases
    case 1
    then show ?thesis using qr by (rule rnd_pos_mono)
  next
    case 2
    then show ?thesis using rnd_pos_mono [of "- r" "- q"] qr by (simp add: rnd_minus)
  next
    case 3
    then show ?thesis using np [of q] rnd_nonneg [of r] by linarith
  qed
qed

section \<open>Evaluation with integers only\<close>

text \<open>
  The defining equations compute with fractions that are normalised at every step.  For
  the evaluation of closed terms the same numbers are computed with integer division.
\<close>

definition rne_div :: "int \<Rightarrow> int \<Rightarrow> int" where
  "rne_div a b = (let f = a div b; r = 2 * (a mod b)
     in if r < b then f else if b < r then f + 1 else if even f then f else f + 1)"

lemma rne_div:
  assumes "0 < b"
  shows "rne (of_int a / of_int b) = rne_div a b"
proof -
  have fl: "\<lfloor>of_int a / of_int b :: rat\<rfloor> = a div b" by (rule floor_divide_of_int_eq)
  have "of_int a = (of_int (b * (a div b) + a mod b) :: rat)"
    by (simp only: mult_div_mod_eq)
  then have ab: "of_int a = (of_int b * of_int (a div b) + of_int (a mod b) :: rat)"
    by (simp only: of_int_add of_int_mult)
  have fr: "of_int a / of_int b - of_int (a div b) = (of_int (a mod b) / of_int b :: rat)"
    unfolding ab using assms by (simp add: add_divide_distrib)
  have "(of_int (a mod b) / of_int b < (1 / 2 :: rat)) = (2 * (a mod b) < b)"
    using assms by (simp add: field_simps) (metis of_int_less_iff of_int_mult of_int_numeral)
  moreover have "((1 / 2 :: rat) < of_int (a mod b) / of_int b) = (b < 2 * (a mod b))"
    using assms by (simp add: field_simps) (metis of_int_less_iff of_int_mult of_int_numeral)
  ultimately show ?thesis by (simp only: rne_def rne_div_def Let_def fl fr)
qed

lemma ilog2_code [code]:
  "ilog2 q = (let (n, d) = quotient_of q; k = bitlen n - bitlen d
     in if (if 0 \<le> k then d * 2 ^ nat k \<le> n else d \<le> n * 2 ^ nat (- k)) then k else k - 1)"
proof -
  obtain n d where nd: "quotient_of q = (n, d)" by fastforce
  have d: "0 < d" using nd by (rule quotient_of_denom_pos)
  have q: "q = of_int n / of_int d" using nd by (rule quotient_of_div)
  have "(two_powi k \<le> q) = (if 0 \<le> k then d * 2 ^ nat k \<le> n else d \<le> n * 2 ^ nat (- k))" for k
  proof (cases "0 \<le> k")
    case True
    have "(two_powi k \<le> q) = (of_int (d * 2 ^ nat k) \<le> (of_int n :: rat))"
      using d True by (simp add: q pos_le_divide_eq two_powi_nonneg_int mult.commute)
    then show ?thesis using True by (simp only: of_int_le_iff if_True)
  next
    case False
    have k: "two_powi k = 1 / of_int (2 ^ nat (- k))" using False by (simp add: power_int_def divide_simps)
    have "(two_powi k \<le> q) = (of_int d \<le> (of_int (n * 2 ^ nat (- k)) :: rat))"
      unfolding k q using d by (simp add: divide_simps mult.commute)
    then show ?thesis using False by (simp only: of_int_le_iff if_False)
  qed
  then show ?thesis by (simp add: ilog2_def nd Let_def)
qed

lemma rnd_code [code]:
  "rnd q = (let (n, d) = quotient_of q in
     if n = 0 then 0
     else let e = ulp_exp q in
       if 0 \<le> e then of_int (rne_div n (d * 2 ^ nat e) * 2 ^ nat e)
       else of_int (rne_div (n * 2 ^ nat (- e)) d) / of_int (2 ^ nat (- e)))"
proof -
  obtain n d where nd: "quotient_of q = (n, d)" by fastforce
  have d: "0 < d" using nd by (rule quotient_of_denom_pos)
  have q: "q = of_int n / of_int d" using nd by (rule quotient_of_div)
  have n0: "(q = 0) = (n = 0)" using d by (simp add: q)
  show ?thesis
  proof (cases "0 \<le> ulp_exp q")
    case True
    then have u: "two_powi (ulp_exp q) = of_int (2 ^ nat (ulp_exp q))" by (rule two_powi_nonneg_int)
    have "q / two_powi (ulp_exp q) = of_int n / of_int (d * 2 ^ nat (ulp_exp q))"
      unfolding u by (simp add: q)
    then have "rne (q / two_powi (ulp_exp q)) = rne_div n (d * 2 ^ nat (ulp_exp q))"
      using d by (simp add: rne_div del: of_int_mult)
    then show ?thesis using True n0 by (simp add: rnd_def nd u Let_def)
  next
    case False
    have u: "two_powi (ulp_exp q) = 1 / of_int (2 ^ nat (- ulp_exp q))"
      using False by (simp add: power_int_def divide_simps)
    have "q / two_powi (ulp_exp q) = of_int (n * 2 ^ nat (- ulp_exp q)) / of_int d"
      unfolding u by (simp add: q)
    then have "rne (q / two_powi (ulp_exp q)) = rne_div (n * 2 ^ nat (- ulp_exp q)) d"
      using d by (simp add: rne_div del: of_int_mult)
    then show ?thesis using False n0 by (simp add: rnd_def nd u Let_def)
  qed
qed

end
