(* ===== verification/Binary64.thy ===== *)
theory Binary64
  imports Rounding "HOL-Library.Product_Lexorder"
begin

text \<open>
  The C type \<^verbatim>\<open>double\<close>: IEEE 754 binary64 in the default rounding mode.  A finite
  number other than the negative zero is \<open>Fin q\<close> with the rational \<open>q\<close> it denotes; the
  negative zero, the infinities and the not-a-numbers are values of their own.  Every
  arithmetic operation computes the exact rational result and rounds it once.  The payload
  and the sign of a NaN are not modelled.
\<close>

datatype double = Fin rat | NegZero | PosInf | NegInf | NaN

fun dval :: "double \<Rightarrow> rat" where
  "dval (Fin q) = q"
| "dval _ = 0"

fun finite_double :: "double \<Rightarrow> bool" where
  "finite_double (Fin q) = True"
| "finite_double NegZero = True"
| "finite_double _ = False"

fun sign_bit :: "double \<Rightarrow> bool" where
  "sign_bit (Fin q) = (q < 0)"
| "sign_bit NegZero = True"
| "sign_bit NegInf = True"
| "sign_bit _ = False"

definition zero_double_p :: "double \<Rightarrow> bool" where
  "zero_double_p x \<longleftrightarrow> finite_double x \<and> dval x = 0"

definition inf_double_p :: "double \<Rightarrow> bool" where
  "inf_double_p x \<longleftrightarrow> x = PosInf \<or> x = NegInf"

text \<open>Representability: what a variable of the C type can hold.\<close>

definition is_double :: "double \<Rightarrow> bool" where
  "is_double x = (case x of Fin q \<Rightarrow> rnd q = q \<and> (q = 0 \<or> ilog2 \<bar>q\<bar> < 1024) | _ \<Rightarrow> True)"

text \<open>
  The rounded result of an operation whose exact value is \<open>q\<close>; \<open>s\<close> is the sign of a
  zero result.
\<close>

definition pack :: "bool \<Rightarrow> rat \<Rightarrow> double" where
  "pack s q = (let r = rnd q in
     if r = 0 then (if s then NegZero else Fin 0)
     else if 1024 \<le> ilog2 \<bar>r\<bar> then (if r < 0 then NegInf else PosInf)
     else Fin r)"

section \<open>Arithmetic\<close>

fun dadd :: "double \<Rightarrow> double \<Rightarrow> double" where
  "dadd NaN y = NaN"
| "dadd x NaN = NaN"
| "dadd PosInf NegInf = NaN"
| "dadd NegInf PosInf = NaN"
| "dadd PosInf y = PosInf"
| "dadd x PosInf = PosInf"
| "dadd NegInf y = NegInf"
| "dadd x NegInf = NegInf"
| "dadd NegZero NegZero = NegZero"
| "dadd x y = pack (dval x + dval y < 0) (dval x + dval y)"

fun dneg :: "double \<Rightarrow> double" where
  "dneg (Fin q) = (if q = 0 then NegZero else Fin (- q))"
| "dneg NegZero = Fin 0"
| "dneg PosInf = NegInf"
| "dneg NegInf = PosInf"
| "dneg NaN = NaN"

definition dmul :: "double \<Rightarrow> double \<Rightarrow> double" where
  "dmul x y = (let s = (sign_bit x \<noteq> sign_bit y) in
     if x = NaN \<or> y = NaN then NaN
     else if inf_double_p x \<or> inf_double_p y then
       (if zero_double_p x \<or> zero_double_p y then NaN else if s then NegInf else PosInf)
     else pack s (dval x * dval y))"

definition ddiv :: "double \<Rightarrow> double \<Rightarrow> double" where
  "ddiv x y = (let s = (sign_bit x \<noteq> sign_bit y) in
     if x = NaN \<or> y = NaN then NaN
     else if inf_double_p x then (if inf_double_p y then NaN else if s then NegInf else PosInf)
     else if inf_double_p y then (if s then NegZero else Fin 0)
     else if zero_double_p y then
       (if zero_double_p x then NaN else if s then NegInf else PosInf)
     else pack s (dval x / dval y))"

text \<open>The order of the non-NaN doubles; the two zeros share a key.\<close>

fun dkey :: "double \<Rightarrow> int \<times> rat" where
  "dkey PosInf = (1, 0)"
| "dkey NegInf = (- 1, 0)"
| "dkey x = (0, dval x)"

instantiation double :: "{zero, plus, minus, times, uminus, ord}"
begin
definition zero_double_def: "0 = Fin 0"
definition plus_double_def: "x + y = dadd x y"
definition minus_double_def: "x - y = dadd x (dneg y)"
definition times_double_def: "x * y = dmul x y"
definition uminus_double_def: "- x = dneg x"
definition less_double_def: "x < y \<longleftrightarrow> x \<noteq> NaN \<and> y \<noteq> NaN \<and> dkey x < dkey y"
definition less_eq_double_def: "x \<le> y \<longleftrightarrow> x \<noteq> NaN \<and> y \<noteq> NaN \<and> dkey x \<le> dkey y"
instance ..
end

text \<open>C's \<^verbatim>\<open>==\<close> on doubles: false on NaN, and the zeros are equal.\<close>

definition deq :: "double \<Rightarrow> double \<Rightarrow> bool" where
  "deq x y \<longleftrightarrow> x \<noteq> NaN \<and> y \<noteq> NaN \<and> dkey x = dkey y"

text \<open>Conversion of a C integer value.\<close>

definition dbl :: "int \<Rightarrow> double" where
  "dbl n = pack False (of_int n)"

section \<open>Representability is kept by every operation\<close>

lemma ilog2_less_iff: "0 < q \<Longrightarrow> ilog2 q < k \<longleftrightarrow> q < 2 powi k"
proof -
  assume q: "0 < q"
  note b = ilog2_bounds [OF q]
  have "ilog2 q < k \<Longrightarrow> two_powi (ilog2 q + 1) \<le> two_powi k"
    by (simp only: two_powi_le_iff)
  moreover have "q < 2 powi k \<Longrightarrow> two_powi (ilog2 q) < two_powi k"
    using b by linarith
  ultimately show ?thesis using b by (meson not_less order_less_le_trans order_le_less_trans two_powi_less_iff)
qed

lemma is_double_simps [simp]:
  "is_double NegZero" "is_double PosInf" "is_double NegInf" "is_double NaN" "is_double (Fin 0)"
  by (simp_all add: is_double_def)

lemma is_double_Fin: "is_double (Fin q) \<longleftrightarrow> rnd q = q \<and> \<bar>q\<bar> < 2 powi 1024"
  by (cases "q = 0") (auto simp: is_double_def ilog2_less_iff)

lemma is_double_pack [simp]: "is_double (pack s q)"
  by (simp add: pack_def Let_def is_double_def)

lemma is_double_dneg [simp]: "is_double x \<Longrightarrow> is_double (dneg x)"
  by (cases x) (auto simp: is_double_Fin rnd_minus)

lemma is_double_dadd [simp]: "is_double (dadd x y)"
  by (cases x; cases y) auto

lemma is_double_arith [simp]:
  fixes x y :: double
  shows "is_double (x + y)" "is_double (x - y)" "is_double (x * y)" "is_double (ddiv x y)"
    "is_double (dbl n)" "is_double 0"
  by (simp_all add: plus_double_def minus_double_def times_double_def dmul_def ddiv_def Let_def
      dbl_def zero_double_def)

section \<open>Operations that are exact\<close>

lemma pack_exact:
  assumes "on_grid q" and "\<bar>q\<bar> < 2 powi 1024" and "q = 0 \<Longrightarrow> \<not> s"
  shows "pack s q = Fin q"
  using assms by (cases "q = 0") (auto simp: pack_def Let_def rnd_on_grid ilog2_less_iff not_le)

abbreviation intd :: "int \<Rightarrow> double" where
  "intd n \<equiv> Fin (of_int n)"

lemma int53_small:
  assumes "\<bar>n\<bar> \<le> 2 ^ 53"
  shows "\<bar>of_int n :: rat\<bar> < 2 powi 1024"
proof -
  have "(of_int \<bar>n\<bar> :: rat) \<le> of_int (2 ^ 53)" using assms by (simp only: of_int_le_iff)
  also have "\<dots> = two_powi 53" by (simp add: power_int_def)
  also have "\<dots> < two_powi 1024" by (simp only: two_powi_less_iff)
  finally show ?thesis by simp
qed

lemma pack_int: "\<bar>n\<bar> \<le> 2 ^ 53 \<Longrightarrow> (n = 0 \<Longrightarrow> \<not> s) \<Longrightarrow> pack s (of_int n) = intd n"
  by (intro pack_exact on_grid_of_int int53_small) auto

lemma dbl_int [fp_exact]: "\<bar>n\<bar> \<le> 2 ^ 53 \<Longrightarrow> dbl n = intd n"
  by (simp add: dbl_def pack_int)

lemma intd_add [fp_exact]: "\<bar>m + n\<bar> \<le> 2 ^ 53 \<Longrightarrow> intd m + intd n = intd (m + n)"
  using pack_int [of "m + n"] by (simp add: plus_double_def)

lemma intd_diff [fp_exact]: "\<bar>m - n\<bar> \<le> 2 ^ 53 \<Longrightarrow> intd m - intd n = intd (m - n)"
  using pack_int [of "m - n"]
  by (cases "n = 0") (simp_all add: minus_double_def)

lemma intd_mult [fp_exact]:
  "\<bar>m * n\<bar> \<le> 2 ^ 53 \<Longrightarrow> 0 \<le> m \<Longrightarrow> 0 \<le> n \<Longrightarrow> intd m * intd n = intd (m * n)"
  using pack_int [of "m * n"]
  by (simp add: times_double_def dmul_def inf_double_p_def Let_def)

lemma is_double_intd: "\<bar>n\<bar> \<le> 2 ^ 53 \<Longrightarrow> is_double (intd n)"
  by (metis dbl_int is_double_arith(5))

lemma dadd_zero_right [simp]: "is_double x \<Longrightarrow> x \<noteq> NegZero \<Longrightarrow> x + Fin 0 = x"
  by (cases x) (auto simp: plus_double_def pack_def is_double_def Let_def)

section \<open>The order of the comparisons\<close>

lemma Fin_less_iff [simp]: "Fin a < Fin b \<longleftrightarrow> a < b"
  and Fin_le_iff [simp]: "Fin a \<le> Fin b \<longleftrightarrow> a \<le> b"
  and deq_Fin_iff [simp]: "deq (Fin a) (Fin b) \<longleftrightarrow> a = b"
  by (simp_all add: less_double_def less_eq_double_def deq_def)

lemma NaN_incomparable [simp]:
  "\<not> NaN < x" "\<not> x < NaN" "\<not> NaN \<le> x" "\<not> x \<le> NaN" "\<not> deq NaN x" "\<not> deq x NaN"
  by (simp_all add: less_double_def less_eq_double_def deq_def)

lemma double_le_refl [simp]: "x \<noteq> NaN \<Longrightarrow> (x :: double) \<le> x"
  by (simp add: less_eq_double_def)

lemma double_less_irrefl [simp]: "\<not> (x :: double) < x"
  by (simp add: less_double_def)

lemma double_le_trans: "(x :: double) \<le> y \<Longrightarrow> y \<le> z \<Longrightarrow> x \<le> z"
  by (auto simp: less_eq_double_def)

lemma double_less_le_trans: "(x :: double) < y \<Longrightarrow> y \<le> z \<Longrightarrow> x < z"
  by (auto simp: less_double_def less_eq_double_def)

lemma double_le_less_trans: "(x :: double) \<le> y \<Longrightarrow> y < z \<Longrightarrow> x < z"
  by (auto simp: less_double_def less_eq_double_def)

lemma double_less_imp_le: "(x :: double) < y \<Longrightarrow> x \<le> y"
  by (auto simp: less_double_def less_eq_double_def)

lemma double_not_less: "x \<noteq> NaN \<Longrightarrow> y \<noteq> NaN \<Longrightarrow> \<not> (x :: double) < y \<longleftrightarrow> y \<le> x"
  by (auto simp: less_double_def less_eq_double_def)

lemma double_le_not_NaN: "(x :: double) \<le> y \<Longrightarrow> x \<noteq> NaN \<and> y \<noteq> NaN"
  by (simp add: less_eq_double_def)

lemma double_less_not_NaN: "(x :: double) < y \<Longrightarrow> x \<noteq> NaN \<and> y \<noteq> NaN"
  by (simp add: less_double_def)

text \<open>Adding something that is not negative never makes a number smaller.\<close>

lemma pack_ge:
  assumes "is_double (Fin a)" and "a \<le> q"
  shows "Fin a \<le> pack s q"
proof -
  have "rnd a \<le> rnd q" using assms(2) by (rule rnd_mono)
  then have r: "a \<le> rnd q" using assms(1) by (simp add: is_double_Fin)
  have big: "1024 \<le> ilog2 \<bar>x\<bar> \<longleftrightarrow> 2 powi 1024 \<le> \<bar>x\<bar>" if "x \<noteq> 0" for x
    using ilog2_less_iff [of "\<bar>x\<bar>" 1024] that by (simp add: not_less [symmetric])
  have "\<bar>a\<bar> < two_powi 1024" using assms(1) by (simp add: is_double_Fin)
  then have "\<not> (1024 \<le> ilog2 \<bar>rnd q\<bar> \<and> rnd q < 0)"
    using r big [of "rnd q"] by (auto simp: abs_if split: if_splits)
  then show ?thesis
    using r by (auto simp: pack_def Let_def less_eq_double_def)
qed

lemma double_add_increasing:
  assumes "is_double x" and "x \<noteq> NaN" and "0 \<le> y" and "x \<noteq> NegInf \<or> y \<noteq> PosInf"
  shows "x \<le> x + y"
proof (cases x)
  case (Fin a)
  with assms show ?thesis
    by (cases y) (auto simp: plus_double_def zero_double_def less_eq_double_def [of "Fin a" PosInf]
        less_eq_double_def [of "Fin 0"] intro!: pack_ge split: if_splits)
qed (use assms in \<open>cases y; auto simp: plus_double_def zero_double_def less_eq_double_def pack_def Let_def
      split: if_splits dest: rnd_nonneg\<close>)+

end
