(* ===== verification/CLib.thy ===== *)
theory CLib
  imports Binary64 "HOL-Library.Char_ord"
begin

text \<open>
  The part of the C standard library that the program uses on strings: \<^verbatim>\<open>strtoull\<close>,
  \<^verbatim>\<open>strtod\<close>, the conversions \<^verbatim>\<open>PRIu64\<close>, \<^verbatim>\<open>%d\<close> and \<^verbatim>\<open>%f\<close> of the
  \<^verbatim>\<open>printf\<close> family and the truncation of \<^verbatim>\<open>snprintf\<close>.  A C string is the list
  of its characters without the terminating NUL, so the pointer that \<^verbatim>\<open>strtod\<close> hands
  back is the rest of the string, and \<^verbatim>\<open>*end == 0\<close> is a rest of \<open>[]\<close>.  \<^verbatim>\<open>strcmp\<close>
  is equality.  The locale is "C".
\<close>

section \<open>Character classes\<close>

definition is_digit :: "char \<Rightarrow> bool" where
  "is_digit c \<longleftrightarrow> 48 \<le> (of_char c :: int) \<and> (of_char c :: int) \<le> 57"

definition digit_val :: "char \<Rightarrow> int" where
  "digit_val c = of_char c - 48"

definition digit_char :: "int \<Rightarrow> char" where
  "digit_char d = char_of (48 + d)"

definition is_space :: "char \<Rightarrow> bool" where
  "is_space c \<longleftrightarrow> (of_char c :: int) = 32 \<or> (9 \<le> (of_char c :: int) \<and> (of_char c :: int) \<le> 13)"

definition to_lower :: "char \<Rightarrow> char" where
  "to_lower c = (if 65 \<le> (of_char c :: int) \<and> (of_char c :: int) \<le> 90
     then char_of ((of_char c :: int) + 32) else c)"

definition is_xdigit :: "char \<Rightarrow> bool" where
  "is_xdigit c \<longleftrightarrow> is_digit c \<or>
     (97 \<le> (of_char (to_lower c) :: int) \<and> (of_char (to_lower c) :: int) \<le> 102)"

definition xdigit_val :: "char \<Rightarrow> int" where
  "xdigit_val c = (if is_digit c then digit_val c else of_char (to_lower c) - 87)"

section \<open>Reading numbers\<close>

definition digits_val :: "int \<Rightarrow> (char \<Rightarrow> int) \<Rightarrow> string \<Rightarrow> int" where
  "digits_val b v s = foldl (\<lambda>a c. b * a + v c) 0 s"

text \<open>An optional sign: whether it is a minus, and the rest.\<close>

definition read_sign :: "string \<Rightarrow> bool \<times> string" where
  "read_sign s = (case s of
     [] \<Rightarrow> (False, s)
   | c # cs \<Rightarrow> if c = CHR ''-'' then (True, cs) else if c = CHR ''+'' then (False, cs) else (False, s))"

text \<open>\<^verbatim>\<open>strtoull(s, &end, 10)\<close>: the value and the string at \<^verbatim>\<open>end\<close>.\<close>

definition strtoull :: "string \<Rightarrow> 64 word \<times> string" where
  "strtoull s = (let (neg, t) = read_sign (dropWhile is_space s); ds = takeWhile is_digit t in
     if ds = [] then (0, s)
     else let n = digits_val 10 digit_val ds in
       (if 2 ^ 64 \<le> n then - 1 else if neg then - of_int n else of_int n, dropWhile is_digit t))"

text \<open>
  An exponent part: the letter, an optional sign and at least one digit; without a digit
  nothing is read.
\<close>

definition read_exponent :: "char \<Rightarrow> string \<Rightarrow> int \<times> string" where
  "read_exponent l s = (case s of
     [] \<Rightarrow> (0, s)
   | c # cs \<Rightarrow>
       if to_lower c = l then
         (let (neg, t) = read_sign cs; ds = takeWhile is_digit t; n = digits_val 10 digit_val ds in
          if ds = [] then (0, s) else (if neg then - n else n, dropWhile is_digit t))
       else (0, s))"

text \<open>
  Digits with an optional fraction part: the integer that all digits denote together, the
  number of fraction digits and the rest; \<open>None\<close> when there is no digit at all.
\<close>

definition read_mantissa :: "int \<Rightarrow> (char \<Rightarrow> bool) \<Rightarrow> (char \<Rightarrow> int) \<Rightarrow> string \<Rightarrow> (int \<times> nat \<times> string) option" where
  "read_mantissa b isd v s = (let ds = takeWhile isd s; t = dropWhile isd s;
     (fs, u) = (case t of
         [] \<Rightarrow> ([], t)
       | c # cs \<Rightarrow> if c = CHR ''.'' then (takeWhile isd cs, dropWhile isd cs) else ([], t)) in
     if ds @ fs = [] then None else Some (digits_val b v (ds @ fs), length fs, u))"

definition apply_sign :: "bool \<Rightarrow> rat \<Rightarrow> double" where
  "apply_sign neg q = pack neg (if neg then - q else q)"

definition read_decimal :: "bool \<Rightarrow> string \<Rightarrow> (double \<times> string) option" where
  "read_decimal neg s = (case read_mantissa 10 is_digit digit_val s of
     None \<Rightarrow> None
   | Some (m, k, t) \<Rightarrow> (let (e, u) = read_exponent (CHR ''e'') t in
       Some (apply_sign neg (of_int m * 10 powi (e - int k)), u)))"

definition read_hex :: "bool \<Rightarrow> string \<Rightarrow> (double \<times> string) option" where
  "read_hex neg s =
     (if map to_lower (take 2 s) = ''0x'' then
        (case read_mantissa 16 is_xdigit xdigit_val (drop 2 s) of
           None \<Rightarrow> None
         | Some (m, k, t) \<Rightarrow> (let (e, u) = read_exponent (CHR ''p'') t in
             Some (apply_sign neg (of_int m * 2 powi (e - 4 * int k)), u)))
      else None)"

definition read_word :: "bool \<Rightarrow> string \<Rightarrow> (double \<times> string) option" where
  "read_word neg s =
     (if map to_lower (take 8 s) = ''infinity'' then Some (if neg then NegInf else PosInf, drop 8 s)
      else if map to_lower (take 3 s) = ''inf'' then Some (if neg then NegInf else PosInf, drop 3 s)
      else if map to_lower (take 3 s) = ''nan'' then
        (let t = drop 3 s; u = dropWhile (\<lambda>c. is_xdigit c \<or> to_lower c \<in> set ''ghijklmnopqrstuvwxyz_'') (tl t) in
         if t \<noteq> [] \<and> hd t = CHR ''('' \<and> u \<noteq> [] \<and> hd u = CHR '')'' then Some (NaN, tl u)
         else Some (NaN, t))
      else None)"

text \<open>\<^verbatim>\<open>strtod(s, &end)\<close>: the value and the string at \<^verbatim>\<open>end\<close>.\<close>

definition strtod :: "string \<Rightarrow> double \<times> string" where
  "strtod s = (let (neg, t) = read_sign (dropWhile is_space s) in
     case read_word neg t of Some r \<Rightarrow> r
     | None \<Rightarrow> (case read_hex neg t of Some r \<Rightarrow> r
       | None \<Rightarrow> (case read_decimal neg t of Some r \<Rightarrow> r | None \<Rightarrow> (Fin 0, s))))"

section \<open>Printing numbers\<close>

function show_int :: "int \<Rightarrow> string" where
  "show_int n = (if n < 10 then [digit_char n] else show_int (n div 10) @ [digit_char (n mod 10)])"
  by pat_completeness auto
termination
  by (relation "measure nat") auto

declare show_int.simps [simp del]

definition fmt_u64 :: "64 word \<Rightarrow> string" where
  "fmt_u64 w = show_int (uint w)"

definition fmt_d :: "int \<Rightarrow> string" where
  "fmt_d n = (if n < 0 then CHR ''-'' # show_int (- n) else show_int n)"

definition pad6 :: "int \<Rightarrow> string" where
  "pad6 n = replicate (6 - length (show_int n)) (CHR ''0'') @ show_int n"

text \<open>The number of millionths that \<^verbatim>\<open>%f\<close> prints: the exact value, rounded half to even.\<close>

definition micros :: "rat \<Rightarrow> int" where
  "micros q = rne (\<bar>q\<bar> * 1000000)"

definition fixed6 :: "int \<Rightarrow> string" where
  "fixed6 n = show_int (n div 1000000) @ CHR ''.'' # pad6 (n mod 1000000)"

fun fmt_f :: "double \<Rightarrow> string" where
  "fmt_f (Fin q) = (if q < 0 then ''-'' else []) @ fixed6 (micros q)"
| "fmt_f NegZero = ''-0.000000''"
| "fmt_f PosInf = ''inf''"
| "fmt_f NegInf = ''-inf''"
| "fmt_f NaN = ''nan''"

text \<open>What \<^verbatim>\<open>snprintf(buf, n, ...)\<close> leaves in the buffer.\<close>

definition snprintf :: "nat \<Rightarrow> string \<Rightarrow> string" where
  "snprintf n s = take (n - 1) s"

section \<open>Digits\<close>

lemma digit_char_simps [simp]:
  assumes "0 \<le> d" and "d < 10"
  shows "is_digit (digit_char d)" and "digit_val (digit_char d) = d"
  using assms by (simp_all add: is_digit_def digit_val_def digit_char_def)

lemma digits_val_append:
  "digits_val b v (s @ t) = digits_val b v s * b ^ length t + digits_val b v t"
proof (induction t rule: rev_induct)
  case (snoc c t)
  then show ?case by (simp add: digits_val_def algebra_simps flip: append_assoc)
qed (simp add: digits_val_def)

lemma digits_val_Nil [simp]: "digits_val b v [] = 0"
  and digits_val_single [simp]: "digits_val b v [c] = v c"
  by (simp_all add: digits_val_def)

lemma digits_val_zeros [simp]: "digits_val 10 digit_val (replicate k (CHR ''0'')) = 0"
  by (induction k) (simp_all add: digits_val_def digit_val_def)

lemma show_int_props:
  assumes "0 \<le> n"
  shows "digits_val 10 digit_val (show_int n) = n \<and> list_all is_digit (show_int n) \<and> show_int n \<noteq> []"
  using assms
proof (induction n rule: show_int.induct)
  case (1 n)
  show ?case
  proof (cases "n < 10")
    case True
    with "1.prems" show ?thesis by (simp add: show_int.simps [of n])
  next
    case False
    with 1 have "digits_val 10 digit_val (show_int (n div 10)) = n div 10"
      and "list_all is_digit (show_int (n div 10))" by simp_all
    with False "1.prems" show ?thesis
      by (simp add: show_int.simps [of n] digits_val_append)
  qed
qed

lemma show_int_val [simp]: "0 \<le> n \<Longrightarrow> digits_val 10 digit_val (show_int n) = n"
  and show_int_digits [simp]: "0 \<le> n \<Longrightarrow> list_all is_digit (show_int n)"
  and show_int_nonempty [simp]: "0 \<le> n \<Longrightarrow> show_int n \<noteq> []"
  using show_int_props by simp_all

lemma length_show_int: "0 \<le> n \<Longrightarrow> n < 10 ^ k \<Longrightarrow> 0 < k \<Longrightarrow> length (show_int n) \<le> k"
proof (induction k arbitrary: n)
  case (Suc k)
  show ?case
  proof (cases "n < 10")
    case True
    then show ?thesis by (simp add: show_int.simps [of n])
  next
    case False
    with Suc.prems have "n div 10 < 10 ^ k" and "0 < k"
      by (cases k; simp)+
    with Suc.prems Suc.IH [of "n div 10"] False show ?thesis by (simp add: show_int.simps [of n])
  qed
qed simp

lemma pad6_props:
  assumes "0 \<le> n" and "n < 1000000"
  shows "digits_val 10 digit_val (pad6 n) = n" and "list_all is_digit (pad6 n)"
    and "length (pad6 n) = 6"
proof -
  have "length (show_int n) \<le> 6" using assms by (intro length_show_int) simp_all
  then show "length (pad6 n) = 6" by (simp add: pad6_def)
  show "digits_val 10 digit_val (pad6 n) = n" using assms by (simp add: pad6_def digits_val_append)
  show "list_all is_digit (pad6 n)" using assms show_int_digits [of n]
    by (auto simp: pad6_def list_all_iff is_digit_def [of "CHR ''0''"])
qed

text \<open>A text that cannot continue a number.\<close>

definition number_end :: "string \<Rightarrow> bool" where
  "number_end s \<longleftrightarrow> (case s of [] \<Rightarrow> True | c # _ \<Rightarrow> \<not> is_digit c \<and> c \<noteq> CHR ''.'' \<and> to_lower c \<noteq> CHR ''e'')"

lemma number_end_simps [simp]:
  "number_end []" "number_end (CHR '','' # s)" "number_end (CHR 0x0A # s)"
  by (simp_all add: number_end_def is_digit_def to_lower_def)

lemma span_digits:
  assumes "list_all P ds" and "case s of [] \<Rightarrow> True | c # _ \<Rightarrow> \<not> P c"
  shows "takeWhile P (ds @ s) = ds" and "dropWhile P (ds @ s) = s"
  using assms by (auto simp: list_all_iff takeWhile_append dropWhile_append split: list.splits)

lemma number_end_no_digit: "number_end s \<Longrightarrow> case s of [] \<Rightarrow> True | c # _ \<Rightarrow> \<not> is_digit c"
  by (auto simp: number_end_def split: list.splits)

lemma digit_neqs:
  assumes "is_digit c"
  shows "\<not> is_space c" "c \<noteq> CHR ''-''" "c \<noteq> CHR ''+''" "c \<noteq> CHR ''.''" "to_lower c = c"
    "c \<noteq> CHR ''i''" "c \<noteq> CHR ''n''" "c \<noteq> CHR ''x''"
  using assms by (auto simp: is_digit_def is_space_def to_lower_def)

lemma read_sign_digits:
  assumes "list_all is_digit ds" and "ds \<noteq> []"
  shows "read_sign (dropWhile is_space (ds @ s)) = (False, ds @ s)"
  using assms by (cases ds) (simp_all add: read_sign_def digit_neqs)

text \<open>\<^verbatim>\<open>strtoull\<close> reads back what \<^verbatim>\<open>PRIu64\<close> prints.\<close>

lemma strtoull_show_int:
  assumes "0 \<le> n" and "n < 2 ^ 64" and "number_end s"
  shows "strtoull (show_int n @ s) = (of_int n, s)"
  using assms
  by (simp add: strtoull_def read_sign_digits span_digits number_end_no_digit)

lemma strtoull_fmt_u64 [simp]: "number_end s \<Longrightarrow> strtoull (fmt_u64 w @ s) = (w, s)"
  using uint_bounded [of w] by (simp add: fmt_u64_def strtoull_show_int)

text \<open>\<^verbatim>\<open>strtod\<close> on a sign, digits, a point and digits.\<close>

lemma read_word_digit: "is_digit c \<Longrightarrow> read_word neg (c # s) = None"
  by (simp add: read_word_def digit_neqs numeral_eq_Suc)

lemma read_hex_digits:
  assumes "list_all is_digit ds" and "ds \<noteq> []"
  shows "read_hex neg (ds @ CHR ''.'' # s) = None"
proof -
  obtain c cs where ds: "ds = c # cs" using assms(2) by (cases ds) auto
  have "to_lower (CHR ''.'') \<noteq> CHR ''x''" by (simp add: to_lower_def)
  then show ?thesis
    using assms(1) by (cases cs) (auto simp: ds read_hex_def numeral_eq_Suc digit_neqs)
qed

lemma read_exponent_end: "number_end s \<Longrightarrow> read_exponent (CHR ''e'') s = (0, s)"
  by (simp add: read_exponent_def number_end_def split: list.splits)

lemma read_mantissa_point:
  assumes "list_all is_digit ds" and "ds \<noteq> []" and "list_all is_digit fs" and "number_end s"
  shows "read_mantissa 10 is_digit digit_val (ds @ CHR ''.'' # fs @ s) =
    Some (digits_val 10 digit_val (ds @ fs), length fs, s)"
proof -
  have "\<not> is_digit (CHR ''.'')" by (simp add: is_digit_def)
  then have "takeWhile is_digit (ds @ CHR ''.'' # fs @ s) = ds"
    and "dropWhile is_digit (ds @ CHR ''.'' # fs @ s) = CHR ''.'' # fs @ s"
    using span_digits [OF assms(1), of "CHR ''.'' # fs @ s"] by simp_all
  then show ?thesis
    using assms span_digits [OF assms(3) number_end_no_digit [OF assms(4)]]
    by (simp add: read_mantissa_def)
qed

lemma strtod_fixed:
  assumes "list_all is_digit ds" and "ds \<noteq> []" and "list_all is_digit fs" and "number_end s"
  shows "strtod ((if neg then ''-'' else []) @ ds @ CHR ''.'' # fs @ s) =
    (apply_sign neg (of_int (digits_val 10 digit_val (ds @ fs)) * 10 powi (- int (length fs))), s)"
proof -
  obtain c cs where ds: "ds = c # cs" and c: "is_digit c"
    using assms(1,2) by (cases ds) auto
  have "read_sign (dropWhile is_space ((if neg then ''-'' else []) @ ds @ CHR ''.'' # fs @ s)) =
      (neg, ds @ CHR ''.'' # fs @ s)"
    using c by (simp add: read_sign_def ds digit_neqs is_space_def [of "CHR ''-''"])
  moreover have "read_word neg (ds @ CHR ''.'' # fs @ s) = None"
    using c by (simp add: ds read_word_digit)
  ultimately show ?thesis
    using assms by (simp add: strtod_def read_hex_digits read_decimal_def read_mantissa_point
        read_exponent_end)
qed

lemma fixed6_value:
  assumes "0 \<le> n" and "number_end s"
  shows "strtod ((if neg then ''-'' else []) @ fixed6 n @ s) = (apply_sign neg (of_int n / 1000000), s)"
proof -
  have m: "0 \<le> n mod 1000000" "n mod 1000000 < 1000000" "0 \<le> n div 1000000"
    using assms by simp_all
  have "of_int (digits_val 10 digit_val (show_int (n div 1000000) @ pad6 (n mod 1000000))) *
      10 powi (- int (length (pad6 (n mod 1000000)))) = (of_int n / 1000000 :: rat)"
    using pad6_props [OF m(1,2)] m(3)
    by (simp add: digits_val_append power_int_def divide_simps)
  then show ?thesis
    using strtod_fixed [of "show_int (n div 1000000)" "pad6 (n mod 1000000)" s neg]
      pad6_props [OF m(1,2)] m(3) assms(2) by (simp add: fixed6_def)
qed

text \<open>
  Reading back a printed finite double gives the double nearest to the printed decimal, and
  the decimal is within half a millionth of the number.
\<close>

lemma micros_nonneg [simp]: "0 \<le> micros q"
  by (simp add: micros_def rne_nonneg)

lemma micros_error: "\<bar>of_int (micros q) / 1000000 - \<bar>q\<bar>\<bar> \<le> 1 / 2000000"
  using rne_error [of "\<bar>q\<bar> * 1000000"] by (simp add: micros_def abs_le_iff field_simps)

lemma strtod_fmt_f:
  "number_end s \<Longrightarrow> strtod (fmt_f (Fin q) @ s) = (apply_sign (q < 0) (of_int (micros q) / 1000000), s)"
  using fixed6_value [of "micros q" s "q < 0"] by simp

end
