(* ===== verification/TradeProcessing.thy ===== *)
theory TradeProcessing
  imports CLib
begin

text \<open>
  \<^verbatim>\<open>include/TradeProcessing.h\<close> and \<^verbatim>\<open>src/TradeProcessing.c\<close>: the trade and the
  per-symbol statistics, the trade log, and the calculator's three operations.  A log file
  is the list of the texts written to it, one per \<^verbatim>\<open>fprintf\<close>.  The time of day is an
  input.  \<open>None\<close> stands for an access outside an array.
\<close>

section \<open>Data\<close>

record timeval =
  tv_sec :: int
  tv_usec :: int

text \<open>
  The index of the symbol is a C \<^verbatim>\<open>char\<close>; its values are the 21 positions of the symbol
  list, for which signed and unsigned characters agree.
\<close>

record Trade =
  trade_p :: double
  trade_s_index :: "8 word"
  trade_t :: "64 word"
  trade_v :: double

record Candlestick =
  c_max :: double
  c_min :: double
  c_open :: double
  c_close :: double
  c_volume :: double
  c_weighted_price :: double

record MovingAverageInfo =
  total_15min_volume :: double
  minute_volumes :: "double list"
  total_15min_weighted_price :: double
  weighted_prices :: "double list"
  oldest_index :: nat

record CalculatorBuffer =
  candlestick :: Candlestick
  avg_info :: MovingAverageInfo

type_synonym FILE = "string list"

definition CANDLESTICK_IS_EMPTY :: double where
  "CANDLESTICK_IS_EMPTY = dbl (- 1)"

definition DIRECTIVE_CALCULATE_MINUTE :: double where
  "DIRECTIVE_CALCULATE_MINUTE = dbl (- 1)"

definition symbol_index :: "Trade \<Rightarrow> nat" where
  "symbol_index tr = unat (trade_s_index tr)"

definition newline :: string where
  "newline = [CHR 0x0A]"

section \<open>The trade log\<close>

text \<open>Microseconds between two readings of the clock, computed in double precision.\<close>

definition delay_us :: "timeval \<Rightarrow> timeval \<Rightarrow> double" where
  "delay_us now event =
     dbl (tv_sec now - tv_sec event) * dbl 1000000 + dbl (tv_usec now - tv_usec event)"

definition delay_line :: "timeval \<Rightarrow> timeval \<Rightarrow> string" where
  "delay_line now event = fmt_f (delay_us now event) @ newline"

definition trade_line :: "Trade \<Rightarrow> string" where
  "trade_line tr = fmt_u64 (trade_t tr) @ '','' @ fmt_f (trade_p tr) @ '','' @ fmt_f (trade_v tr) @ newline"

definition write_trade_to_file ::
  "Trade \<Rightarrow> FILE list \<Rightarrow> timeval \<Rightarrow> FILE \<Rightarrow> timeval \<Rightarrow> (FILE list \<times> FILE) option" where
  "write_trade_to_file trade handlers event_time delay_file current_time =
     (let i = symbol_index trade in
      if i < length handlers
      then Some (handlers[i := handlers ! i @ [trade_line trade]],
                 delay_file @ [delay_line current_time event_time])
      else None)"

section \<open>Initialisation of the calculator\<close>

text \<open>
  The layout of the buffers in bytes: doubles of eight bytes, and the index padded to the
  alignment of the structure.
\<close>

definition sizeof_Candlestick :: int where
  "sizeof_Candlestick = 6 * 8"

definition sizeof_MovingAverageInfo :: int where
  "sizeof_MovingAverageInfo = 8 + 15 * 8 + 8 + 15 * 8 + 8"

definition sizeof_CalculatorBuffer :: int where
  "sizeof_CalculatorBuffer = sizeof_Candlestick + sizeof_MovingAverageInfo"

definition offset_avg_info :: int where
  "offset_avg_info = sizeof_Candlestick"

text \<open>
  \<^verbatim>\<open>memset\<close> with zeros over the bytes from \<open>lo\<close> up to \<open>hi\<close>, for the structure that
  starts at \<open>base\<close>: a field is zeroed when its eight bytes are in the range.
\<close>

definition covered :: "int \<Rightarrow> int \<Rightarrow> int \<Rightarrow> bool" where
  "covered lo hi off \<longleftrightarrow> lo \<le> off \<and> off + 8 \<le> hi"

definition set_double :: "int \<Rightarrow> int \<Rightarrow> int \<Rightarrow> double \<Rightarrow> double" where
  "set_double lo hi off d = (if covered lo hi off then Fin 0 else d)"

definition memset_candlestick :: "int \<Rightarrow> int \<Rightarrow> int \<Rightarrow> Candlestick \<Rightarrow> Candlestick" where
  "memset_candlestick lo hi base c =
     \<lparr>c_max = set_double lo hi base (c_max c),
      c_min = set_double lo hi (base + 8) (c_min c),
      c_open = set_double lo hi (base + 16) (c_open c),
      c_close = set_double lo hi (base + 24) (c_close c),
      c_volume = set_double lo hi (base + 32) (c_volume c),
      c_weighted_price = set_double lo hi (base + 40) (c_weighted_price c)\<rparr>"

definition memset_array :: "int \<Rightarrow> int \<Rightarrow> int \<Rightarrow> double list \<Rightarrow> double list" where
  "memset_array lo hi base ds = map (\<lambda>k. set_double lo hi (base + 8 * int k) (ds ! k)) [0..<length ds]"

definition memset_avg_info :: "int \<Rightarrow> int \<Rightarrow> int \<Rightarrow> MovingAverageInfo \<Rightarrow> MovingAverageInfo" where
  "memset_avg_info lo hi base a =
     \<lparr>total_15min_volume = set_double lo hi base (total_15min_volume a),
      minute_volumes = memset_array lo hi (base + 8) (minute_volumes a),
      total_15min_weighted_price = set_double lo hi (base + 128) (total_15min_weighted_price a),
      weighted_prices = memset_array lo hi (base + 136) (weighted_prices a),
      oldest_index = (if covered lo hi (base + 256) then 0 else oldest_index a)\<rparr>"

definition memset_buffer :: "int \<Rightarrow> int \<Rightarrow> int \<Rightarrow> CalculatorBuffer \<Rightarrow> CalculatorBuffer" where
  "memset_buffer lo hi base b =
     \<lparr>candlestick = memset_candlestick lo hi base (candlestick b),
      avg_info = memset_avg_info lo hi (base + offset_avg_info) (avg_info b)\<rparr>"

text \<open>The array after the call, and how many bytes behind its end were zeroed as well.\<close>

definition memset_zero :: "int \<Rightarrow> int \<Rightarrow> CalculatorBuffer list \<Rightarrow> CalculatorBuffer list \<times> int" where
  "memset_zero lo n bufs =
     (map (\<lambda>i. memset_buffer lo (lo + n) (int i * sizeof_CalculatorBuffer) (bufs ! i)) [0..<length bufs],
      max 0 (lo + n - int (length bufs) * sizeof_CalculatorBuffer))"

definition init_buffer :: "nat \<Rightarrow> CalculatorBuffer list \<times> int \<Rightarrow> CalculatorBuffer list \<times> int" where
  "init_buffer i st = (let (bufs, overrun) = st;
       (bufs', k) = memset_zero (int i * sizeof_CalculatorBuffer + offset_avg_info) sizeof_CalculatorBuffer bufs;
       c = candlestick (bufs' ! i)
     in (bufs'[i := (bufs' ! i)\<lparr>candlestick := c\<lparr>c_open := CANDLESTICK_IS_EMPTY, c_close := CANDLESTICK_IS_EMPTY\<rparr>\<rparr>],
         max overrun k))"

definition init_calculator_buffers :: "CalculatorBuffer list \<Rightarrow> nat \<Rightarrow> CalculatorBuffer list \<times> int" where
  "init_calculator_buffers buffers symbol_count = fold init_buffer [0..<symbol_count] (buffers, 0)"

section \<open>Adding a trade\<close>

definition add_price :: "double \<Rightarrow> Candlestick \<Rightarrow> Candlestick" where
  "add_price p c =
     (if CANDLESTICK_IS_EMPTY < c_open c then
        (let c' = (if c_max c < p then c\<lparr>c_max := p\<rparr>
                   else if p < c_min c then c\<lparr>c_min := p\<rparr> else c)
         in c'\<lparr>c_close := p\<rparr>)
      else c\<lparr>c_open := p, c_close := p, c_max := p, c_min := p\<rparr>)"

definition add_volume :: "double \<Rightarrow> double \<Rightarrow> Candlestick \<Rightarrow> Candlestick" where
  "add_volume p v c = c\<lparr>c_volume := c_volume c + v,
     c_weighted_price := c_weighted_price c + (if deq v 0 then dbl 1 * p else v * p)\<rparr>"

definition add_trade_to_candlestick :: "Trade \<Rightarrow> Candlestick \<Rightarrow> Candlestick" where
  "add_trade_to_candlestick trade c =
     add_volume (trade_p trade) (trade_v trade) (add_price (trade_p trade) c)"

definition add_trade_to_buffers :: "Trade \<Rightarrow> CalculatorBuffer list \<Rightarrow> CalculatorBuffer list option" where
  "add_trade_to_buffers trade buffers =
     (let i = symbol_index trade in
      if i < length buffers
      then Some (buffers[i := (buffers ! i)\<lparr>candlestick :=
             add_trade_to_candlestick trade (candlestick (buffers ! i))\<rparr>])
      else None)"

section \<open>Closing a minute\<close>

text \<open>The newest minute replaces the oldest of the 15 in the running totals.\<close>

definition roll :: "Candlestick \<Rightarrow> MovingAverageInfo \<Rightarrow> MovingAverageInfo" where
  "roll c a = (let i = oldest_index a in
     a\<lparr>total_15min_volume := total_15min_volume a - minute_volumes a ! i + c_volume c,
       minute_volumes := (minute_volumes a)[i := c_volume c],
       total_15min_weighted_price :=
         total_15min_weighted_price a - weighted_prices a ! i + c_weighted_price c,
       weighted_prices := (weighted_prices a)[i := c_weighted_price c],
       oldest_index := (i + 1) mod 15\<rparr>)"

definition moving_average :: "Candlestick \<Rightarrow> MovingAverageInfo \<Rightarrow> double" where
  "moving_average c a =
     (if deq (total_15min_volume a) 0 then c_close c
      else ddiv (total_15min_weighted_price a) (total_15min_volume a))"

definition avg_line :: "64 word \<Rightarrow> double \<Rightarrow> double \<Rightarrow> string" where
  "avg_line ts m vol = fmt_u64 ts @ '','' @ fmt_f m @ '','' @ fmt_f vol @ newline"

definition candlestick_line ::
  "64 word \<Rightarrow> double \<Rightarrow> double \<Rightarrow> double \<Rightarrow> double \<Rightarrow> double \<Rightarrow> string" where
  "candlestick_line ts op hi lo cl vol = fmt_u64 ts @ '','' @ fmt_f op @ '','' @ fmt_f hi @ '','' @
     fmt_f lo @ '','' @ fmt_f cl @ '','' @ fmt_f vol @ newline"

text \<open>The entry for the candlestick file; an empty list when nothing is written.\<close>

definition candlestick_entry :: "64 word \<Rightarrow> Candlestick \<Rightarrow> string list" where
  "candlestick_entry ts c =
     (if CANDLESTICK_IS_EMPTY < c_open c then
        [candlestick_line ts (c_open c) (c_max c) (c_min c) (c_close c) (c_volume c)]
      else if CANDLESTICK_IS_EMPTY < c_close c then
        [candlestick_line ts (c_close c) (c_close c) (c_close c) (c_close c) (c_volume c)]
      else [])"

definition reset_candlestick :: "Candlestick \<Rightarrow> Candlestick" where
  "reset_candlestick c = c\<lparr>c_open := CANDLESTICK_IS_EMPTY, c_volume := 0\<rparr>"

text \<open>The state a symbol is left in for the next minute.\<close>

definition close_minute :: "CalculatorBuffer \<Rightarrow> CalculatorBuffer" where
  "close_minute b = \<lparr>candlestick = reset_candlestick (candlestick b),
     avg_info = roll (candlestick b) (avg_info b)\<rparr>"

text \<open>What the loop works on: the buffers and the files.\<close>

record calc_files =
  buffers :: "CalculatorBuffer list"
  candlestick_files :: "FILE list"
  avg_files :: "FILE list"
  calc_delay_file :: FILE

text \<open>
  The body of the loop for symbol \<open>i\<close>; \<open>clock k\<close> is the result of the \<open>k\<close>-th
  \<^verbatim>\<open>gettimeofday\<close> of the call, two per symbol.
\<close>

definition write_and_reset_symbol ::
  "64 word \<Rightarrow> timeval \<Rightarrow> (nat \<Rightarrow> timeval) \<Rightarrow> nat \<Rightarrow> calc_files \<Rightarrow> calc_files" where
  "write_and_reset_symbol ts event_time clock i s =
     (let b = buffers s ! i; c = candlestick b; a = roll c (avg_info b) in
      s\<lparr>buffers := (buffers s)[i := close_minute b],
        avg_files := (avg_files s)[i := avg_files s ! i @
          [avg_line ts (moving_average c a) (total_15min_volume a)]],
        candlestick_files := (candlestick_files s)[i := candlestick_files s ! i @ candlestick_entry ts c],
        calc_delay_file := calc_delay_file s @
          [delay_line (clock (2 * i)) event_time, delay_line (clock (2 * i + 1)) event_time]\<rparr>)"

definition calc_in_bounds :: "nat \<Rightarrow> calc_files \<Rightarrow> bool" where
  "calc_in_bounds n s \<longleftrightarrow> n \<le> length (buffers s) \<and> n \<le> length (candlestick_files s) \<and>
     n \<le> length (avg_files s) \<and> (\<forall>b \<in> set (take n (buffers s)). oldest_index (avg_info b) < 15)"

definition write_and_reset_buffers ::
  "64 word \<Rightarrow> timeval \<Rightarrow> nat \<Rightarrow> (nat \<Rightarrow> timeval) \<Rightarrow> calc_files \<Rightarrow> calc_files option" where
  "write_and_reset_buffers ts event_time symbol_count clock s =
     (if calc_in_bounds symbol_count s
      then Some (fold (write_and_reset_symbol ts event_time clock) [0..<symbol_count] s)
      else None)"

section \<open>Open, high, low and close\<close>

definition valid_price :: "double \<Rightarrow> bool" where
  "valid_price p \<longleftrightarrow> CANDLESTICK_IS_EMPTY < p"

definition add_trades :: "Trade list \<Rightarrow> Candlestick \<Rightarrow> Candlestick" where
  "add_trades trs c = fold add_trade_to_candlestick trs c"

text \<open>The specification of a candlestick for the prices of its interval.\<close>

definition ohlc :: "double list \<Rightarrow> Candlestick \<Rightarrow> bool" where
  "ohlc ps c \<longleftrightarrow> c_open c = hd ps \<and> c_close c = last ps \<and>
     c_max c \<in> set ps \<and> c_min c \<in> set ps \<and> (\<forall>p \<in> set ps. c_min c \<le> p \<and> p \<le> c_max c)"

lemma valid_price_not_NaN: "valid_price p \<Longrightarrow> p \<noteq> NaN"
  by (auto simp: valid_price_def)

lemma add_volume_simps [simp]:
  "c_open (add_volume p v c) = c_open c" "c_close (add_volume p v c) = c_close c"
  "c_max (add_volume p v c) = c_max c" "c_min (add_volume p v c) = c_min c"
  by (simp_all add: add_volume_def)

lemma add_price_simps [simp]:
  "c_volume (add_price p c) = c_volume c" "c_weighted_price (add_price p c) = c_weighted_price c"
  "c_close (add_price p c) = p"
  by (simp_all add: add_price_def Let_def)

lemma ohlc_add_volume [simp]: "ohlc ps (add_volume p v c) = ohlc ps c"
  by (simp add: ohlc_def)

lemma ohlc_first: "valid_price p \<Longrightarrow> \<not> CANDLESTICK_IS_EMPTY < c_open c \<Longrightarrow> ohlc [p] (add_price p c)"
  by (auto simp: ohlc_def add_price_def dest: valid_price_not_NaN)

lemma ohlc_next:
  assumes "ohlc ps c" and "ps \<noteq> []" and "\<forall>q \<in> set ps. valid_price q" and "valid_price p"
  shows "ohlc (ps @ [p]) (add_price p c)"
proof -
  have "valid_price (c_open c)" using assms by (simp add: ohlc_def)
  then have op: "CANDLESTICK_IS_EMPTY < c_open c" by (simp add: valid_price_def)
  have nn: "p \<noteq> NaN" "c_max c \<noteq> NaN" "c_min c \<noteq> NaN"
    using assms valid_price_not_NaN by (auto simp: ohlc_def)
  have le: "c_min c \<le> c_max c" using assms(1) by (auto simp: ohlc_def)
  consider (hi) "c_max c < p" | (lo) "\<not> c_max c < p" "p < c_min c"
    | (mid) "\<not> c_max c < p" "\<not> p < c_min c" by blast
  then show ?thesis
  proof cases
    case hi
    then have "c_min c \<le> p" using le double_le_less_trans double_less_imp_le by blast
    with hi op nn assms(1,2) show ?thesis
      by (auto simp: ohlc_def add_price_def intro: double_less_imp_le double_le_trans)
  next
    case lo
    then have "p \<le> c_max c" using nn by (simp add: double_not_less)
    with lo op nn assms(1,2) show ?thesis
      by (auto simp: ohlc_def add_price_def intro: double_less_imp_le double_le_trans)
  next
    case mid
    then have "add_price p c = c\<lparr>c_close := p\<rparr>" using op by (simp add: add_price_def)
    moreover have "c_min c \<le> p" "p \<le> c_max c" using mid nn by (simp_all add: double_not_less)
    ultimately show ?thesis using assms(1,2) by (auto simp: ohlc_def)
  qed
qed

lemma add_trades_Nil [simp]: "add_trades [] c = c"
  and add_trades_snoc [simp]:
    "add_trades (trs @ [tr]) c = add_trade_to_candlestick tr (add_trades trs c)"
  by (simp_all add: add_trades_def)

lemma add_trades_ohlc:
  assumes "\<not> CANDLESTICK_IS_EMPTY < c_open c" and "trs \<noteq> []"
    and "\<forall>tr \<in> set trs. valid_price (trade_p tr)"
  shows "ohlc (map trade_p trs) (add_trades trs c)"
  using assms(2,3)
proof (induction trs rule: rev_induct)
  case (snoc tr trs)
  show ?case
  proof (cases "trs = []")
    case True
    then show ?thesis
      using assms(1) snoc.prems ohlc_first [of "trade_p tr" c]
      by (simp add: add_trades_def add_trade_to_candlestick_def)
  next
    case False
    then show ?thesis
      using snoc ohlc_next [of "map trade_p trs" "add_trades trs c" "trade_p tr"]
      by (simp add: add_trade_to_candlestick_def)
  qed
qed simp

text \<open>
  Open, high, low, close.  When the trades of an interval arrive at an empty
  candlestick and their prices are numbers above the marker -1, the candlestick shows the
  first and the last price and the true maximum and minimum, for IEEE doubles as they are
  (comparisons do not round).
\<close>

theorem candlestick_ohlc:
  assumes "\<not> CANDLESTICK_IS_EMPTY < c_open c" and "trs \<noteq> []"
    and "\<forall>tr \<in> set trs. valid_price (trade_p tr)"
  shows "ohlc (map trade_p trs) (add_trades trs c)"
  using assms by (rule add_trades_ohlc)

lemma candlestick_ohlc_witness:
  "ohlc [dbl 5, dbl 9, dbl 2]
     (add_trades (map (\<lambda>x. \<lparr>trade_p = dbl x, trade_s_index = 0, trade_t = 0, trade_v = dbl 1\<rparr>) [5, 9, 2])
       \<lparr>c_max = 0, c_min = 0, c_open = CANDLESTICK_IS_EMPTY, c_close = CANDLESTICK_IS_EMPTY,
        c_volume = 0, c_weighted_price = 0\<rparr>)"
  (is "ohlc _ (add_trades ?trs ?c)")
proof -
  have "\<not> CANDLESTICK_IS_EMPTY < c_open ?c" by simp
  moreover have "\<forall>tr \<in> set ?trs. valid_price (trade_p tr)"
    by (simp add: valid_price_def CANDLESTICK_IS_EMPTY_def fp_exact del: of_int_minus)
  ultimately have "ohlc (map trade_p ?trs) (add_trades ?trs ?c)"
    by (intro candlestick_ohlc) simp_all
  then show ?thesis by simp
qed

section \<open>The trade log\<close>

text \<open>The next field of a comma-separated line, up to the comma or the end of the line.\<close>

definition read_row :: "string \<Rightarrow> (64 word \<times> double \<times> double) option" where
  "read_row s = (let (n, r1) = strtoull s in
     case r1 of [] \<Rightarrow> None
     | c1 # r2 \<Rightarrow> (let (x, r3) = strtod r2 in
         case r3 of [] \<Rightarrow> None
         | c2 # r4 \<Rightarrow> (let (y, r5) = strtod r4 in
             if c1 = CHR '','' \<and> c2 = CHR '','' \<and> r5 = newline then Some (n, x, y) else None)))"

definition printed :: "double \<Rightarrow> double" where
  "printed d = apply_sign (d < 0) (of_int (micros (dval d)) / 1000000)"

lemma strtod_printed: "number_end s \<Longrightarrow> strtod (fmt_f (Fin q) @ s) = (printed (Fin q), s)"
  by (simp only: strtod_fmt_f) (simp add: printed_def zero_double_def)

lemma read_row_fields:
  "read_row (fmt_u64 n @ '','' @ fmt_f (Fin x) @ '','' @ fmt_f (Fin y) @ newline) =
     Some (n, printed (Fin x), printed (Fin y))"
  by (simp add: read_row_def strtod_printed newline_def del: fmt_f.simps)

text \<open>
  C35: The row that \<^verbatim>\<open>write_trade_to_file\<close> appends for a trade with finite price and
  volume reads back: the timestamp exactly, price and volume as the doubles nearest to
  decimals within half a millionth of the logged numbers; no other file is touched.
\<close>

theorem trade_log_roundtrip:
  assumes "write_trade_to_file tr handlers ev dfile now = Some (handlers', dfile')"
    and "trade_p tr = Fin x" and "trade_v tr = Fin y"
  shows "\<exists>row. handlers' = handlers[symbol_index tr := handlers ! symbol_index tr @ [row]] \<and>
      dfile' = dfile @ [delay_line now ev] \<and>
      read_row row = Some (trade_t tr, printed (Fin x), printed (Fin y)) \<and>
      \<bar>of_int (micros x) / 1000000 - \<bar>x\<bar>\<bar> \<le> 1 / 2000000 \<and>
      \<bar>of_int (micros y) / 1000000 - \<bar>y\<bar>\<bar> \<le> 1 / 2000000"
  using assms read_row_fields [of "trade_t tr" x y] micros_error
  by (auto simp: write_trade_to_file_def Let_def trade_line_def simp del: fmt_f.simps
      intro!: exI [of _ "trade_line tr"] split: if_splits)

lemma trade_log_roundtrip_witness:
  "\<exists>row dfile'. write_trade_to_file \<lparr>trade_p = Fin 5, trade_s_index = 1, trade_t = 77, trade_v = Fin (1 / 2)\<rparr>
      [[], [''x'']] \<lparr>tv_sec = 3, tv_usec = 9\<rparr> [] \<lparr>tv_sec = 3, tv_usec = 10\<rparr> = Some ([[], [''x'', row]], dfile') \<and>
    read_row row = Some (77, printed (Fin 5), printed (Fin (1 / 2)))"
  (is "\<exists>row dfile'. write_trade_to_file ?tr ?hs ?ev [] ?now = _ \<and> _")
proof -
  have w: "write_trade_to_file ?tr ?hs ?ev [] ?now =
      Some (?hs[symbol_index ?tr := ?hs ! symbol_index ?tr @ [trade_line ?tr]], [delay_line ?now ?ev])"
    by (simp add: write_trade_to_file_def symbol_index_def Let_def del: list_update.simps)
  from trade_log_roundtrip [OF w, of 5 "1 / 2"] w show ?thesis
    by (auto simp: symbol_index_def)
qed

end
