(* ===== verification/MovingAverage.thy ===== *)
theory MovingAverage
  imports TradeProcessing
begin

text \<open>
  What the calculator's numbers mean: volumes and weighted prices as sums, the two rings of
  15 minutes as sliding windows with running totals, and the moving average that is printed.
  Sums are compared with exact sums where the operands are integers below \<open>2 ^ 53\<close>, the
  range in which double arithmetic is exact.
\<close>

section \<open>Volumes within a minute\<close>

text \<open>With volumes that are not negative (and not NaN), adding trades never decreases the
  volume of a candlestick, whatever rounding does.\<close>

theorem volume_never_decreases:
  assumes "is_double (c_volume c)" and "0 \<le> c_volume c" and "\<forall>tr \<in> set trs. 0 \<le> trade_v tr"
  shows "c_volume c \<le> c_volume (add_trades trs c)"
proof -
  have "c_volume c \<le> c_volume (add_trades trs c) \<and> is_double (c_volume (add_trades trs c)) \<and>
      0 \<le> c_volume (add_trades trs c)"
    using assms(3)
  proof (induction trs rule: rev_induct)
    case Nil
    then show ?case using assms by (auto dest: double_le_not_NaN)
  next
    case (snoc tr trs)
    let ?w = "c_volume (add_trades trs c)"
    have w: "c_volume c \<le> ?w" "is_double ?w" "0 \<le> ?w" and v: "0 \<le> trade_v tr"
      using snoc by simp_all
    have ninf: "?w \<noteq> NegInf" using w(3) by (auto simp: zero_double_def less_eq_double_def)
    have le: "?w \<le> ?w + trade_v tr"
      using w v ninf by (intro double_add_increasing) (auto dest: double_le_not_NaN)
    then show ?case
      using w by (simp add: add_trade_to_candlestick_def add_volume_def)
        (blast intro: double_le_trans)
  qed
  then show ?thesis by blast
qed

lemma volume_never_decreases_witness:
  "Fin 0 \<le> c_volume (add_trades [\<lparr>trade_p = Fin 5, trade_s_index = 0, trade_t = 0, trade_v = Fin (1 / 2)\<rparr>]
     \<lparr>c_max = 0, c_min = 0, c_open = 0, c_close = 0, c_volume = Fin 0, c_weighted_price = 0\<rparr>)"
  using volume_never_decreases [of "\<lparr>c_max = 0, c_min = 0, c_open = 0, c_close = 0,
      c_volume = Fin 0, c_weighted_price = 0\<rparr>"
      "[\<lparr>trade_p = Fin 5, trade_s_index = 0, trade_t = 0, trade_v = Fin (1 / 2)\<rparr>]"]
  by (simp add: zero_double_def)

text \<open>Trades whose price and volume are integers, and their exact statistics.\<close>

definition int_trade :: "Trade \<Rightarrow> int \<Rightarrow> int \<Rightarrow> bool" where
  "int_trade tr pr vol \<longleftrightarrow> trade_p tr = intd pr \<and> trade_v tr = intd vol \<and> 0 \<le> pr \<and> 0 \<le> vol"

definition weight :: "int \<Rightarrow> int \<Rightarrow> int" where
  "weight pr vol = (if vol = 0 then pr else pr * vol)"

lemma weight_nonneg: "0 \<le> pr \<Longrightarrow> 0 \<le> vol \<Longrightarrow> 0 \<le> weight pr vol"
  by (simp add: weight_def)

lemma add_int_trade:
  assumes "int_trade tr pr vol" and "c_volume c = intd a" and "c_weighted_price c = intd w"
    and "0 \<le> a" "0 \<le> w" and "a + vol \<le> 2 ^ 53" and "w + weight pr vol \<le> 2 ^ 53"
  shows "c_volume (add_trade_to_candlestick tr c) = intd (a + vol)"
    and "c_weighted_price (add_trade_to_candlestick tr c) = intd (w + weight pr vol)"
proof -
  have tr: "trade_p tr = intd pr" "trade_v tr = intd vol" "0 \<le> pr" "0 \<le> vol"
    using assms(1) by (simp_all add: int_trade_def)
  show "c_volume (add_trade_to_candlestick tr c) = intd (a + vol)"
    using assms tr intd_add [of a vol]
    by (simp add: add_trade_to_candlestick_def add_volume_def)
  have "(if deq (intd vol) 0 then dbl 1 * intd pr else intd vol * intd pr) = intd (weight pr vol)"
  proof (cases "vol = 0")
    case True
    then show ?thesis using assms(5,7) tr dbl_int [of 1] intd_mult [of 1 pr]
      by (simp add: weight_def zero_double_def)
  next
    case False
    then show ?thesis using assms(5,7) tr intd_mult [of vol pr]
      by (simp add: weight_def zero_double_def mult.commute)
  qed
  then show "c_weighted_price (add_trade_to_candlestick tr c) = intd (w + weight pr vol)"
    using assms tr weight_nonneg [of pr vol] intd_add [of w "weight pr vol"]
    by (simp add: add_trade_to_candlestick_def add_volume_def)
qed

lemma int_trades_nonneg:
  assumes "list_all2 (\<lambda>tr (pr, vol). int_trade tr pr vol) trs pvs"
  shows "0 \<le> (\<Sum>(pr, vol) \<leftarrow> pvs. vol) \<and> 0 \<le> (\<Sum>(pr, vol) \<leftarrow> pvs. weight pr vol)"
  using assms
  by (induction rule: list_all2_induct) (auto simp: int_trade_def weight_nonneg split: prod.splits)

lemma add_trades_sums:
  assumes "list_all2 (\<lambda>tr (pr, vol). int_trade tr pr vol) trs pvs"
    and "c_volume c = intd a" and "c_weighted_price c = intd w" and "0 \<le> a" "0 \<le> w"
    and "a + (\<Sum>(pr, vol) \<leftarrow> pvs. vol) \<le> 2 ^ 53"
    and "w + (\<Sum>(pr, vol) \<leftarrow> pvs. weight pr vol) \<le> 2 ^ 53"
  shows "c_volume (add_trades trs c) = intd (a + (\<Sum>(pr, vol) \<leftarrow> pvs. vol)) \<and>
    c_weighted_price (add_trades trs c) = intd (w + (\<Sum>(pr, vol) \<leftarrow> pvs. weight pr vol))"
  using assms
proof (induction trs pvs arbitrary: c a w rule: list_all2_induct)
  case Nil
  then show ?case by simp
next
  case (Cons tr trs pv pvs)
  obtain pr vol where pv: "pv = (pr, vol)" by fastforce
  have tr: "int_trade tr pr vol" using Cons.hyps(1) pv by simp
  have nn: "0 \<le> vol" "0 \<le> weight pr vol"
    using tr by (simp_all add: int_trade_def weight_nonneg)
  note sums = int_trades_nonneg [OF Cons.hyps(2)]
  have "c_volume (add_trade_to_candlestick tr c) = intd (a + vol)"
    and "c_weighted_price (add_trade_to_candlestick tr c) = intd (w + weight pr vol)"
    using add_int_trade [OF tr Cons.prems(1,2,3,4)] Cons.prems(5,6) sums
    by (simp_all add: pv)
  then show ?case
    using Cons.IH [of "add_trade_to_candlestick tr c" "a + vol" "w + weight pr vol"]
      Cons.prems nn by (simp add: pv add_trades_def add.assoc)
qed

text \<open>
  For trades with integer prices and volumes, \<^verbatim>\<open>volume\<close> is the exact sum of the
  volumes and \<^verbatim>\<open>weighted_price\<close> the exact sum of price times volume (a trade of volume
  0, as on forex, weighs its price once), as long as the sums stay within \<open>2 ^ 53\<close>.
\<close>

theorem candlestick_sums_exact:
  assumes "list_all2 (\<lambda>tr (pr, vol). int_trade tr pr vol) trs pvs"
    and "c_volume c = intd a" and "c_weighted_price c = intd w" and "0 \<le> a" "0 \<le> w"
    and "a + (\<Sum>(pr, vol) \<leftarrow> pvs. vol) \<le> 2 ^ 53"
    and "w + (\<Sum>(pr, vol) \<leftarrow> pvs. weight pr vol) \<le> 2 ^ 53"
  shows "c_volume (add_trades trs c) = intd (a + (\<Sum>(pr, vol) \<leftarrow> pvs. vol)) \<and>
    c_weighted_price (add_trades trs c) = intd (w + (\<Sum>(pr, vol) \<leftarrow> pvs. weight pr vol))"
  using assms by (rule add_trades_sums)

lemma candlestick_sums_exact_witness:
  "c_volume (add_trades [\<lparr>trade_p = Fin 7, trade_s_index = 0, trade_t = 0, trade_v = Fin 3\<rparr>]
     \<lparr>c_max = 0, c_min = 0, c_open = 0, c_close = 0, c_volume = Fin 0, c_weighted_price = Fin 0\<rparr>) = Fin 3"
  using candlestick_sums_exact [of "[\<lparr>trade_p = Fin 7, trade_s_index = 0, trade_t = 0, trade_v = Fin 3\<rparr>]"
      "[(7, 3)]" "\<lparr>c_max = 0, c_min = 0, c_open = 0, c_close = 0, c_volume = Fin 0,
        c_weighted_price = Fin 0\<rparr>" 0 0]
  by (simp add: int_trade_def weight_def)

section \<open>The ring of 15 minutes\<close>

text \<open>A ring read from its oldest entry on.\<close>

definition window :: "nat \<Rightarrow> 'a list \<Rightarrow> 'a list" where
  "window i ring = rotate i ring"

definition wf_avg :: "MovingAverageInfo \<Rightarrow> bool" where
  "wf_avg a \<longleftrightarrow> length (minute_volumes a) = 15 \<and> length (weighted_prices a) = 15 \<and> oldest_index a < 15"

lemma wf_avg_roll [simp, intro]: "wf_avg a \<Longrightarrow> wf_avg (roll c a)"
  by (simp add: wf_avg_def roll_def Let_def)

lemma window_roll:
  assumes "wf_avg a"
  shows "window (oldest_index (roll c a)) (minute_volumes (roll c a)) =
      tl (window (oldest_index a) (minute_volumes a)) @ [c_volume c]"
    and "window (oldest_index (roll c a)) (weighted_prices (roll c a)) =
      tl (window (oldest_index a) (weighted_prices a)) @ [c_weighted_price c]"
  using assms rotate_overwrite [of "oldest_index a" "minute_volumes a"]
    rotate_overwrite [of "oldest_index a" "weighted_prices a"]
  by (simp_all add: wf_avg_def roll_def Let_def window_def)

definition rolls :: "Candlestick list \<Rightarrow> MovingAverageInfo \<Rightarrow> MovingAverageInfo" where
  "rolls cs a = fold roll cs a"

definition last_n :: "nat \<Rightarrow> 'a list \<Rightarrow> 'a list" where
  "last_n n xs = drop (length xs - n) xs"

lemma last_n_snoc:
  assumes "length w = n" and "0 < n"
  shows "last_n n (w @ xs @ [x]) = tl (last_n n (w @ xs)) @ [x]"
proof -
  have "drop (Suc (length xs)) (w @ xs) = tl (drop (length xs) (w @ xs))"
    by (metis drop_Suc tl_drop)
  then show ?thesis using assms by (simp add: last_n_def)
qed

text \<open>
  C16: The two rings implement a sliding window: after any number of minutes, read from the
  oldest entry on, they hold the volumes and the weighted prices of the last 15 minutes, the
  entries of the initial ring standing in for minutes before the start.
\<close>

theorem ring_is_sliding_window:
  assumes "wf_avg a"
  shows "window (oldest_index (rolls cs a)) (minute_volumes (rolls cs a)) =
      last_n 15 (window (oldest_index a) (minute_volumes a) @ map c_volume cs) \<and>
    window (oldest_index (rolls cs a)) (weighted_prices (rolls cs a)) =
      last_n 15 (window (oldest_index a) (weighted_prices a) @ map c_weighted_price cs) \<and>
    wf_avg (rolls cs a)"
proof (induction cs rule: rev_induct)
  case Nil
  then show ?case using assms by (simp add: rolls_def last_n_def window_def wf_avg_def)
next
  case (snoc c cs)
  have l: "length (window (oldest_index a) (minute_volumes a)) = 15"
    "length (window (oldest_index a) (weighted_prices a)) = 15"
    using assms by (simp_all add: window_def wf_avg_def)
  have "rolls (cs @ [c]) a = roll c (rolls cs a)" by (simp add: rolls_def)
  then show ?case
    using snoc window_roll [of "rolls cs a" c] last_n_snoc [OF l(1)] last_n_snoc [OF l(2)] by simp
qed

text \<open>The running totals, where the arithmetic is exact.\<close>

definition int_window :: "MovingAverageInfo \<Rightarrow> int list \<Rightarrow> int list \<Rightarrow> bool" where
  "int_window a vs ws \<longleftrightarrow> wf_avg a \<and>
     window (oldest_index a) (minute_volumes a) = map intd vs \<and>
     window (oldest_index a) (weighted_prices a) = map intd ws \<and>
     total_15min_volume a = intd (sum_list vs) \<and>
     total_15min_weighted_price a = intd (sum_list ws)"

lemma total_roll:
  assumes "tot = intd (sum_list vs)" and "ring ! i = intd (hd vs)" and "vs \<noteq> []"
    and "\<forall>x \<in> set vs. 0 \<le> x" and "0 \<le> x" and "sum_list vs + x \<le> 2 ^ 53"
  shows "tot - ring ! i + intd x = intd (sum_list (tl vs @ [x]))"
proof -
  obtain h ts where vs: "vs = h # ts" using assms(3) by (cases vs) auto
  have nn: "0 \<le> h" "0 \<le> sum_list ts" using assms(4) by (auto simp: vs intro: sum_list_nonneg)
  have "tot - ring ! i = intd (sum_list ts)"
    using nn assms intd_diff [of "h + sum_list ts" h] by (simp add: vs)
  moreover have "intd (sum_list ts) + intd x = intd (sum_list ts + x)"
    using nn assms by (intro intd_add) (simp add: vs)
  ultimately show ?thesis by (simp add: vs)
qed

lemma int_window_roll:
  assumes "int_window a vs ws" and "c_volume c = intd x" and "c_weighted_price c = intd y"
    and "\<forall>z \<in> set vs \<union> set ws. 0 \<le> z" and "0 \<le> x" "0 \<le> y"
    and "sum_list vs + x \<le> 2 ^ 53" and "sum_list ws + y \<le> 2 ^ 53"
  shows "int_window (roll c a) (tl vs @ [x]) (tl ws @ [y])"
proof -
  let ?i = "oldest_index a"
  have wf: "wf_avg a" using assms(1) by (simp add: int_window_def)
  have ne: "vs \<noteq> []" "ws \<noteq> []"
    using assms(1) by (auto simp: int_window_def wf_avg_def window_def)
  have hd: "minute_volumes a ! ?i = intd (hd vs)" "weighted_prices a ! ?i = intd (hd ws)"
    using assms(1) ne hd_rotate_nth [of ?i "minute_volumes a"] hd_rotate_nth [of ?i "weighted_prices a"]
    by (simp_all add: int_window_def wf_avg_def window_def hd_map)
  have "total_15min_volume (roll c a) = intd (sum_list (tl vs @ [x]))"
    and "total_15min_weighted_price (roll c a) = intd (sum_list (tl ws @ [y]))"
    using assms total_roll [of "total_15min_volume a" vs "minute_volumes a" ?i x]
      total_roll [of "total_15min_weighted_price a" ws "weighted_prices a" ?i y] ne hd
    by (simp_all add: int_window_def roll_def Let_def)
  then show ?thesis
    using assms wf window_roll [OF wf, of c] wf_avg_roll [OF wf, of c]
    by (simp add: int_window_def map_tl)
qed

section \<open>Minutes of trading of one symbol\<close>

definition trade_minute :: "Trade list \<Rightarrow> CalculatorBuffer \<Rightarrow> CalculatorBuffer" where
  "trade_minute trs b = close_minute (b\<lparr>candlestick := add_trades trs (candlestick b)\<rparr>)"

definition trade_minutes :: "Trade list list \<Rightarrow> CalculatorBuffer \<Rightarrow> CalculatorBuffer" where
  "trade_minutes trss b = fold trade_minute trss b"

type_synonym int_minute = "(int \<times> int) list"

definition int_minute_trades :: "Trade list \<Rightarrow> int_minute \<Rightarrow> bool" where
  "int_minute_trades trs pvs \<longleftrightarrow> list_all2 (\<lambda>tr (pr, vol). int_trade tr pr vol) trs pvs"

definition vol_sum :: "int_minute \<Rightarrow> int" where
  "vol_sum pvs = (\<Sum>(pr, vol) \<leftarrow> pvs. vol)"

definition weight_sum :: "int_minute \<Rightarrow> int" where
  "weight_sum pvs = (\<Sum>(pr, vol) \<leftarrow> pvs. weight pr vol)"

text \<open>The running sums of a list.\<close>

definition prefix_sums :: "int list \<Rightarrow> int list" where
  "prefix_sums xs = map (\<lambda>k. sum_list (take (Suc k) xs)) [0..<length xs]"

lemma prefix_sums_snoc: "prefix_sums (xs @ [x]) = prefix_sums xs @ [sum_list xs + x]"
  by (simp add: prefix_sums_def)

text \<open>A symbol's state before the first trade, as far as the sums are concerned.\<close>

definition fresh_buffer :: "CalculatorBuffer \<Rightarrow> bool" where
  "fresh_buffer b \<longleftrightarrow> c_volume (candlestick b) = Fin 0 \<and> c_weighted_price (candlestick b) = Fin 0 \<and>
     int_window (avg_info b) (replicate 15 0) (replicate 15 0)"

definition minute_window :: "int list \<Rightarrow> int list" where
  "minute_window xs = last_n 15 (replicate 15 0 @ xs)"

lemma minute_window_snoc: "minute_window (xs @ [x]) = tl (minute_window xs) @ [x]"
  using last_n_snoc [of "replicate 15 (0 :: int)" 15 xs x] by (simp add: minute_window_def)

lemma set_minute_window: "set (minute_window xs) \<subseteq> insert 0 (set xs)"
  unfolding minute_window_def last_n_def by (auto dest!: in_set_dropD)

lemma sum_minute_window_le:
  assumes "\<forall>x \<in> set xs. 0 \<le> x"
  shows "sum_list (minute_window xs) \<le> sum_list xs"
proof -
  let ?w = "replicate 15 0 @ xs"
  have "sum_list ?w = sum_list (take (length ?w - 15) ?w) + sum_list (minute_window xs)"
    unfolding minute_window_def last_n_def by (metis append_take_drop_id sum_list_append)
  moreover have "0 \<le> sum_list (take (length ?w - 15) ?w)"
    using assms by (intro sum_list_nonneg) (auto dest!: in_set_takeD)
  ultimately show ?thesis by (simp add: sum_list_replicate)
qed

lemma length_minute_window [simp]: "length (minute_window xs) = 15"
  by (simp add: minute_window_def last_n_def)

lemma sum_minute_window_bound:
  assumes "\<forall>x \<in> set xs. x \<le> b" and "0 \<le> b"
  shows "sum_list (minute_window xs) \<le> 15 * b"
proof -
  have "\<forall>x \<in> set (minute_window xs). x \<le> b" using assms set_minute_window [of xs] by blast
  then have "sum_list (map (\<lambda>x. x) (minute_window xs)) \<le> sum_list (map (\<lambda>_. b) (minute_window xs))"
    by (intro sum_list_mono) simp
  then show ?thesis by (simp add: sum_list_triv)
qed

lemma reset_simps [simp]:
  "c_volume (reset_candlestick c) = Fin 0"
  "c_weighted_price (reset_candlestick c) = c_weighted_price c"
  by (simp_all add: reset_candlestick_def zero_double_def)

lemma int_minute_nonneg:
  "int_minute_trades trs pvs \<Longrightarrow> 0 \<le> vol_sum pvs \<and> 0 \<le> weight_sum pvs"
  using int_trades_nonneg by (simp add: int_minute_trades_def vol_sum_def weight_sum_def)

lemma int_minutes_nonneg:
  assumes "list_all2 int_minute_trades trss pvss"
  shows "\<forall>pvs \<in> set pvss. 0 \<le> vol_sum pvs \<and> 0 \<le> weight_sum pvs"
  using assms by (induction rule: list_all2_induct) (auto dest: int_minute_nonneg)

lemma prefix_sums_bounds:
  assumes "\<forall>x \<in> set xs. 0 \<le> x"
  shows "\<forall>y \<in> set (prefix_sums xs). 0 \<le> y \<and> y \<le> sum_list xs"
proof
  fix y
  assume "y \<in> set (prefix_sums xs)"
  then obtain k where y: "y = sum_list (take k xs)" by (auto simp: prefix_sums_def)
  have "sum_list xs = sum_list (take k xs) + sum_list (drop k xs)"
    by (metis append_take_drop_id sum_list_append)
  moreover have "0 \<le> sum_list (take k xs)" "0 \<le> sum_list (drop k xs)"
    using assms by (auto intro!: sum_list_nonneg dest!: in_set_takeD in_set_dropD)
  ultimately show "0 \<le> y \<and> y \<le> sum_list xs" using y by linarith
qed

text \<open>One more minute, on windows that are exact so far.\<close>

lemma trade_minute_step:
  assumes w: "int_window (avg_info b) (minute_window vs) (minute_window (prefix_sums ws))"
    and c: "c_volume (candlestick b) = Fin 0" "c_weighted_price (candlestick b) = intd (sum_list ws)"
    and trs: "int_minute_trades trs pvs"
    and nn: "\<forall>x \<in> set vs \<union> set ws. 0 \<le> x"
    and bound: "sum_list vs + vol_sum pvs \<le> 2 ^ 53" "16 * (sum_list ws + weight_sum pvs) \<le> 2 ^ 53"
  shows "int_window (avg_info (trade_minute trs b)) (minute_window (vs @ [vol_sum pvs]))
      (minute_window (prefix_sums (ws @ [weight_sum pvs])))"
    and "c_volume (candlestick (trade_minute trs b)) = Fin 0"
    and "c_weighted_price (candlestick (trade_minute trs b)) = intd (sum_list (ws @ [weight_sum pvs]))"
proof -
  let ?c = "add_trades trs (candlestick b)"
  note pv = int_minute_nonneg [OF trs]
  have sw: "0 \<le> sum_list ws" "0 \<le> sum_list vs" using nn by (auto intro: sum_list_nonneg)
  have sums: "c_volume ?c = intd (vol_sum pvs) \<and> c_weighted_price ?c = intd (sum_list ws + weight_sum pvs)"
    using add_trades_sums [of trs pvs "candlestick b" 0 "sum_list ws"] trs c pv sw bound
    by (simp add: int_minute_trades_def vol_sum_def weight_sum_def)
  note pb = prefix_sums_bounds [of ws]
  have "sum_list (minute_window vs) \<le> sum_list vs" using nn by (intro sum_minute_window_le) simp
  moreover have "sum_list (minute_window (prefix_sums ws)) \<le> 15 * sum_list ws"
    using nn pb sw by (intro sum_minute_window_bound) auto
  moreover have "\<forall>z \<in> set (minute_window vs) \<union> set (minute_window (prefix_sums ws)). 0 \<le> z"
    using nn pb set_minute_window [of vs] set_minute_window [of "prefix_sums ws"] by blast
  ultimately have "int_window (roll ?c (avg_info b)) (tl (minute_window vs) @ [vol_sum pvs])
      (tl (minute_window (prefix_sums ws)) @ [sum_list ws + weight_sum pvs])"
    using w sums pv sw bound by (intro int_window_roll) auto
  then show "int_window (avg_info (trade_minute trs b)) (minute_window (vs @ [vol_sum pvs]))
      (minute_window (prefix_sums (ws @ [weight_sum pvs])))"
    by (simp add: trade_minute_def close_minute_def minute_window_snoc prefix_sums_snoc)
  show "c_volume (candlestick (trade_minute trs b)) = Fin 0"
    and "c_weighted_price (candlestick (trade_minute trs b)) = intd (sum_list (ws @ [weight_sum pvs]))"
    using sums by (simp_all add: trade_minute_def close_minute_def)
qed

lemma trade_minutes_exact:
  assumes "fresh_buffer b" and "list_all2 int_minute_trades trss pvss"
    and "sum_list (map vol_sum pvss) \<le> 2 ^ 53" and "16 * sum_list (map weight_sum pvss) \<le> 2 ^ 53"
  shows "int_window (avg_info (trade_minutes trss b)) (minute_window (map vol_sum pvss))
      (minute_window (prefix_sums (map weight_sum pvss))) \<and>
    c_volume (candlestick (trade_minutes trss b)) = Fin 0 \<and>
    c_weighted_price (candlestick (trade_minutes trss b)) = intd (sum_list (map weight_sum pvss))"
  using assms(2-4)
proof (induction trss arbitrary: pvss rule: rev_induct)
  case Nil
  then show ?case
    using assms(1) by (simp add: trade_minutes_def fresh_buffer_def minute_window_def last_n_def
        prefix_sums_def)
next
  case (snoc trs trss)
  obtain pvss' pvs where p: "pvss = pvss' @ [pvs]" and l: "list_all2 int_minute_trades trss pvss'"
    and t: "int_minute_trades trs pvs"
    using snoc.prems(1) by (rule list_all2_snocE)
  note nn = int_minutes_nonneg [OF l] and pv = int_minute_nonneg [OF t]
  have "sum_list (map vol_sum pvss') \<le> 2 ^ 53" "16 * sum_list (map weight_sum pvss') \<le> 2 ^ 53"
    using snoc.prems pv by (simp_all add: p)
  note IH = snoc.IH [OF l this]
  have nonneg: "\<forall>x \<in> set (map vol_sum pvss') \<union> set (map weight_sum pvss'). 0 \<le> x" using nn by auto
  have "trade_minutes (trss @ [trs]) b = trade_minute trs (trade_minutes trss b)"
    by (simp add: trade_minutes_def)
  then show ?case
    using nonneg IH trade_minute_step [OF _ _ _ t, of "trade_minutes trss b" "map vol_sum pvss'"
        "map weight_sum pvss'"] snoc.prems by (simp add: p del: of_int_add)
qed

text \<open>
  C14: The running volume is right.  For integer trades with sums below the bounds, after any
  number of minutes \<^verbatim>\<open>total_15min_volume\<close> is exactly the volume traded in the last 15
  minutes, and the volume of the new candlestick starts at 0.
\<close>

theorem total_volume_is_window_sum:
  assumes "fresh_buffer b" and "list_all2 int_minute_trades trss pvss"
    and "sum_list (map vol_sum pvss) \<le> 2 ^ 53" and "16 * sum_list (map weight_sum pvss) \<le> 2 ^ 53"
  shows "total_15min_volume (avg_info (trade_minutes trss b)) =
      intd (sum_list (last_n 15 (replicate 15 0 @ map vol_sum pvss))) \<and>
    c_volume (candlestick (trade_minutes trss b)) = Fin 0"
  using trade_minutes_exact [OF assms] by (simp add: int_window_def minute_window_def)

text \<open>
  C15: The running weighted price is not that of the window.  The code resets the volume of a
  candlestick but not its \<^verbatim>\<open>weighted_price\<close>, so what enters the ring at the end of a
  minute is the weighted price of all trades since the start, and the numerator of the
  moving average is a sum of 15 such cumulative sums.
\<close>

theorem total_weighted_price_is_cumulative:
  assumes "fresh_buffer b" and "list_all2 int_minute_trades trss pvss"
    and "sum_list (map vol_sum pvss) \<le> 2 ^ 53" and "16 * sum_list (map weight_sum pvss) \<le> 2 ^ 53"
  shows "total_15min_weighted_price (avg_info (trade_minutes trss b)) =
      intd (sum_list (last_n 15 (replicate 15 0 @ prefix_sums (map weight_sum pvss)))) \<and>
    c_weighted_price (candlestick (trade_minutes trss b)) = intd (sum_list (map weight_sum pvss))"
  using trade_minutes_exact [OF assms] by (simp add: int_window_def minute_window_def)

definition unit_trade :: "int \<Rightarrow> int \<Rightarrow> Trade" where
  "unit_trade pr vol = \<lparr>trade_p = intd pr, trade_s_index = 0, trade_t = 0, trade_v = intd vol\<rparr>"

definition zero_avg :: MovingAverageInfo where
  "zero_avg = \<lparr>total_15min_volume = Fin 0, minute_volumes = replicate 15 (Fin 0),
     total_15min_weighted_price = Fin 0, weighted_prices = replicate 15 (Fin 0), oldest_index = 0\<rparr>"

definition empty_candlestick :: Candlestick where
  "empty_candlestick = \<lparr>c_max = Fin 0, c_min = Fin 0, c_open = CANDLESTICK_IS_EMPTY,
     c_close = CANDLESTICK_IS_EMPTY, c_volume = Fin 0, c_weighted_price = Fin 0\<rparr>"

definition zero_buffer :: CalculatorBuffer where
  "zero_buffer = \<lparr>candlestick = empty_candlestick, avg_info = zero_avg\<rparr>"

lemma fresh_zero_buffer: "fresh_buffer zero_buffer"
  by (simp add: fresh_buffer_def zero_buffer_def empty_candlestick_def zero_avg_def int_window_def
      wf_avg_def window_def rotate_drop_take)

lemma ring_is_sliding_window_witness:
  "window (oldest_index (rolls [empty_candlestick\<lparr>c_volume := Fin 7\<rparr>] zero_avg))
     (minute_volumes (rolls [empty_candlestick\<lparr>c_volume := Fin 7\<rparr>] zero_avg)) = replicate 14 (Fin 0) @ [Fin 7]"
proof -
  have "wf_avg zero_avg" by (simp add: wf_avg_def zero_avg_def)
  from ring_is_sliding_window [OF this, of "[empty_candlestick\<lparr>c_volume := Fin 7\<rparr>]"]
  show ?thesis by (simp add: zero_avg_def window_def last_n_def numeral_eq_Suc)
qed

lemma two_unit_minutes:
  "list_all2 int_minute_trades [[unit_trade 100 1], [unit_trade 100 1]] [[(100, 1)], [(100, 1)]]"
  by (simp add: int_minute_trades_def int_trade_def unit_trade_def)

lemma total_volume_is_window_sum_witness:
  "total_15min_volume (avg_info (trade_minutes [[unit_trade 100 1], [unit_trade 100 1]] zero_buffer)) = Fin 2"
  using total_volume_is_window_sum [OF fresh_zero_buffer two_unit_minutes]
  by (simp add: vol_sum_def weight_sum_def weight_def last_n_def)

lemma total_weighted_price_is_cumulative_witness:
  "total_15min_weighted_price (avg_info (trade_minutes [[unit_trade 100 1], [unit_trade 100 1]] zero_buffer)) = Fin 300"
  using total_weighted_price_is_cumulative [OF fresh_zero_buffer two_unit_minutes]
  by (simp add: vol_sum_def weight_sum_def weight_def last_n_def prefix_sums_def upt_rec)

section \<open>Where the printed average goes wrong\<close>

text \<open>One symbol, one trade in each of two minutes, and the files after both minutes.\<close>

definition two_minute_run :: "calc_files option" where
  "two_minute_run =
     (let run = (\<lambda>ts s. case add_trade_to_buffers (unit_trade 100 1) (buffers s) of
          None \<Rightarrow> None
        | Some bs \<Rightarrow> write_and_reset_buffers ts \<lparr>tv_sec = 0, tv_usec = 0\<rparr> 1
            (\<lambda>_. \<lparr>tv_sec = 0, tv_usec = 0\<rparr>) (s\<lparr>buffers := bs\<rparr>)) in
      case run 1 \<lparr>buffers = [zero_buffer], candlestick_files = [[]], avg_files = [[]], calc_delay_file = []\<rparr> of
        None \<Rightarrow> None | Some s \<Rightarrow> run 2 s)"

text \<open>
  A price that never moves from 100 is reported, in the second minute, as a moving
  average of 150.
\<close>

theorem constant_price_average_wrong:
  "map_option avg_files two_minute_run =
     Some [[''1,100.000000,1.000000'' @ newline, ''2,150.000000,2.000000'' @ newline]]"
  by code_simp

definition text_trade :: "string \<Rightarrow> string \<Rightarrow> Trade" where
  "text_trade pr vol = \<lparr>trade_p = fst (strtod pr), trade_s_index = 0, trade_t = 0, trade_v = fst (strtod vol)\<rparr>"

definition drift_run :: CalculatorBuffer where
  "drift_run = trade_minutes ([[text_trade ''5'' ''0.1''], [text_trade ''5'' ''0.2'']] @ replicate 15 []) zero_buffer"

text \<open>
  The test for an empty window fails on fractional volumes.  After volumes of 0.1 and 0.2
  at the price 5 and 15 minutes without trades every volume in the ring is 0, but the running
  total has kept a rounding error, so the moving average is not taken from the closing price
  5: the quotient by the error is above a million.
\<close>

theorem empty_window_not_recognised:
  "(let b = drift_run; a = avg_info b in minute_volumes a = replicate 15 (Fin 0) \<and>
     c_close (candlestick b) = dbl 5 \<and> \<not> deq (total_15min_volume a) 0 \<and>
     dbl 1000000 < moving_average (candlestick b) a)"
  by code_simp

end
