(* ===== verification/CalculatorBuffers.thy ===== *)
theory CalculatorBuffers
  imports MovingAverage
begin

text \<open>
  The calculator's array of buffers as a whole: what the initialisation leaves in memory, the
  well-formedness that every operation keeps (so no access leaves an array), and the effect
  of closing a minute on every symbol and every file.
\<close>

section \<open>Initialisation\<close>

lemma map_nth_id: "(\<And>k. k < length xs \<Longrightarrow> f k = xs ! k) \<Longrightarrow> map f [0..<length xs] = xs"
  by (rule nth_equalityI) simp_all

lemma memset_array_outside:
  "(\<And>k. k < length ds \<Longrightarrow> \<not> covered lo hi (base + 8 * int k)) \<Longrightarrow> memset_array lo hi base ds = ds"
  by (simp add: memset_array_def set_double_def map_nth_id)

lemma memset_array_inside:
  assumes "\<And>k. k < length ds \<Longrightarrow> covered lo hi (base + 8 * int k)"
  shows "memset_array lo hi base ds = replicate (length ds) (Fin 0)"
  using assms by (intro nth_equalityI) (simp_all add: memset_array_def set_double_def)

definition wf_arrays :: "CalculatorBuffer \<Rightarrow> bool" where
  "wf_arrays b \<longleftrightarrow> length (minute_volumes (avg_info b)) = 15 \<and> length (weighted_prices (avg_info b)) = 15"

lemmas layout_defs = sizeof_CalculatorBuffer_def sizeof_Candlestick_def sizeof_MovingAverageInfo_def
  offset_avg_info_def

text \<open>
  The bytes that the call for symbol \<open>i\<close> zeroes: from the moving average of structure \<open>i\<close> on,
  as many as the whole structure has.
\<close>

abbreviation init_lo :: "nat \<Rightarrow> int" where
  "init_lo i \<equiv> int i * sizeof_CalculatorBuffer + offset_avg_info"

lemma memset_candlestick_init:
  "memset_candlestick (init_lo i) (init_lo i + sizeof_CalculatorBuffer) (int j * sizeof_CalculatorBuffer) c =
     (if j = Suc i then \<lparr>c_max = Fin 0, c_min = Fin 0, c_open = Fin 0, c_close = Fin 0,
        c_volume = Fin 0, c_weighted_price = Fin 0\<rparr> else c)"
proof -
  consider "j \<le> i" | "j = Suc i" | "Suc i < j" by linarith
  then show ?thesis
    by cases (auto simp: memset_candlestick_def set_double_def covered_def layout_defs)
qed

lemma memset_avg_info_init:
  assumes "length (minute_volumes a) = 15" "length (weighted_prices a) = 15"
  shows "memset_avg_info (init_lo i) (init_lo i + sizeof_CalculatorBuffer)
      (int j * sizeof_CalculatorBuffer + offset_avg_info) a = (if j = i then zero_avg else a)"
proof -
  consider "j < i" | "j = i" | "i < j" by linarith
  then show ?thesis
    using assms
    by cases (auto simp: memset_avg_info_def zero_avg_def set_double_def covered_def layout_defs
        memset_array_inside memset_array_outside)
qed

lemma memset_buffer_init:
  assumes "wf_arrays b"
  shows "memset_buffer (init_lo i) (init_lo i + sizeof_CalculatorBuffer) (int j * sizeof_CalculatorBuffer) b =
     (if j = i then b\<lparr>avg_info := zero_avg\<rparr>
      else if j = Suc i then b\<lparr>candlestick := \<lparr>c_max = Fin 0, c_min = Fin 0, c_open = Fin 0, c_close = Fin 0,
        c_volume = Fin 0, c_weighted_price = Fin 0\<rparr>\<rparr> else b)"
  using assms by (simp add: memset_buffer_def memset_candlestick_init memset_avg_info_init wf_arrays_def)

text \<open>What the loop has established when it has handled the symbols below \<open>k\<close>.\<close>

definition zeroed_rest :: "Candlestick \<Rightarrow> bool" where
  "zeroed_rest c \<longleftrightarrow> c_max c = Fin 0 \<and> c_min c = Fin 0 \<and> c_volume c = Fin 0 \<and> c_weighted_price c = Fin 0"

definition same_rest :: "Candlestick \<Rightarrow> Candlestick \<Rightarrow> bool" where
  "same_rest c c' \<longleftrightarrow> c_max c = c_max c' \<and> c_min c = c_min c' \<and> c_volume c = c_volume c' \<and>
     c_weighted_price c = c_weighted_price c'"

definition marked_empty :: "CalculatorBuffer \<Rightarrow> bool" where
  "marked_empty b \<longleftrightarrow> c_open (candlestick b) = CANDLESTICK_IS_EMPTY \<and>
     c_close (candlestick b) = CANDLESTICK_IS_EMPTY \<and> avg_info b = zero_avg"

definition init_inv :: "CalculatorBuffer list \<Rightarrow> nat \<Rightarrow> CalculatorBuffer list \<Rightarrow> bool" where
  "init_inv bufs k bs \<longleftrightarrow> length bs = length bufs \<and> (\<forall>b \<in> set bs. wf_arrays b) \<and>
     (\<forall>j < k. marked_empty (bs ! j)) \<and>
     (\<forall>j < length bs. 0 < j \<and> j \<le> k \<longrightarrow> zeroed_rest (candlestick (bs ! j))) \<and>
     (bufs \<noteq> [] \<longrightarrow> same_rest (candlestick (bs ! 0)) (candlestick (bufs ! 0)))"

lemma memset_zero_init:
  assumes "\<forall>b \<in> set bs. wf_arrays b" and "i < length bs"
  shows "fst (memset_zero (init_lo i) sizeof_CalculatorBuffer bs) =
     map (\<lambda>j. if j = i then (bs ! j)\<lparr>avg_info := zero_avg\<rparr>
       else if j = Suc i then (bs ! j)\<lparr>candlestick := \<lparr>c_max = Fin 0, c_min = Fin 0, c_open = Fin 0,
         c_close = Fin 0, c_volume = Fin 0, c_weighted_price = Fin 0\<rparr>\<rparr> else bs ! j) [0..<length bs]"
    and "snd (memset_zero (init_lo i) sizeof_CalculatorBuffer bs) =
      (if Suc i = length bs then sizeof_Candlestick else 0)"
proof -
  show "fst (memset_zero (init_lo i) sizeof_CalculatorBuffer bs) =
     map (\<lambda>j. if j = i then (bs ! j)\<lparr>avg_info := zero_avg\<rparr>
       else if j = Suc i then (bs ! j)\<lparr>candlestick := \<lparr>c_max = Fin 0, c_min = Fin 0, c_open = Fin 0,
         c_close = Fin 0, c_volume = Fin 0, c_weighted_price = Fin 0\<rparr>\<rparr> else bs ! j) [0..<length bs]"
    unfolding memset_zero_def fst_conv using assms(1) by (intro map_cong refl memset_buffer_init) simp
  show "snd (memset_zero (init_lo i) sizeof_CalculatorBuffer bs) =
      (if Suc i = length bs then sizeof_Candlestick else 0)"
    using assms(2) by (auto simp: memset_zero_def layout_defs)
qed

lemma init_buffer_inv:
  assumes "init_inv bufs k bs" and "k < length bs"
  shows "init_inv bufs (Suc k) (fst (init_buffer k (bs, ov)))"
    and "snd (init_buffer k (bs, ov)) = max ov (if Suc k = length bufs then sizeof_Candlestick else 0)"
proof -
  have wf: "\<forall>b \<in> set bs. wf_arrays b" and len: "length bs = length bufs"
    using assms(1) by (simp_all add: init_inv_def)
  note ms = memset_zero_init [OF wf assms(2)]
  show "snd (init_buffer k (bs, ov)) = max ov (if Suc k = length bufs then sizeof_Candlestick else 0)"
    using ms(2) len by (simp add: init_buffer_def Let_def case_prod_beta)
  have wf': "wf_arrays (bs ! j)" if "j < length bs" for j using wf that by simp
  have z: "wf_arrays (b\<lparr>avg_info := zero_avg\<rparr>)" for b by (simp add: wf_arrays_def zero_avg_def)
  show "init_inv bufs (Suc k) (fst (init_buffer k (bs, ov)))"
    using assms ms(1) wf' z
    by (auto simp: init_inv_def init_buffer_def Let_def marked_empty_def zeroed_rest_def same_rest_def
        all_set_conv_all_nth nth_list_update wf_arrays_def less_Suc_eq split: prod.splits)
qed

lemma init_loop:
  assumes "\<forall>b \<in> set bufs. wf_arrays b" and "k \<le> length bufs"
  shows "init_inv bufs k (fst (fold init_buffer [0..<k] (bufs, 0))) \<and>
    snd (fold init_buffer [0..<k] (bufs, 0)) = (if 0 < k \<and> k = length bufs then sizeof_Candlestick else 0)"
  using assms(2)
proof (induction k)
  case 0
  then show ?case using assms(1) by (auto simp: init_inv_def same_rest_def)
next
  case (Suc k)
  obtain bs ov where st: "fold init_buffer [0..<k] (bufs, 0) = (bs, ov)" by fastforce
  with Suc have inv: "init_inv bufs k bs" and ov: "ov = 0" by auto
  then have "k < length bs" using Suc.prems by (simp add: init_inv_def)
  then show ?case
    using init_buffer_inv [OF inv, of ov] st ov by (simp add: sizeof_Candlestick_def)
qed

text \<open>
  Initialisation marks every symbol as untraded: opening and closing price are the
  marker -1 and the whole moving-average record is zero, for arbitrary contents of the
  uninitialised array; beyond the first symbol the rest of the candlestick is zero, too.
\<close>

theorem init_marks_every_symbol:
  assumes "\<forall>b \<in> set bufs. wf_arrays b" and "i < length bufs"
  shows "let bs = fst (init_calculator_buffers bufs (length bufs)) in
    length bs = length bufs \<and> c_open (candlestick (bs ! i)) = CANDLESTICK_IS_EMPTY \<and>
    c_close (candlestick (bs ! i)) = CANDLESTICK_IS_EMPTY \<and> avg_info (bs ! i) = zero_avg \<and>
    (0 < i \<longrightarrow> c_volume (candlestick (bs ! i)) = Fin 0 \<and> c_weighted_price (candlestick (bs ! i)) = Fin 0 \<and>
      c_max (candlestick (bs ! i)) = Fin 0 \<and> c_min (candlestick (bs ! i)) = Fin 0)"
  using init_loop [OF assms(1) order_refl] assms(2)
  by (auto simp: init_calculator_buffers_def Let_def init_inv_def marked_empty_def zeroed_rest_def)

lemma init_marks_every_symbol_witness:
  "c_open (candlestick (fst (init_calculator_buffers [zero_buffer, zero_buffer] 2) ! 1)) = CANDLESTICK_IS_EMPTY"
  using init_marks_every_symbol [of "[zero_buffer, zero_buffer]" 1]
  by (simp add: wf_arrays_def zero_buffer_def zero_avg_def Let_def numeral_2_eq_2)

text \<open>
  C39: The \<^verbatim>\<open>memset\<close> of the initialisation starts at the moving average but has the size
  of the whole buffer.  It leaves the first symbol's volume and weighted price as they were
  (the array is an uninitialised local of \<^verbatim>\<open>main\<close>), and it clears 48 bytes behind the
  end of the array.
\<close>

theorem init_overruns_and_misses:
  assumes "\<forall>b \<in> set bufs. wf_arrays b" and "bufs \<noteq> []"
  shows "let (bs, overrun) = init_calculator_buffers bufs (length bufs) in
    overrun = 48 \<and>
    c_volume (candlestick (bs ! 0)) = c_volume (candlestick (bufs ! 0)) \<and>
    c_weighted_price (candlestick (bs ! 0)) = c_weighted_price (candlestick (bufs ! 0))"
  using init_loop [OF assms(1) order_refl] assms(2)
  by (auto simp: init_calculator_buffers_def init_inv_def same_rest_def sizeof_Candlestick_def
      split: prod.splits)

lemma init_overruns_and_misses_witness:
  "c_volume (candlestick (fst (init_calculator_buffers
     [zero_buffer\<lparr>candlestick := empty_candlestick\<lparr>c_volume := Fin 7\<rparr>\<rparr>] 1) ! 0)) = Fin 7"
  using init_overruns_and_misses [of "[zero_buffer\<lparr>candlestick := empty_candlestick\<lparr>c_volume := Fin 7\<rparr>\<rparr>]"]
  by (auto simp: wf_arrays_def zero_buffer_def zero_avg_def split: prod.splits)

section \<open>Closing a minute\<close>

definition calc_wf :: "nat \<Rightarrow> calc_files \<Rightarrow> bool" where
  "calc_wf n s \<longleftrightarrow> length (buffers s) = n \<and> length (candlestick_files s) = n \<and>
     length (avg_files s) = n \<and> (\<forall>b \<in> set (buffers s). wf_avg (avg_info b))"

text \<open>What closing the minute appends to the two files of a symbol.\<close>

definition avg_entry :: "64 word \<Rightarrow> CalculatorBuffer \<Rightarrow> string" where
  "avg_entry ts b = (let a = roll (candlestick b) (avg_info b) in
     avg_line ts (moving_average (candlestick b) a) (total_15min_volume a))"

definition delay_entries :: "timeval \<Rightarrow> (nat \<Rightarrow> timeval) \<Rightarrow> nat \<Rightarrow> string list" where
  "delay_entries ev clock i = [delay_line (clock (2 * i)) ev, delay_line (clock (2 * i + 1)) ev]"

text \<open>The state after the symbols below \<open>k\<close>.\<close>

definition closed_upto :: "64 word \<Rightarrow> timeval \<Rightarrow> (nat \<Rightarrow> timeval) \<Rightarrow> nat \<Rightarrow> calc_files \<Rightarrow> calc_files" where
  "closed_upto ts ev clock k s = s\<lparr>
     buffers := map close_minute (take k (buffers s)) @ drop k (buffers s),
     candlestick_files := map (\<lambda>i. candlestick_files s ! i @ candlestick_entry ts (candlestick (buffers s ! i))) [0..<k]
       @ drop k (candlestick_files s),
     avg_files := map (\<lambda>i. avg_files s ! i @ [avg_entry ts (buffers s ! i)]) [0..<k] @ drop k (avg_files s),
     calc_delay_file := calc_delay_file s @ concat (map (delay_entries ev clock) [0..<k])\<rparr>"

lemma update_boundary:
  "length xs = k \<Longrightarrow> k < length ys \<Longrightarrow> (xs @ drop k ys)[k := z] = (xs @ [z]) @ drop (Suc k) ys"
  by (simp add: list_update_append Cons_nth_drop_Suc [symmetric])

lemma nth_boundary: "length xs = k \<Longrightarrow> k < length ys \<Longrightarrow> (xs @ drop k ys) ! k = ys ! k"
  by (simp add: nth_append)

lemma closed_step:
  assumes "k < length (buffers s)" "k < length (candlestick_files s)" "k < length (avg_files s)"
  shows "write_and_reset_symbol ts ev clock k (closed_upto ts ev clock k s) = closed_upto ts ev clock (Suc k) s"
  using assms
  by (simp add: write_and_reset_symbol_def closed_upto_def Let_def nth_boundary update_boundary
      take_Suc_conv_app_nth avg_entry_def delay_entries_def)

lemma closed_loop:
  assumes "k \<le> length (buffers s)" "k \<le> length (candlestick_files s)" "k \<le> length (avg_files s)"
  shows "fold (write_and_reset_symbol ts ev clock) [0..<k] s = closed_upto ts ev clock k s"
  using assms by (induction k) (simp_all add: closed_step, simp add: closed_upto_def)

lemma calc_wf_in_bounds: "calc_wf n s \<Longrightarrow> calc_in_bounds n s"
  by (auto simp: calc_wf_def calc_in_bounds_def wf_avg_def)

text \<open>
  C10: Closing a minute handles every symbol once and alike, in a well-formed state: no access
  leaves an array, every buffer is rolled and reset, every average file gets exactly one row,
  every candlestick file the entry of its candlestick (at most one row), the delay file two
  rows per symbol; and the state stays well-formed.
\<close>

theorem minute_closes_every_symbol:
  assumes "calc_wf n s"
  shows "\<exists>s'. write_and_reset_buffers ts ev n clock s = Some s' \<and> calc_wf n s' \<and>
    buffers s' = map close_minute (buffers s) \<and>
    avg_files s' = map2 (\<lambda>f b. f @ [avg_entry ts b]) (avg_files s) (buffers s) \<and>
    candlestick_files s' =
      map2 (\<lambda>f b. f @ candlestick_entry ts (candlestick b)) (candlestick_files s) (buffers s) \<and>
    calc_delay_file s' = calc_delay_file s @ concat (map (delay_entries ev clock) [0..<n])"
proof -
  have len: "length (buffers s) = n" "length (candlestick_files s) = n" "length (avg_files s) = n"
    using assms by (simp_all add: calc_wf_def)
  have run: "write_and_reset_buffers ts ev n clock s = Some (closed_upto ts ev clock n s)"
    using assms len by (simp add: write_and_reset_buffers_def calc_wf_in_bounds closed_loop)
  have zip: "map (\<lambda>i. f (xs ! i) (ys ! i)) [0..<n] = map2 f xs ys"
    if "length xs = n" "length ys = n" for f :: "FILE \<Rightarrow> CalculatorBuffer \<Rightarrow> FILE" and xs ys
    using that by (intro nth_equalityI) simp_all
  show ?thesis
    using assms len run zip [OF len(3,1)] zip [OF len(2,1)]
    by (auto simp: closed_upto_def calc_wf_def close_minute_def)
qed

lemma minute_closes_every_symbol_witness:
  "\<exists>s'. write_and_reset_buffers 1 \<lparr>tv_sec = 0, tv_usec = 0\<rparr> 1 (\<lambda>_. \<lparr>tv_sec = 0, tv_usec = 0\<rparr>)
     \<lparr>buffers = [zero_buffer], candlestick_files = [[]], avg_files = [[]], calc_delay_file = []\<rparr> = Some s' \<and>
     buffers s' = [close_minute zero_buffer]"
  using minute_closes_every_symbol [of 1 "\<lparr>buffers = [zero_buffer], candlestick_files = [[]],
      avg_files = [[]], calc_delay_file = []\<rparr>" 1 "\<lparr>tv_sec = 0, tv_usec = 0\<rparr>" "\<lambda>_. \<lparr>tv_sec = 0, tv_usec = 0\<rparr>"]
  by (auto simp: calc_wf_def zero_buffer_def zero_avg_def wf_avg_def)



end
