(* ===== verification/Symbols.thy ===== *)
theory Symbols
  imports TradeProcessing
begin

text \<open>
  The list of symbols of \<^verbatim>\<open>main.c\<close> and the two ways the program walks it: the search
  for a received symbol in the parser, and the loops that stop at the empty entry.
\<close>

definition symbols_list :: "string list" where
  "symbols_list = [
    ''AAPL'', ''NIO'', ''INTC'', ''AMZN'', ''NVDA'', ''TSLA'', ''GOOGL'', ''AMD'', ''MSFT'', ''META'',
    ''BRK.B'', ''BINANCE:BTCUSDT'', ''BINANCE:ETHUSDT'', ''BINANCE:BNBUSDT'', ''BINANCE:SOLUSDT'',
    ''BINANCE:DOGEUSDT'', ''OANDA:EUR_USD'', ''OANDA:USD_JPY'', ''OANDA:GBP_USD'', ''OANDA:AUD_USD'',
    ''OANDA:USD_CAD'', '''']"

definition SYMBOLS_MAX_LENGTH :: nat where
  "SYMBOLS_MAX_LENGTH = 20"

definition SYMBOL_COUNT :: nat where
  "SYMBOL_COUNT = length symbols_list - 1"

text \<open>
  The loop of the parser from position \<open>i\<close> on: stop at the empty entry, or at the entry that
  equals the text.
\<close>

fun find_symbol_from :: "nat \<Rightarrow> string list \<Rightarrow> string \<Rightarrow> nat option" where
  "find_symbol_from i [] buf = None"
| "find_symbol_from i (s # ss) buf =
     (if s = [] then None else if s = buf then Some i else find_symbol_from (Suc i) ss buf)"

definition find_symbol :: "string \<Rightarrow> nat option" where
  "find_symbol buf = find_symbol_from 0 symbols_list buf"

text \<open>The symbols that a loop up to the empty entry visits.\<close>

definition active_symbols :: "string list" where
  "active_symbols = takeWhile (\<lambda>s. s \<noteq> []) symbols_list"

lemma SYMBOL_COUNT_21 [simp]: "SYMBOL_COUNT = 21"
  by (simp add: SYMBOL_COUNT_def symbols_list_def)

lemma symbols_list_split: "symbols_list = active_symbols @ [[]]"
  by (simp add: active_symbols_def symbols_list_def)

lemma length_active_symbols [simp]: "length active_symbols = SYMBOL_COUNT"
  using arg_cong [OF symbols_list_split, of length] by (simp add: SYMBOL_COUNT_def del: SYMBOL_COUNT_21)

lemma distinct_active_symbols: "distinct active_symbols"
  by (simp add: active_symbols_def symbols_list_def)

lemma active_symbols_nonempty: "s \<in> set active_symbols \<Longrightarrow> s \<noteq> []"
  unfolding active_symbols_def by (blast dest: set_takeWhileD)

lemma active_symbols_short: "s \<in> set active_symbols \<Longrightarrow> length s < SYMBOLS_MAX_LENGTH"
  by (auto simp: active_symbols_def symbols_list_def SYMBOLS_MAX_LENGTH_def)

lemma find_symbol_from_found:
  assumes "k < length ss" and "\<forall>s \<in> set ss. s \<noteq> []" and "distinct ss"
  shows "find_symbol_from i (ss @ [[]]) (ss ! k) = Some (i + k)"
  using assms
proof (induction ss arbitrary: i k)
  case (Cons s ss)
  then show ?case by (cases k) auto
qed simp

lemma find_symbol_from_absent:
  "buf \<notin> set ss \<Longrightarrow> \<forall>s \<in> set ss. s \<noteq> [] \<Longrightarrow> find_symbol_from i (ss @ [[]]) buf = None"
  by (induction ss arbitrary: i) auto

lemma find_symbol_found: "k < SYMBOL_COUNT \<Longrightarrow> find_symbol (active_symbols ! k) = Some k"
  using find_symbol_from_found [of k active_symbols 0] distinct_active_symbols active_symbols_nonempty
  by (simp add: find_symbol_def symbols_list_split del: SYMBOL_COUNT_21)

lemma find_symbol_absent: "buf \<notin> set active_symbols \<Longrightarrow> find_symbol buf = None"
  using find_symbol_from_absent [of buf active_symbols 0] active_symbols_nonempty
  by (auto simp: find_symbol_def symbols_list_split)

text \<open>
  The symbol search returns the position of a listed symbol, the same position that indexes
  the log files and the buffers, and nothing for any other text.
\<close>

lemma find_symbol_iff: "find_symbol buf = Some i \<longleftrightarrow> i < SYMBOL_COUNT \<and> symbols_list ! i = buf"
proof
  assume f: "find_symbol buf = Some i"
  then have "buf \<in> set active_symbols" using find_symbol_absent by fastforce
  then obtain k where k: "k < SYMBOL_COUNT" "active_symbols ! k = buf"
    by (auto simp: in_set_conv_nth)
  then have "i = k" using find_symbol_found [OF k(1)] f by simp
  then show "i < SYMBOL_COUNT \<and> symbols_list ! i = buf"
    using k by (simp add: symbols_list_split nth_append)
next
  assume "i < SYMBOL_COUNT \<and> symbols_list ! i = buf"
  then show "find_symbol buf = Some i"
    using find_symbol_found [of i] by (auto simp: symbols_list_split nth_append)
qed

text \<open>
  The loop as the code has it: it has no bound of its own, only the empty entry ends it.  To
  run on forever, or to read behind the array, is \<open>None\<close>.
\<close>

partial_function (option) symbol_loop :: "nat \<Rightarrow> string \<Rightarrow> nat option option" where
  "symbol_loop i buf =
     (if i < length symbols_list then
        (if symbols_list ! i = [] then Some None
         else if symbols_list ! i = buf then Some (Some i)
         else symbol_loop (Suc i) buf)
      else None)"

lemma symbol_loop_from:
  assumes "[] \<in> set (drop i symbols_list)"
  shows "symbol_loop i buf = Some (find_symbol_from i (drop i symbols_list) buf)"
  using assms
proof (induction "length symbols_list - i" arbitrary: i rule: less_induct)
  case less
  have i: "i < length symbols_list" using less.prems by (cases "i < length symbols_list") auto
  then have d: "drop i symbols_list = symbols_list ! i # drop (Suc i) symbols_list"
    by (simp add: Cons_nth_drop_Suc)
  show ?case
  proof (cases "symbols_list ! i = [] \<or> symbols_list ! i = buf")
    case True
    then show ?thesis using i by (subst symbol_loop.simps) (auto simp: d)
  next
    case False
    then have "[] \<in> set (drop (Suc i) symbols_list)" using less.prems by (auto simp: d)
    then have "symbol_loop (Suc i) buf = Some (find_symbol_from (Suc i) (drop (Suc i) symbols_list) buf)"
      using i by (intro less.hyps) simp_all
    then show ?thesis using False i by (subst symbol_loop.simps) (auto simp: d)
  qed
qed

text \<open>
  The search for a symbol ends.  For every text the loop, which only the empty entry of
  the list stops, returns without reading behind the list, and its answer is the position of
  the text among the listed symbols, below their number, or that it is not listed.
\<close>

lemma symbol_search_terminates:
  "\<exists>r. symbol_loop 0 buf = Some r \<and> r = find_symbol buf \<and>
    (\<forall>i. r = Some i \<longleftrightarrow> i < SYMBOL_COUNT \<and> symbols_list ! i = buf)"
proof -
  have "[] \<in> set (drop 0 symbols_list)" by (simp add: symbols_list_split)
  then have "symbol_loop 0 buf = Some (find_symbol buf)"
    using symbol_loop_from [of 0 buf] by (simp add: find_symbol_def)
  then show ?thesis by (simp add: find_symbol_iff)
qed

end
