(* ===== verification/Fifo.thy ===== *)
theory Fifo
  imports Prelude
begin

text \<open>
  The contract that the threads rely on when they pass items through a queue: a
  first-in-first-out buffer seen as the list of its items, with a bounded variant.  The
  consequences for whole sequences of operations are proved here once; the ring buffer of
  \<open>PCQueue\<close> is the instance.
\<close>

datatype 'a fifo_op = Put 'a | Get

text \<open>
  A sequence of operations: what was accepted, what was delivered and the final queue.  An
  operation that has to wait leaves the queue as it is.
\<close>

fun fifo_run ::
  "('q \<Rightarrow> bool) \<Rightarrow> ('q \<Rightarrow> bool) \<Rightarrow> ('a \<Rightarrow> 'q \<Rightarrow> 'q) \<Rightarrow> ('q \<Rightarrow> 'a option \<times> 'q) \<Rightarrow>
   'a fifo_op list \<Rightarrow> 'q \<Rightarrow> 'a list \<times> 'a option list \<times> 'q" where
  "fifo_run is_full is_empty put get [] q = ([], [], q)"
| "fifo_run is_full is_empty put get (Put x # ops) q =
     (if is_full q then fifo_run is_full is_empty put get ops q
      else (let (ins, outs, r) = fifo_run is_full is_empty put get ops (put x q) in (x # ins, outs, r)))"
| "fifo_run is_full is_empty put get (Get # ops) q =
     (if is_empty q then fifo_run is_full is_empty put get ops q
      else (let (x, q') = get q; (ins, outs, r) = fifo_run is_full is_empty put get ops q' in
        (ins, x # outs, r)))"

locale fifo =
  fixes inv :: "'q \<Rightarrow> bool"
    and items :: "'q \<Rightarrow> 'a list"
    and put :: "'a \<Rightarrow> 'q \<Rightarrow> 'q"
    and get :: "'q \<Rightarrow> 'a option \<times> 'q"
    and is_full :: "'q \<Rightarrow> bool"
    and is_empty :: "'q \<Rightarrow> bool"
  assumes inv_put: "inv q \<Longrightarrow> \<not> is_full q \<Longrightarrow> inv (put x q)"
    and items_put: "inv q \<Longrightarrow> \<not> is_full q \<Longrightarrow> items (put x q) = items q @ [x]"
    and inv_get: "inv q \<Longrightarrow> \<not> is_empty q \<Longrightarrow> inv (snd (get q))"
    and fst_get: "inv q \<Longrightarrow> \<not> is_empty q \<Longrightarrow> fst (get q) = Some (hd (items q))"
    and items_get: "inv q \<Longrightarrow> \<not> is_empty q \<Longrightarrow> items (snd (get q)) = tl (items q)"
    and empty_iff: "inv q \<Longrightarrow> is_empty q \<longleftrightarrow> items q = []"
begin

lemma get_nonempty: "inv q \<Longrightarrow> \<not> is_empty q \<Longrightarrow> items q = hd (items q) # items (snd (get q))"
  by (simp add: items_get empty_iff)

text \<open>
  Whatever is accepted is delivered in the same order or still in the queue; nothing is
  lost, invented or reordered, and every delivery has a value.
\<close>

lemma run_in_order:
  assumes "inv q" and "fifo_run is_full is_empty put get ops q = (ins, outs, r)"
  shows "inv r \<and> (\<exists>ys. outs = map Some ys \<and> items q @ ins = ys @ items r)"
  using assms
proof (induction ops arbitrary: q ins outs)
  case Nil
  then show ?case by simp
next
  case (Cons a ops)
  show ?case
  proof (cases a)
    case (Put x)
    show ?thesis
    proof (cases "is_full q")
      case True
      then show ?thesis using Cons.IH [OF Cons.prems(1)] Cons.prems(2) Put by simp
    next
      case False
      obtain ins' where run: "fifo_run is_full is_empty put get ops (put x q) = (ins', outs, r)"
        and "ins = x # ins'"
        using Cons.prems(2) Put False by (auto split: prod.splits)
      then show ?thesis
        using Cons.IH [OF inv_put [OF Cons.prems(1) False] run] items_put [OF Cons.prems(1) False] by simp
    qed
  next
    case Get
    show ?thesis
    proof (cases "is_empty q")
      case True
      then show ?thesis using Cons.IH [OF Cons.prems(1)] Cons.prems(2) Get by simp
    next
      case False
      obtain outs' where run: "fifo_run is_full is_empty put get ops (snd (get q)) = (ins, outs', r)"
        and outs: "outs = fst (get q) # outs'"
        using Cons.prems(2) Get False by (auto split: prod.splits)
      obtain ys where "inv r" "outs' = map Some ys" "items (snd (get q)) @ ins = ys @ items r"
        using Cons.IH [OF inv_get [OF Cons.prems(1) False] run] by blast
      then have "outs = map Some (hd (items q) # ys)"
        and "items q @ ins = (hd (items q) # ys) @ items r"
        using outs get_nonempty [OF Cons.prems(1) False] fst_get [OF Cons.prems(1) False]
        by (simp, metis append_Cons)
      then show ?thesis using \<open>inv r\<close> by blast
    qed
  qed
qed

end

locale bounded_fifo = fifo +
  fixes capacity :: nat
  assumes full_iff: "inv q \<Longrightarrow> is_full q \<longleftrightarrow> length (items q) = capacity"
    and within: "inv q \<Longrightarrow> length (items q) \<le> capacity"
begin

lemma room: "inv q \<Longrightarrow> \<not> is_full q \<Longrightarrow> length (items q) < capacity"
  using full_iff [of q] within [of q] by simp

text \<open>Never more items in the queue than it has room for, along any sequence.\<close>

lemma run_within:
  assumes "inv q" and "fifo_run is_full is_empty put get ops q = (ins, outs, r)"
  shows "length (items r) \<le> capacity"
  using run_in_order [OF assms] within by blast

text \<open>As long as there is room, a batch is accepted completely and delivered in order.\<close>

lemma run_batch:
  assumes "inv q" and "length (items q) + length xs \<le> capacity"
  shows "\<exists>r. fifo_run is_full is_empty put get (map Put xs) q = (xs, [], r) \<and> inv r \<and> items r = items q @ xs"
  using assms
proof (induction xs arbitrary: q)
  case Nil
  then show ?case by simp
next
  case (Cons x xs)
  have nf: "\<not> is_full q" using Cons.prems full_iff by simp
  obtain r where "fifo_run is_full is_empty put get (map Put xs) (put x q) = (xs, [], r)"
    and "inv r" and "items r = items (put x q) @ xs"
    using Cons.IH [OF inv_put [OF Cons.prems(1) nf]] Cons.prems items_put [OF Cons.prems(1) nf] by auto
  then show ?case using nf items_put [OF Cons.prems(1) nf] by auto
qed

end

end
