(* ===== verification/PCQueue.thy ===== *)
theory PCQueue
  imports TradeProcessing Fifo
begin

text \<open>
  \<^verbatim>\<open>include/PCQueue.h\<close> and \<^verbatim>\<open>src/PCQueue.c\<close>: the ring buffer between the stages.  Here
  are the data of the queue, the critical sections of the two operations, their outcome when
  a call runs undisturbed, the refinement of the ring to a list, and the interface that the
  threads rely on.  The interleaving of calls is the business of \<open>Monitor\<close>.
\<close>

section \<open>Data\<close>

definition QUEUE_SIZE :: nat where
  "QUEUE_SIZE = 2000"

record WorkItem =
  item_trade :: Trade
  item_event_time :: timeval

text \<open>
  The life of a mutex or condition variable: memory from \<^verbatim>\<open>malloc\<close>, initialised once,
  initialised again (which POSIX leaves undefined), destroyed.
\<close>

datatype sync_object = Allocated | Ready | Reinitialised | Destroyed | Misused

fun pthread_init :: "sync_object \<Rightarrow> sync_object" where
  "pthread_init Allocated = Ready"
| "pthread_init Ready = Reinitialised"
| "pthread_init _ = Misused"

fun pthread_destroy :: "sync_object \<Rightarrow> sync_object" where
  "pthread_destroy Ready = Destroyed"
| "pthread_destroy Reinitialised = Destroyed"
| "pthread_destroy _ = Misused"

text \<open>A slot of the buffer that was never written is \<open>None\<close>.\<close>

record PCQueue =
  q_buffer :: "WorkItem option list"
  q_head :: nat
  q_tail :: nat
  q_full :: bool
  q_empty :: bool
  q_mut :: sync_object
  q_not_full :: sync_object
  q_not_empty :: sync_object
  q_exit_flag :: bool
  q_producer_lock :: sync_object

definition queue_init :: PCQueue where
  "queue_init = (let
     q = \<lparr>q_buffer = replicate QUEUE_SIZE None, q_head = 0, q_tail = 0, q_full = False, q_empty = True,
          q_mut = Allocated, q_not_full = Allocated, q_not_empty = Allocated, q_exit_flag = False,
          q_producer_lock = Allocated\<rparr>;
     q = q\<lparr>q_mut := pthread_init (q_mut q)\<rparr>;
     q = q\<lparr>q_not_full := pthread_init (q_not_full q)\<rparr>;
     q = q\<lparr>q_not_full := pthread_init (q_not_full q)\<rparr>;
     q = q\<lparr>q_producer_lock := pthread_init (q_producer_lock q)\<rparr>
   in q\<lparr>q_exit_flag := False\<rparr>)"

definition queue_destory :: "PCQueue \<Rightarrow> PCQueue" where
  "queue_destory q = q\<lparr>q_mut := pthread_destroy (q_mut q),
     q_not_full := pthread_destroy (q_not_full q),
     q_not_empty := pthread_destroy (q_not_empty q),
     q_producer_lock := pthread_destroy (q_producer_lock q)\<rparr>"

section \<open>Operations\<close>

text \<open>The critical section of \<^verbatim>\<open>queue_add\<close> once there is room.\<close>

definition queue_put :: "WorkItem \<Rightarrow> PCQueue \<Rightarrow> PCQueue" where
  "queue_put item q = (let
     q = q\<lparr>q_buffer := (q_buffer q)[q_tail q := Some item]\<rparr>;
     q = q\<lparr>q_tail := (q_tail q + 1) mod QUEUE_SIZE\<rparr>;
     q = (if q_tail q = q_head q then q\<lparr>q_full := True\<rparr> else q)
   in q\<lparr>q_empty := False\<rparr>)"

text \<open>The critical section of \<^verbatim>\<open>queue_remove\<close> once there is an item.\<close>

definition queue_take :: "PCQueue \<Rightarrow> WorkItem option \<times> PCQueue" where
  "queue_take q = (let
     item = q_buffer q ! q_head q;
     q = q\<lparr>q_head := (q_head q + 1) mod QUEUE_SIZE\<rparr>;
     q = (if q_tail q = q_head q then q\<lparr>q_empty := True\<rparr> else q)
   in (item, q\<lparr>q_full := False\<rparr>))"

text \<open>
  A call that runs undisturbed: it returns a status and the new queue, or waits on a
  condition variable.
\<close>

datatype 'a outcome = Returns int 'a | Waits

definition queue_add :: "PCQueue \<Rightarrow> WorkItem \<Rightarrow> PCQueue outcome" where
  "queue_add q item =
     (if q_exit_flag q then Returns (- 1) q
      else if q_full q then Waits
      else Returns 0 (queue_put item q))"

definition queue_remove :: "PCQueue \<Rightarrow> (WorkItem option \<times> PCQueue) outcome" where
  "queue_remove q =
     (if q_empty q then (if q_exit_flag q then Returns (- 1) (None, q) else Waits)
      else Returns 0 (queue_take q))"

section \<open>The ring as a list\<close>

definition item_count :: "PCQueue \<Rightarrow> nat" where
  "item_count q = (if q_full q then QUEUE_SIZE else if q_empty q then 0
     else (q_tail q + QUEUE_SIZE - q_head q) mod QUEUE_SIZE)"

definition slot :: "PCQueue \<Rightarrow> nat \<Rightarrow> WorkItem option" where
  "slot q k = q_buffer q ! ((q_head q + k) mod QUEUE_SIZE)"

definition contents :: "PCQueue \<Rightarrow> WorkItem list" where
  "contents q = map (\<lambda>k. the (slot q k)) [0..<item_count q]"

definition wf_queue :: "PCQueue \<Rightarrow> bool" where
  "wf_queue q \<longleftrightarrow> length (q_buffer q) = QUEUE_SIZE \<and> q_head q < QUEUE_SIZE \<and> q_tail q < QUEUE_SIZE \<and>
     \<not> (q_full q \<and> q_empty q) \<and> (q_head q = q_tail q \<longleftrightarrow> q_full q \<or> q_empty q) \<and>
     (\<forall>k < item_count q. slot q k \<noteq> None)"

lemma QUEUE_SIZE_pos [simp]: "0 < QUEUE_SIZE"
  by (simp add: QUEUE_SIZE_def)

text \<open>Positions in the ring.\<close>

lemma ring_add_inj:
  assumes "j < n" "k < n" and "(h + j) mod n = (h + k) mod (n :: nat)"
  shows "j = k"
proof -
  have *: "a = b" if "a \<le> b" "b < n" "(h + a) mod n = (h + b) mod n" for a b
  proof -
    have "n dvd (h + b) - (h + a)"
      using that by (metis add_le_cancel_left mod_eq_dvd_iff_nat)
    then have "n dvd b - a" by simp
    then show ?thesis using that dvd_imp_le [of n "b - a"] by linarith
  qed
  show ?thesis using *[of j k] *[of k j] assms by (cases "j \<le> k") auto
qed

lemma ring_distance:
  "h < n \<Longrightarrow> t < n \<Longrightarrow> h \<noteq> t \<Longrightarrow> (t + n - h) mod n = (if h < t then t - h else t + n - h :: nat)"
  by (simp add: mod_if)

lemma ring_count_put:
  fixes h t n :: nat
  assumes "h < n" "t < n" "h \<noteq> t" and "t' = (if t + 1 = n then 0 else t + 1)"
  shows "(if t' = h then n else if h < t' then t' - h else t' + n - h) =
    (if h < t then t - h else t + n - h) + 1"
  using assms by (cases "t + 1 = n"; cases "h < t") auto

lemma ring_count_take:
  fixes h t n :: nat
  assumes "h < n" "t < n" "h \<noteq> t" and "h' = (if h + 1 = n then 0 else h + 1)"
  shows "(if h < t then t - h else t + n - h) =
    Suc (if t = h' then 0 else if h' < t then t - h' else t + n - h')"
  using assms by (cases "h + 1 = n"; cases "h < t") auto

lemma item_count_cases:
  assumes "wf_queue q" and "\<not> q_full q" and "\<not> q_empty q"
  shows "item_count q = (if q_head q < q_tail q then q_tail q - q_head q
    else q_tail q + QUEUE_SIZE - q_head q)"
  using assms ring_distance [of "q_head q" QUEUE_SIZE "q_tail q"]
  by (auto simp: item_count_def wf_queue_def)

lemma tail_position:
  assumes "wf_queue q"
  shows "(q_head q + item_count q) mod QUEUE_SIZE = q_tail q"
proof (cases "q_full q \<or> q_empty q")
  case True
  then show ?thesis using assms by (auto simp: wf_queue_def item_count_def)
next
  case False
  then show ?thesis using assms item_count_cases [OF assms] by (auto simp: wf_queue_def)
qed

lemma item_count_le: "item_count q \<le> QUEUE_SIZE"
  by (simp add: item_count_def less_imp_le)

lemma item_count_full: "wf_queue q \<Longrightarrow> item_count q = QUEUE_SIZE \<longleftrightarrow> q_full q"
proof -
  have "(q_tail q + QUEUE_SIZE - q_head q) mod QUEUE_SIZE < QUEUE_SIZE" by simp
  then show ?thesis unfolding item_count_def using QUEUE_SIZE_pos by (auto simp del: QUEUE_SIZE_pos mod_less_divisor)
qed

lemma item_count_empty:
  assumes "wf_queue q"
  shows "item_count q = 0 \<longleftrightarrow> q_empty q"
proof (cases "q_full q \<or> q_empty q")
  case True
  then show ?thesis using assms by (auto simp: item_count_def wf_queue_def)
next
  case False
  then show ?thesis using assms item_count_cases [OF assms] by (auto simp: wf_queue_def)
qed

lemma length_contents [simp]: "length (contents q) = item_count q"
  by (simp add: contents_def)

lemma contents_full: "wf_queue q \<Longrightarrow> q_full q \<longleftrightarrow> length (contents q) = QUEUE_SIZE"
  by (simp add: item_count_full)

lemma contents_empty: "wf_queue q \<Longrightarrow> q_empty q \<longleftrightarrow> contents q = []"
  using item_count_empty [of q] by (simp add: contents_def)

section \<open>The operations on lists\<close>

lemma wf_queue_init [simp, intro]: "wf_queue queue_init"
  by (simp add: wf_queue_def queue_init_def Let_def item_count_def)

lemma queue_init_simps [simp]:
  "\<not> q_full queue_init" "q_empty queue_init" "\<not> q_exit_flag queue_init" "item_count queue_init = 0"
  by (simp_all add: queue_init_def Let_def item_count_def)

lemma contents_init [simp]: "contents queue_init = []"
  by (simp add: contents_def item_count_def queue_init_def Let_def)

lemma queue_put_simps [simp]:
  "q_buffer (queue_put x q) = (q_buffer q)[q_tail q := Some x]"
  "q_head (queue_put x q) = q_head q"
  "q_tail (queue_put x q) = (q_tail q + 1) mod QUEUE_SIZE"
  "q_full (queue_put x q) \<longleftrightarrow> q_full q \<or> (q_tail q + 1) mod QUEUE_SIZE = q_head q"
  "q_empty (queue_put x q) = False"
  "q_exit_flag (queue_put x q) = q_exit_flag q"
  by (simp_all add: queue_put_def Let_def)

lemma queue_take_simps [simp]:
  "q_buffer (snd (queue_take q)) = q_buffer q"
  "q_head (snd (queue_take q)) = (q_head q + 1) mod QUEUE_SIZE"
  "q_tail (snd (queue_take q)) = q_tail q"
  "q_full (snd (queue_take q)) = False"
  "q_empty (snd (queue_take q)) \<longleftrightarrow> q_empty q \<or> q_tail q = (q_head q + 1) mod QUEUE_SIZE"
  "q_exit_flag (snd (queue_take q)) = q_exit_flag q"
  by (auto simp: queue_take_def Let_def)

lemma succ_mod: "a < n \<Longrightarrow> (a + 1) mod n = (if a + 1 = n then 0 else a + 1 :: nat)"
  by simp

lemma item_count_put:
  assumes "wf_queue q" and "\<not> q_full q"
  shows "item_count (queue_put x q) = item_count q + 1"
proof (cases "q_empty q")
  case True
  then have "item_count q = 0" and "q_head q = q_tail q" and "q_tail q < QUEUE_SIZE"
    using assms by (auto simp: item_count_def wf_queue_def)
  then show ?thesis using succ_mod [of "q_tail q" QUEUE_SIZE]
    by (auto simp: item_count_def QUEUE_SIZE_def split: if_splits)
next
  case False
  note c = item_count_cases [OF assms False]
  have "q_head q \<noteq> q_tail q" "q_tail q < QUEUE_SIZE" "q_head q < QUEUE_SIZE"
    using assms False by (auto simp: wf_queue_def)
  note h = this
  let ?t = "(q_tail q + 1) mod QUEUE_SIZE"
  have t: "?t = (if q_tail q + 1 = QUEUE_SIZE then 0 else q_tail q + 1)" using h by simp
  have n: "item_count (queue_put x q) =
      (if ?t = q_head q then QUEUE_SIZE else if q_head q < ?t then ?t - q_head q else ?t + QUEUE_SIZE - q_head q)"
    using assms(2) h ring_distance [of "q_head q" QUEUE_SIZE ?t] by (auto simp: item_count_def)
  show ?thesis unfolding n c using h(3,2,1) t by (rule ring_count_put)
qed

lemma slot_put:
  assumes "wf_queue q" and "\<not> q_full q" and "k \<le> item_count q"
  shows "slot (queue_put x q) k = (if k = item_count q then Some x else slot q k)"
proof -
  have c: "item_count q < QUEUE_SIZE"
    using item_count_full [OF assms(1)] item_count_le [of q] assms(2) by (simp add: le_less)
  have t: "q_tail q < QUEUE_SIZE" "length (q_buffer q) = QUEUE_SIZE"
    using assms(1) by (simp_all add: wf_queue_def)
  have "(q_head q + k) mod QUEUE_SIZE = q_tail q \<longleftrightarrow> k = item_count q"
    using ring_add_inj [of k QUEUE_SIZE "item_count q" "q_head q"] tail_position [OF assms(1)] assms(3) c
    by auto
  then show ?thesis using t by (auto simp: slot_def)
qed

lemma contents_put:
  assumes "wf_queue q" and "\<not> q_full q"
  shows "contents (queue_put x q) = contents q @ [x]"
  using assms by (simp add: contents_def item_count_put slot_put)

lemma wf_queue_put [wf_intros]:
  assumes "wf_queue q" and "\<not> q_full q"
  shows "wf_queue (queue_put x q)"
proof -
  have "\<forall>k < item_count (queue_put x q). slot (queue_put x q) k \<noteq> None"
    using assms slot_put [OF assms] by (auto simp: item_count_put wf_queue_def less_Suc_eq)
  moreover have "length (q_buffer q) = QUEUE_SIZE" "q_head q < QUEUE_SIZE"
    using assms(1) by (simp_all add: wf_queue_def)
  ultimately show ?thesis using assms(2) unfolding wf_queue_def [of "queue_put x q"] by auto
qed

lemma item_count_take:
  assumes "wf_queue q" and "\<not> q_empty q"
  shows "item_count q = Suc (item_count (snd (queue_take q)))"
proof (cases "q_full q")
  case True
  then have h: "q_tail q = q_head q" "q_head q < QUEUE_SIZE" using assms by (auto simp: wf_queue_def)
  show ?thesis
  proof (cases "q_head q + 1 = QUEUE_SIZE")
    case True
    then show ?thesis using h \<open>q_full q\<close> assms(2) by (auto simp: item_count_def QUEUE_SIZE_def)
  next
    case False
    then have "(q_head q + 1) mod QUEUE_SIZE = q_head q + 1" using h by simp
    then show ?thesis using h \<open>q_full q\<close> assms(2) QUEUE_SIZE_pos
      by (auto simp: item_count_def simp del: QUEUE_SIZE_pos)
  qed
next
  case False
  note c = item_count_cases [OF assms(1) False assms(2)]
  have h: "q_head q \<noteq> q_tail q" "q_tail q < QUEUE_SIZE" "q_head q < QUEUE_SIZE"
    using assms False by (auto simp: wf_queue_def)
  let ?h = "(q_head q + 1) mod QUEUE_SIZE"
  have t: "?h = (if q_head q + 1 = QUEUE_SIZE then 0 else q_head q + 1)" using h by simp
  have n: "item_count (snd (queue_take q)) =
      (if q_tail q = ?h then 0 else if ?h < q_tail q then q_tail q - ?h else q_tail q + QUEUE_SIZE - ?h)"
    using assms(2) h ring_distance [of ?h QUEUE_SIZE "q_tail q"] by (auto simp: item_count_def)
  show ?thesis unfolding n c using h(3,2) not_sym [OF h(1)] t
    by (intro ring_count_take) auto
qed

lemma slot_take: "slot (snd (queue_take q)) k = slot q (Suc k)"
  by (simp add: slot_def mod_add_left_eq)

lemma contents_take:
  assumes "wf_queue q" and "\<not> q_empty q"
  shows "fst (queue_take q) = Some (hd (contents q))"
    and "contents (snd (queue_take q)) = tl (contents q)" and "contents q \<noteq> []"
proof -
  note n = item_count_take [OF assms]
  have c: "contents q = the (slot q 0) # contents (snd (queue_take q))"
    unfolding contents_def n map_upt_Suc by (simp add: slot_take)
  then show "contents (snd (queue_take q)) = tl (contents q)" and "contents q \<noteq> []" by simp_all
  have "slot q 0 \<noteq> None" using assms(1) n by (simp add: wf_queue_def)
  then have "slot q 0 = Some (the (slot q 0))" by simp
  moreover have "fst (queue_take q) = slot q 0"
    using assms(1) by (simp add: queue_take_def Let_def slot_def wf_queue_def)
  ultimately show "fst (queue_take q) = Some (hd (contents q))" using c by simp
qed

lemma wf_queue_take [wf_intros]:
  assumes "wf_queue q" and "\<not> q_empty q"
  shows "wf_queue (snd (queue_take q))"
proof -
  have "\<forall>k < item_count (snd (queue_take q)). slot (snd (queue_take q)) k \<noteq> None"
    using assms item_count_take [OF assms] by (auto simp: slot_take wf_queue_def)
  moreover have "length (q_buffer q) = QUEUE_SIZE" "q_tail q < QUEUE_SIZE"
    using assms(1) by (simp_all add: wf_queue_def)
  ultimately show ?thesis using assms(2) unfolding wf_queue_def [of "snd (queue_take q)"] by auto
qed

lemma item_count_exit [simp]: "item_count (q\<lparr>q_exit_flag := b\<rparr>) = item_count q"
  by (simp add: item_count_def)

lemma queue_exit [simp]:
  "wf_queue (q\<lparr>q_exit_flag := b\<rparr>) = wf_queue q" "contents (q\<lparr>q_exit_flag := b\<rparr>) = contents q"
  by (simp_all add: wf_queue_def contents_def item_count_def slot_def)

section \<open>The ring implements the contract\<close>

interpretation ring: bounded_fifo wf_queue contents queue_put queue_take q_full q_empty QUEUE_SIZE
  by unfold_locales
    ((rule wf_intros contents_put contents_take contents_empty contents_full; assumption)
      | simp add: item_count_le)+

definition sample_item :: WorkItem where
  "sample_item = \<lparr>item_trade = \<lparr>trade_p = Fin 5, trade_s_index = 3, trade_t = 1000, trade_v = Fin 2\<rparr>,
     item_event_time = \<lparr>tv_sec = 7, tv_usec = 8\<rparr>\<rparr>"

text \<open>
  C24: \<^verbatim>\<open>queue_add\<close> on every branch, over the list of items: with the exit flag set it
  refuses with -1 and changes nothing; with 2000 items it waits; otherwise it returns 0 and
  the item is the last of the list.
\<close>

theorem queue_add_refines:
  assumes "wf_queue q"
  shows "queue_add q x =
      (if q_exit_flag q then Returns (- 1) q
       else if length (contents q) = 2000 then Waits else Returns 0 (queue_put x q)) \<and>
    (length (contents q) < 2000 \<longrightarrow>
      wf_queue (queue_put x q) \<and> contents (queue_put x q) = contents q @ [x] \<and>
      q_exit_flag (queue_put x q) = q_exit_flag q)"
  using ring.full_iff [OF assms] ring.items_put [OF assms] ring.inv_put [OF assms]
  by (auto simp: queue_add_def QUEUE_SIZE_def)

lemma queue_add_refines_witness:
  "contents (queue_put sample_item queue_init) = [sample_item] \<and>
   queue_add queue_init sample_item = Returns 0 (queue_put sample_item queue_init)"
  using queue_add_refines [OF wf_queue_init, of sample_item] by simp

text \<open>
  C25: \<^verbatim>\<open>queue_remove\<close> on every branch: as long as there are items it delivers the first
  one with status 0, also after the exit order; only an empty queue makes it return -1 (exit
  ordered) or wait.  The delivered slot was always written before.
\<close>

theorem queue_remove_refines:
  assumes "wf_queue q"
  shows "queue_remove q =
      (if contents q = [] then (if q_exit_flag q then Returns (- 1) (None, q) else Waits)
       else Returns 0 (Some (hd (contents q)), snd (queue_take q))) \<and>
    (contents q \<noteq> [] \<longrightarrow>
      wf_queue (snd (queue_take q)) \<and> contents (snd (queue_take q)) = tl (contents q) \<and>
      q_exit_flag (snd (queue_take q)) = q_exit_flag q)"
  using ring.empty_iff [OF assms] ring.fst_get [OF assms] ring.items_get [OF assms] ring.inv_get [OF assms]
  by (auto simp: queue_remove_def prod_eq_iff)

lemma queue_remove_refines_witness:
  "queue_remove (queue_put sample_item queue_init) =
     Returns 0 (Some sample_item, snd (queue_take (queue_put sample_item queue_init)))"
proof -
  have q: "wf_queue queue_init" "\<not> q_full queue_init" by simp_all
  show ?thesis
    using queue_remove_refines [OF ring.inv_put [OF q, of sample_item]] ring.items_put [OF q, of sample_item]
    by simp
qed

text \<open>
  The ring buffer is a queue: for every sequence of insertions and removals that starts
  with a new queue, the items accepted are, in order, the items delivered followed by those
  still inside, at most 2000 are inside, and no removal reads an unwritten slot.
\<close>

theorem queue_is_fifo:
  assumes "fifo_run q_full q_empty queue_put queue_take ops queue_init = (ins, outs, q)"
  shows "\<exists>ys. outs = map Some ys \<and> ins = ys @ contents q \<and> length (contents q) \<le> 2000 \<and> wf_queue q"
  using ring.run_in_order [OF wf_queue_init assms] ring.run_within [OF wf_queue_init assms]
  by (auto simp: QUEUE_SIZE_def)

lemma queue_is_fifo_witness:
  "\<exists>ins outs q ys. fifo_run q_full q_empty queue_put queue_take [Put sample_item, Get, Get] queue_init = (ins, outs, q)
     \<and> outs = map Some ys \<and> ins = ys @ contents q"
proof -
  obtain ins outs q where r:
    "fifo_run q_full q_empty queue_put queue_take [Put sample_item, Get, Get] queue_init = (ins, outs, q)"
    using prod_cases3 by blast
  from queue_is_fifo [OF r] r show ?thesis by blast
qed

text \<open>
  \<^verbatim>\<open>queue_init\<close> initialises \<^verbatim>\<open>not_full\<close> twice and \<^verbatim>\<open>not_empty\<close> never, so
  the consumers wait on, and \<^verbatim>\<open>queue_destory\<close> destroys, a condition variable that was
  only allocated.
\<close>

theorem queue_init_forgets_not_empty:
  "q_not_empty queue_init = Allocated \<and> q_not_full queue_init = Reinitialised \<and>
   q_mut queue_init = Ready \<and> q_producer_lock queue_init = Ready \<and>
   q_not_empty (queue_destory queue_init) = Misused"
  by (simp add: queue_init_def queue_destory_def Let_def)

end
