(* ===== verification/Enumerations.thy ===== *)
theory Enumerations
  imports Prelude
begin

text \<open>
  Enumerations and option bits of C headers.  An enumeration is a datatype with the function
  that gives each enumerator its integer; what C code does with it (compare, switch, print)
  it does with that integer.  The locale \<open>c_enum\<close> is the contract of a list of enumerators
  with different integers: then the integer can be read back.  The locale \<open>bit_options\<close> is
  the contract of options that are or-ed into a word and tested with a mask.
\<close>

unbundle bit_operations_syntax

text \<open>Addresses of the 32-bit target; 0 is the null pointer.\<close>

type_synonym pointer = "32 word"

section \<open>Reading an integer back\<close>

definition enumerator :: "('a \<Rightarrow> int) \<Rightarrow> 'a list \<Rightarrow> int \<Rightarrow> 'a option" where
  "enumerator code members i = find (\<lambda>x. code x = i) members"

lemma enumerator_eq_Some:
  "distinct (map code members) \<Longrightarrow> enumerator code members i = Some x \<longleftrightarrow> x \<in> set members \<and> code x = i"
  by (induction members) (auto simp: enumerator_def)

lemma enumerator_eq_None: "enumerator code members i = None \<longleftrightarrow> i \<notin> code ` set members"
  by (auto simp: enumerator_def find_None_iff)

locale c_enum =
  fixes code :: "'a \<Rightarrow> int" and members :: "'a list"
  assumes codes_distinct: "distinct (map code members)"
begin

lemma code_eq_iff: "x \<in> set members \<Longrightarrow> y \<in> set members \<Longrightarrow> code x = code y \<longleftrightarrow> x = y"
  using codes_distinct by (auto simp: distinct_map dest: inj_onD)

lemma read_back: "x \<in> set members \<Longrightarrow> enumerator code members (code x) = Some x"
  using codes_distinct by (simp add: enumerator_eq_Some)

lemma read_someD: "enumerator code members i = Some x \<Longrightarrow> x \<in> set members \<and> code x = i"
  using codes_distinct by (simp add: enumerator_eq_Some)

lemma read_none: "enumerator code members i = None \<longleftrightarrow> i \<notin> code ` set members"
  by (rule enumerator_eq_None)

lemma card_codes: "card (code ` set members) = length members"
  using codes_distinct by (metis distinct_card length_map list.set_map)

end

section \<open>Option bits\<close>

text \<open>The word \<^verbatim>\<open>1 << k\<close>, and the or of several words.\<close>

definition shl :: "nat \<Rightarrow> 'w :: len word" where
  "shl k = push_bit k 1"

lemma bit_shl: "bit (shl k :: 'w :: len word) n \<longleftrightarrow> n = k \<and> k < LENGTH('w)"
  by (cases "k < LENGTH('w)") (auto simp: shl_def bit_exp_iff)

text \<open>The test of one bit, as C code writes it.\<close>

lemma and_shl_nonzero: "w AND shl k \<noteq> 0 \<longleftrightarrow> bit w k" for w :: "'w :: len word"
proof
  assume "w AND shl k \<noteq> 0"
  then have "\<exists>n. bit (w AND shl k) n" by (rule contrapos_np) (auto intro!: bit_eqI)
  then show "bit w k" by (auto simp: bit_and_iff bit_shl)
next
  assume "bit w k"
  then have "bit (w AND shl k) k" by (simp add: bit_and_iff bit_shl bit_imp_le_length)
  then show "w AND shl k \<noteq> 0" by auto
qed

definition or_all :: "'w :: len word list \<Rightarrow> 'w word" where
  "or_all ws = foldr (\<lambda>w acc. w OR acc) ws 0"

lemma or_all_simps [simp]: "or_all [] = 0" "or_all (w # ws) = w OR or_all ws"
  by (simp_all add: or_all_def)

lemma bit_or_all: "bit (or_all ws) n \<longleftrightarrow> (\<exists>w \<in> set ws. bit w n)"
  by (induction ws) (auto simp: bit_or_iff)

text \<open>All bits of \<open>f\<close> are set in \<open>c\<close>.\<close>

definition has_bits :: "'w :: len word \<Rightarrow> 'w word \<Rightarrow> bool" where
  "has_bits c f \<longleftrightarrow> c AND f = f"

lemma has_bits_iff: "has_bits c f \<longleftrightarrow> (\<forall>n. bit f n \<longrightarrow> bit c n)"
proof
  assume "has_bits c f"
  then have "bit (c AND f) n = bit f n" for n by (simp add: has_bits_def)
  then show "\<forall>n. bit f n \<longrightarrow> bit c n" by (auto simp only: bit_and_iff)
next
  assume "\<forall>n. bit f n \<longrightarrow> bit c n"
  then have "bit (c AND f) n = bit f n" for n by (auto simp only: bit_and_iff)
  then show "has_bits c f" unfolding has_bits_def by (simp add: bit_eq_iff)
qed

lemma has_bits_refl [simp]: "has_bits f f"
  by (simp add: has_bits_def)

lemma has_bits_zero [simp]: "has_bits c 0"
  by (simp add: has_bits_def)

text \<open>
  Options with one bit of their own each (\<open>own\<close>), whose word also sets the bits of the options
  that they provide.  A combination of options then contains an option exactly if it contains
  everything that the option provides.
\<close>

locale bit_options =
  fixes mask_of :: "'a \<Rightarrow> 'w :: len word" and own :: "'a \<Rightarrow> nat" and provides :: "'a \<Rightarrow> 'a list"
  assumes mask_bits: "bit (mask_of x) n \<longleftrightarrow> (\<exists>y \<in> set (provides x). n = own y)"
    and own_inject: "own x = own y \<Longrightarrow> x = y"
begin

lemma read_options:
  "has_bits (or_all (map mask_of xs)) (mask_of x) \<longleftrightarrow> set (provides x) \<subseteq> (\<Union>y \<in> set xs. set (provides y))"
  by (auto simp: has_bits_iff bit_or_all mask_bits dest: own_inject)

lemma read_one:
  "provides y = [y] \<Longrightarrow> provides x \<noteq> [] \<Longrightarrow> has_bits (mask_of y) (mask_of x) \<longleftrightarrow> set (provides x) = {y}"
  using read_options [of "[y]" x] by (cases "provides x") auto

end

end
