(* ===== verification/Lejp.thy ===== *)
theory Lejp
  imports Enumerations
begin

text \<open>
  \<^verbatim>\<open>lws-lejp.h\<close>: what the JSON parser of libwebsockets tells its user.  The states of the
  parser, the results of \<^verbatim>\<open>lejp_parse\<close>, the reasons of its callback and the limits and the
  layout of its context.  The parser itself is in the library and is not modelled.
\<close>

definition LEJP_FLAG_WS_KEEP :: int where
  "LEJP_FLAG_WS_KEEP = 64"

definition LEJP_FLAG_CB_IS_VALUE :: int where
  "LEJP_FLAG_CB_IS_VALUE = 64"

section \<open>States, results and callbacks\<close>

datatype lejp_states =
    LEJP_IDLE
  | LEJP_MEMBERS
  | LEJP_M_P
  | LEJP_MP_STRING
  | LEJP_MP_STRING_ESC
  | LEJP_MP_STRING_ESC_U1
  | LEJP_MP_STRING_ESC_U2
  | LEJP_MP_STRING_ESC_U3
  | LEJP_MP_STRING_ESC_U4
  | LEJP_MP_DELIM
  | LEJP_MP_VALUE
  | LEJP_MP_VALUE_NUM_INT
  | LEJP_MP_VALUE_NUM_EXP
  | LEJP_MP_VALUE_TOK
  | LEJP_MP_COMMA_OR_END
  | LEJP_MP_ARRAY_END

primrec state_code :: "lejp_states \<Rightarrow> int" where
  "state_code LEJP_IDLE = 0"
| "state_code LEJP_MEMBERS = 1"
| "state_code LEJP_M_P = 2"
| "state_code LEJP_MP_STRING = LEJP_FLAG_WS_KEEP OR 3"
| "state_code LEJP_MP_STRING_ESC = LEJP_FLAG_WS_KEEP OR 4"
| "state_code LEJP_MP_STRING_ESC_U1 = LEJP_FLAG_WS_KEEP OR 5"
| "state_code LEJP_MP_STRING_ESC_U2 = LEJP_FLAG_WS_KEEP OR 6"
| "state_code LEJP_MP_STRING_ESC_U3 = LEJP_FLAG_WS_KEEP OR 7"
| "state_code LEJP_MP_STRING_ESC_U4 = LEJP_FLAG_WS_KEEP OR 8"
| "state_code LEJP_MP_DELIM = 9"
| "state_code LEJP_MP_VALUE = 10"
| "state_code LEJP_MP_VALUE_NUM_INT = LEJP_FLAG_WS_KEEP OR 11"
| "state_code LEJP_MP_VALUE_NUM_EXP = LEJP_FLAG_WS_KEEP OR 12"
| "state_code LEJP_MP_VALUE_TOK = LEJP_FLAG_WS_KEEP OR 13"
| "state_code LEJP_MP_COMMA_OR_END = 14"
| "state_code LEJP_MP_ARRAY_END = 15"

definition lejp_state_list :: "lejp_states list" where
  "lejp_state_list = [
     LEJP_IDLE,
     LEJP_MEMBERS,
     LEJP_M_P,
     LEJP_MP_STRING,
     LEJP_MP_STRING_ESC,
     LEJP_MP_STRING_ESC_U1,
     LEJP_MP_STRING_ESC_U2,
     LEJP_MP_STRING_ESC_U3,
     LEJP_MP_STRING_ESC_U4,
     LEJP_MP_DELIM,
     LEJP_MP_VALUE,
     LEJP_MP_VALUE_NUM_INT,
     LEJP_MP_VALUE_NUM_EXP,
     LEJP_MP_VALUE_TOK,
     LEJP_MP_COMMA_OR_END,
     LEJP_MP_ARRAY_END]"

lemma lejp_state_list_complete [simp]: "r \<in> set lejp_state_list"
  by (cases r) (simp_all add: lejp_state_list_def)

datatype lejp_reasons =
    LEJP_CONTINUE
  | LEJP_REJECT_IDLE_NO_BRACE
  | LEJP_REJECT_MEMBERS_NO_CLOSE
  | LEJP_REJECT_MP_NO_OPEN_QUOTE
  | LEJP_REJECT_MP_STRING_UNDERRUN
  | LEJP_REJECT_MP_ILLEGAL_CTRL
  | LEJP_REJECT_MP_STRING_ESC_ILLEGAL_ESC
  | LEJP_REJECT_ILLEGAL_HEX
  | LEJP_REJECT_MP_DELIM_MISSING_COLON
  | LEJP_REJECT_MP_DELIM_BAD_VALUE_START
  | LEJP_REJECT_MP_VAL_NUM_INT_NO_FRAC
  | LEJP_REJECT_MP_VAL_NUM_FORMAT
  | LEJP_REJECT_MP_VAL_NUM_EXP_BAD_EXP
  | LEJP_REJECT_MP_VAL_TOK_UNKNOWN
  | LEJP_REJECT_MP_C_OR_E_UNDERF
  | LEJP_REJECT_MP_C_OR_E_NOTARRAY
  | LEJP_REJECT_MP_ARRAY_END_MISSING
  | LEJP_REJECT_STACK_OVERFLOW
  | LEJP_REJECT_MP_DELIM_ISTACK
  | LEJP_REJECT_NUM_TOO_LONG
  | LEJP_REJECT_MP_C_OR_E_NEITHER
  | LEJP_REJECT_UNKNOWN
  | LEJP_REJECT_CALLBACK

primrec result_code :: "lejp_reasons \<Rightarrow> int" where
  "result_code LEJP_CONTINUE = - 1"
| "result_code LEJP_REJECT_IDLE_NO_BRACE = - 2"
| "result_code LEJP_REJECT_MEMBERS_NO_CLOSE = - 3"
| "result_code LEJP_REJECT_MP_NO_OPEN_QUOTE = - 4"
| "result_code LEJP_REJECT_MP_STRING_UNDERRUN = - 5"
| "result_code LEJP_REJECT_MP_ILLEGAL_CTRL = - 6"
| "result_code LEJP_REJECT_MP_STRING_ESC_ILLEGAL_ESC = - 7"
| "result_code LEJP_REJECT_ILLEGAL_HEX = - 8"
| "result_code LEJP_REJECT_MP_DELIM_MISSING_COLON = - 9"
| "result_code LEJP_REJECT_MP_DELIM_BAD_VALUE_START = - 10"
| "result_code LEJP_REJECT_MP_VAL_NUM_INT_NO_FRAC = - 11"
| "result_code LEJP_REJECT_MP_VAL_NUM_FORMAT = - 12"
| "result_code LEJP_REJECT_MP_VAL_NUM_EXP_BAD_EXP = - 13"
| "result_code LEJP_REJECT_MP_VAL_TOK_UNKNOWN = - 14"
| "result_code LEJP_REJECT_MP_C_OR_E_UNDERF = - 15"
| "result_code LEJP_REJECT_MP_C_OR_E_NOTARRAY = - 16"
| "result_code LEJP_REJECT_MP_ARRAY_END_MISSING = - 17"
| "result_code LEJP_REJECT_STACK_OVERFLOW = - 18"
| "result_code LEJP_REJECT_MP_DELIM_ISTACK = - 19"
| "result_code LEJP_REJECT_NUM_TOO_LONG = - 20"
| "result_code LEJP_REJECT_MP_C_OR_E_NEITHER = - 21"
| "result_code LEJP_REJECT_UNKNOWN = - 22"
| "result_code LEJP_REJECT_CALLBACK = - 23"

definition lejp_reason_list :: "lejp_reasons list" where
  "lejp_reason_list = [
     LEJP_CONTINUE,
     LEJP_REJECT_IDLE_NO_BRACE,
     LEJP_REJECT_MEMBERS_NO_CLOSE,
     LEJP_REJECT_MP_NO_OPEN_QUOTE,
     LEJP_REJECT_MP_STRING_UNDERRUN,
     LEJP_REJECT_MP_ILLEGAL_CTRL,
     LEJP_REJECT_MP_STRING_ESC_ILLEGAL_ESC,
     LEJP_REJECT_ILLEGAL_HEX,
     LEJP_REJECT_MP_DELIM_MISSING_COLON,
     LEJP_REJECT_MP_DELIM_BAD_VALUE_START,
     LEJP_REJECT_MP_VAL_NUM_INT_NO_FRAC,
     LEJP_REJECT_MP_VAL_NUM_FORMAT,
     LEJP_REJECT_MP_VAL_NUM_EXP_BAD_EXP,
     LEJP_REJECT_MP_VAL_TOK_UNKNOWN,
     LEJP_REJECT_MP_C_OR_E_UNDERF,
     LEJP_REJECT_MP_C_OR_E_NOTARRAY,
     LEJP_REJECT_MP_ARRAY_END_MISSING,
     LEJP_REJECT_STACK_OVERFLOW,
     LEJP_REJECT_MP_DELIM_ISTACK,
     LEJP_REJECT_NUM_TOO_LONG,
     LEJP_REJECT_MP_C_OR_E_NEITHER,
     LEJP_REJECT_UNKNOWN,
     LEJP_REJECT_CALLBACK]"

lemma lejp_reason_list_complete [simp]: "r \<in> set lejp_reason_list"
  by (cases r) (simp_all add: lejp_reason_list_def)

datatype lejp_callbacks =
    LEJPCB_CONSTRUCTED
  | LEJPCB_DESTRUCTED
  | LEJPCB_START
  | LEJPCB_COMPLETE
  | LEJPCB_FAILED
  | LEJPCB_PAIR_NAME
  | LEJPCB_VAL_TRUE
  | LEJPCB_VAL_FALSE
  | LEJPCB_VAL_NULL
  | LEJPCB_VAL_NUM_INT
  | LEJPCB_VAL_NUM_FLOAT
  | LEJPCB_VAL_STR_START
  | LEJPCB_VAL_STR_CHUNK
  | LEJPCB_VAL_STR_END
  | LEJPCB_ARRAY_START
  | LEJPCB_ARRAY_END
  | LEJPCB_OBJECT_START
  | LEJPCB_OBJECT_END
  | LEJPCB_USER_START

primrec callback_code :: "lejp_callbacks \<Rightarrow> int" where
  "callback_code LEJPCB_CONSTRUCTED = 0"
| "callback_code LEJPCB_DESTRUCTED = 1"
| "callback_code LEJPCB_START = 2"
| "callback_code LEJPCB_COMPLETE = 3"
| "callback_code LEJPCB_FAILED = 4"
| "callback_code LEJPCB_PAIR_NAME = 5"
| "callback_code LEJPCB_VAL_TRUE = LEJP_FLAG_CB_IS_VALUE OR 6"
| "callback_code LEJPCB_VAL_FALSE = LEJP_FLAG_CB_IS_VALUE OR 7"
| "callback_code LEJPCB_VAL_NULL = LEJP_FLAG_CB_IS_VALUE OR 8"
| "callback_code LEJPCB_VAL_NUM_INT = LEJP_FLAG_CB_IS_VALUE OR 9"
| "callback_code LEJPCB_VAL_NUM_FLOAT = LEJP_FLAG_CB_IS_VALUE OR 10"
| "callback_code LEJPCB_VAL_STR_START = 11"
| "callback_code LEJPCB_VAL_STR_CHUNK = LEJP_FLAG_CB_IS_VALUE OR 12"
| "callback_code LEJPCB_VAL_STR_END = LEJP_FLAG_CB_IS_VALUE OR 13"
| "callback_code LEJPCB_ARRAY_START = 14"
| "callback_code LEJPCB_ARRAY_END = 15"
| "callback_code LEJPCB_OBJECT_START = 16"
| "callback_code LEJPCB_OBJECT_END = 17"
| "callback_code LEJPCB_USER_START = 32"

definition lejp_callback_list :: "lejp_callbacks list" where
  "lejp_callback_list = [
     LEJPCB_CONSTRUCTED,
     LEJPCB_DESTRUCTED,
     LEJPCB_START,
     LEJPCB_COMPLETE,
     LEJPCB_FAILED,
     LEJPCB_PAIR_NAME,
     LEJPCB_VAL_TRUE,
     LEJPCB_VAL_FALSE,
     LEJPCB_VAL_NULL,
     LEJPCB_VAL_NUM_INT,
     LEJPCB_VAL_NUM_FLOAT,
     LEJPCB_VAL_STR_START,
     LEJPCB_VAL_STR_CHUNK,
     LEJPCB_VAL_STR_END,
     LEJPCB_ARRAY_START,
     LEJPCB_ARRAY_END,
     LEJPCB_OBJECT_START,
     LEJPCB_OBJECT_END,
     LEJPCB_USER_START]"

lemma lejp_callback_list_complete [simp]: "r \<in> set lejp_callback_list"
  by (cases r) (simp_all add: lejp_callback_list_def)

interpretation states: c_enum state_code lejp_state_list
  by unfold_locales (simp add: lejp_state_list_def LEJP_FLAG_WS_KEEP_def)

interpretation results: c_enum result_code lejp_reason_list
  by unfold_locales (simp add: lejp_reason_list_def)

interpretation callbacks: c_enum callback_code lejp_callback_list
  by unfold_locales (simp add: lejp_callback_list_def LEJP_FLAG_CB_IS_VALUE_def)

text \<open>In these states white space is part of the text that is read.\<close>

definition keeps_whitespace :: "lejp_states \<Rightarrow> bool" where
  "keeps_whitespace st \<longleftrightarrow> state_code st AND LEJP_FLAG_WS_KEEP \<noteq> 0"

text \<open>These callbacks bring a value, or a part of one.\<close>

definition is_value :: "lejp_callbacks \<Rightarrow> bool" where
  "is_value r \<longleftrightarrow> callback_code r AND LEJP_FLAG_CB_IS_VALUE \<noteq> 0"

lemma is_value_iff: "is_value r \<longleftrightarrow>
    r \<in> {LEJPCB_VAL_TRUE, LEJPCB_VAL_FALSE, LEJPCB_VAL_NULL, LEJPCB_VAL_NUM_INT, LEJPCB_VAL_NUM_FLOAT,
      LEJPCB_VAL_STR_CHUNK, LEJPCB_VAL_STR_END}"
  by (cases r) (simp_all add: is_value_def LEJP_FLAG_CB_IS_VALUE_def)

lemma keeps_whitespace_iff: "keeps_whitespace st \<longleftrightarrow>
    st \<in> {LEJP_MP_STRING, LEJP_MP_STRING_ESC, LEJP_MP_STRING_ESC_U1, LEJP_MP_STRING_ESC_U2,
      LEJP_MP_STRING_ESC_U3, LEJP_MP_STRING_ESC_U4, LEJP_MP_VALUE_NUM_INT, LEJP_MP_VALUE_NUM_EXP,
      LEJP_MP_VALUE_TOK}"
  by (cases st) (simp_all add: keeps_whitespace_def LEJP_FLAG_WS_KEEP_def)

lemma result_codes: "result_code ` set lejp_reason_list = {- 23..- 1}"
proof -
  have "result_code ` set lejp_reason_list = set (rev [- 23..- 1])"
    unfolding lejp_reason_list_def by code_simp
  then show ?thesis unfolding set_rev set_upto by simp
qed

text \<open>
  A char of C holds eight bits; whether it is signed depends on the machine: on x86 it is, on
  the ARM target of this program it is not.
\<close>

definition signed_char :: "int \<Rightarrow> int" where
  "signed_char i = sint (word_of_int i :: 8 word)"

definition unsigned_char :: "int \<Rightarrow> int" where
  "unsigned_char i = uint (word_of_int i :: 8 word)"

lemma signed_char_small: "- 128 \<le> i \<Longrightarrow> i < 128 \<Longrightarrow> signed_char i = i"
  by (simp add: signed_char_def sint_sbintrunc' signed_take_bit_int_eq_self)

lemma unsigned_char_mod: "unsigned_char i = i mod 256"
  by (simp add: unsigned_char_def uint_word_of_int)

lemma callback_code_range: "0 \<le> callback_code r \<and> callback_code r < 128"
  by (cases r) (simp_all add: LEJP_FLAG_CB_IS_VALUE_def)

text \<open>
  The reason of a callback survives its passage through a char.  For every enumerator, the
  value flag included, signed and unsigned char give back the integer of the enumerator, and
  the enumerator is read back from it, so the switch of the callback means the same on every
  machine; negative results of \<^verbatim>\<open>lejp_parse\<close> would not survive in an unsigned char.
\<close>

lemma callback_reason_fits_char:
  "signed_char (callback_code r) = callback_code r \<and> unsigned_char (callback_code r) = callback_code r \<and>
   enumerator callback_code lejp_callback_list (unsigned_char (callback_code r)) = Some r \<and>
   signed_char (result_code e) = result_code e \<and> unsigned_char (result_code e) = result_code e + 256"
proof -
  have e: "- 23 \<le> result_code e \<and> result_code e \<le> - 1"
    using result_codes by (metis atLeastAtMost_iff imageI lejp_reason_list_complete)
  then have "result_code e mod 256 = (result_code e + 256) mod 256" by simp
  also have "\<dots> = result_code e + 256" using e by (intro mod_pos_pos_trivial) auto
  finally show ?thesis
    using e callback_code_range [of r] by (simp add: signed_char_small unsigned_char_mod callbacks.read_back)
qed

section \<open>Limits and context\<close>

definition LEJP_MAX_PARSING_STACK_DEPTH :: nat where
  "LEJP_MAX_PARSING_STACK_DEPTH = 8"

definition LEJP_MAX_DEPTH :: nat where
  "LEJP_MAX_DEPTH = 16"

definition LEJP_MAX_INDEX_DEPTH :: nat where
  "LEJP_MAX_INDEX_DEPTH = 12"

definition LEJP_MAX_PATH :: nat where
  "LEJP_MAX_PATH = 192"

definition LEJP_STRING_CHUNK :: nat where
  "LEJP_STRING_CHUNK = 254"

datatype num_flags = LEJP_SEEN_MINUS | LEJP_SEEN_POINT | LEJP_SEEN_POST_POINT | LEJP_SEEN_EXP

primrec num_flag_code :: "num_flags \<Rightarrow> int" where
  "num_flag_code LEJP_SEEN_MINUS = 2 ^ 0"
| "num_flag_code LEJP_SEEN_POINT = 2 ^ 1"
| "num_flag_code LEJP_SEEN_POST_POINT = 2 ^ 2"
| "num_flag_code LEJP_SEEN_EXP = 2 ^ 3"

definition LEJP_FLAG_FEAT_OBJECT_INDEXES :: "16 word" where
  "LEJP_FLAG_FEAT_OBJECT_INDEXES = 1"

definition LEJP_FLAG_FEAT_LEADING_WC :: "16 word" where
  "LEJP_FLAG_FEAT_LEADING_WC = 2"

definition LEJP_FLAG_LATEST :: "16 word" where
  "LEJP_FLAG_LATEST = LEJP_FLAG_FEAT_OBJECT_INDEXES OR LEJP_FLAG_FEAT_LEADING_WC"

text \<open>
  The context.  The two texts, up to their terminating zero, are what the callback of the
  program reads, so they come first and the rest extends them; the callback function that the
  parser calls and the paths are kept in the stack of parsers.
\<close>

record lejp_stack =
  stack_s :: "8 word"
  stack_p :: "8 word"
  stack_i :: "8 word"
  stack_b :: "8 word"

record lejp_parsing_stack =
  pst_user :: pointer
  pst_callback :: pointer
  pst_paths :: pointer
  pst_count_paths :: "8 word"
  pst_ppos :: "8 word"
  pst_path_match :: "8 word"

record lejp_ctx =
  ctx_path :: string
  ctx_buf :: string

record lejp_context = lejp_ctx +
  ctx_user :: pointer
  ctx_pst :: "lejp_parsing_stack list"
  ctx_st :: "lejp_stack list"
  ctx_i :: "16 word list"
  ctx_wild :: "16 word list"
  ctx_path_stride :: "32 word"
  ctx_line :: "32 word"
  ctx_uni :: "16 word"
  ctx_flags :: "16 word"
  ctx_npos :: "8 word"
  ctx_dcount :: "8 word"
  ctx_f :: "8 word"
  ctx_sp :: "8 word"
  ctx_ipos :: "8 word"
  ctx_count_paths :: "8 word"
  ctx_path_match :: "8 word"
  ctx_path_match_len :: "8 word"
  ctx_wildcount :: "8 word"
  ctx_pst_sp :: "8 word"
  ctx_outer_array :: "8 word"

text \<open>The lengths of the arrays, each text with its terminating zero.\<close>

definition lejp_arrays_ok :: "lejp_context \<Rightarrow> bool" where
  "lejp_arrays_ok ctx \<longleftrightarrow>
     length (ctx_pst ctx) = LEJP_MAX_PARSING_STACK_DEPTH \<and> length (ctx_st ctx) = LEJP_MAX_DEPTH \<and>
     length (ctx_i ctx) = LEJP_MAX_INDEX_DEPTH \<and> length (ctx_wild ctx) = LEJP_MAX_INDEX_DEPTH \<and>
     length (ctx_path ctx) + 1 \<le> LEJP_MAX_PATH \<and> length (ctx_buf ctx) + 1 \<le> LEJP_STRING_CHUNK + 1"

end
