(* ===== verification/JSONParsing.thy ===== *)
theory JSONParsing
  imports Symbols PCQueue Lejp
begin

text \<open>
  \<^verbatim>\<open>src/JSONParsing.c\<close>: the callback that the LEJP stream parser calls and the work item
  that it assembles.  The parser itself is not part of the program; a run is the sequence of
  its callbacks, each with the reason, the path and the text that the parser keeps in its
  context.  The clock is an input.  Messages to the terminal are left out.
\<close>

section \<open>The paths\<close>

definition my_paths :: "string list" where
  "my_paths = [''data[]'', ''data[].s'', ''data[].p'', ''data[].t'', ''data[].v'']"

text \<open>
  The construction of a parser for the callback, from the library's own constructor: the
  paths are those above, in order, and their number.
\<close>

definition construct_parser :: "(string list \<Rightarrow> nat \<Rightarrow> 'p) \<Rightarrow> 'p" where
  "construct_parser lejp_construct =
     (let path_pointers = [my_paths ! 0, my_paths ! 1, my_paths ! 2, my_paths ! 3, my_paths ! 4] in
      lejp_construct path_pointers (length my_paths))"

section \<open>The callback\<close>

text \<open>The two static variables of the callback, and their initial contents.\<close>

record json_state =
  current_work_item :: WorkItem
  trade_is_valid :: bool

definition json_init :: json_state where
  "json_init = \<lparr>current_work_item = \<lparr>item_trade = \<lparr>trade_p = Fin 0, trade_s_index = 0, trade_t = 0, trade_v = Fin 0\<rparr>,
     item_event_time = \<lparr>tv_sec = 0, tv_usec = 0\<rparr>\<rparr>, trade_is_valid = True\<rparr>"

definition upd_trade :: "(Trade \<Rightarrow> Trade) \<Rightarrow> json_state \<Rightarrow> json_state" where
  "upd_trade f st = st\<lparr>current_work_item := (current_work_item st)\<lparr>item_trade := f (item_trade (current_work_item st))\<rparr>\<rparr>"

text \<open>The validity flag after a conversion that stopped at \<open>rest\<close>.\<close>

definition check_end :: "string \<Rightarrow> json_state \<Rightarrow> json_state" where
  "check_end rest st = (if rest \<noteq> [] then st\<lparr>trade_is_valid := False\<rparr> else st)"

definition set_symbol :: "string \<Rightarrow> json_state \<Rightarrow> json_state" where
  "set_symbol buf st = (case find_symbol buf of
     None \<Rightarrow> st | Some i \<Rightarrow> upd_trade (\<lambda>tr. tr\<lparr>trade_s_index := of_nat i\<rparr>) st)"

definition set_t :: "string \<Rightarrow> json_state \<Rightarrow> json_state" where
  "set_t buf st = (let (x, rest) = strtoull buf in
     check_end rest (upd_trade (\<lambda>tr. tr\<lparr>trade_t := x\<rparr>) st))"

definition set_v :: "string \<Rightarrow> json_state \<Rightarrow> json_state" where
  "set_v buf st = (let (x, rest) = strtod buf in
     check_end rest (upd_trade (\<lambda>tr. tr\<lparr>trade_v := x\<rparr>) st))"

definition set_p :: "string \<Rightarrow> json_state \<Rightarrow> json_state" where
  "set_p buf st = (let (x, rest) = strtod buf in
     check_end rest (upd_trade (\<lambda>tr. tr\<lparr>trade_p := x\<rparr>) st))"

text \<open>What a callback does to the static variables.\<close>

fun json_update :: "timeval \<Rightarrow> lejp_callbacks \<Rightarrow> lejp_ctx \<Rightarrow> json_state \<Rightarrow> json_state" where
  "json_update now LEJPCB_START ctx st =
     st\<lparr>current_work_item := (current_work_item st)\<lparr>item_event_time := now\<rparr>\<rparr>"
| "json_update now LEJPCB_OBJECT_START ctx st =
     (if ctx_path ctx = ''data[]'' then st\<lparr>trade_is_valid := True\<rparr> else st)"
| "json_update now LEJPCB_VAL_STR_END ctx st =
     (if ctx_path ctx = ''data[].s'' then set_symbol (ctx_buf ctx) st else st)"
| "json_update now LEJPCB_VAL_NUM_INT ctx st =
     (if ctx_path ctx = ''data[].t'' then set_t (ctx_buf ctx) st
      else if ctx_path ctx = ''data[].v'' then set_v (ctx_buf ctx) st
      else if ctx_path ctx = ''data[].p'' then set_p (ctx_buf ctx) st
      else st)"
| "json_update now LEJPCB_VAL_NUM_FLOAT ctx st =
     (if ctx_path ctx = ''data[].p'' then set_p (ctx_buf ctx) st
      else if ctx_path ctx = ''data[].v'' then set_v (ctx_buf ctx) st
      else st)"
| "json_update now _ ctx st = st"

text \<open>The item that a callback hands to \<^verbatim>\<open>queue_add\<close>, if any.\<close>

fun json_emit :: "lejp_callbacks \<Rightarrow> lejp_ctx \<Rightarrow> json_state \<Rightarrow> WorkItem option" where
  "json_emit LEJPCB_OBJECT_END ctx st =
     (if trade_is_valid st \<and> ctx_path ctx = ''data[]'' then Some (current_work_item st) else None)"
| "json_emit _ ctx st = None"

text \<open>
  The callback on the first queue: the call of \<^verbatim>\<open>queue_add\<close> may have to wait, its status
  is ignored, and the callback itself always returns 0.
\<close>

definition json_callback ::
  "timeval \<Rightarrow> lejp_callbacks \<Rightarrow> lejp_ctx \<Rightarrow> json_state \<times> PCQueue \<Rightarrow> (json_state \<times> PCQueue) outcome" where
  "json_callback now reason ctx s = (let (st, q) = s; st' = json_update now reason ctx st in
     case json_emit reason ctx st of
       None \<Rightarrow> Returns 0 (st', q)
     | Some item \<Rightarrow> (case queue_add q item of Waits \<Rightarrow> Waits | Returns _ q' \<Rightarrow> Returns 0 (st', q')))"

text \<open>A sequence of callbacks: the final variables and the items handed over, in order.\<close>

type_synonym json_event = "lejp_callbacks \<times> lejp_ctx"

fun json_run :: "timeval \<Rightarrow> json_event list \<Rightarrow> json_state \<Rightarrow> json_state \<times> WorkItem list" where
  "json_run now [] st = (st, [])"
| "json_run now ((r, ctx) # evs) st =
     (let (st', items) = json_run now evs (json_update now r ctx st) in
      (st', (case json_emit r ctx st of None \<Rightarrow> items | Some it \<Rightarrow> it # items)))"

text \<open>The same sequence on the first queue, where a callback may have to wait for room.\<close>

fun json_callbacks ::
  "timeval \<Rightarrow> json_event list \<Rightarrow> json_state \<times> PCQueue \<Rightarrow> (json_state \<times> PCQueue) outcome" where
  "json_callbacks now [] s = Returns 0 s"
| "json_callbacks now ((r, ctx) # evs) s =
     (case json_callback now r ctx s of Waits \<Rightarrow> Waits | Returns _ s' \<Rightarrow> json_callbacks now evs s')"

section \<open>Frames of the updates\<close>

abbreviation work_trade :: "json_state \<Rightarrow> Trade" where
  "work_trade st \<equiv> item_trade (current_work_item st)"

abbreviation work_time :: "json_state \<Rightarrow> timeval" where
  "work_time st \<equiv> item_event_time (current_work_item st)"

lemma upd_trade_simps [simp]:
  "work_trade (upd_trade f st) = f (work_trade st)"
  "work_time (upd_trade f st) = work_time st"
  "trade_is_valid (upd_trade f st) = trade_is_valid st"
  by (simp_all add: upd_trade_def)

lemma check_end_simps [simp]:
  "current_work_item (check_end rest st) = current_work_item st"
  "trade_is_valid (check_end rest st) \<longleftrightarrow> rest = [] \<and> trade_is_valid st"
  by (simp_all add: check_end_def)

lemma set_t_simps [simp]:
  "work_trade (set_t buf st) = (work_trade st)\<lparr>trade_t := fst (strtoull buf)\<rparr>"
  "work_time (set_t buf st) = work_time st"
  "trade_is_valid (set_t buf st) \<longleftrightarrow> snd (strtoull buf) = [] \<and> trade_is_valid st"
  by (simp_all add: set_t_def case_prod_beta Let_def)

lemma set_v_simps [simp]:
  "work_trade (set_v buf st) = (work_trade st)\<lparr>trade_v := fst (strtod buf)\<rparr>"
  "work_time (set_v buf st) = work_time st"
  "trade_is_valid (set_v buf st) \<longleftrightarrow> snd (strtod buf) = [] \<and> trade_is_valid st"
  by (simp_all add: set_v_def case_prod_beta Let_def)

lemma set_p_simps [simp]:
  "work_trade (set_p buf st) = (work_trade st)\<lparr>trade_p := fst (strtod buf)\<rparr>"
  "work_time (set_p buf st) = work_time st"
  "trade_is_valid (set_p buf st) \<longleftrightarrow> snd (strtod buf) = [] \<and> trade_is_valid st"
  by (simp_all add: set_p_def case_prod_beta Let_def)

lemma set_symbol_simps [simp]:
  "work_trade (set_symbol buf st) = (case find_symbol buf of
     None \<Rightarrow> work_trade st | Some i \<Rightarrow> (work_trade st)\<lparr>trade_s_index := of_nat i\<rparr>)"
  "work_time (set_symbol buf st) = work_time st"
  "trade_is_valid (set_symbol buf st) = trade_is_valid st"
  by (simp_all add: set_symbol_def split: option.splits)

section \<open>One trade object\<close>

text \<open>
  The events between the start and the end of an object of the data array: neither a new
  message nor an object of the array begins or ends among them.
\<close>

definition inner_event :: "json_event \<Rightarrow> bool" where
  "inner_event e \<longleftrightarrow> fst e \<noteq> LEJPCB_START \<and>
     \<not> (fst e \<in> {LEJPCB_OBJECT_START, LEJPCB_OBJECT_END} \<and> ctx_path (snd e) = ''data[]'')"

text \<open>
  The events that carry the value of a member: the path and the reasons of its kind.  Other
  events on the same path (the name, the start of a string) carry nothing.
\<close>

definition num_reasons :: "lejp_callbacks set" where
  "num_reasons = {LEJPCB_VAL_NUM_INT, LEJPCB_VAL_NUM_FLOAT}"

definition carries :: "string \<Rightarrow> lejp_callbacks set \<Rightarrow> json_event \<Rightarrow> bool" where
  "carries path rs e \<longleftrightarrow> ctx_path (snd e) = path \<and> fst e \<in> rs"

text \<open>The object has the member, and if it is repeated then with the same text.\<close>

definition has_member :: "json_event list \<Rightarrow> string \<Rightarrow> lejp_callbacks set \<Rightarrow> string \<Rightarrow> bool" where
  "has_member body path rs buf \<longleftrightarrow> (\<exists>e \<in> set body. carries path rs e) \<and>
     (\<forall>e \<in> set body. carries path rs e \<longrightarrow> ctx_buf (snd e) = buf)"

definition run_body :: "timeval \<Rightarrow> json_event list \<Rightarrow> json_state \<Rightarrow> json_state" where
  "run_body now body st = fold (\<lambda>e. json_update now (fst e) (snd e)) body st"

lemma run_body_snoc [simp]:
  "run_body now [] st = st"
  "run_body now (body @ [e]) st = json_update now (fst e) (snd e) (run_body now body st)"
  by (simp_all add: run_body_def)

lemma json_run_inner:
  assumes "\<forall>e \<in> set body. inner_event e"
  shows "json_run now (body @ rest) st = json_run now rest (run_body now body st)"
  using assms
proof (induction body arbitrary: st)
  case (Cons e body)
  then have "json_emit (fst e) (snd e) st = None"
    by (cases "fst e") (simp_all add: inner_event_def)
  then show ?case using Cons by (cases e) (simp add: run_body_def case_prod_beta)
qed (simp add: run_body_def)

text \<open>What one inner event does to each field.\<close>

lemma json_update_time:
  "inner_event e \<Longrightarrow> work_time (json_update now (fst e) (snd e) st) = work_time st"
  by (cases "fst e") (auto simp: inner_event_def)

lemma json_update_symbol:
  "trade_s_index (work_trade (json_update now (fst e) (snd e) st)) =
     (if carries ''data[].s'' {LEJPCB_VAL_STR_END} e
      then (case find_symbol (ctx_buf (snd e)) of None \<Rightarrow> trade_s_index (work_trade st) | Some i \<Rightarrow> of_nat i)
      else trade_s_index (work_trade st))"
  by (cases "fst e") (auto simp: carries_def split: option.splits)

lemma json_update_price:
  "trade_p (work_trade (json_update now (fst e) (snd e) st)) =
     (if carries ''data[].p'' num_reasons e then fst (strtod (ctx_buf (snd e))) else trade_p (work_trade st))"
  by (cases "fst e") (auto simp: carries_def num_reasons_def split: option.splits)

lemma json_update_stamp:
  "trade_t (work_trade (json_update now (fst e) (snd e) st)) =
     (if carries ''data[].t'' {LEJPCB_VAL_NUM_INT} e then fst (strtoull (ctx_buf (snd e)))
      else trade_t (work_trade st))"
  by (cases "fst e") (auto simp: carries_def split: option.splits)

lemma json_update_volume:
  "trade_v (work_trade (json_update now (fst e) (snd e) st)) =
     (if carries ''data[].v'' num_reasons e then fst (strtod (ctx_buf (snd e))) else trade_v (work_trade st))"
  by (cases "fst e") (auto simp: carries_def num_reasons_def split: option.splits)

text \<open>Whether a conversion of the event reads its text to the end.\<close>

definition num_ok :: "json_event \<Rightarrow> bool" where
  "num_ok e \<longleftrightarrow>
     (carries ''data[].t'' {LEJPCB_VAL_NUM_INT} e \<longrightarrow> snd (strtoull (ctx_buf (snd e))) = []) \<and>
     (carries ''data[].p'' num_reasons e \<or> carries ''data[].v'' num_reasons e \<longrightarrow>
        snd (strtod (ctx_buf (snd e))) = [])"

lemma json_update_valid:
  "inner_event e \<Longrightarrow> trade_is_valid (json_update now (fst e) (snd e) st) \<longleftrightarrow> trade_is_valid st \<and> num_ok e"
  by (cases "fst e") (auto simp: inner_event_def num_ok_def carries_def num_reasons_def)

text \<open>What a whole body does to each field.\<close>

lemma run_body_time: "\<forall>e \<in> set body. inner_event e \<Longrightarrow> work_time (run_body now body st) = work_time st"
  by (induction body rule: rev_induct) (simp_all add: json_update_time)

lemma run_body_valid:
  "\<forall>e \<in> set body. inner_event e \<Longrightarrow>
     trade_is_valid (run_body now body st) \<longleftrightarrow> trade_is_valid st \<and> (\<forall>e \<in> set body. num_ok e)"
  by (induction body rule: rev_induct) (auto simp: json_update_valid)

lemma run_body_price:
  "\<forall>e \<in> set body. carries ''data[].p'' num_reasons e \<longrightarrow> ctx_buf (snd e) = buf \<Longrightarrow>
   trade_p (work_trade (run_body now body st)) =
     (if \<exists>e \<in> set body. carries ''data[].p'' num_reasons e then fst (strtod buf) else trade_p (work_trade st))"
  by (induction body rule: rev_induct) (auto simp: json_update_price)

lemma run_body_volume:
  "\<forall>e \<in> set body. carries ''data[].v'' num_reasons e \<longrightarrow> ctx_buf (snd e) = buf \<Longrightarrow>
   trade_v (work_trade (run_body now body st)) =
     (if \<exists>e \<in> set body. carries ''data[].v'' num_reasons e then fst (strtod buf) else trade_v (work_trade st))"
  by (induction body rule: rev_induct) (auto simp: json_update_volume)

lemma run_body_stamp:
  "\<forall>e \<in> set body. carries ''data[].t'' {LEJPCB_VAL_NUM_INT} e \<longrightarrow> ctx_buf (snd e) = buf \<Longrightarrow>
   trade_t (work_trade (run_body now body st)) =
     (if \<exists>e \<in> set body. carries ''data[].t'' {LEJPCB_VAL_NUM_INT} e then fst (strtoull buf)
      else trade_t (work_trade st))"
  by (induction body rule: rev_induct) (auto simp: json_update_stamp)

lemma run_body_symbol:
  "\<forall>e \<in> set body. carries ''data[].s'' {LEJPCB_VAL_STR_END} e \<longrightarrow> ctx_buf (snd e) = buf \<Longrightarrow>
   trade_s_index (work_trade (run_body now body st)) =
     (if \<exists>e \<in> set body. carries ''data[].s'' {LEJPCB_VAL_STR_END} e
      then (case find_symbol buf of None \<Rightarrow> trade_s_index (work_trade st) | Some i \<Rightarrow> of_nat i)
      else trade_s_index (work_trade st))"
  by (induction body rule: rev_induct) (auto simp: json_update_symbol split: option.splits)

text \<open>The whole object: at most one item, assembled from the state after the body.\<close>

definition object_events :: "json_event list \<Rightarrow> string \<Rightarrow> string \<Rightarrow> json_event list" where
  "object_events body b0 b1 =
     (LEJPCB_OBJECT_START, \<lparr>ctx_path = ''data[]'', ctx_buf = b0\<rparr>) # body
     @ [(LEJPCB_OBJECT_END, \<lparr>ctx_path = ''data[]'', ctx_buf = b1\<rparr>)]"

lemma json_run_object:
  assumes "\<forall>e \<in> set body. inner_event e"
  shows "json_run now (object_events body b0 b1) st =
    (let st' = run_body now body (st\<lparr>trade_is_valid := True\<rparr>) in
     (st', if \<forall>e \<in> set body. num_ok e then [current_work_item st'] else []))"
  using json_run_inner [OF assms] run_body_valid [OF assms]
  by (simp add: object_events_def Let_def)

definition trade_body :: "json_event list \<Rightarrow> string \<Rightarrow> string \<Rightarrow> string \<Rightarrow> string \<Rightarrow> bool" where
  "trade_body body sb pb tb vb \<longleftrightarrow> (\<forall>e \<in> set body. inner_event e) \<and>
     has_member body ''data[].s'' {LEJPCB_VAL_STR_END} sb \<and>
     has_member body ''data[].p'' num_reasons pb \<and>
     has_member body ''data[].t'' {LEJPCB_VAL_NUM_INT} tb \<and>
     has_member body ''data[].v'' num_reasons vb"

lemma trade_body_ok:
  "trade_body body sb pb tb vb \<Longrightarrow>
    (\<forall>e \<in> set body. num_ok e) \<longleftrightarrow> snd (strtoull tb) = [] \<and> snd (strtod pb) = [] \<and> snd (strtod vb) = []"
  by (auto simp: trade_body_def has_member_def num_ok_def)

lemma trade_body_fields:
  assumes "trade_body body sb pb tb vb"
  shows "work_trade (run_body now body st) =
    \<lparr>trade_p = fst (strtod pb),
     trade_s_index = (case find_symbol sb of None \<Rightarrow> trade_s_index (work_trade st) | Some i \<Rightarrow> of_nat i),
     trade_t = fst (strtoull tb), trade_v = fst (strtod vb)\<rparr>"
  using assms run_body_price [of body pb now st] run_body_volume [of body vb now st]
    run_body_stamp [of body tb now st] run_body_symbol [of body sb now st]
  by (auto simp: trade_body_def has_member_def)

section \<open>What the parser hands to the first queue\<close>

text \<open>The four texts of an object and the trade they denote.\<close>

definition texts_ok :: "string \<Rightarrow> string \<Rightarrow> string \<Rightarrow> string \<Rightarrow> bool" where
  "texts_ok sb pb tb vb \<longleftrightarrow> find_symbol sb \<noteq> None \<and> snd (strtod pb) = [] \<and>
     snd (strtoull tb) = [] \<and> snd (strtod vb) = []"

definition trade_of_texts :: "string \<Rightarrow> string \<Rightarrow> string \<Rightarrow> string \<Rightarrow> Trade" where
  "trade_of_texts sb pb tb vb = \<lparr>trade_p = fst (strtod pb), trade_s_index = of_nat (the (find_symbol sb)),
     trade_t = fst (strtoull tb), trade_v = fst (strtod vb)\<rparr>"

lemma object_emits:
  assumes "trade_body body sb pb tb vb" and "texts_ok sb pb tb vb"
  shows "snd (json_run now (object_events body b0 b1) st) =
      [\<lparr>item_trade = trade_of_texts sb pb tb vb, item_event_time = work_time st\<rparr>]"
    and "work_time (fst (json_run now (object_events body b0 b1) st)) = work_time st"
proof -
  have inner: "\<forall>e \<in> set body. inner_event e" using assms(1) by (simp add: trade_body_def)
  let ?st = "run_body now body (st\<lparr>trade_is_valid := True\<rparr>)"
  have t: "work_time ?st = work_time st" using run_body_time [OF inner] by simp
  have ok: "\<forall>e \<in> set body. num_ok e"
    using trade_body_ok [OF assms(1)] assms(2) by (simp add: texts_ok_def)
  have "work_trade ?st = trade_of_texts sb pb tb vb"
    using trade_body_fields [OF assms(1), of now "st\<lparr>trade_is_valid := True\<rparr>"] assms(2)
    by (auto simp: trade_of_texts_def texts_ok_def)
  then have "current_work_item ?st = \<lparr>item_trade = trade_of_texts sb pb tb vb, item_event_time = work_time st\<rparr>"
    using t by simp
  then show "snd (json_run now (object_events body b0 b1) st) =
      [\<lparr>item_trade = trade_of_texts sb pb tb vb, item_event_time = work_time st\<rparr>]"
    and "work_time (fst (json_run now (object_events body b0 b1) st)) = work_time st"
    using ok t by (simp_all add: json_run_object [OF inner] Let_def)
qed

lemma json_run_append:
  "json_run now (xs @ ys) st = (let (st1, is) = json_run now xs st; (st2, js) = json_run now ys st1 in (st2, is @ js))"
  by (induction now xs st rule: json_run.induct) (auto simp: case_prod_beta Let_def split: option.splits)

text \<open>A message: its start, and the objects of the data array one after the other.\<close>

type_synonym object_text = "json_event list \<times> string \<times> string \<times> string \<times> string"

definition object_ok :: "object_text \<Rightarrow> bool" where
  "object_ok ob = (case ob of (body, sb, pb, tb, vb) \<Rightarrow> trade_body body sb pb tb vb \<and> texts_ok sb pb tb vb)"

definition object_trade :: "object_text \<Rightarrow> Trade" where
  "object_trade ob = (case ob of (body, sb, pb, tb, vb) \<Rightarrow> trade_of_texts sb pb tb vb)"

definition message_events :: "object_text list \<Rightarrow> json_event list" where
  "message_events obs = (LEJPCB_START, \<lparr>ctx_path = [], ctx_buf = []\<rparr>) #
     concat (map (\<lambda>ob. object_events (fst ob) [] []) obs)"

lemma objects_emit:
  assumes "\<forall>ob \<in> set obs. object_ok ob"
  shows "snd (json_run now (concat (map (\<lambda>ob. object_events (fst ob) [] []) obs)) st) =
    map (\<lambda>ob. \<lparr>item_trade = object_trade ob, item_event_time = work_time st\<rparr>) obs"
  using assms
proof (induction obs arbitrary: st)
  case (Cons ob obs)
  obtain body sb pb tb vb where ob: "ob = (body, sb, pb, tb, vb)" by (cases ob) auto
  then have tb: "trade_body body sb pb tb vb" and ok: "texts_ok sb pb tb vb"
    using Cons.prems by (simp_all add: object_ok_def)
  show ?case
    using object_emits [OF tb ok, of now "[]" "[]" st] Cons
    by (simp add: json_run_append case_prod_beta ob object_trade_def)
qed simp

lemma message_emits:
  assumes "\<forall>ob \<in> set obs. object_ok ob"
  shows "snd (json_run now (message_events obs) st) =
    map (\<lambda>ob. \<lparr>item_trade = object_trade ob, item_event_time = now\<rparr>) obs"
  using objects_emit [OF assms, of now "st\<lparr>current_work_item := (current_work_item st)\<lparr>item_event_time := now\<rparr>\<rparr>"]
  by (simp add: message_events_def case_prod_beta)


definition sample_body :: "string \<Rightarrow> string \<Rightarrow> json_event list" where
  "sample_body sb pb = [
     (LEJPCB_PAIR_NAME, \<lparr>ctx_path = ''data[].c'', ctx_buf = []\<rparr>), (LEJPCB_VAL_NULL, \<lparr>ctx_path = ''data[].c'', ctx_buf = []\<rparr>),
     (LEJPCB_VAL_NUM_FLOAT, \<lparr>ctx_path = ''data[].p'', ctx_buf = pb\<rparr>),
     (LEJPCB_VAL_STR_START, \<lparr>ctx_path = ''data[].s'', ctx_buf = []\<rparr>),
     (LEJPCB_VAL_STR_END, \<lparr>ctx_path = ''data[].s'', ctx_buf = sb\<rparr>),
     (LEJPCB_VAL_NUM_INT, \<lparr>ctx_path = ''data[].t'', ctx_buf = ''1727288867235''\<rparr>),
     (LEJPCB_VAL_NUM_INT, \<lparr>ctx_path = ''data[].v'', ctx_buf = ''4''\<rparr>)]"

lemma trade_body_sample: "trade_body (sample_body sb pb) sb pb ''1727288867235'' ''4''"
  by (simp add: trade_body_def sample_body_def inner_event_def has_member_def carries_def num_reasons_def)

lemma sample_numbers:
  "strtod ''224.5'' = (Fin (449 / 2), [])" "strtod ''4'' = (Fin 4, [])"
  "strtoull ''1727288867235'' = (1727288867235, [])" "snd (strtod ''2x'') = ''x''"
  by code_simp+


text \<open>
  A number that is not read to its end suppresses the trade: an object of the data array
  with such a price, volume or timestamp is not handed over.
\<close>

theorem json_bad_number_suppresses:
  assumes "\<forall>e \<in> set body. inner_event e" and "e \<in> set body" and "\<not> num_ok e"
  shows "snd (json_run now (object_events body b0 b1) st) = []"
  using assms by (auto simp: json_run_object [OF assms(1)] Let_def)

lemma json_bad_number_suppresses_witness:
  "snd (json_run \<lparr>tv_sec = 5, tv_usec = 6\<rparr> (object_events (sample_body ''NVDA'' ''2x'') [] []) json_init) = []"
proof (rule json_bad_number_suppresses)
  show "\<forall>e \<in> set (sample_body ''NVDA'' ''2x''). inner_event e"
    using trade_body_sample [of "''NVDA''" "''2x''"] by (simp add: trade_body_def)
  show "(LEJPCB_VAL_NUM_FLOAT, \<lparr>ctx_path = ''data[].p'', ctx_buf = ''2x''\<rparr>) \<in> set (sample_body ''NVDA'' ''2x'')"
    by (simp add: sample_body_def)
  show "\<not> num_ok (LEJPCB_VAL_NUM_FLOAT, \<lparr>ctx_path = ''data[].p'', ctx_buf = ''2x''\<rparr>)"
    using sample_numbers by (simp add: num_ok_def carries_def num_reasons_def)
qed

text \<open>
  A trade of a symbol that is not listed is not dropped: it is handed over with the
  symbol position that the previous object left in the static work item.
\<close>

theorem json_unknown_symbol_misfiled:
  assumes "trade_body body sb pb tb vb" and "sb \<notin> set active_symbols"
    and "snd (strtod pb) = []" "snd (strtoull tb) = []" "snd (strtod vb) = []"
  shows "\<exists>it. snd (json_run now (object_events body b0 b1) st) = [it] \<and>
    trade_s_index (item_trade it) = trade_s_index (work_trade st) \<and>
    trade_p (item_trade it) = fst (strtod pb) \<and> trade_v (item_trade it) = fst (strtod vb)"
proof -
  have inner: "\<forall>e \<in> set body. inner_event e" using assms(1) by (simp add: trade_body_def)
  have "\<forall>e \<in> set body. num_ok e" using trade_body_ok [OF assms(1)] assms(3-5) by simp
  then show ?thesis
    using find_symbol_absent [OF assms(2)] trade_body_fields [OF assms(1), of now "st\<lparr>trade_is_valid := True\<rparr>"]
    by (simp add: json_run_object [OF inner] Let_def)
qed

lemma json_unknown_symbol_misfiled_witness:
  "\<exists>it. snd (json_run \<lparr>tv_sec = 5, tv_usec = 6\<rparr> (object_events (sample_body ''XYZ'' ''224.5'') [] []) json_init) = [it] \<and>
     trade_s_index (item_trade it) = 0"
proof -
  have "''XYZ'' \<notin> set active_symbols" by (simp add: active_symbols_def symbols_list_def)
  from json_unknown_symbol_misfiled [OF trade_body_sample this, of "''224.5''" "\<lparr>tv_sec = 5, tv_usec = 6\<rparr>" "[]" "[]" json_init]
  show ?thesis using sample_numbers by (auto simp: json_init_def)
qed

text \<open>
  A sequence of callbacks never writes outside the queue's contract: with the exit flag not
  set and room for the items, all of them are appended, in order.
\<close>

lemma json_callback_none:
  "json_emit reason ctx st = None \<Longrightarrow>
     json_callback now reason ctx (st, q) = Returns 0 (json_update now reason ctx st, q)"
  by (simp add: json_callback_def)

lemma json_callback_some:
  assumes "json_emit reason ctx st = Some it" and "wf_queue q" and "\<not> q_exit_flag q"
    and "length (contents q) < QUEUE_SIZE"
  shows "json_callback now reason ctx (st, q) = Returns 0 (json_update now reason ctx st, queue_put it q)"
  using assms ring.full_iff [OF assms(2)] by (simp add: json_callback_def queue_add_def)

lemma json_callbacks_queue:
  assumes "wf_queue q" and "\<not> q_exit_flag q"
    and "length (contents q) + length (snd (json_run now evs st)) \<le> QUEUE_SIZE"
  shows "\<exists>q'. json_callbacks now evs (st, q) = Returns 0 (fst (json_run now evs st), q') \<and> wf_queue q' \<and>
    \<not> q_exit_flag q' \<and> contents q' = contents q @ snd (json_run now evs st)"
  using assms
proof (induction evs arbitrary: st q)
  case (Cons ev evs)
  obtain r ctx where ev: "ev = (r, ctx)" by fastforce
  show ?case
  proof (cases "json_emit r ctx st")
    case None
    then show ?thesis
      using Cons.IH [OF Cons.prems(1,2), of "json_update now r ctx st"] Cons.prems(3)
      by (simp add: ev json_callback_none case_prod_beta del: length_contents)
  next
    case (Some it)
    then have room: "length (contents q) < QUEUE_SIZE"
      using Cons.prems(3) by (simp add: ev case_prod_beta del: length_contents)
    then have nf: "\<not> q_full q" using ring.full_iff [OF Cons.prems(1)] by simp
    have "contents (queue_put it q) = contents q @ [it]" by (rule ring.items_put [OF Cons.prems(1) nf])
    then show ?thesis
      using Cons.IH [OF ring.inv_put [OF Cons.prems(1) nf, of it], of "json_update now r ctx st"] Cons.prems(2,3) Some
        json_callback_some [OF Some Cons.prems(1,2) room, of now]
      by (simp add: ev case_prod_beta del: length_contents)
  qed
qed simp

section \<open>The types of the constants\<close>

definition JSON_PATHS_MAX_LENGTH :: nat where
  "JSON_PATHS_MAX_LENGTH = 10"

text \<open>
  C40: Indices, texts and paths fit the C types that hold them.  The position of a symbol that
  the search finds survives its storage in eight bits and stays below the number of symbols,
  so that it indexes files and buffers; the symbol fits into its array and into one chunk of
  the parser's text, so that it is never split; every path fits into its array and into the
  path of the parser; and the number of paths survives the cast to a char.
\<close>

theorem symbol_index_typed:
  assumes "find_symbol buf = Some i"
  shows "unat (trade_s_index (item_trade (current_work_item (set_symbol buf st)))) = i \<and> i < SYMBOL_COUNT \<and>
    length buf + 1 \<le> SYMBOLS_MAX_LENGTH \<and> length buf + 1 \<le> LEJP_STRING_CHUNK \<and>
    list_all (\<lambda>p. length p + 1 \<le> JSON_PATHS_MAX_LENGTH \<and> length p + 1 \<le> LEJP_MAX_PATH) my_paths \<and>
    signed_char (int (length my_paths)) = 5 \<and> unsigned_char (int (length my_paths)) = 5"
proof -
  have i: "i < SYMBOL_COUNT" "symbols_list ! i = buf" using assms by (simp_all add: find_symbol_iff)
  then have "buf \<in> set active_symbols" by (auto simp: symbols_list_split nth_append)
  then have "length buf < SYMBOLS_MAX_LENGTH" by (rule active_symbols_short)
  moreover have "unat (of_nat i :: 8 word) = i" using i(1) by (simp add: unat_of_nat)
  ultimately show ?thesis using assms i(1)
    by (simp add: my_paths_def JSON_PATHS_MAX_LENGTH_def LEJP_MAX_PATH_def LEJP_STRING_CHUNK_def
      SYMBOLS_MAX_LENGTH_def signed_char_small unsigned_char_mod)
qed

lemma symbol_index_typed_witness:
  "unat (trade_s_index (item_trade (current_work_item (set_symbol ''NVDA'' json_init)))) = 4"
proof -
  have "find_symbol ''NVDA'' = Some 4" by code_simp
  then show ?thesis using symbol_index_typed by blast
qed

end
