(* ===== verification/LwsCallbacks.thy ===== *)
theory LwsCallbacks
  imports Enumerations
begin

text \<open>
  \<^verbatim>\<open>lws-callbacks.h\<close> of libwebsockets: the reasons for which the library calls the callback of
  the program.  The enumeration is split along the headings of the header, one datatype and
  one function to the integers per heading; \<open>lws_callback_reasons\<close> joins them and adds the
  numbers from \<open>LWS_CALLBACK_USER\<close> on, which the header leaves to user code.
\<close>

section \<open>The reasons, heading by heading\<close>

text \<open>Callbacks related to wsi and protocol binding lifecycle.\<close>

datatype lifecycle_reason =
    LWS_CALLBACK_PROTOCOL_INIT
  | LWS_CALLBACK_PROTOCOL_DESTROY
  | LWS_CALLBACK_WSI_CREATE
  | LWS_CALLBACK_WSI_DESTROY
  | LWS_CALLBACK_WSI_TX_CREDIT_GET

primrec lifecycle_code :: "lifecycle_reason \<Rightarrow> int" where
  "lifecycle_code LWS_CALLBACK_PROTOCOL_INIT = 27"
| "lifecycle_code LWS_CALLBACK_PROTOCOL_DESTROY = 28"
| "lifecycle_code LWS_CALLBACK_WSI_CREATE = 29"
| "lifecycle_code LWS_CALLBACK_WSI_DESTROY = 30"
| "lifecycle_code LWS_CALLBACK_WSI_TX_CREDIT_GET = 103"

definition lifecycle_reasons :: "lifecycle_reason list" where
  "lifecycle_reasons = [
     LWS_CALLBACK_PROTOCOL_INIT,
     LWS_CALLBACK_PROTOCOL_DESTROY,
     LWS_CALLBACK_WSI_CREATE,
     LWS_CALLBACK_WSI_DESTROY,
     LWS_CALLBACK_WSI_TX_CREDIT_GET]"

lemma lifecycle_reasons_complete [simp]: "r \<in> set lifecycle_reasons"
  by (cases r) (simp_all add: lifecycle_reasons_def)

text \<open>Callbacks related to Server TLS.\<close>

datatype server_tls_reason =
    LWS_CALLBACK_OPENSSL_LOAD_EXTRA_CLIENT_VERIFY_CERTS
  | LWS_CALLBACK_OPENSSL_LOAD_EXTRA_SERVER_VERIFY_CERTS
  | LWS_CALLBACK_OPENSSL_PERFORM_CLIENT_CERT_VERIFICATION
  | LWS_CALLBACK_SSL_INFO

primrec server_tls_code :: "server_tls_reason \<Rightarrow> int" where
  "server_tls_code LWS_CALLBACK_OPENSSL_LOAD_EXTRA_CLIENT_VERIFY_CERTS = 21"
| "server_tls_code LWS_CALLBACK_OPENSSL_LOAD_EXTRA_SERVER_VERIFY_CERTS = 22"
| "server_tls_code LWS_CALLBACK_OPENSSL_PERFORM_CLIENT_CERT_VERIFICATION = 23"
| "server_tls_code LWS_CALLBACK_SSL_INFO = 67"

definition server_tls_reasons :: "server_tls_reason list" where
  "server_tls_reasons = [
     LWS_CALLBACK_OPENSSL_LOAD_EXTRA_CLIENT_VERIFY_CERTS,
     LWS_CALLBACK_OPENSSL_LOAD_EXTRA_SERVER_VERIFY_CERTS,
     LWS_CALLBACK_OPENSSL_PERFORM_CLIENT_CERT_VERIFICATION,
     LWS_CALLBACK_SSL_INFO]"

lemma server_tls_reasons_complete [simp]: "r \<in> set server_tls_reasons"
  by (cases r) (simp_all add: server_tls_reasons_def)

text \<open>Callbacks related to Client TLS.\<close>

datatype client_tls_reason =
    LWS_CALLBACK_OPENSSL_PERFORM_SERVER_CERT_VERIFICATION

primrec client_tls_code :: "client_tls_reason \<Rightarrow> int" where
  "client_tls_code LWS_CALLBACK_OPENSSL_PERFORM_SERVER_CERT_VERIFICATION = 58"

definition client_tls_reasons :: "client_tls_reason list" where
  "client_tls_reasons = [
     LWS_CALLBACK_OPENSSL_PERFORM_SERVER_CERT_VERIFICATION]"

lemma client_tls_reasons_complete [simp]: "r \<in> set client_tls_reasons"
  by (cases r) (simp_all add: client_tls_reasons_def)

text \<open>Callbacks related to HTTP Server.\<close>

datatype http_server_reason =
    LWS_CALLBACK_SERVER_NEW_CLIENT_INSTANTIATED
  | LWS_CALLBACK_HTTP
  | LWS_CALLBACK_HTTP_BODY
  | LWS_CALLBACK_HTTP_BODY_COMPLETION
  | LWS_CALLBACK_HTTP_FILE_COMPLETION
  | LWS_CALLBACK_HTTP_WRITEABLE
  | LWS_CALLBACK_CLOSED_HTTP
  | LWS_CALLBACK_FILTER_HTTP_CONNECTION
  | LWS_CALLBACK_ADD_HEADERS
  | LWS_CALLBACK_VERIFY_BASIC_AUTHORIZATION
  | LWS_CALLBACK_CHECK_ACCESS_RIGHTS
  | LWS_CALLBACK_PROCESS_HTML
  | LWS_CALLBACK_HTTP_BIND_PROTOCOL
  | LWS_CALLBACK_HTTP_DROP_PROTOCOL
  | LWS_CALLBACK_HTTP_CONFIRM_UPGRADE

primrec http_server_code :: "http_server_reason \<Rightarrow> int" where
  "http_server_code LWS_CALLBACK_SERVER_NEW_CLIENT_INSTANTIATED = 19"
| "http_server_code LWS_CALLBACK_HTTP = 12"
| "http_server_code LWS_CALLBACK_HTTP_BODY = 13"
| "http_server_code LWS_CALLBACK_HTTP_BODY_COMPLETION = 14"
| "http_server_code LWS_CALLBACK_HTTP_FILE_COMPLETION = 15"
| "http_server_code LWS_CALLBACK_HTTP_WRITEABLE = 16"
| "http_server_code LWS_CALLBACK_CLOSED_HTTP = 5"
| "http_server_code LWS_CALLBACK_FILTER_HTTP_CONNECTION = 18"
| "http_server_code LWS_CALLBACK_ADD_HEADERS = 53"
| "http_server_code LWS_CALLBACK_VERIFY_BASIC_AUTHORIZATION = 102"
| "http_server_code LWS_CALLBACK_CHECK_ACCESS_RIGHTS = 51"
| "http_server_code LWS_CALLBACK_PROCESS_HTML = 52"
| "http_server_code LWS_CALLBACK_HTTP_BIND_PROTOCOL = 49"
| "http_server_code LWS_CALLBACK_HTTP_DROP_PROTOCOL = 50"
| "http_server_code LWS_CALLBACK_HTTP_CONFIRM_UPGRADE = 86"

definition http_server_reasons :: "http_server_reason list" where
  "http_server_reasons = [
     LWS_CALLBACK_SERVER_NEW_CLIENT_INSTANTIATED,
     LWS_CALLBACK_HTTP,
     LWS_CALLBACK_HTTP_BODY,
     LWS_CALLBACK_HTTP_BODY_COMPLETION,
     LWS_CALLBACK_HTTP_FILE_COMPLETION,
     LWS_CALLBACK_HTTP_WRITEABLE,
     LWS_CALLBACK_CLOSED_HTTP,
     LWS_CALLBACK_FILTER_HTTP_CONNECTION,
     LWS_CALLBACK_ADD_HEADERS,
     LWS_CALLBACK_VERIFY_BASIC_AUTHORIZATION,
     LWS_CALLBACK_CHECK_ACCESS_RIGHTS,
     LWS_CALLBACK_PROCESS_HTML,
     LWS_CALLBACK_HTTP_BIND_PROTOCOL,
     LWS_CALLBACK_HTTP_DROP_PROTOCOL,
     LWS_CALLBACK_HTTP_CONFIRM_UPGRADE]"

lemma http_server_reasons_complete [simp]: "r \<in> set http_server_reasons"
  by (cases r) (simp_all add: http_server_reasons_def)

text \<open>Callbacks related to HTTP Client.\<close>

datatype http_client_reason =
    LWS_CALLBACK_ESTABLISHED_CLIENT_HTTP
  | LWS_CALLBACK_CLOSED_CLIENT_HTTP
  | LWS_CALLBACK_RECEIVE_CLIENT_HTTP_READ
  | LWS_CALLBACK_RECEIVE_CLIENT_HTTP
  | LWS_CALLBACK_COMPLETED_CLIENT_HTTP
  | LWS_CALLBACK_CLIENT_HTTP_WRITEABLE
  | LWS_CALLBACK_CLIENT_HTTP_REDIRECT
  | LWS_CALLBACK_CLIENT_HTTP_BIND_PROTOCOL
  | LWS_CALLBACK_CLIENT_HTTP_DROP_PROTOCOL

primrec http_client_code :: "http_client_reason \<Rightarrow> int" where
  "http_client_code LWS_CALLBACK_ESTABLISHED_CLIENT_HTTP = 44"
| "http_client_code LWS_CALLBACK_CLOSED_CLIENT_HTTP = 45"
| "http_client_code LWS_CALLBACK_RECEIVE_CLIENT_HTTP_READ = 48"
| "http_client_code LWS_CALLBACK_RECEIVE_CLIENT_HTTP = 46"
| "http_client_code LWS_CALLBACK_COMPLETED_CLIENT_HTTP = 47"
| "http_client_code LWS_CALLBACK_CLIENT_HTTP_WRITEABLE = 57"
| "http_client_code LWS_CALLBACK_CLIENT_HTTP_REDIRECT = 104"
| "http_client_code LWS_CALLBACK_CLIENT_HTTP_BIND_PROTOCOL = 85"
| "http_client_code LWS_CALLBACK_CLIENT_HTTP_DROP_PROTOCOL = 76"

definition http_client_reasons :: "http_client_reason list" where
  "http_client_reasons = [
     LWS_CALLBACK_ESTABLISHED_CLIENT_HTTP,
     LWS_CALLBACK_CLOSED_CLIENT_HTTP,
     LWS_CALLBACK_RECEIVE_CLIENT_HTTP_READ,
     LWS_CALLBACK_RECEIVE_CLIENT_HTTP,
     LWS_CALLBACK_COMPLETED_CLIENT_HTTP,
     LWS_CALLBACK_CLIENT_HTTP_WRITEABLE,
     LWS_CALLBACK_CLIENT_HTTP_REDIRECT,
     LWS_CALLBACK_CLIENT_HTTP_BIND_PROTOCOL,
     LWS_CALLBACK_CLIENT_HTTP_DROP_PROTOCOL]"

lemma http_client_reasons_complete [simp]: "r \<in> set http_client_reasons"
  by (cases r) (simp_all add: http_client_reasons_def)

text \<open>Callbacks related to Websocket Server.\<close>

datatype ws_server_reason =
    LWS_CALLBACK_ESTABLISHED
  | LWS_CALLBACK_CLOSED
  | LWS_CALLBACK_SERVER_WRITEABLE
  | LWS_CALLBACK_RECEIVE
  | LWS_CALLBACK_RECEIVE_PONG
  | LWS_CALLBACK_WS_PEER_INITIATED_CLOSE
  | LWS_CALLBACK_FILTER_PROTOCOL_CONNECTION
  | LWS_CALLBACK_CONFIRM_EXTENSION_OKAY
  | LWS_CALLBACK_WS_SERVER_BIND_PROTOCOL
  | LWS_CALLBACK_WS_SERVER_DROP_PROTOCOL

primrec ws_server_code :: "ws_server_reason \<Rightarrow> int" where
  "ws_server_code LWS_CALLBACK_ESTABLISHED = 0"
| "ws_server_code LWS_CALLBACK_CLOSED = 4"
| "ws_server_code LWS_CALLBACK_SERVER_WRITEABLE = 11"
| "ws_server_code LWS_CALLBACK_RECEIVE = 6"
| "ws_server_code LWS_CALLBACK_RECEIVE_PONG = 7"
| "ws_server_code LWS_CALLBACK_WS_PEER_INITIATED_CLOSE = 38"
| "ws_server_code LWS_CALLBACK_FILTER_PROTOCOL_CONNECTION = 20"
| "ws_server_code LWS_CALLBACK_CONFIRM_EXTENSION_OKAY = 25"
| "ws_server_code LWS_CALLBACK_WS_SERVER_BIND_PROTOCOL = 77"
| "ws_server_code LWS_CALLBACK_WS_SERVER_DROP_PROTOCOL = 78"

definition ws_server_reasons :: "ws_server_reason list" where
  "ws_server_reasons = [
     LWS_CALLBACK_ESTABLISHED,
     LWS_CALLBACK_CLOSED,
     LWS_CALLBACK_SERVER_WRITEABLE,
     LWS_CALLBACK_RECEIVE,
     LWS_CALLBACK_RECEIVE_PONG,
     LWS_CALLBACK_WS_PEER_INITIATED_CLOSE,
     LWS_CALLBACK_FILTER_PROTOCOL_CONNECTION,
     LWS_CALLBACK_CONFIRM_EXTENSION_OKAY,
     LWS_CALLBACK_WS_SERVER_BIND_PROTOCOL,
     LWS_CALLBACK_WS_SERVER_DROP_PROTOCOL]"

lemma ws_server_reasons_complete [simp]: "r \<in> set ws_server_reasons"
  by (cases r) (simp_all add: ws_server_reasons_def)

text \<open>Callbacks related to Websocket Client.\<close>

datatype ws_client_reason =
    LWS_CALLBACK_CLIENT_CONNECTION_ERROR
  | LWS_CALLBACK_CLIENT_FILTER_PRE_ESTABLISH
  | LWS_CALLBACK_CLIENT_ESTABLISHED
  | LWS_CALLBACK_CLIENT_CLOSED
  | LWS_CALLBACK_CLIENT_APPEND_HANDSHAKE_HEADER
  | LWS_CALLBACK_CLIENT_RECEIVE
  | LWS_CALLBACK_CLIENT_RECEIVE_PONG
  | LWS_CALLBACK_CLIENT_WRITEABLE
  | LWS_CALLBACK_CLIENT_CONFIRM_EXTENSION_SUPPORTED
  | LWS_CALLBACK_WS_EXT_DEFAULTS
  | LWS_CALLBACK_FILTER_NETWORK_CONNECTION
  | LWS_CALLBACK_WS_CLIENT_BIND_PROTOCOL
  | LWS_CALLBACK_WS_CLIENT_DROP_PROTOCOL

primrec ws_client_code :: "ws_client_reason \<Rightarrow> int" where
  "ws_client_code LWS_CALLBACK_CLIENT_CONNECTION_ERROR = 1"
| "ws_client_code LWS_CALLBACK_CLIENT_FILTER_PRE_ESTABLISH = 2"
| "ws_client_code LWS_CALLBACK_CLIENT_ESTABLISHED = 3"
| "ws_client_code LWS_CALLBACK_CLIENT_CLOSED = 75"
| "ws_client_code LWS_CALLBACK_CLIENT_APPEND_HANDSHAKE_HEADER = 24"
| "ws_client_code LWS_CALLBACK_CLIENT_RECEIVE = 8"
| "ws_client_code LWS_CALLBACK_CLIENT_RECEIVE_PONG = 9"
| "ws_client_code LWS_CALLBACK_CLIENT_WRITEABLE = 10"
| "ws_client_code LWS_CALLBACK_CLIENT_CONFIRM_EXTENSION_SUPPORTED = 26"
| "ws_client_code LWS_CALLBACK_WS_EXT_DEFAULTS = 39"
| "ws_client_code LWS_CALLBACK_FILTER_NETWORK_CONNECTION = 17"
| "ws_client_code LWS_CALLBACK_WS_CLIENT_BIND_PROTOCOL = 79"
| "ws_client_code LWS_CALLBACK_WS_CLIENT_DROP_PROTOCOL = 80"

definition ws_client_reasons :: "ws_client_reason list" where
  "ws_client_reasons = [
     LWS_CALLBACK_CLIENT_CONNECTION_ERROR,
     LWS_CALLBACK_CLIENT_FILTER_PRE_ESTABLISH,
     LWS_CALLBACK_CLIENT_ESTABLISHED,
     LWS_CALLBACK_CLIENT_CLOSED,
     LWS_CALLBACK_CLIENT_APPEND_HANDSHAKE_HEADER,
     LWS_CALLBACK_CLIENT_RECEIVE,
     LWS_CALLBACK_CLIENT_RECEIVE_PONG,
     LWS_CALLBACK_CLIENT_WRITEABLE,
     LWS_CALLBACK_CLIENT_CONFIRM_EXTENSION_SUPPORTED,
     LWS_CALLBACK_WS_EXT_DEFAULTS,
     LWS_CALLBACK_FILTER_NETWORK_CONNECTION,
     LWS_CALLBACK_WS_CLIENT_BIND_PROTOCOL,
     LWS_CALLBACK_WS_CLIENT_DROP_PROTOCOL]"

lemma ws_client_reasons_complete [simp]: "r \<in> set ws_client_reasons"
  by (cases r) (simp_all add: ws_client_reasons_def)

text \<open>Callbacks related to external poll loop integration.\<close>

datatype poll_reason =
    LWS_CALLBACK_GET_THREAD_ID
  | LWS_CALLBACK_ADD_POLL_FD
  | LWS_CALLBACK_DEL_POLL_FD
  | LWS_CALLBACK_CHANGE_MODE_POLL_FD
  | LWS_CALLBACK_LOCK_POLL
  | LWS_CALLBACK_UNLOCK_POLL

primrec poll_code :: "poll_reason \<Rightarrow> int" where
  "poll_code LWS_CALLBACK_GET_THREAD_ID = 31"
| "poll_code LWS_CALLBACK_ADD_POLL_FD = 32"
| "poll_code LWS_CALLBACK_DEL_POLL_FD = 33"
| "poll_code LWS_CALLBACK_CHANGE_MODE_POLL_FD = 34"
| "poll_code LWS_CALLBACK_LOCK_POLL = 35"
| "poll_code LWS_CALLBACK_UNLOCK_POLL = 36"

definition poll_reasons :: "poll_reason list" where
  "poll_reasons = [
     LWS_CALLBACK_GET_THREAD_ID,
     LWS_CALLBACK_ADD_POLL_FD,
     LWS_CALLBACK_DEL_POLL_FD,
     LWS_CALLBACK_CHANGE_MODE_POLL_FD,
     LWS_CALLBACK_LOCK_POLL,
     LWS_CALLBACK_UNLOCK_POLL]"

lemma poll_reasons_complete [simp]: "r \<in> set poll_reasons"
  by (cases r) (simp_all add: poll_reasons_def)

text \<open>Callbacks related to CGI serving.\<close>

datatype cgi_reason =
    LWS_CALLBACK_CGI
  | LWS_CALLBACK_CGI_TERMINATED
  | LWS_CALLBACK_CGI_STDIN_DATA
  | LWS_CALLBACK_CGI_STDIN_COMPLETED
  | LWS_CALLBACK_CGI_PROCESS_ATTACH

primrec cgi_code :: "cgi_reason \<Rightarrow> int" where
  "cgi_code LWS_CALLBACK_CGI = 40"
| "cgi_code LWS_CALLBACK_CGI_TERMINATED = 41"
| "cgi_code LWS_CALLBACK_CGI_STDIN_DATA = 42"
| "cgi_code LWS_CALLBACK_CGI_STDIN_COMPLETED = 43"
| "cgi_code LWS_CALLBACK_CGI_PROCESS_ATTACH = 70"

definition cgi_reasons :: "cgi_reason list" where
  "cgi_reasons = [
     LWS_CALLBACK_CGI,
     LWS_CALLBACK_CGI_TERMINATED,
     LWS_CALLBACK_CGI_STDIN_DATA,
     LWS_CALLBACK_CGI_STDIN_COMPLETED,
     LWS_CALLBACK_CGI_PROCESS_ATTACH]"

lemma cgi_reasons_complete [simp]: "r \<in> set cgi_reasons"
  by (cases r) (simp_all add: cgi_reasons_def)

text \<open>Callbacks related to Generic Sessions.\<close>

datatype session_reason =
    LWS_CALLBACK_SESSION_INFO
  | LWS_CALLBACK_GS_EVENT
  | LWS_CALLBACK_HTTP_PMO

primrec session_code :: "session_reason \<Rightarrow> int" where
  "session_code LWS_CALLBACK_SESSION_INFO = 54"
| "session_code LWS_CALLBACK_GS_EVENT = 55"
| "session_code LWS_CALLBACK_HTTP_PMO = 56"

definition session_reasons :: "session_reason list" where
  "session_reasons = [
     LWS_CALLBACK_SESSION_INFO,
     LWS_CALLBACK_GS_EVENT,
     LWS_CALLBACK_HTTP_PMO]"

lemma session_reasons_complete [simp]: "r \<in> set session_reasons"
  by (cases r) (simp_all add: session_reasons_def)

text \<open>Callbacks related to RAW PROXY.\<close>

datatype raw_proxy_reason =
    LWS_CALLBACK_RAW_PROXY_CLI_RX
  | LWS_CALLBACK_RAW_PROXY_SRV_RX
  | LWS_CALLBACK_RAW_PROXY_CLI_CLOSE
  | LWS_CALLBACK_RAW_PROXY_SRV_CLOSE
  | LWS_CALLBACK_RAW_PROXY_CLI_WRITEABLE
  | LWS_CALLBACK_RAW_PROXY_SRV_WRITEABLE
  | LWS_CALLBACK_RAW_PROXY_CLI_ADOPT
  | LWS_CALLBACK_RAW_PROXY_SRV_ADOPT
  | LWS_CALLBACK_RAW_PROXY_CLI_BIND_PROTOCOL
  | LWS_CALLBACK_RAW_PROXY_SRV_BIND_PROTOCOL
  | LWS_CALLBACK_RAW_PROXY_CLI_DROP_PROTOCOL
  | LWS_CALLBACK_RAW_PROXY_SRV_DROP_PROTOCOL

primrec raw_proxy_code :: "raw_proxy_reason \<Rightarrow> int" where
  "raw_proxy_code LWS_CALLBACK_RAW_PROXY_CLI_RX = 89"
| "raw_proxy_code LWS_CALLBACK_RAW_PROXY_SRV_RX = 90"
| "raw_proxy_code LWS_CALLBACK_RAW_PROXY_CLI_CLOSE = 91"
| "raw_proxy_code LWS_CALLBACK_RAW_PROXY_SRV_CLOSE = 92"
| "raw_proxy_code LWS_CALLBACK_RAW_PROXY_CLI_WRITEABLE = 93"
| "raw_proxy_code LWS_CALLBACK_RAW_PROXY_SRV_WRITEABLE = 94"
| "raw_proxy_code LWS_CALLBACK_RAW_PROXY_CLI_ADOPT = 95"
| "raw_proxy_code LWS_CALLBACK_RAW_PROXY_SRV_ADOPT = 96"
| "raw_proxy_code LWS_CALLBACK_RAW_PROXY_CLI_BIND_PROTOCOL = 97"
| "raw_proxy_code LWS_CALLBACK_RAW_PROXY_SRV_BIND_PROTOCOL = 98"
| "raw_proxy_code LWS_CALLBACK_RAW_PROXY_CLI_DROP_PROTOCOL = 99"
| "raw_proxy_code LWS_CALLBACK_RAW_PROXY_SRV_DROP_PROTOCOL = 100"

definition raw_proxy_reasons :: "raw_proxy_reason list" where
  "raw_proxy_reasons = [
     LWS_CALLBACK_RAW_PROXY_CLI_RX,
     LWS_CALLBACK_RAW_PROXY_SRV_RX,
     LWS_CALLBACK_RAW_PROXY_CLI_CLOSE,
     LWS_CALLBACK_RAW_PROXY_SRV_CLOSE,
     LWS_CALLBACK_RAW_PROXY_CLI_WRITEABLE,
     LWS_CALLBACK_RAW_PROXY_SRV_WRITEABLE,
     LWS_CALLBACK_RAW_PROXY_CLI_ADOPT,
     LWS_CALLBACK_RAW_PROXY_SRV_ADOPT,
     LWS_CALLBACK_RAW_PROXY_CLI_BIND_PROTOCOL,
     LWS_CALLBACK_RAW_PROXY_SRV_BIND_PROTOCOL,
     LWS_CALLBACK_RAW_PROXY_CLI_DROP_PROTOCOL,
     LWS_CALLBACK_RAW_PROXY_SRV_DROP_PROTOCOL]"

lemma raw_proxy_reasons_complete [simp]: "r \<in> set raw_proxy_reasons"
  by (cases r) (simp_all add: raw_proxy_reasons_def)

text \<open>Callbacks related to RAW sockets.\<close>

datatype raw_socket_reason =
    LWS_CALLBACK_RAW_RX
  | LWS_CALLBACK_RAW_CLOSE
  | LWS_CALLBACK_RAW_WRITEABLE
  | LWS_CALLBACK_RAW_ADOPT
  | LWS_CALLBACK_RAW_CONNECTED
  | LWS_CALLBACK_RAW_SKT_BIND_PROTOCOL
  | LWS_CALLBACK_RAW_SKT_DROP_PROTOCOL

primrec raw_socket_code :: "raw_socket_reason \<Rightarrow> int" where
  "raw_socket_code LWS_CALLBACK_RAW_RX = 59"
| "raw_socket_code LWS_CALLBACK_RAW_CLOSE = 60"
| "raw_socket_code LWS_CALLBACK_RAW_WRITEABLE = 61"
| "raw_socket_code LWS_CALLBACK_RAW_ADOPT = 62"
| "raw_socket_code LWS_CALLBACK_RAW_CONNECTED = 101"
| "raw_socket_code LWS_CALLBACK_RAW_SKT_BIND_PROTOCOL = 81"
| "raw_socket_code LWS_CALLBACK_RAW_SKT_DROP_PROTOCOL = 82"

definition raw_socket_reasons :: "raw_socket_reason list" where
  "raw_socket_reasons = [
     LWS_CALLBACK_RAW_RX,
     LWS_CALLBACK_RAW_CLOSE,
     LWS_CALLBACK_RAW_WRITEABLE,
     LWS_CALLBACK_RAW_ADOPT,
     LWS_CALLBACK_RAW_CONNECTED,
     LWS_CALLBACK_RAW_SKT_BIND_PROTOCOL,
     LWS_CALLBACK_RAW_SKT_DROP_PROTOCOL]"

lemma raw_socket_reasons_complete [simp]: "r \<in> set raw_socket_reasons"
  by (cases r) (simp_all add: raw_socket_reasons_def)

text \<open>Callbacks related to RAW file handles.\<close>

datatype raw_file_reason =
    LWS_CALLBACK_RAW_ADOPT_FILE
  | LWS_CALLBACK_RAW_RX_FILE
  | LWS_CALLBACK_RAW_WRITEABLE_FILE
  | LWS_CALLBACK_RAW_CLOSE_FILE
  | LWS_CALLBACK_RAW_FILE_BIND_PROTOCOL
  | LWS_CALLBACK_RAW_FILE_DROP_PROTOCOL

primrec raw_file_code :: "raw_file_reason \<Rightarrow> int" where
  "raw_file_code LWS_CALLBACK_RAW_ADOPT_FILE = 63"
| "raw_file_code LWS_CALLBACK_RAW_RX_FILE = 64"
| "raw_file_code LWS_CALLBACK_RAW_WRITEABLE_FILE = 65"
| "raw_file_code LWS_CALLBACK_RAW_CLOSE_FILE = 66"
| "raw_file_code LWS_CALLBACK_RAW_FILE_BIND_PROTOCOL = 83"
| "raw_file_code LWS_CALLBACK_RAW_FILE_DROP_PROTOCOL = 84"

definition raw_file_reasons :: "raw_file_reason list" where
  "raw_file_reasons = [
     LWS_CALLBACK_RAW_ADOPT_FILE,
     LWS_CALLBACK_RAW_RX_FILE,
     LWS_CALLBACK_RAW_WRITEABLE_FILE,
     LWS_CALLBACK_RAW_CLOSE_FILE,
     LWS_CALLBACK_RAW_FILE_BIND_PROTOCOL,
     LWS_CALLBACK_RAW_FILE_DROP_PROTOCOL]"

lemma raw_file_reasons_complete [simp]: "r \<in> set raw_file_reasons"
  by (cases r) (simp_all add: raw_file_reasons_def)

text \<open>Callbacks related to generic wsi events.\<close>

datatype event_reason =
    LWS_CALLBACK_TIMER
  | LWS_CALLBACK_EVENT_WAIT_CANCELLED
  | LWS_CALLBACK_CHILD_CLOSING
  | LWS_CALLBACK_CONNECTING

primrec event_code :: "event_reason \<Rightarrow> int" where
  "event_code LWS_CALLBACK_TIMER = 73"
| "event_code LWS_CALLBACK_EVENT_WAIT_CANCELLED = 71"
| "event_code LWS_CALLBACK_CHILD_CLOSING = 69"
| "event_code LWS_CALLBACK_CONNECTING = 105"

definition event_reasons :: "event_reason list" where
  "event_reasons = [
     LWS_CALLBACK_TIMER,
     LWS_CALLBACK_EVENT_WAIT_CANCELLED,
     LWS_CALLBACK_CHILD_CLOSING,
     LWS_CALLBACK_CONNECTING]"

lemma event_reasons_complete [simp]: "r \<in> set event_reasons"
  by (cases r) (simp_all add: event_reasons_def)

text \<open>Callbacks related to TLS certificate management.\<close>

datatype cert_reason =
    LWS_CALLBACK_VHOST_CERT_AGING
  | LWS_CALLBACK_VHOST_CERT_UPDATE

primrec cert_code :: "cert_reason \<Rightarrow> int" where
  "cert_code LWS_CALLBACK_VHOST_CERT_AGING = 72"
| "cert_code LWS_CALLBACK_VHOST_CERT_UPDATE = 74"

definition cert_reasons :: "cert_reason list" where
  "cert_reasons = [
     LWS_CALLBACK_VHOST_CERT_AGING,
     LWS_CALLBACK_VHOST_CERT_UPDATE]"

lemma cert_reasons_complete [simp]: "r \<in> set cert_reasons"
  by (cases r) (simp_all add: cert_reasons_def)

text \<open>Callbacks related to MQTT Client.\<close>

datatype mqtt_reason =
    LWS_CALLBACK_MQTT_NEW_CLIENT_INSTANTIATED
  | LWS_CALLBACK_MQTT_IDLE
  | LWS_CALLBACK_MQTT_CLIENT_ESTABLISHED
  | LWS_CALLBACK_MQTT_SUBSCRIBED
  | LWS_CALLBACK_MQTT_CLIENT_WRITEABLE
  | LWS_CALLBACK_MQTT_CLIENT_RX
  | LWS_CALLBACK_MQTT_UNSUBSCRIBED
  | LWS_CALLBACK_MQTT_DROP_PROTOCOL
  | LWS_CALLBACK_MQTT_CLIENT_CLOSED
  | LWS_CALLBACK_MQTT_ACK
  | LWS_CALLBACK_MQTT_RESEND
  | LWS_CALLBACK_MQTT_UNSUBSCRIBE_TIMEOUT
  | LWS_CALLBACK_MQTT_SHADOW_TIMEOUT

primrec mqtt_code :: "mqtt_reason \<Rightarrow> int" where
  "mqtt_code LWS_CALLBACK_MQTT_NEW_CLIENT_INSTANTIATED = 200"
| "mqtt_code LWS_CALLBACK_MQTT_IDLE = 201"
| "mqtt_code LWS_CALLBACK_MQTT_CLIENT_ESTABLISHED = 202"
| "mqtt_code LWS_CALLBACK_MQTT_SUBSCRIBED = 203"
| "mqtt_code LWS_CALLBACK_MQTT_CLIENT_WRITEABLE = 204"
| "mqtt_code LWS_CALLBACK_MQTT_CLIENT_RX = 205"
| "mqtt_code LWS_CALLBACK_MQTT_UNSUBSCRIBED = 206"
| "mqtt_code LWS_CALLBACK_MQTT_DROP_PROTOCOL = 207"
| "mqtt_code LWS_CALLBACK_MQTT_CLIENT_CLOSED = 208"
| "mqtt_code LWS_CALLBACK_MQTT_ACK = 209"
| "mqtt_code LWS_CALLBACK_MQTT_RESEND = 210"
| "mqtt_code LWS_CALLBACK_MQTT_UNSUBSCRIBE_TIMEOUT = 211"
| "mqtt_code LWS_CALLBACK_MQTT_SHADOW_TIMEOUT = 212"

definition mqtt_reasons :: "mqtt_reason list" where
  "mqtt_reasons = [
     LWS_CALLBACK_MQTT_NEW_CLIENT_INSTANTIATED,
     LWS_CALLBACK_MQTT_IDLE,
     LWS_CALLBACK_MQTT_CLIENT_ESTABLISHED,
     LWS_CALLBACK_MQTT_SUBSCRIBED,
     LWS_CALLBACK_MQTT_CLIENT_WRITEABLE,
     LWS_CALLBACK_MQTT_CLIENT_RX,
     LWS_CALLBACK_MQTT_UNSUBSCRIBED,
     LWS_CALLBACK_MQTT_DROP_PROTOCOL,
     LWS_CALLBACK_MQTT_CLIENT_CLOSED,
     LWS_CALLBACK_MQTT_ACK,
     LWS_CALLBACK_MQTT_RESEND,
     LWS_CALLBACK_MQTT_UNSUBSCRIBE_TIMEOUT,
     LWS_CALLBACK_MQTT_SHADOW_TIMEOUT]"

lemma mqtt_reasons_complete [simp]: "r \<in> set mqtt_reasons"
  by (cases r) (simp_all add: mqtt_reasons_def)

section \<open>All reasons\<close>

definition LWS_CALLBACK_USER :: int where
  "LWS_CALLBACK_USER = 1000"

datatype lws_callback_reasons =
    Lifecycle lifecycle_reason
  | ServerTls server_tls_reason
  | ClientTls client_tls_reason
  | HttpServer http_server_reason
  | HttpClient http_client_reason
  | WsServer ws_server_reason
  | WsClient ws_client_reason
  | ExternalPoll poll_reason
  | Cgi cgi_reason
  | Sessions session_reason
  | RawProxy raw_proxy_reason
  | RawSocket raw_socket_reason
  | RawFile raw_file_reason
  | WsiEvent event_reason
  | Certificate cert_reason
  | Mqtt mqtt_reason
  | User nat

primrec reason_code :: "lws_callback_reasons \<Rightarrow> int" where
  "reason_code (Lifecycle r) = lifecycle_code r"
| "reason_code (ServerTls r) = server_tls_code r"
| "reason_code (ClientTls r) = client_tls_code r"
| "reason_code (HttpServer r) = http_server_code r"
| "reason_code (HttpClient r) = http_client_code r"
| "reason_code (WsServer r) = ws_server_code r"
| "reason_code (WsClient r) = ws_client_code r"
| "reason_code (ExternalPoll r) = poll_code r"
| "reason_code (Cgi r) = cgi_code r"
| "reason_code (Sessions r) = session_code r"
| "reason_code (RawProxy r) = raw_proxy_code r"
| "reason_code (RawSocket r) = raw_socket_code r"
| "reason_code (RawFile r) = raw_file_code r"
| "reason_code (WsiEvent r) = event_code r"
| "reason_code (Certificate r) = cert_code r"
| "reason_code (Mqtt r) = mqtt_code r"
| "reason_code (User n) = LWS_CALLBACK_USER + int n"

definition named_reasons :: "lws_callback_reasons list" where
  "named_reasons =
     map Lifecycle lifecycle_reasons @
     map ServerTls server_tls_reasons @
     map ClientTls client_tls_reasons @
     map HttpServer http_server_reasons @
     map HttpClient http_client_reasons @
     map WsServer ws_server_reasons @
     map WsClient ws_client_reasons @
     map ExternalPoll poll_reasons @
     map Cgi cgi_reasons @
     map Sessions session_reasons @
     map RawProxy raw_proxy_reasons @
     map RawSocket raw_socket_reasons @
     map RawFile raw_file_reasons @
     map WsiEvent event_reasons @
     map Certificate cert_reasons @
     map Mqtt mqtt_reasons"

lemmas reason_lists = lifecycle_reasons_def server_tls_reasons_def client_tls_reasons_def 
  http_server_reasons_def http_client_reasons_def ws_server_reasons_def 
  ws_client_reasons_def poll_reasons_def cgi_reasons_def session_reasons_def 
  raw_proxy_reasons_def raw_socket_reasons_def raw_file_reasons_def event_reasons_def 
  cert_reasons_def mqtt_reasons_def

lemma named_reasons_iff: "r \<in> set named_reasons \<longleftrightarrow> (\<forall>n. r \<noteq> User n)"
  by (cases r) (auto simp: named_reasons_def)

text \<open>The codes in the order of the header.\<close>

lemma named_codes: "map reason_code named_reasons = [
    27, 28, 29, 30, 103, 21, 22, 23, 67, 58, 19, 12, 13, 14, 15, 16, 5, 18, 53, 102, 51, 52,
    49, 50, 86, 44, 45, 48, 46, 47, 57, 104, 85, 76, 0, 4, 11, 6, 7, 38, 20, 25, 77, 78, 1, 2,
    3, 75, 24, 8, 9, 10, 26, 39, 17, 79, 80, 31, 32, 33, 34, 35, 36, 40, 41, 42, 43, 70, 54,
    55, 56, 89, 90, 91, 92, 93, 94, 95, 96, 97, 98, 99, 100, 59, 60, 61, 62, 101, 81, 82, 63,
    64, 65, 66, 83, 84, 73, 71, 69, 105, 72, 74, 200, 201, 202, 203, 204, 205, 206, 207, 208,
    209, 210, 211, 212]"
  by (simp add: named_reasons_def reason_lists)

text \<open>
  Reading a C integer as a reason.  Numbers without an enumerator have no meaning to the
  library.
\<close>

definition reason_of_code :: "int \<Rightarrow> lws_callback_reasons option" where
  "reason_of_code i =
     (if LWS_CALLBACK_USER \<le> i then Some (User (nat (i - LWS_CALLBACK_USER)))
      else enumerator reason_code named_reasons i)"

interpretation reasons: c_enum reason_code named_reasons
proof
  show "distinct (map reason_code named_reasons)"
    unfolding named_codes by simp
qed

lemma named_codes_set:
  "reason_code ` set named_reasons = ({0..105} - {37, 68, 87, 88}) \<union> {200..212}"
proof -
  have "reason_code ` set named_reasons = set (map reason_code named_reasons)" by simp
  also have "\<dots> = set (filter (\<lambda>i. i \<notin> {37, 68, 87, 88}) [0..105] @ [200..212])"
    unfolding named_codes by code_simp
  also have "\<dots> = ({0..105} - {37, 68, 87, 88}) \<union> {200..212}"
    by (simp only: set_append set_filter set_upto) auto
  finally show ?thesis .
qed

lemma named_code_less: "r \<in> set named_reasons \<Longrightarrow> 0 \<le> reason_code r \<and> reason_code r \<le> 212"
  using imageI [of r "set named_reasons" reason_code] unfolding named_codes_set by auto

lemma reason_of_code_code [simp]: "reason_of_code (reason_code r) = Some r"
proof (cases "r \<in> set named_reasons")
  case True
  then show ?thesis using named_code_less [OF True]
    by (simp add: reason_of_code_def LWS_CALLBACK_USER_def reasons.read_back)
next
  case False
  then obtain n where "r = User n" by (auto simp: named_reasons_iff)
  then show ?thesis by (simp add: reason_of_code_def)
qed

lemma reason_code_inject [simp]: "reason_code r = reason_code r' \<longleftrightarrow> r = r'"
  by (metis option.inject reason_of_code_code)

lemma reason_of_codeD: "reason_of_code i = Some r \<Longrightarrow> reason_code r = i"
  by (auto simp: reason_of_code_def split: if_splits dest: reasons.read_someD)

text \<open>
  The reasons and their integers determine each other.  Every reason is read back from its
  integer, every integer that is read as a reason is that reason's, and the integers without
  a reason below the user range are exactly the negative ones, the four gaps 37, 68, 87 and
  88, 106 to 199 and 213 to 999.
\<close>

lemma callback_reason_codes:
  "(\<forall>r. reason_of_code i = Some r \<longleftrightarrow> reason_code r = i) \<and>
   (reason_of_code i = None \<longleftrightarrow>
      i < 0 \<or> i \<in> {37, 68, 87, 88} \<or> 105 < i \<and> i < 200 \<or> 212 < i \<and> i < LWS_CALLBACK_USER)"
proof -
  have "reason_of_code i = None \<longleftrightarrow> i < LWS_CALLBACK_USER \<and> i \<notin> reason_code ` set named_reasons"
    by (simp add: reason_of_code_def reasons.read_none)
  also have "\<dots> \<longleftrightarrow>
      i < 0 \<or> i \<in> {37, 68, 87, 88} \<or> 105 < i \<and> i < 200 \<or> 212 < i \<and> i < LWS_CALLBACK_USER"
    unfolding named_codes_set by (auto simp: LWS_CALLBACK_USER_def)
  finally have none: "reason_of_code i = None \<longleftrightarrow>
      i < 0 \<or> i \<in> {37, 68, 87, 88} \<or> 105 < i \<and> i < 200 \<or> 212 < i \<and> i < LWS_CALLBACK_USER" .
  have "\<forall>r. reason_of_code i = Some r \<longleftrightarrow> reason_code r = i"
    by (auto dest: reason_of_codeD)
  then show ?thesis using none by (rule conjI)
qed

end
