(* ===== verification/LwsWrite.thy ===== *)
theory LwsWrite
  imports Enumerations
begin

text \<open>
  Sending and closing: \<^verbatim>\<open>lws-write.h\<close> with its helper for the flags of the fragments of a
  message, the padding in front of the data that it asks for (\<^verbatim>\<open>libwebsockets.h\<close>), and the
  status codes of \<^verbatim>\<open>lws-ws-close.h\<close>.
\<close>

section \<open>Kinds of writes\<close>

text \<open>The last two flags share their bit, each for another kind of connection.\<close>

datatype lws_write_protocol =
    LWS_WRITE_TEXT
  | LWS_WRITE_BINARY
  | LWS_WRITE_CONTINUATION
  | LWS_WRITE_HTTP
  | LWS_WRITE_PING
  | LWS_WRITE_PONG
  | LWS_WRITE_HTTP_FINAL
  | LWS_WRITE_HTTP_HEADERS
  | LWS_WRITE_HTTP_HEADERS_CONTINUATION
  | LWS_WRITE_BUFLIST
  | LWS_WRITE_NO_FIN
  | LWS_WRITE_H2_STREAM_END
  | LWS_WRITE_CLIENT_IGNORE_XOR_MASK

primrec write_code :: "lws_write_protocol \<Rightarrow> int" where
  "write_code LWS_WRITE_TEXT = 0"
| "write_code LWS_WRITE_BINARY = 1"
| "write_code LWS_WRITE_CONTINUATION = 2"
| "write_code LWS_WRITE_HTTP = 3"
| "write_code LWS_WRITE_PING = 5"
| "write_code LWS_WRITE_PONG = 6"
| "write_code LWS_WRITE_HTTP_FINAL = 7"
| "write_code LWS_WRITE_HTTP_HEADERS = 8"
| "write_code LWS_WRITE_HTTP_HEADERS_CONTINUATION = 9"
| "write_code LWS_WRITE_BUFLIST = 32"
| "write_code LWS_WRITE_NO_FIN = 64"
| "write_code LWS_WRITE_H2_STREAM_END = 128"
| "write_code LWS_WRITE_CLIENT_IGNORE_XOR_MASK = 128"

definition write_protocols :: "lws_write_protocol list" where
  "write_protocols = [
     LWS_WRITE_TEXT,
     LWS_WRITE_BINARY,
     LWS_WRITE_CONTINUATION,
     LWS_WRITE_HTTP,
     LWS_WRITE_PING,
     LWS_WRITE_PONG,
     LWS_WRITE_HTTP_FINAL,
     LWS_WRITE_HTTP_HEADERS,
     LWS_WRITE_HTTP_HEADERS_CONTINUATION,
     LWS_WRITE_BUFLIST,
     LWS_WRITE_NO_FIN,
     LWS_WRITE_H2_STREAM_END]"

interpretation write_kinds: c_enum write_code write_protocols
  by unfold_locales (simp add: write_protocols_def)

definition lws_write_ws_flags :: "int \<Rightarrow> int \<Rightarrow> int \<Rightarrow> int" where
  "lws_write_ws_flags initial is_start is_end =
     (let r = (if is_start \<noteq> 0 then initial else write_code LWS_WRITE_CONTINUATION) in
      if is_end = 0 then r OR write_code LWS_WRITE_NO_FIN else r)"

text \<open>A message of \<open>n\<close> fragments asks for the flags of each of them in turn.\<close>

definition fragment_flags :: "int \<Rightarrow> nat \<Rightarrow> int list" where
  "fragment_flags initial n =
     map (\<lambda>i. lws_write_ws_flags initial (if i = 0 then 1 else 0) (if i = n - 1 then 1 else 0)) [0..<n]"

lemma ws_flags_bits:
  "initial \<in> {write_code LWS_WRITE_TEXT, write_code LWS_WRITE_BINARY} \<Longrightarrow>
    lws_write_ws_flags initial s e mod 64 = (if s \<noteq> 0 then initial else write_code LWS_WRITE_CONTINUATION) \<and>
    (lws_write_ws_flags initial s e div 64 = 0 \<longleftrightarrow> e \<noteq> 0)"
  by (auto simp: lws_write_ws_flags_def)

text \<open>
  The fragments of a message carry the right flags.  For a text or binary message sent in
  \<open>n\<close> fragments the kind of write is that of the message in the first fragment and a
  continuation in all others, and exactly the last fragment is marked as the end of the
  message; a message in one piece is sent with the kind alone, as the program does it.
\<close>

theorem fragments_of_a_message:
  assumes "initial \<in> {write_code LWS_WRITE_TEXT, write_code LWS_WRITE_BINARY}" and "0 < n"
  shows "map (\<lambda>r. r mod 64) (fragment_flags initial n) =
      initial # replicate (n - 1) (write_code LWS_WRITE_CONTINUATION) \<and>
    map (\<lambda>r. r div 64 = 0) (fragment_flags initial n) = replicate (n - 1) False @ [True] \<and>
    fragment_flags initial 1 = [initial]"
proof -
  have "map (\<lambda>r. r mod 64) (fragment_flags initial n) =
      map (\<lambda>i. if i = 0 then initial else write_code LWS_WRITE_CONTINUATION) [0..<n]"
    using ws_flags_bits [OF assms(1)] by (simp add: fragment_flags_def)
  also have "\<dots> = initial # replicate (n - 1) (write_code LWS_WRITE_CONTINUATION)"
    using assms(2) by (auto simp: list_eq_iff_nth_eq nth_Cons split: nat.split)
  finally have kinds: "map (\<lambda>r. r mod 64) (fragment_flags initial n) = \<dots>" .
  have "map (\<lambda>r. r div 64 = 0) (fragment_flags initial n) = map (\<lambda>i. i = n - 1) [0..<n]"
    using ws_flags_bits [OF assms(1)] by (simp add: fragment_flags_def)
  also have "\<dots> = replicate (n - 1) False @ [True]"
    using assms(2) by (auto simp: list_eq_iff_nth_eq nth_append)
  finally have ends: "map (\<lambda>r. r div 64 = 0) (fragment_flags initial n) = \<dots>" .
  have "fragment_flags initial 1 = [initial]"
    by (simp add: fragment_flags_def lws_write_ws_flags_def)
  with kinds ends show ?thesis by blast
qed

lemma fragments_of_a_message_witness: "fragment_flags 0 3 = [64, 66, 2]"
proof -
  have "map (\<lambda>r. r mod 64) (fragment_flags 0 3) = [0, 2, 2] \<and>
      map (\<lambda>r. r div 64 = 0) (fragment_flags 0 3) = [False, False, True]"
    using fragments_of_a_message [of 0 3] by (simp add: numeral_2_eq_2)
  then show ?thesis by (simp add: fragment_flags_def lws_write_ws_flags_def upt_rec)
qed

section \<open>The room in front of the data\<close>

text \<open>The unit of the padding is 16 on x86-64 and the size of a pointer elsewhere.\<close>

definition LWS_PAD :: "nat \<Rightarrow> nat \<Rightarrow> nat" where
  "LWS_PAD pad_size n = (if n mod pad_size \<noteq> 0 then n + (pad_size - n mod pad_size) else n)"

definition LWS_SIZEOFPTR :: nat where
  "LWS_SIZEOFPTR = 4"

definition LWS_PRE :: nat where
  "LWS_PRE = LWS_PAD LWS_SIZEOFPTR (4 + 10 + 2)"

lemma LWS_PRE_16 [simp]: "LWS_PRE = 16"
  by (simp add: LWS_PRE_def LWS_PAD_def LWS_SIZEOFPTR_def)

text \<open>
  The padding is the least multiple of its unit that leaves enough room; the room in front
  of the data is 16 bytes on both machines that the program is built for.
\<close>

theorem padding_least_multiple:
  assumes "0 < pad_size"
  shows "pad_size dvd LWS_PAD pad_size n \<and> n \<le> LWS_PAD pad_size n \<and> LWS_PAD pad_size n < n + pad_size \<and>
    LWS_PRE = 16 \<and> LWS_PAD 16 (4 + 10 + 2) = LWS_PRE"
proof (cases "n mod pad_size = 0")
  case True
  then show ?thesis using assms by (auto simp: LWS_PAD_def)
next
  case False
  have lt: "n mod pad_size < pad_size" using assms by simp
  then have "n + (pad_size - n mod pad_size) = (n - n mod pad_size) + pad_size" by simp
  moreover have "pad_size dvd n - n mod pad_size" by (rule dvd_minus_mod)
  ultimately have "pad_size dvd n + (pad_size - n mod pad_size)" by (metis dvd_add dvd_refl)
  then show ?thesis using assms False lt by (simp add: LWS_PAD_def)
qed

lemma padding_least_multiple_witness: "(4 :: nat) dvd LWS_PAD 4 13 \<and> LWS_PAD 4 13 < 17"
  using padding_least_multiple [of 4 13] by simp

text \<open>
  What is handed to \<^verbatim>\<open>lws_write\<close>: a buffer, whose bytes may be uninitialised (\<open>None\<close>), where
  the data starts in it, and its length.
\<close>

record lws_write_args =
  wr_buf :: "char option list"
  wr_ptr :: nat
  wr_len :: nat
  wr_protocol :: lws_write_protocol

definition wr_payload :: "lws_write_args \<Rightarrow> char option list" where
  "wr_payload w = take (wr_len w) (drop (wr_ptr w) (wr_buf w))"

text \<open>
  The header's requirement: \<^verbatim>\<open>LWS_PRE\<close> valid bytes before the data, and of course the data.
\<close>

definition wr_valid :: "lws_write_args \<Rightarrow> bool" where
  "wr_valid w \<longleftrightarrow> LWS_PRE \<le> wr_ptr w \<and> wr_ptr w + wr_len w \<le> length (wr_buf w)"

section \<open>Closing\<close>

datatype lws_close_status =
    LWS_CLOSE_STATUS_NOSTATUS
  | LWS_CLOSE_STATUS_NORMAL
  | LWS_CLOSE_STATUS_GOINGAWAY
  | LWS_CLOSE_STATUS_PROTOCOL_ERR
  | LWS_CLOSE_STATUS_UNACCEPTABLE_OPCODE
  | LWS_CLOSE_STATUS_RESERVED
  | LWS_CLOSE_STATUS_NO_STATUS
  | LWS_CLOSE_STATUS_ABNORMAL_CLOSE
  | LWS_CLOSE_STATUS_INVALID_PAYLOAD
  | LWS_CLOSE_STATUS_POLICY_VIOLATION
  | LWS_CLOSE_STATUS_MESSAGE_TOO_LARGE
  | LWS_CLOSE_STATUS_EXTENSION_REQUIRED
  | LWS_CLOSE_STATUS_UNEXPECTED_CONDITION
  | LWS_CLOSE_STATUS_TLS_FAILURE
  | LWS_CLOSE_STATUS_CLIENT_TRANSACTION_DONE
  | LWS_CLOSE_STATUS_NOSTATUS_CONTEXT_DESTROY

primrec close_code :: "lws_close_status \<Rightarrow> int" where
  "close_code LWS_CLOSE_STATUS_NOSTATUS = 0"
| "close_code LWS_CLOSE_STATUS_NORMAL = 1000"
| "close_code LWS_CLOSE_STATUS_GOINGAWAY = 1001"
| "close_code LWS_CLOSE_STATUS_PROTOCOL_ERR = 1002"
| "close_code LWS_CLOSE_STATUS_UNACCEPTABLE_OPCODE = 1003"
| "close_code LWS_CLOSE_STATUS_RESERVED = 1004"
| "close_code LWS_CLOSE_STATUS_NO_STATUS = 1005"
| "close_code LWS_CLOSE_STATUS_ABNORMAL_CLOSE = 1006"
| "close_code LWS_CLOSE_STATUS_INVALID_PAYLOAD = 1007"
| "close_code LWS_CLOSE_STATUS_POLICY_VIOLATION = 1008"
| "close_code LWS_CLOSE_STATUS_MESSAGE_TOO_LARGE = 1009"
| "close_code LWS_CLOSE_STATUS_EXTENSION_REQUIRED = 1010"
| "close_code LWS_CLOSE_STATUS_UNEXPECTED_CONDITION = 1011"
| "close_code LWS_CLOSE_STATUS_TLS_FAILURE = 1015"
| "close_code LWS_CLOSE_STATUS_CLIENT_TRANSACTION_DONE = 2000"
| "close_code LWS_CLOSE_STATUS_NOSTATUS_CONTEXT_DESTROY = 9999"

definition close_statuses :: "lws_close_status list" where
  "close_statuses = [
     LWS_CLOSE_STATUS_NOSTATUS,
     LWS_CLOSE_STATUS_NORMAL,
     LWS_CLOSE_STATUS_GOINGAWAY,
     LWS_CLOSE_STATUS_PROTOCOL_ERR,
     LWS_CLOSE_STATUS_UNACCEPTABLE_OPCODE,
     LWS_CLOSE_STATUS_RESERVED,
     LWS_CLOSE_STATUS_NO_STATUS,
     LWS_CLOSE_STATUS_ABNORMAL_CLOSE,
     LWS_CLOSE_STATUS_INVALID_PAYLOAD,
     LWS_CLOSE_STATUS_POLICY_VIOLATION,
     LWS_CLOSE_STATUS_MESSAGE_TOO_LARGE,
     LWS_CLOSE_STATUS_EXTENSION_REQUIRED,
     LWS_CLOSE_STATUS_UNEXPECTED_CONDITION,
     LWS_CLOSE_STATUS_TLS_FAILURE,
     LWS_CLOSE_STATUS_CLIENT_TRANSACTION_DONE,
     LWS_CLOSE_STATUS_NOSTATUS_CONTEXT_DESTROY]"

interpretation close_statuses: c_enum close_code close_statuses
  by unfold_locales (simp add: close_statuses_def)

text \<open>The codes that the header reserves: an endpoint must not send them.\<close>

definition close_reserved :: "lws_close_status \<Rightarrow> bool" where
  "close_reserved st \<longleftrightarrow> st \<in> {LWS_CLOSE_STATUS_RESERVED, LWS_CLOSE_STATUS_NO_STATUS,
     LWS_CLOSE_STATUS_ABNORMAL_CLOSE, LWS_CLOSE_STATUS_TLS_FAILURE}"

end
