(* ===== verification/LwsOptions.thy ===== *)
theory LwsOptions
  imports Enumerations
begin

text \<open>
  The option bits of libwebsockets that the program gives when it connects: the options of a
  context or vhost (\<^verbatim>\<open>LWS_SERVER_OPTION_...\<close> of \<^verbatim>\<open>lws-context-vhost.h\<close>, or-ed into 64
  bits) and the flags of a client connection (\<^verbatim>\<open>LCCSCF_...\<close> of \<^verbatim>\<open>lws-client.h\<close>, or-ed into
  an int).  Two options have two names each.
\<close>

section \<open>Options of a context\<close>

datatype low_option =
    LWS_SERVER_OPTION_REQUIRE_VALID_OPENSSL_CLIENT_CERT
  | LWS_SERVER_OPTION_SKIP_SERVER_CANONICAL_NAME
  | LWS_SERVER_OPTION_ALLOW_NON_SSL_ON_SSL_PORT
  | LWS_SERVER_OPTION_LIBEV
  | LWS_SERVER_OPTION_DISABLE_IPV6
  | LWS_SERVER_OPTION_DISABLE_OS_CA_CERTS
  | LWS_SERVER_OPTION_PEER_CERT_NOT_REQUIRED
  | LWS_SERVER_OPTION_VALIDATE_UTF8
  | LWS_SERVER_OPTION_SSL_ECDH
  | LWS_SERVER_OPTION_LIBUV
  | LWS_SERVER_OPTION_REDIRECT_HTTP_TO_HTTPS
  | LWS_SERVER_OPTION_DO_SSL_GLOBAL_INIT
  | LWS_SERVER_OPTION_EXPLICIT_VHOSTS
  | LWS_SERVER_OPTION_UNIX_SOCK
  | LWS_SERVER_OPTION_STS
  | LWS_SERVER_OPTION_IPV6_V6ONLY_MODIFY
  | LWS_SERVER_OPTION_IPV6_V6ONLY_VALUE
  | LWS_SERVER_OPTION_UV_NO_SIGSEGV_SIGFPE_SPIN
  | LWS_SERVER_OPTION_JUST_USE_RAW_ORIGIN
  | LWS_SERVER_OPTION_FALLBACK_TO_APPLY_LISTEN_ACCEPT_CONFIG
  | LWS_SERVER_OPTION_LIBEVENT
  | LWS_SERVER_OPTION_ADOPT_APPLY_LISTEN_ACCEPT_CONFIG

primrec low_mask :: "low_option \<Rightarrow> 64 word" where
  "low_mask LWS_SERVER_OPTION_REQUIRE_VALID_OPENSSL_CLIENT_CERT = shl 1 OR shl 12"
| "low_mask LWS_SERVER_OPTION_SKIP_SERVER_CANONICAL_NAME = shl 2"
| "low_mask LWS_SERVER_OPTION_ALLOW_NON_SSL_ON_SSL_PORT = shl 3 OR shl 12"
| "low_mask LWS_SERVER_OPTION_LIBEV = shl 4"
| "low_mask LWS_SERVER_OPTION_DISABLE_IPV6 = shl 5"
| "low_mask LWS_SERVER_OPTION_DISABLE_OS_CA_CERTS = shl 6"
| "low_mask LWS_SERVER_OPTION_PEER_CERT_NOT_REQUIRED = shl 7"
| "low_mask LWS_SERVER_OPTION_VALIDATE_UTF8 = shl 8"
| "low_mask LWS_SERVER_OPTION_SSL_ECDH = shl 9 OR shl 12"
| "low_mask LWS_SERVER_OPTION_LIBUV = shl 10"
| "low_mask LWS_SERVER_OPTION_REDIRECT_HTTP_TO_HTTPS = shl 11 OR shl 12"
| "low_mask LWS_SERVER_OPTION_DO_SSL_GLOBAL_INIT = shl 12"
| "low_mask LWS_SERVER_OPTION_EXPLICIT_VHOSTS = shl 13"
| "low_mask LWS_SERVER_OPTION_UNIX_SOCK = shl 14"
| "low_mask LWS_SERVER_OPTION_STS = shl 15"
| "low_mask LWS_SERVER_OPTION_IPV6_V6ONLY_MODIFY = shl 16"
| "low_mask LWS_SERVER_OPTION_IPV6_V6ONLY_VALUE = shl 17"
| "low_mask LWS_SERVER_OPTION_UV_NO_SIGSEGV_SIGFPE_SPIN = shl 18"
| "low_mask LWS_SERVER_OPTION_JUST_USE_RAW_ORIGIN = shl 19"
| "low_mask LWS_SERVER_OPTION_FALLBACK_TO_APPLY_LISTEN_ACCEPT_CONFIG = shl 20"
| "low_mask LWS_SERVER_OPTION_LIBEVENT = shl 21"
| "low_mask LWS_SERVER_OPTION_ADOPT_APPLY_LISTEN_ACCEPT_CONFIG = shl 22"

abbreviation LWS_SERVER_OPTION_FALLBACK_TO_RAW :: low_option where
  "LWS_SERVER_OPTION_FALLBACK_TO_RAW \<equiv> LWS_SERVER_OPTION_FALLBACK_TO_APPLY_LISTEN_ACCEPT_CONFIG"

abbreviation LWS_SERVER_OPTION_ONLY_RAW :: low_option where
  "LWS_SERVER_OPTION_ONLY_RAW \<equiv> LWS_SERVER_OPTION_ADOPT_APPLY_LISTEN_ACCEPT_CONFIG"

primrec low_bit :: "low_option \<Rightarrow> nat" where
  "low_bit LWS_SERVER_OPTION_REQUIRE_VALID_OPENSSL_CLIENT_CERT = 1"
| "low_bit LWS_SERVER_OPTION_SKIP_SERVER_CANONICAL_NAME = 2"
| "low_bit LWS_SERVER_OPTION_ALLOW_NON_SSL_ON_SSL_PORT = 3"
| "low_bit LWS_SERVER_OPTION_LIBEV = 4"
| "low_bit LWS_SERVER_OPTION_DISABLE_IPV6 = 5"
| "low_bit LWS_SERVER_OPTION_DISABLE_OS_CA_CERTS = 6"
| "low_bit LWS_SERVER_OPTION_PEER_CERT_NOT_REQUIRED = 7"
| "low_bit LWS_SERVER_OPTION_VALIDATE_UTF8 = 8"
| "low_bit LWS_SERVER_OPTION_SSL_ECDH = 9"
| "low_bit LWS_SERVER_OPTION_LIBUV = 10"
| "low_bit LWS_SERVER_OPTION_REDIRECT_HTTP_TO_HTTPS = 11"
| "low_bit LWS_SERVER_OPTION_DO_SSL_GLOBAL_INIT = 12"
| "low_bit LWS_SERVER_OPTION_EXPLICIT_VHOSTS = 13"
| "low_bit LWS_SERVER_OPTION_UNIX_SOCK = 14"
| "low_bit LWS_SERVER_OPTION_STS = 15"
| "low_bit LWS_SERVER_OPTION_IPV6_V6ONLY_MODIFY = 16"
| "low_bit LWS_SERVER_OPTION_IPV6_V6ONLY_VALUE = 17"
| "low_bit LWS_SERVER_OPTION_UV_NO_SIGSEGV_SIGFPE_SPIN = 18"
| "low_bit LWS_SERVER_OPTION_JUST_USE_RAW_ORIGIN = 19"
| "low_bit LWS_SERVER_OPTION_FALLBACK_TO_APPLY_LISTEN_ACCEPT_CONFIG = 20"
| "low_bit LWS_SERVER_OPTION_LIBEVENT = 21"
| "low_bit LWS_SERVER_OPTION_ADOPT_APPLY_LISTEN_ACCEPT_CONFIG = 22"

definition low_list :: "low_option list" where
  "low_list = [
     LWS_SERVER_OPTION_REQUIRE_VALID_OPENSSL_CLIENT_CERT,
     LWS_SERVER_OPTION_SKIP_SERVER_CANONICAL_NAME,
     LWS_SERVER_OPTION_ALLOW_NON_SSL_ON_SSL_PORT,
     LWS_SERVER_OPTION_LIBEV,
     LWS_SERVER_OPTION_DISABLE_IPV6,
     LWS_SERVER_OPTION_DISABLE_OS_CA_CERTS,
     LWS_SERVER_OPTION_PEER_CERT_NOT_REQUIRED,
     LWS_SERVER_OPTION_VALIDATE_UTF8,
     LWS_SERVER_OPTION_SSL_ECDH,
     LWS_SERVER_OPTION_LIBUV,
     LWS_SERVER_OPTION_REDIRECT_HTTP_TO_HTTPS,
     LWS_SERVER_OPTION_DO_SSL_GLOBAL_INIT,
     LWS_SERVER_OPTION_EXPLICIT_VHOSTS,
     LWS_SERVER_OPTION_UNIX_SOCK,
     LWS_SERVER_OPTION_STS,
     LWS_SERVER_OPTION_IPV6_V6ONLY_MODIFY,
     LWS_SERVER_OPTION_IPV6_V6ONLY_VALUE,
     LWS_SERVER_OPTION_UV_NO_SIGSEGV_SIGFPE_SPIN,
     LWS_SERVER_OPTION_JUST_USE_RAW_ORIGIN,
     LWS_SERVER_OPTION_FALLBACK_TO_APPLY_LISTEN_ACCEPT_CONFIG,
     LWS_SERVER_OPTION_LIBEVENT,
     LWS_SERVER_OPTION_ADOPT_APPLY_LISTEN_ACCEPT_CONFIG]"

lemma low_list_complete [simp]: "x \<in> set low_list"
  by (cases x) (simp_all add: low_list_def)

datatype high_option =
    LWS_SERVER_OPTION_ALLOW_LISTEN_SHARE
  | LWS_SERVER_OPTION_CREATE_VHOST_SSL_CTX
  | LWS_SERVER_OPTION_SKIP_PROTOCOL_INIT
  | LWS_SERVER_OPTION_IGNORE_MISSING_CERT
  | LWS_SERVER_OPTION_VHOST_UPG_STRICT_HOST_CHECK
  | LWS_SERVER_OPTION_HTTP_HEADERS_SECURITY_BEST_PRACTICES_ENFORCE
  | LWS_SERVER_OPTION_ALLOW_HTTP_ON_HTTPS_LISTENER
  | LWS_SERVER_OPTION_FAIL_UPON_UNABLE_TO_BIND
  | LWS_SERVER_OPTION_H2_JUST_FIX_WINDOW_UPDATE_OVERFLOW
  | LWS_SERVER_OPTION_VH_H2_HALF_CLOSED_LONG_POLL
  | LWS_SERVER_OPTION_GLIB
  | LWS_SERVER_OPTION_H2_PRIOR_KNOWLEDGE
  | LWS_SERVER_OPTION_NO_LWS_SYSTEM_STATES
  | LWS_SERVER_OPTION_SS_PROXY
  | LWS_SERVER_OPTION_SDEVENT
  | LWS_SERVER_OPTION_ULOOP
  | LWS_SERVER_OPTION_DISABLE_TLS_SESSION_CACHE

primrec high_mask :: "high_option \<Rightarrow> 64 word" where
  "high_mask LWS_SERVER_OPTION_ALLOW_LISTEN_SHARE = shl 23"
| "high_mask LWS_SERVER_OPTION_CREATE_VHOST_SSL_CTX = shl 24"
| "high_mask LWS_SERVER_OPTION_SKIP_PROTOCOL_INIT = shl 25"
| "high_mask LWS_SERVER_OPTION_IGNORE_MISSING_CERT = shl 26"
| "high_mask LWS_SERVER_OPTION_VHOST_UPG_STRICT_HOST_CHECK = shl 27"
| "high_mask LWS_SERVER_OPTION_HTTP_HEADERS_SECURITY_BEST_PRACTICES_ENFORCE = shl 28"
| "high_mask LWS_SERVER_OPTION_ALLOW_HTTP_ON_HTTPS_LISTENER = shl 29"
| "high_mask LWS_SERVER_OPTION_FAIL_UPON_UNABLE_TO_BIND = shl 30"
| "high_mask LWS_SERVER_OPTION_H2_JUST_FIX_WINDOW_UPDATE_OVERFLOW = shl 31"
| "high_mask LWS_SERVER_OPTION_VH_H2_HALF_CLOSED_LONG_POLL = shl 32"
| "high_mask LWS_SERVER_OPTION_GLIB = shl 33"
| "high_mask LWS_SERVER_OPTION_H2_PRIOR_KNOWLEDGE = shl 34"
| "high_mask LWS_SERVER_OPTION_NO_LWS_SYSTEM_STATES = shl 35"
| "high_mask LWS_SERVER_OPTION_SS_PROXY = shl 36"
| "high_mask LWS_SERVER_OPTION_SDEVENT = shl 37"
| "high_mask LWS_SERVER_OPTION_ULOOP = shl 38"
| "high_mask LWS_SERVER_OPTION_DISABLE_TLS_SESSION_CACHE = shl 39"

primrec high_bit :: "high_option \<Rightarrow> nat" where
  "high_bit LWS_SERVER_OPTION_ALLOW_LISTEN_SHARE = 23"
| "high_bit LWS_SERVER_OPTION_CREATE_VHOST_SSL_CTX = 24"
| "high_bit LWS_SERVER_OPTION_SKIP_PROTOCOL_INIT = 25"
| "high_bit LWS_SERVER_OPTION_IGNORE_MISSING_CERT = 26"
| "high_bit LWS_SERVER_OPTION_VHOST_UPG_STRICT_HOST_CHECK = 27"
| "high_bit LWS_SERVER_OPTION_HTTP_HEADERS_SECURITY_BEST_PRACTICES_ENFORCE = 28"
| "high_bit LWS_SERVER_OPTION_ALLOW_HTTP_ON_HTTPS_LISTENER = 29"
| "high_bit LWS_SERVER_OPTION_FAIL_UPON_UNABLE_TO_BIND = 30"
| "high_bit LWS_SERVER_OPTION_H2_JUST_FIX_WINDOW_UPDATE_OVERFLOW = 31"
| "high_bit LWS_SERVER_OPTION_VH_H2_HALF_CLOSED_LONG_POLL = 32"
| "high_bit LWS_SERVER_OPTION_GLIB = 33"
| "high_bit LWS_SERVER_OPTION_H2_PRIOR_KNOWLEDGE = 34"
| "high_bit LWS_SERVER_OPTION_NO_LWS_SYSTEM_STATES = 35"
| "high_bit LWS_SERVER_OPTION_SS_PROXY = 36"
| "high_bit LWS_SERVER_OPTION_SDEVENT = 37"
| "high_bit LWS_SERVER_OPTION_ULOOP = 38"
| "high_bit LWS_SERVER_OPTION_DISABLE_TLS_SESSION_CACHE = 39"

definition high_list :: "high_option list" where
  "high_list = [
     LWS_SERVER_OPTION_ALLOW_LISTEN_SHARE,
     LWS_SERVER_OPTION_CREATE_VHOST_SSL_CTX,
     LWS_SERVER_OPTION_SKIP_PROTOCOL_INIT,
     LWS_SERVER_OPTION_IGNORE_MISSING_CERT,
     LWS_SERVER_OPTION_VHOST_UPG_STRICT_HOST_CHECK,
     LWS_SERVER_OPTION_HTTP_HEADERS_SECURITY_BEST_PRACTICES_ENFORCE,
     LWS_SERVER_OPTION_ALLOW_HTTP_ON_HTTPS_LISTENER,
     LWS_SERVER_OPTION_FAIL_UPON_UNABLE_TO_BIND,
     LWS_SERVER_OPTION_H2_JUST_FIX_WINDOW_UPDATE_OVERFLOW,
     LWS_SERVER_OPTION_VH_H2_HALF_CLOSED_LONG_POLL,
     LWS_SERVER_OPTION_GLIB,
     LWS_SERVER_OPTION_H2_PRIOR_KNOWLEDGE,
     LWS_SERVER_OPTION_NO_LWS_SYSTEM_STATES,
     LWS_SERVER_OPTION_SS_PROXY,
     LWS_SERVER_OPTION_SDEVENT,
     LWS_SERVER_OPTION_ULOOP,
     LWS_SERVER_OPTION_DISABLE_TLS_SESSION_CACHE]"

lemma high_list_complete [simp]: "x \<in> set high_list"
  by (cases x) (simp_all add: high_list_def)

datatype server_option = Low low_option | High high_option

primrec option_mask :: "server_option \<Rightarrow> 64 word" where
  "option_mask (Low x) = low_mask x"
| "option_mask (High x) = high_mask x"

primrec option_bit :: "server_option \<Rightarrow> nat" where
  "option_bit (Low x) = low_bit x"
| "option_bit (High x) = high_bit x"

definition server_options :: "server_option list" where
  "server_options = map Low low_list @ map High high_list"

lemma server_options_complete [simp]: "x \<in> set server_options"
  by (cases x) (simp_all add: server_options_def)

text \<open>The macro that the library tests options with.\<close>

definition lws_check_opt :: "64 word \<Rightarrow> 64 word \<Rightarrow> bool" where
  "lws_check_opt c f \<longleftrightarrow> c AND f = f"

lemma lws_check_opt_has_bits: "lws_check_opt = has_bits"
  by (simp add: fun_eq_iff lws_check_opt_def has_bits_def)

text \<open>The options for TLS servers that also ask for the initialisation of the TLS library.\<close>

definition tls_options :: "server_option list" where
  "tls_options = [Low LWS_SERVER_OPTION_REQUIRE_VALID_OPENSSL_CLIENT_CERT,
     Low LWS_SERVER_OPTION_ALLOW_NON_SSL_ON_SSL_PORT,
     Low LWS_SERVER_OPTION_SSL_ECDH,
     Low LWS_SERVER_OPTION_REDIRECT_HTTP_TO_HTTPS]"

definition option_provides :: "server_option \<Rightarrow> server_option list" where
  "option_provides x =
     x # (if x \<in> set tls_options then [Low LWS_SERVER_OPTION_DO_SSL_GLOBAL_INIT] else [])"

section \<open>Flags of a client connection\<close>

datatype client_flag =
    LCCSCF_USE_SSL
  | LCCSCF_ALLOW_SELFSIGNED
  | LCCSCF_SKIP_SERVER_CERT_HOSTNAME_CHECK
  | LCCSCF_ALLOW_EXPIRED
  | LCCSCF_ALLOW_INSECURE
  | LCCSCF_H2_QUIRK_NGHTTP2_END_STREAM
  | LCCSCF_H2_QUIRK_OVERFLOWS_TXCR
  | LCCSCF_H2_AUTH_BEARER
  | LCCSCF_H2_HEXIFY_AUTH_TOKEN
  | LCCSCF_H2_MANUAL_RXFLOW
  | LCCSCF_HTTP_MULTIPART_MIME
  | LCCSCF_HTTP_X_WWW_FORM_URLENCODED
  | LCCSCF_HTTP_NO_FOLLOW_REDIRECT
  | LCCSCF_HTTP_NO_CACHE_CONTROL
  | LCCSCF_ALLOW_REUSE_ADDR
  | LCCSCF_IPV6_PREFER_PUBLIC_ADDR
  | LCCSCF_PIPELINE
  | LCCSCF_MUXABLE_STREAM
  | LCCSCF_H2_PRIOR_KNOWLEDGE
  | LCCSCF_WAKE_SUSPEND__VALIDITY
  | LCCSCF_PRIORITIZE_READS
  | LCCSCF_SECSTREAM_CLIENT
  | LCCSCF_SECSTREAM_PROXY_LINK
  | LCCSCF_SECSTREAM_PROXY_ONWARD
  | LCCSCF_IP_LOW_LATENCY
  | LCCSCF_IP_HIGH_THROUGHPUT
  | LCCSCF_IP_HIGH_RELIABILITY
  | LCCSCF_IP_LOW_COST
  | LCCSCF_CONMON
  | LCCSCF_ACCEPT_TLS_DOWNGRADE_REDIRECTS
  | LCCSCF_CACHE_COOKIES

primrec flag_bit :: "client_flag \<Rightarrow> nat" where
  "flag_bit LCCSCF_USE_SSL = 0"
| "flag_bit LCCSCF_ALLOW_SELFSIGNED = 1"
| "flag_bit LCCSCF_SKIP_SERVER_CERT_HOSTNAME_CHECK = 2"
| "flag_bit LCCSCF_ALLOW_EXPIRED = 3"
| "flag_bit LCCSCF_ALLOW_INSECURE = 4"
| "flag_bit LCCSCF_H2_QUIRK_NGHTTP2_END_STREAM = 5"
| "flag_bit LCCSCF_H2_QUIRK_OVERFLOWS_TXCR = 6"
| "flag_bit LCCSCF_H2_AUTH_BEARER = 7"
| "flag_bit LCCSCF_H2_HEXIFY_AUTH_TOKEN = 8"
| "flag_bit LCCSCF_H2_MANUAL_RXFLOW = 9"
| "flag_bit LCCSCF_HTTP_MULTIPART_MIME = 10"
| "flag_bit LCCSCF_HTTP_X_WWW_FORM_URLENCODED = 11"
| "flag_bit LCCSCF_HTTP_NO_FOLLOW_REDIRECT = 12"
| "flag_bit LCCSCF_HTTP_NO_CACHE_CONTROL = 13"
| "flag_bit LCCSCF_ALLOW_REUSE_ADDR = 14"
| "flag_bit LCCSCF_IPV6_PREFER_PUBLIC_ADDR = 15"
| "flag_bit LCCSCF_PIPELINE = 16"
| "flag_bit LCCSCF_MUXABLE_STREAM = 17"
| "flag_bit LCCSCF_H2_PRIOR_KNOWLEDGE = 18"
| "flag_bit LCCSCF_WAKE_SUSPEND__VALIDITY = 19"
| "flag_bit LCCSCF_PRIORITIZE_READS = 20"
| "flag_bit LCCSCF_SECSTREAM_CLIENT = 21"
| "flag_bit LCCSCF_SECSTREAM_PROXY_LINK = 22"
| "flag_bit LCCSCF_SECSTREAM_PROXY_ONWARD = 23"
| "flag_bit LCCSCF_IP_LOW_LATENCY = 24"
| "flag_bit LCCSCF_IP_HIGH_THROUGHPUT = 25"
| "flag_bit LCCSCF_IP_HIGH_RELIABILITY = 26"
| "flag_bit LCCSCF_IP_LOW_COST = 27"
| "flag_bit LCCSCF_CONMON = 28"
| "flag_bit LCCSCF_ACCEPT_TLS_DOWNGRADE_REDIRECTS = 29"
| "flag_bit LCCSCF_CACHE_COOKIES = 30"

definition flag_mask :: "client_flag \<Rightarrow> 32 word" where
  "flag_mask x = shl (flag_bit x)"

definition client_flags :: "client_flag list" where
  "client_flags = [
     LCCSCF_USE_SSL,
     LCCSCF_ALLOW_SELFSIGNED,
     LCCSCF_SKIP_SERVER_CERT_HOSTNAME_CHECK,
     LCCSCF_ALLOW_EXPIRED,
     LCCSCF_ALLOW_INSECURE,
     LCCSCF_H2_QUIRK_NGHTTP2_END_STREAM,
     LCCSCF_H2_QUIRK_OVERFLOWS_TXCR,
     LCCSCF_H2_AUTH_BEARER,
     LCCSCF_H2_HEXIFY_AUTH_TOKEN,
     LCCSCF_H2_MANUAL_RXFLOW,
     LCCSCF_HTTP_MULTIPART_MIME,
     LCCSCF_HTTP_X_WWW_FORM_URLENCODED,
     LCCSCF_HTTP_NO_FOLLOW_REDIRECT,
     LCCSCF_HTTP_NO_CACHE_CONTROL,
     LCCSCF_ALLOW_REUSE_ADDR,
     LCCSCF_IPV6_PREFER_PUBLIC_ADDR,
     LCCSCF_PIPELINE,
     LCCSCF_MUXABLE_STREAM,
     LCCSCF_H2_PRIOR_KNOWLEDGE,
     LCCSCF_WAKE_SUSPEND__VALIDITY,
     LCCSCF_PRIORITIZE_READS,
     LCCSCF_SECSTREAM_CLIENT,
     LCCSCF_SECSTREAM_PROXY_LINK,
     LCCSCF_SECSTREAM_PROXY_ONWARD,
     LCCSCF_IP_LOW_LATENCY,
     LCCSCF_IP_HIGH_THROUGHPUT,
     LCCSCF_IP_HIGH_RELIABILITY,
     LCCSCF_IP_LOW_COST,
     LCCSCF_CONMON,
     LCCSCF_ACCEPT_TLS_DOWNGRADE_REDIRECTS,
     LCCSCF_CACHE_COOKIES]"

lemma client_flags_complete [simp]: "x \<in> set client_flags"
  by (cases x) (simp_all add: client_flags_def)

section \<open>Reading options back\<close>

lemma flag_bit_less: "flag_bit x < 31"
  by (cases x) simp_all

lemma flag_bit_inject: "flag_bit x = flag_bit y \<Longrightarrow> x = y"
proof -
  have "distinct (map flag_bit client_flags)" by (simp add: client_flags_def)
  then show "flag_bit x = flag_bit y \<Longrightarrow> x = y"
    by (auto simp: distinct_map dest: inj_onD)
qed

interpretation flags: bit_options flag_mask flag_bit "\<lambda>x. [x]"
proof
  show "bit (flag_mask x) n \<longleftrightarrow> (\<exists>y \<in> set [x]. n = flag_bit y)" for x n
    using flag_bit_less [of x] by (simp add: flag_mask_def bit_shl)
qed (rule flag_bit_inject)

lemma option_bit_less: "option_bit x < 40"
proof (cases x)
  case (Low y)
  then show ?thesis by (cases y) simp_all
next
  case (High y)
  then show ?thesis by (cases y) simp_all
qed

lemma option_bit_inject: "option_bit x = option_bit y \<Longrightarrow> x = y"
proof -
  have "distinct (map option_bit server_options)"
    by (simp add: server_options_def low_list_def high_list_def)
  then show "option_bit x = option_bit y \<Longrightarrow> x = y"
    by (auto simp: distinct_map dest: inj_onD)
qed

lemma option_mask_bits: "option_mask x = or_all (map (\<lambda>y. shl (option_bit y)) (option_provides x))"
proof (cases x)
  case (Low y)
  then show ?thesis by (cases y) (simp_all add: option_provides_def tls_options_def)
next
  case (High y)
  then show ?thesis by (cases y) (simp_all add: option_provides_def tls_options_def)
qed

interpretation options: bit_options option_mask option_bit option_provides
proof
  show "bit (option_mask x) n \<longleftrightarrow> (\<exists>y \<in> set (option_provides x). n = option_bit y)" for x n
  proof -
    have "option_bit y < 64" for y using option_bit_less [of y] by simp
    then show ?thesis by (auto simp: option_mask_bits bit_or_all bit_shl)
  qed
qed (rule option_bit_inject)

lemma set_option_provides: "set (option_provides x) =
    insert x (if x \<in> set tls_options then {Low LWS_SERVER_OPTION_DO_SSL_GLOBAL_INIT} else {})"
  by (cases "x \<in> set tls_options") (simp_all only: option_provides_def if_True if_False list.set)

lemma global_init_plain: "Low LWS_SERVER_OPTION_DO_SSL_GLOBAL_INIT \<notin> set tls_options"
  by (simp add: tls_options_def)

lemma provides_iff: "set (option_provides x) \<subseteq> (\<Union>y \<in> set xs. set (option_provides y)) \<longleftrightarrow>
    x \<in> set xs \<or> x = Low LWS_SERVER_OPTION_DO_SSL_GLOBAL_INIT \<and> set xs \<inter> set tls_options \<noteq> {}"
  using global_init_plain by (auto simp: set_option_provides)

text \<open>
  Options are read back as they were put in.  For any list of context options the test of
  the library finds exactly the options of the list, and the initialisation of the TLS library
  also if one of the options for TLS servers is in the list; for any list of connection flags
  it finds exactly these, and the or of the flags is an int that is not negative.
\<close>

lemma option_bits_read_back:
  "(lws_check_opt (or_all (map option_mask xs)) (option_mask x) \<longleftrightarrow>
      x \<in> set xs \<or> x = Low LWS_SERVER_OPTION_DO_SSL_GLOBAL_INIT \<and> set xs \<inter> set tls_options \<noteq> {}) \<and>
   (has_bits (or_all (map flag_mask fs)) (flag_mask f) \<longleftrightarrow> f \<in> set fs) \<and>
   0 \<le> sint (or_all (map flag_mask fs))"
proof -
  have "31 \<noteq> flag_bit y" for y using flag_bit_less [of y] by simp
  then have "\<not> bit (or_all (map flag_mask fs)) 31" by (simp add: bit_or_all flags.mask_bits)
  then have "0 \<le> sint (or_all (map flag_mask fs))"
    using bit_last_iff [of "or_all (map flag_mask fs)"] by simp
  moreover have "has_bits (or_all (map flag_mask fs)) (flag_mask f) \<longleftrightarrow> f \<in> set fs"
    by (simp add: flags.read_options)
  ultimately show ?thesis
    by (simp add: lws_check_opt_has_bits options.read_options provides_iff)
qed

end
