(* ===== verification/LwsInfo.thy ===== *)
theory LwsInfo
  imports LwsOptions
begin

text \<open>
  The structures that the program fills and hands to libwebsockets: \<^verbatim>\<open>struct lws_protocols\<close>
  (\<^verbatim>\<open>lws-protocols-plugins.h\<close>), \<^verbatim>\<open>struct lws_context_creation_info\<close>
  (\<^verbatim>\<open>lws-context-vhost.h\<close>) and \<^verbatim>\<open>struct lws_client_connect_info\<close> (\<^verbatim>\<open>lws-client.h\<close>), with the
  members that \<^verbatim>\<open>lws_config.h\<close> of the tree compiles in.  The target is 32-bit ARM: int, long,
  size and pointer are words of 32 bits.  A text is \<open>None\<close> if the pointer is null, a function
  is given by its name, an array by its elements.
\<close>

section \<open>Protocols\<close>

record lws_protocols =
  pr_name :: "string option"
  pr_callback :: "string option"
  pr_per_session_data_size :: "32 word"
  pr_rx_buffer_size :: "32 word"
  pr_id :: "32 word"
  pr_user :: pointer
  pr_tx_packet_size :: "32 word"

definition LWS_PROTOCOL_LIST_TERM :: lws_protocols where
  "LWS_PROTOCOL_LIST_TERM = \<lparr>pr_name = None, pr_callback = None, pr_per_session_data_size = 0,
     pr_rx_buffer_size = 0, pr_id = 0, pr_user = 0, pr_tx_packet_size = 0\<rparr>"

text \<open>An array of protocols ends with an entry without callback; the entries before it.\<close>

definition listed_protocols :: "lws_protocols list \<Rightarrow> lws_protocols list" where
  "listed_protocols ps = takeWhile (\<lambda>p. pr_callback p \<noteq> None) ps"

definition CONTEXT_PORT_NO_LISTEN :: "32 word" where
  "CONTEXT_PORT_NO_LISTEN = - 1"

definition CONTEXT_PORT_NO_LISTEN_SERVER :: "32 word" where
  "CONTEXT_PORT_NO_LISTEN_SERVER = - 2"

section \<open>Creating a context\<close>

text \<open>Members for the listening socket and http.\<close>

record listen_part =
  ci_iface :: "string option"
  ci_protocols :: "lws_protocols list option"
  ci_extensions :: pointer
  ci_token_limits :: pointer
  ci_http_proxy_address :: "string option"
  ci_headers :: pointer
  ci_reject_service_keywords :: pointer
  ci_pvo :: pointer
  ci_log_filepath :: "string option"
  ci_mounts :: pointer
  ci_server_string :: "string option"
  ci_error_document_404 :: "string option"
  ci_port :: "32 word"
  ci_http_proxy_port :: "32 word"
  ci_max_http_header_data2 :: "32 word"
  ci_max_http_header_pool2 :: "32 word"
  ci_keepalive_timeout :: "32 word"
  ci_http2_settings :: "32 word list"
  ci_max_http_header_data :: "16 word"
  ci_max_http_header_pool :: "16 word"

definition zero_listen_part :: listen_part where
  "zero_listen_part = \<lparr>
     ci_iface = None,
     ci_protocols = None,
     ci_extensions = 0,
     ci_token_limits = 0,
     ci_http_proxy_address = None,
     ci_headers = 0,
     ci_reject_service_keywords = 0,
     ci_pvo = 0,
     ci_log_filepath = None,
     ci_mounts = 0,
     ci_server_string = None,
     ci_error_document_404 = None,
     ci_port = 0,
     ci_http_proxy_port = 0,
     ci_max_http_header_data2 = 0,
     ci_max_http_header_pool2 = 0,
     ci_keepalive_timeout = 0,
     ci_http2_settings = replicate 7 0,
     ci_max_http_header_data = 0,
     ci_max_http_header_pool = 0\<rparr>"

text \<open>Members for TLS, mostly of a server.\<close>

record server_tls_part =
  ci_ssl_private_key_password :: "string option"
  ci_ssl_cert_filepath :: "string option"
  ci_ssl_private_key_filepath :: "string option"
  ci_ssl_ca_filepath :: "string option"
  ci_ssl_cipher_list :: "string option"
  ci_ecdh_curve :: "string option"
  ci_tls1_3_plus_cipher_list :: "string option"
  ci_server_ssl_cert_mem :: pointer
  ci_server_ssl_private_key_mem :: pointer
  ci_server_ssl_ca_mem :: pointer
  ci_ssl_options_set :: "32 word"
  ci_ssl_options_clear :: "32 word"
  ci_simultaneous_ssl_restriction :: "32 word"
  ci_simultaneous_ssl_handshake_restriction :: "32 word"
  ci_ssl_info_event_mask :: "32 word"
  ci_server_ssl_cert_mem_len :: "32 word"
  ci_server_ssl_private_key_mem_len :: "32 word"
  ci_server_ssl_ca_mem_len :: "32 word"
  ci_alpn :: "string option"

definition zero_server_tls_part :: server_tls_part where
  "zero_server_tls_part = \<lparr>
     ci_ssl_private_key_password = None,
     ci_ssl_cert_filepath = None,
     ci_ssl_private_key_filepath = None,
     ci_ssl_ca_filepath = None,
     ci_ssl_cipher_list = None,
     ci_ecdh_curve = None,
     ci_tls1_3_plus_cipher_list = None,
     ci_server_ssl_cert_mem = 0,
     ci_server_ssl_private_key_mem = 0,
     ci_server_ssl_ca_mem = 0,
     ci_ssl_options_set = 0,
     ci_ssl_options_clear = 0,
     ci_simultaneous_ssl_restriction = 0,
     ci_simultaneous_ssl_handshake_restriction = 0,
     ci_ssl_info_event_mask = 0,
     ci_server_ssl_cert_mem_len = 0,
     ci_server_ssl_private_key_mem_len = 0,
     ci_server_ssl_ca_mem_len = 0,
     ci_alpn = None\<rparr>"

text \<open>Members for TLS of a client.\<close>

record client_tls_part =
  ci_client_ssl_private_key_password :: "string option"
  ci_client_ssl_cert_filepath :: "string option"
  ci_client_ssl_cert_mem :: pointer
  ci_client_ssl_cert_mem_len :: "32 word"
  ci_client_ssl_private_key_filepath :: "string option"
  ci_client_ssl_key_mem :: pointer
  ci_client_ssl_ca_filepath :: "string option"
  ci_client_ssl_ca_mem :: pointer
  ci_client_ssl_cipher_list :: "string option"
  ci_client_tls_1_3_plus_cipher_list :: "string option"
  ci_ssl_client_options_set :: "32 word"
  ci_ssl_client_options_clear :: "32 word"
  ci_client_ssl_ca_mem_len :: "32 word"
  ci_client_ssl_key_mem_len :: "32 word"
  ci_provided_client_ssl_ctx :: pointer

definition zero_client_tls_part :: client_tls_part where
  "zero_client_tls_part = \<lparr>
     ci_client_ssl_private_key_password = None,
     ci_client_ssl_cert_filepath = None,
     ci_client_ssl_cert_mem = 0,
     ci_client_ssl_cert_mem_len = 0,
     ci_client_ssl_private_key_filepath = None,
     ci_client_ssl_key_mem = 0,
     ci_client_ssl_ca_filepath = None,
     ci_client_ssl_ca_mem = 0,
     ci_client_ssl_cipher_list = None,
     ci_client_tls_1_3_plus_cipher_list = None,
     ci_ssl_client_options_set = 0,
     ci_ssl_client_options_clear = 0,
     ci_client_ssl_ca_mem_len = 0,
     ci_client_ssl_key_mem_len = 0,
     ci_provided_client_ssl_ctx = 0\<rparr>"

text \<open>Members for keepalive, timeouts and TLS sessions.\<close>

record timeout_part =
  ci_ka_time :: "32 word"
  ci_ka_probes :: "32 word"
  ci_ka_interval :: "32 word"
  ci_timeout_secs :: "32 word"
  ci_connect_timeout_secs :: "32 word"
  ci_bind_iface :: "32 word"
  ci_timeout_secs_ah_idle :: "32 word"
  ci_tls_session_timeout :: "32 word"
  ci_tls_session_cache_max :: "32 word"

definition zero_timeout_part :: timeout_part where
  "zero_timeout_part = \<lparr>
     ci_ka_time = 0,
     ci_ka_probes = 0,
     ci_ka_interval = 0,
     ci_timeout_secs = 0,
     ci_connect_timeout_secs = 0,
     ci_bind_iface = 0,
     ci_timeout_secs_ah_idle = 0,
     ci_tls_session_timeout = 0,
     ci_tls_session_cache_max = 0\<rparr>"

text \<open>Members for identity, options, threads, event loops.\<close>

record process_part =
  ci_gid :: "32 word"
  ci_uid :: "32 word"
  ci_options :: "64 word"
  ci_user :: pointer
  ci_count_threads :: "32 word"
  ci_fd_limit_per_thread :: "32 word"
  ci_vhost_name :: "string option"
  ci_external_baggage_free_on_destroy :: pointer
  ci_pt_serv_buf_size :: "32 word"
  ci_fops :: pointer
  ci_foreign_loops :: pointer
  ci_signal_cb :: pointer
  ci_pcontext :: pointer
  ci_finalize :: pointer
  ci_finalize_arg :: pointer

definition zero_process_part :: process_part where
  "zero_process_part = \<lparr>
     ci_gid = 0,
     ci_uid = 0,
     ci_options = 0,
     ci_user = 0,
     ci_count_threads = 0,
     ci_fd_limit_per_thread = 0,
     ci_vhost_name = None,
     ci_external_baggage_free_on_destroy = 0,
     ci_pt_serv_buf_size = 0,
     ci_fops = 0,
     ci_foreign_loops = 0,
     ci_signal_cb = 0,
     ci_pcontext = 0,
     ci_finalize = 0,
     ci_finalize_arg = 0\<rparr>"

text \<open>Members for roles, names and secure streams.\<close>

record policy_part =
  ci_listen_accept_role :: "string option"
  ci_listen_accept_protocol :: "string option"
  ci_pprotocols :: pointer
  ci_username :: "string option"
  ci_groupname :: "string option"
  ci_unix_socket_perms :: "string option"
  ci_system_ops :: pointer
  ci_retry_and_idle_policy :: pointer
  ci_register_notifier_list :: pointer
  ci_pss_policies_json :: "string option"
  ci_pss_plugins :: pointer
  ci_ss_proxy_bind :: "string option"
  ci_ss_proxy_address :: "string option"
  ci_ss_proxy_port :: "16 word"
  ci_txp_ops_ssproxy :: pointer
  ci_txp_ssproxy_info :: pointer
  ci_txp_ops_sspc :: pointer
  ci_rlimit_nofile :: "32 word"

definition zero_policy_part :: policy_part where
  "zero_policy_part = \<lparr>
     ci_listen_accept_role = None,
     ci_listen_accept_protocol = None,
     ci_pprotocols = 0,
     ci_username = None,
     ci_groupname = None,
     ci_unix_socket_perms = None,
     ci_system_ops = 0,
     ci_retry_and_idle_policy = 0,
     ci_register_notifier_list = 0,
     ci_pss_policies_json = None,
     ci_pss_plugins = 0,
     ci_ss_proxy_bind = None,
     ci_ss_proxy_address = None,
     ci_ss_proxy_port = 0,
     ci_txp_ops_ssproxy = 0,
     ci_txp_ssproxy_info = 0,
     ci_txp_ops_sspc = 0,
     ci_rlimit_nofile = 0\<rparr>"

text \<open>Members for messages, logs, cookies.\<close>

record rest_part =
  ci_early_smd_cb :: pointer
  ci_early_smd_opaque :: pointer
  ci_early_smd_class_filter :: "32 word"
  ci_smd_ttl_us :: "64 word"
  ci_smd_queue_depth :: "16 word"
  ci_fo_listen_queue :: "32 word"
  ci_event_lib_custom :: pointer
  ci_log_cx :: pointer
  ci_http_nsc_filepath :: "string option"
  ci_http_nsc_heap_max_footprint :: "32 word"
  ci_http_nsc_heap_max_items :: "32 word"
  ci_http_nsc_heap_max_payload :: "32 word"
  ci_default_loglevel :: "32 word"
  ci_vh_listen_sockfd :: "32 word"
  ci_unused :: "pointer list"

definition zero_rest_part :: rest_part where
  "zero_rest_part = \<lparr>
     ci_early_smd_cb = 0,
     ci_early_smd_opaque = 0,
     ci_early_smd_class_filter = 0,
     ci_smd_ttl_us = 0,
     ci_smd_queue_depth = 0,
     ci_fo_listen_queue = 0,
     ci_event_lib_custom = 0,
     ci_log_cx = 0,
     ci_http_nsc_filepath = None,
     ci_http_nsc_heap_max_footprint = 0,
     ci_http_nsc_heap_max_items = 0,
     ci_http_nsc_heap_max_payload = 0,
     ci_default_loglevel = 0,
     ci_vh_listen_sockfd = 0,
     ci_unused = replicate 2 0\<rparr>"

text \<open>The whole structure, and what \<^verbatim>\<open>memset\<close> makes of it.\<close>

record lws_context_creation_info =
  ci_listen :: listen_part
  ci_server_tls :: server_tls_part
  ci_client_tls :: client_tls_part
  ci_timeouts :: timeout_part
  ci_process :: process_part
  ci_policy :: policy_part
  ci_rest :: rest_part

definition zero_creation_info :: lws_context_creation_info where
  "zero_creation_info = \<lparr>ci_listen = zero_listen_part,
     ci_server_tls = zero_server_tls_part,
     ci_client_tls = zero_client_tls_part,
     ci_timeouts = zero_timeout_part,
     ci_process = zero_process_part,
     ci_policy = zero_policy_part,
     ci_rest = zero_rest_part\<rparr>"

section \<open>Connecting\<close>

record lws_client_connect_info =
  cc_context :: "nat option"
  cc_address :: "string option"
  cc_port :: "32 word"
  cc_ssl_connection :: "32 word"
  cc_path :: "string option"
  cc_host :: "string option"
  cc_origin :: "string option"
  cc_protocol :: "string option"
  cc_ietf_version_or_minus_one :: "32 word"
  cc_userdata :: pointer
  cc_client_exts :: pointer
  cc_method :: "string option"
  cc_parent_wsi :: pointer
  cc_uri_replace_from :: "string option"
  cc_uri_replace_to :: "string option"
  cc_vhost :: pointer
  cc_pwsi :: pointer
  cc_iface :: "string option"
  cc_local_port :: "32 word"
  cc_local_protocol_name :: "string option"
  cc_alpn :: "string option"
  cc_opaque_user_data :: pointer
  cc_retry_and_idle_policy :: pointer
  cc_manual_initial_tx_credit :: "32 word"
  cc_sys_tls_client_cert :: "8 word"
  cc_priority :: "8 word"
  cc_mqtt_cp :: pointer
  cc_fi_wsi_name :: "string option"
  cc_keep_warm_secs :: "16 word"
  cc_log_cx :: pointer
  cc_auth_username :: "string option"
  cc_auth_password :: "string option"
  cc_allow_reserved_bits :: "8 word"
  cc_allow_unknown_opcode :: "8 word"
  cc_unused :: "pointer list"

definition zero_lws_client_connect_info :: lws_client_connect_info where
  "zero_lws_client_connect_info = \<lparr>
     cc_context = None,
     cc_address = None,
     cc_port = 0,
     cc_ssl_connection = 0,
     cc_path = None,
     cc_host = None,
     cc_origin = None,
     cc_protocol = None,
     cc_ietf_version_or_minus_one = 0,
     cc_userdata = 0,
     cc_client_exts = 0,
     cc_method = None,
     cc_parent_wsi = 0,
     cc_uri_replace_from = None,
     cc_uri_replace_to = None,
     cc_vhost = 0,
     cc_pwsi = 0,
     cc_iface = None,
     cc_local_port = 0,
     cc_local_protocol_name = None,
     cc_alpn = None,
     cc_opaque_user_data = 0,
     cc_retry_and_idle_policy = 0,
     cc_manual_initial_tx_credit = 0,
     cc_sys_tls_client_cert = 0,
     cc_priority = 0,
     cc_mqtt_cp = 0,
     cc_fi_wsi_name = None,
     cc_keep_warm_secs = 0,
     cc_log_cx = 0,
     cc_auth_username = None,
     cc_auth_password = None,
     cc_allow_reserved_bits = 0,
     cc_allow_unknown_opcode = 0,
     cc_unused = replicate 4 0\<rparr>"

end
