(* ===== verification/Connection.thy ===== *)
theory Connection
  imports CLib LwsInfo
begin

text \<open>
  \<^verbatim>\<open>finnhub_connection_setup\<close> of \<^verbatim>\<open>src/WSSHandling.c\<close>: the two structures that it fills for
  libwebsockets, what it returns, and the contexts that it creates and destroys.  The answers
  of the library are parameters: whether it creates a context for what it is asked, and the
  connection, if any.
\<close>

definition TEMP_BUFFER_LENGTH :: nat where
  "TEMP_BUFFER_LENGTH = 256"

section \<open>What the library is asked for\<close>

definition protocols :: "lws_protocols list" where
  "protocols =
     [\<lparr>pr_name = Some ''finnhub-protocol'', pr_callback = Some ''lws_callback'',
        pr_per_session_data_size = 0, pr_rx_buffer_size = 0, pr_id = 0, pr_user = 0, pr_tx_packet_size = 0\<rparr>,
      \<lparr>pr_name = None, pr_callback = None,
        pr_per_session_data_size = 0, pr_rx_buffer_size = 0, pr_id = 0, pr_user = 0, pr_tx_packet_size = 0\<rparr>]"

definition context_info :: lws_context_creation_info where
  "context_info = (let info = zero_creation_info in info\<lparr>
     ci_listen := (ci_listen info)\<lparr>ci_port := CONTEXT_PORT_NO_LISTEN, ci_protocols := Some protocols\<rparr>,
     ci_process := (ci_process info)\<lparr>
       ci_options := option_mask (Low LWS_SERVER_OPTION_DO_SSL_GLOBAL_INIT), ci_uid := - 1, ci_gid := - 1\<rparr>,
     ci_server_tls := (ci_server_tls info)\<lparr>ci_ssl_ca_filepath := Some ''./ca-certificates.crt''\<rparr>\<rparr>)"

definition api_path :: "string \<Rightarrow> string" where
  "api_path api_key = snprintf TEMP_BUFFER_LENGTH (''/?token='' @ api_key)"

definition connect_info :: "nat \<Rightarrow> string \<Rightarrow> lws_client_connect_info" where
  "connect_info ctx api_key = (let address = Some ''ws.finnhub.io'' in zero_lws_client_connect_info\<lparr>
     cc_context := Some ctx, cc_ssl_connection := flag_mask LCCSCF_USE_SSL, cc_address := address,
     cc_port := 443, cc_path := Some (api_path api_key), cc_host := address, cc_origin := address,
     cc_protocol := pr_name (protocols ! 0), cc_ietf_version_or_minus_one := - 1\<rparr>)"

section \<open>The setup\<close>

text \<open>Contexts are numbered in the order of their creation; \<open>live\<close> are those not destroyed.\<close>

record WSS_Objects =
  wss_ctx :: "nat option"
  wss_wsi :: "nat option"

record contexts =
  created :: nat
  live :: "nat set"
  sigint_bound :: bool

definition lws_context_destroy :: "nat option \<Rightarrow> contexts \<Rightarrow> contexts" where
  "lws_context_destroy ctx c = (case ctx of None \<Rightarrow> c | Some k \<Rightarrow> c\<lparr>live := live c - {k}\<rparr>)"

record connect_lib =
  lws_create_context :: "lws_context_creation_info \<Rightarrow> bool"
  lws_client_connect_via_info :: "lws_client_connect_info \<Rightarrow> nat option"

definition finnhub_connection_setup ::
  "connect_lib \<Rightarrow> string \<Rightarrow> contexts \<Rightarrow> WSS_Objects \<times> contexts" where
  "finnhub_connection_setup lib api_key c =
     (let result = \<lparr>wss_ctx = None, wss_wsi = None\<rparr> in
      if \<not> lws_create_context lib context_info then (result, c)
      else (let ctx = created c;
                c1 = c\<lparr>created := ctx + 1, live := insert ctx (live c)\<rparr> in
        case lws_client_connect_via_info lib (connect_info ctx api_key) of
          None \<Rightarrow> (result\<lparr>wss_ctx := None\<rparr>, lws_context_destroy (wss_ctx result) c1)
        | Some wsi \<Rightarrow> (\<lparr>wss_ctx = Some ctx, wss_wsi = Some wsi\<rparr>, c1\<lparr>sigint_bound := True\<rparr>)))"

section \<open>A client of one server, over verified TLS\<close>

text \<open>
  A context that only serves as a client: it does not listen, its only option is the
  initialisation of the TLS library, it has no certificate or key of its own and no proxy, it
  keeps user and group, and it trusts the certificates of the given file.
\<close>

definition client_only :: "lws_context_creation_info \<Rightarrow> bool" where
  "client_only info \<longleftrightarrow>
     ci_port (ci_listen info) = CONTEXT_PORT_NO_LISTEN \<and>
     ci_http_proxy_address (ci_listen info) = None \<and>
     filter (\<lambda>x. lws_check_opt (ci_options (ci_process info)) (option_mask x)) server_options =
       [Low LWS_SERVER_OPTION_DO_SSL_GLOBAL_INIT] \<and>
     ci_ssl_cert_filepath (ci_server_tls info) = None \<and>
     ci_ssl_private_key_filepath (ci_server_tls info) = None \<and>
     ci_server_ssl_cert_mem (ci_server_tls info) = 0 \<and>
     ci_server_ssl_private_key_mem (ci_server_tls info) = 0 \<and>
     ci_client_ssl_cert_filepath (ci_client_tls info) = None \<and>
     ci_client_ssl_cert_mem (ci_client_tls info) = 0 \<and>
     ci_uid (ci_process info) = - 1 \<and> ci_gid (ci_process info) = - 1 \<and>
     ci_ssl_ca_filepath (ci_server_tls info) = Some ''./ca-certificates.crt'' \<and>
     map_option (map pr_callback \<circ> listed_protocols) (ci_protocols (ci_listen info)) = Some [Some ''lws_callback'']"

text \<open>
  A connection to the server by TLS with all checks of its certificate: of the flags, only
  the one for TLS is set, so none of those that allow self-signed, expired or insecure
  certificates or skip the check of the host name; it is upgraded to a web socket (no method)
  and asks for the path with the key.
\<close>

definition verified_tls :: "string \<Rightarrow> lws_client_connect_info \<Rightarrow> bool" where
  "verified_tls api_key info \<longleftrightarrow>
     filter (\<lambda>f. has_bits (cc_ssl_connection info) (flag_mask f)) client_flags = [LCCSCF_USE_SSL] \<and>
     cc_address info = Some ''ws.finnhub.io'' \<and> cc_host info = cc_address info \<and>
     cc_origin info = cc_address info \<and> cc_port info = 443 \<and>
     cc_path info = Some (api_path api_key) \<and> cc_method info = None \<and>
     cc_local_port info = 0 \<and> cc_sys_tls_client_cert info = 0 \<and>
     cc_protocol info = Some ''finnhub-protocol''"

lemma context_info_client_only: "client_only context_info"
proof -
  have "filter (\<lambda>x. lws_check_opt (option_mask (Low LWS_SERVER_OPTION_DO_SSL_GLOBAL_INIT)) (option_mask x))
      server_options = filter (\<lambda>x. x = Low LWS_SERVER_OPTION_DO_SSL_GLOBAL_INIT) server_options"
    using options.read_options [of "[Low LWS_SERVER_OPTION_DO_SSL_GLOBAL_INIT]"]
      provides_iff [of _ "[Low LWS_SERVER_OPTION_DO_SSL_GLOBAL_INIT]"] global_init_plain
    by (intro filter_cong refl) (simp add: lws_check_opt_has_bits)
  also have "\<dots> = [Low LWS_SERVER_OPTION_DO_SSL_GLOBAL_INIT]"
    by (simp add: server_options_def low_list_def high_list_def)
  finally show ?thesis
    by (simp add: client_only_def context_info_def zero_creation_info_def zero_listen_part_def
      zero_server_tls_part_def zero_client_tls_part_def zero_process_part_def protocols_def
      listed_protocols_def Let_def)
qed

lemma connect_info_verified: "verified_tls api_key (connect_info ctx api_key)"
proof -
  have "filter (\<lambda>f. has_bits (flag_mask LCCSCF_USE_SSL) (flag_mask f)) client_flags =
      filter (\<lambda>f. f = LCCSCF_USE_SSL) client_flags"
    using flags.read_options [of "[LCCSCF_USE_SSL]"] by (intro filter_cong refl) simp
  also have "\<dots> = [LCCSCF_USE_SSL]" by (simp add: client_flags_def)
  finally show ?thesis
    by (simp add: verified_tls_def connect_info_def zero_lws_client_connect_info_def protocols_def Let_def)
qed

text \<open>
  C20: The program only ever opens verified TLS connections to its server, from contexts that
  serve nothing.  Two libraries that answer alike when they are asked for a context that is a
  client only and for a verified TLS connection with the key make no difference to the setup:
  nothing else is ever asked.
\<close>

theorem only_verified_connections:
  assumes "\<And>info. client_only info \<Longrightarrow> lws_create_context lib info = lws_create_context lib' info"
    and "\<And>info. verified_tls api_key info \<Longrightarrow>
      lws_client_connect_via_info lib info = lws_client_connect_via_info lib' info"
  shows "finnhub_connection_setup lib api_key c = finnhub_connection_setup lib' api_key c"
  using assms(1) [OF context_info_client_only] assms(2) [OF connect_info_verified]
  by (simp add: finnhub_connection_setup_def Let_def)

text \<open>A library for the examples: it grants what it is asked, if it is asked for the right thing.\<close>

definition sample_connect_lib :: "string \<Rightarrow> connect_lib" where
  "sample_connect_lib api_key = \<lparr>lws_create_context = client_only,
     lws_client_connect_via_info = (\<lambda>info. if verified_tls api_key info then Some 7 else None)\<rparr>"

lemma only_verified_connections_witness:
  "fst (finnhub_connection_setup (sample_connect_lib ''abc'') ''abc''
      \<lparr>created = 0, live = {}, sigint_bound = False\<rparr>) = \<lparr>wss_ctx = Some 0, wss_wsi = Some 7\<rparr>"
proof -
  let ?lib = "\<lparr>lws_create_context = \<lambda>_. True, lws_client_connect_via_info = \<lambda>_. Some 7\<rparr>"
  have "finnhub_connection_setup (sample_connect_lib ''abc'') ''abc'' c = finnhub_connection_setup ?lib ''abc'' c" for c
    by (rule only_verified_connections) (simp_all add: sample_connect_lib_def)
  then show ?thesis by (simp add: finnhub_connection_setup_def Let_def)
qed

text \<open>
  The outcomes of connecting: both pointers are set if the library answers, and both are
  null otherwise; but a context whose connection fails stays alive, because the call that
  should destroy it is given the null pointer of the result.  A thread that retries leaks one
  context per attempt.
\<close>

theorem failed_connections_leak:
  "(let r = fst (finnhub_connection_setup lib key c) in
      (wss_ctx r = None \<longleftrightarrow> wss_wsi r = None) \<and>
      (wss_ctx r \<noteq> None \<longleftrightarrow> lws_create_context lib context_info \<and>
        lws_client_connect_via_info lib (connect_info (created c) key) \<noteq> None)) \<and>
   live (((\<lambda>c. snd (finnhub_connection_setup
       (lib\<lparr>lws_create_context := \<lambda>_. True, lws_client_connect_via_info := \<lambda>_. None\<rparr>) key c)) ^^ k) c) =
     live c \<union> {created c..<created c + k}"
proof -
  let ?f = "\<lambda>c. snd (finnhub_connection_setup
      (lib\<lparr>lws_create_context := \<lambda>_. True, lws_client_connect_via_info := \<lambda>_. None\<rparr>) key c)"
  have f: "created (?f c) = created c + 1 \<and> live (?f c) = insert (created c) (live c)" for c
    by (simp add: finnhub_connection_setup_def lws_context_destroy_def Let_def)
  have "created ((?f ^^ k) c) = created c + k \<and> live ((?f ^^ k) c) = live c \<union> {created c..<created c + k}"
    by (induction k) (simp_all add: f atLeastLessThanSuc)
  moreover have "let r = fst (finnhub_connection_setup lib key c) in
      (wss_ctx r = None \<longleftrightarrow> wss_wsi r = None) \<and>
      (wss_ctx r \<noteq> None \<longleftrightarrow> lws_create_context lib context_info \<and>
        lws_client_connect_via_info lib (connect_info (created c) key) \<noteq> None)"
    by (simp add: finnhub_connection_setup_def Let_def split: option.split)
  ultimately show ?thesis by blast
qed

end
