(* ===== verification/WSSHandling.thy ===== *)
theory WSSHandling
  imports JSONParsing LwsCallbacks LwsWrite Connection "HOL-Library.Signed_Division"
begin

text \<open>
  \<^verbatim>\<open>include/WSSHandling.h\<close> and \<^verbatim>\<open>src/WSSHandling.c\<close>: the callback of the
  connection, the subscriptions, the timer and the two signal handlers (the setup of the
  connection is in \<^verbatim>\<open>Connection\<close>).  The libraries are parameters: LEJP (a parser state, its
  constructor and its parse function, which yields the callbacks it makes and a return code)
  and the write function of libwebsockets.  The clock is an input, terminal output is left out.
\<close>

section \<open>State and libraries\<close>

definition PROGRAM_MAX_HOUR_LIMIT :: int where
  "PROGRAM_MAX_HOUR_LIMIT = 48"

record 'p lws_lib =
  lejp_construct :: "string list \<Rightarrow> nat \<Rightarrow> 'p"
  lejp_destruct :: "'p \<Rightarrow> 'p"
  lejp_parse :: "'p \<Rightarrow> string \<Rightarrow> 'p \<times> json_event list \<times> int"
  lws_write :: "string list \<Rightarrow> lws_write_args \<Rightarrow> int"

text \<open>
  What the callback works on: its static parser context, the static variables of the JSON
  callback, the first queue with its producer lock, the flag of the connection, and what was
  sent to the libraries.
\<close>

record 'p wss =
  json_ctx :: 'p
  json_vars :: json_state
  api_queue :: PCQueue
  producer_held :: bool
  connection_closed :: bool
  sent :: "string list"
  not_empty_signals :: nat
  close_reason :: "lws_close_status option"

section \<open>Subscriptions\<close>

text \<open>
  A message is copied behind the room that the library needs and written as text.  The result
  of a write depends on the messages written before.
\<close>

definition text_write :: "string \<Rightarrow> lws_write_args" where
  "text_write msg = \<lparr>wr_buf = replicate LWS_PRE None @ map Some msg, wr_ptr = LWS_PRE,
     wr_len = length msg, wr_protocol = LWS_WRITE_TEXT\<rparr>"

definition write_to_server :: "(string list \<Rightarrow> lws_write_args \<Rightarrow> int) \<Rightarrow> string list \<Rightarrow> string \<Rightarrow> int \<times> string list" where
  "write_to_server wr hist msg =
     (let return_code = wr hist (text_write msg) in
      (if return_code < 0 then return_code else 0, hist @ [msg]))"

lemma text_write_ok [simp]: "wr_valid (text_write msg) \<and> wr_payload (text_write msg) = map Some msg"
  by (simp add: text_write_def wr_valid_def wr_payload_def)

definition quote :: string where
  "quote = [CHR 0x22]"

definition subscribe_message :: "string \<Rightarrow> string" where
  "subscribe_message sb = snprintf TEMP_BUFFER_LENGTH
     (''{'' @ quote @ ''type'' @ quote @ '':'' @ quote @ ''subscribe'' @ quote @ '','' @
      quote @ ''symbol'' @ quote @ '':'' @ quote @ sb @ quote @ ''}'')"

fun subscribe_from :: "(string list \<Rightarrow> lws_write_args \<Rightarrow> int) \<Rightarrow> string list \<Rightarrow> string list \<Rightarrow> int \<times> string list" where
  "subscribe_from wr [] hist = (0, hist)"
| "subscribe_from wr (sb # ss) hist =
     (if 0 < length sb then
        (let (r, hist') = write_to_server wr hist (subscribe_message sb) in
         if r \<noteq> 0 then (- 1, hist') else subscribe_from wr ss hist')
      else (0, hist))"

definition subscribe_to_symbols :: "(string list \<Rightarrow> lws_write_args \<Rightarrow> int) \<Rightarrow> string list \<Rightarrow> int \<times> string list" where
  "subscribe_to_symbols wr hist = subscribe_from wr symbols_list hist"

section \<open>The callback of the connection\<close>

text \<open>
  Taking the producer lock while it is held means to wait.  \<^verbatim>\<open>now\<close> is the time that the
  JSON callback reads at the start of a message.
\<close>

definition lws_callback ::
  "'p lws_lib \<Rightarrow> timeval \<Rightarrow> lws_callback_reasons \<Rightarrow> string \<Rightarrow> 'p wss \<Rightarrow> 'p wss outcome" where
  "lws_callback lib now reason inp s = (case reason of WsClient r \<Rightarrow> (case r of
       LWS_CALLBACK_CLIENT_ESTABLISHED \<Rightarrow>
         (let s1 = s\<lparr>json_ctx := construct_parser (lejp_construct lib)\<rparr>;
              (r, hist) = subscribe_to_symbols (lws_write lib) (sent s1);
              s2 = s1\<lparr>sent := hist\<rparr> in
          if r \<noteq> 0
          then Returns (- 1) (s2\<lparr>connection_closed := True, json_ctx := lejp_destruct lib (json_ctx s2)\<rparr>)
          else Returns 0 s2)
     | LWS_CALLBACK_CLIENT_RECEIVE \<Rightarrow>
         if producer_held s then Waits
         else (let (ctx, evs, return_code) = lejp_parse lib (json_ctx s) inp in
           case json_callbacks now evs (json_vars s, api_queue s) of
             Waits \<Rightarrow> Waits
           | Returns _ (vars, q) \<Rightarrow>
               Returns 0 (s\<lparr>json_vars := vars, api_queue := q, producer_held := False,
                 json_ctx := construct_parser (lejp_construct lib)\<rparr>))
     | LWS_CALLBACK_CLIENT_CLOSED \<Rightarrow>
         (let s1 = s\<lparr>connection_closed := True\<rparr>;
              s2 = (if q_exit_flag (api_queue s1)
                then s1\<lparr>not_empty_signals := not_empty_signals s1 + 1,
                  close_reason := Some LWS_CLOSE_STATUS_NORMAL\<rparr> else s1) in
          Returns (- 1) (s2\<lparr>json_ctx := lejp_destruct lib (json_ctx s2)\<rparr>))
     | LWS_CALLBACK_CLIENT_CONNECTION_ERROR \<Rightarrow> Returns 0 (s\<lparr>connection_closed := True\<rparr>)
     | _ \<Rightarrow> Returns 0 s)
   | _ \<Rightarrow> Returns 0 s)"

section \<open>Signal handlers and timer\<close>

definition SIGINT :: int where
  "SIGINT = 2"

definition close_connection_interrupt :: "int \<Rightarrow> PCQueue \<Rightarrow> PCQueue" where
  "close_connection_interrupt signo q = (if signo = SIGINT then q\<lparr>q_exit_flag := True\<rparr> else q)"

record itimerval =
  it_interval :: timeval
  it_value :: timeval

text \<open>
  \<open>setitimer\<close> is the answer of the system for a timer, \<open>handler_ok\<close> whether the handler could
  be installed; the program ends with status 1 if either fails.
\<close>

datatype timer_setup = Timer_exit int | Timer_set itimerval

definition initial_timer :: "timeval \<Rightarrow> itimerval" where
  "initial_timer now = \<lparr>it_interval = \<lparr>tv_sec = 60, tv_usec = 0\<rparr>,
     it_value = \<lparr>tv_sec = 59 - tv_sec now smod 60, tv_usec = 1000000 - tv_usec now\<rparr>\<rparr>"

definition setup_timer :: "bool \<Rightarrow> (itimerval \<Rightarrow> int) \<Rightarrow> timeval \<Rightarrow> timer_setup" where
  "setup_timer handler_ok setitimer now =
     (if \<not> handler_ok then Timer_exit 1
      else if setitimer (initial_timer now) = - 1 then Timer_exit 1
      else Timer_set (initial_timer now))"

text \<open>The two static counters of the handler of the timer.\<close>

record counters =
  minute_counter :: int
  hour_counter :: int

definition counters_init :: counters where
  "counters_init = \<lparr>minute_counter = 0, hour_counter = 0\<rparr>"

definition count_minute :: "counters \<Rightarrow> counters" where
  "count_minute c = (let
     c = c\<lparr>minute_counter := minute_counter c + 1\<rparr>;
     c = c\<lparr>hour_counter := hour_counter c + minute_counter c sdiv 60\<rparr>
   in c\<lparr>minute_counter := minute_counter c smod 60\<rparr>)"

text \<open>The directive; price and symbol index of the item are not assigned, \<open>junk\<close>.\<close>

definition directive_item :: "timeval \<Rightarrow> Trade \<Rightarrow> WorkItem" where
  "directive_item now junk = \<lparr>item_trade = junk\<lparr>trade_t := of_int (tv_sec now sdiv 60 - 1),
     trade_v := DIRECTIVE_CALCULATE_MINUTE\<rparr>, item_event_time = now\<rparr>"

definition send_directive_to_queue ::
  "timeval \<Rightarrow> Trade \<Rightarrow> counters \<Rightarrow> 'p wss \<Rightarrow> (counters \<times> 'p wss) outcome" where
  "send_directive_to_queue now junk c s =
     (let c' = count_minute c in
      if producer_held s then Waits
      else (case queue_add (api_queue s) (directive_item now junk) of
          Waits \<Rightarrow> Waits
        | Returns _ q \<Rightarrow>
            Returns 0 (c', s\<lparr>api_queue :=
              (if hour_counter c' = PROGRAM_MAX_HOUR_LIMIT then q\<lparr>q_exit_flag := True\<rparr> else q)\<rparr>)))"

section \<open>From a message to the queue\<close>


text \<open>A parser for the examples: it reports one trade for one text, and nothing else.\<close>

definition sample_lib :: "string lws_lib" where
  "sample_lib = \<lparr>lejp_construct = (\<lambda>paths n. []), lejp_destruct = (\<lambda>p. p),
     lejp_parse = (\<lambda>p inp.
       if p @ inp = ''{trade}'' then (p @ inp, message_events [(sample_body ''NVDA'' ''224.5'', ''NVDA'', ''224.5'', ''1727288867235'', ''4'')], 0)
       else if take 1 (p @ inp) = ''{'' then (p @ inp, [], - 1)
       else (p @ inp, [], - 2)),
     lws_write = (\<lambda>hist w. int (wr_len w))\<rparr>"

definition sample_wss :: "string wss" where
  "sample_wss = \<lparr>json_ctx = [], json_vars = json_init, api_queue = queue_init, producer_held = False,
     connection_closed = False, sent = [], not_empty_signals = 0, close_reason = None\<rparr>"

lemma sample_object_ok: "object_ok (sample_body ''NVDA'' ''224.5'', ''NVDA'', ''224.5'', ''1727288867235'', ''4'')"
proof -
  have "find_symbol ''NVDA'' = Some 4" by code_simp
  then show ?thesis using sample_numbers trade_body_sample by (simp add: object_ok_def texts_ok_def)
qed


text \<open>A sequence of receptions, as long as none has to wait.\<close>

fun receive_all :: "'p lws_lib \<Rightarrow> (timeval \<times> string) list \<Rightarrow> 'p wss \<Rightarrow> 'p wss outcome" where
  "receive_all lib [] s = Returns 0 s"
| "receive_all lib ((now, inp) # rs) s =
     (case lws_callback lib now (WsClient LWS_CALLBACK_CLIENT_RECEIVE) inp s of
        Waits \<Rightarrow> Waits | Returns _ s' \<Rightarrow> receive_all lib rs s')"

text \<open>What newly constructed parsers report for each of the texts on its own.\<close>

definition afresh :: "'p lws_lib \<Rightarrow> string \<Rightarrow> json_event list" where
  "afresh lib inp = fst (snd (lejp_parse lib (construct_parser (lejp_construct lib)) inp))"

fun items_afresh :: "'p lws_lib \<Rightarrow> (timeval \<times> string) list \<Rightarrow> json_state \<Rightarrow> WorkItem list" where
  "items_afresh lib [] vars = []"
| "items_afresh lib ((now, inp) # rs) vars =
     (let (vars', xs) = json_run now (afresh lib inp) vars in xs @ items_afresh lib rs vars')"

text \<open>
  Every reception is parsed on its own.  The callback constructs the parser anew after
  each reception, also when the parser asked for more input, so for any sequence of received
  texts the items queued are those that fresh parsers report for each text separately.  A
  message that arrives in several fragments is therefore never put together again.
\<close>

lemma receptions_parsed_afresh:
  assumes "json_ctx s = construct_parser (lejp_construct lib)" and "\<not> producer_held s"
    and "wf_queue (api_queue s)" and "\<not> q_exit_flag (api_queue s)"
    and "length (contents (api_queue s)) + length (items_afresh lib rs (json_vars s)) \<le> 2000"
  shows "\<exists>s'. receive_all lib rs s = Returns 0 s' \<and>
    contents (api_queue s') = contents (api_queue s) @ items_afresh lib rs (json_vars s)"
  using assms
proof (induction rs arbitrary: s)
  case (Cons r rs)
  obtain now inp where r: "r = (now, inp)" by fastforce
  obtain vars xs where run: "json_run now (afresh lib inp) (json_vars s) = (vars, xs)" by fastforce
  obtain ctx evs code where parse: "lejp_parse lib (json_ctx s) inp = (ctx, evs, code)"
    by (cases "lejp_parse lib (json_ctx s) inp") auto
  then have evs: "evs = afresh lib inp" using Cons.prems(1) by (simp add: afresh_def)
  obtain q where q: "json_callbacks now evs (json_vars s, api_queue s) = Returns 0 (vars, q)" "wf_queue q"
    "\<not> q_exit_flag q" "contents q = contents (api_queue s) @ xs"
    using json_callbacks_queue [OF Cons.prems(3,4), of now evs "json_vars s"] Cons.prems(5) run
    by (auto simp: evs r QUEUE_SIZE_def simp del: length_contents)
  let ?s = "s\<lparr>json_vars := vars, api_queue := q, producer_held := False,
      json_ctx := construct_parser (lejp_construct lib)\<rparr>"
  have step: "lws_callback lib now (WsClient LWS_CALLBACK_CLIENT_RECEIVE) inp s = Returns 0 ?s"
    using parse q(1) Cons.prems(2) by (simp add: lws_callback_def)
  have "\<exists>s'. receive_all lib rs ?s = Returns 0 s' \<and>
      contents (api_queue s') = contents (api_queue ?s) @ items_afresh lib rs (json_vars ?s)"
    using q Cons.prems(5) run by (intro Cons.IH) (simp_all add: r del: length_contents)
  then show ?case using q(4) run by (simp add: r step)
qed simp

lemma receptions_parsed_afresh_witness:
  "\<exists>s'. receive_all sample_lib [(\<lparr>tv_sec = 5, tv_usec = 6\<rparr>, ''{tra''), (\<lparr>tv_sec = 5, tv_usec = 7\<rparr>, ''de}'')] sample_wss =
      Returns 0 s' \<and> contents (api_queue s') = [] \<and>
      fst (snd (lejp_parse sample_lib ''{tra'' ''de}'')) \<noteq> []"
proof -
  let ?rs = "[(\<lparr>tv_sec = 5, tv_usec = 6\<rparr>, ''{tra''), (\<lparr>tv_sec = 5, tv_usec = 7\<rparr>, ''de}'')]"
  have "json_ctx sample_wss = construct_parser (lejp_construct sample_lib)"
    by (simp add: sample_wss_def sample_lib_def construct_parser_def)
  moreover have "items_afresh sample_lib ?rs (json_vars sample_wss) = []"
    by (simp add: afresh_def sample_lib_def construct_parser_def)
  ultimately show ?thesis
    using receptions_parsed_afresh [of sample_wss sample_lib ?rs]
    by (simp add: sample_wss_def sample_lib_def message_events_def del: receive_all.simps)
qed

section \<open>Subscribing\<close>

lemma subscribe_message_full:
  assumes "sb \<in> set active_symbols"
  shows "subscribe_message sb = ''{'' @ quote @ ''type'' @ quote @ '':'' @ quote @ ''subscribe'' @ quote @ '','' @
      quote @ ''symbol'' @ quote @ '':'' @ quote @ sb @ quote @ ''}''"
  using active_symbols_short [OF assms]
  by (simp add: subscribe_message_def snprintf_def TEMP_BUFFER_LENGTH_def quote_def SYMBOLS_MAX_LENGTH_def)

lemma subscribe_from_upto:
  assumes "\<forall>sb \<in> set ss. sb \<noteq> []" and "k \<le> length ss"
    and "\<And>j. j < k \<Longrightarrow> 0 \<le> wr (hist @ map subscribe_message (take j ss)) (text_write (subscribe_message (ss ! j)))"
    and "k < length ss \<Longrightarrow> wr (hist @ map subscribe_message (take k ss)) (text_write (subscribe_message (ss ! k))) < 0"
  shows "subscribe_from wr (ss @ [[]]) hist =
    (if k = length ss then 0 else - 1, hist @ map subscribe_message (take (Suc k) ss))"
  using assms
proof (induction ss arbitrary: k hist)
  case (Cons sb ss)
  show ?case
  proof (cases k)
    case 0
    then show ?thesis using Cons.prems(1,4) by (simp add: write_to_server_def)
  next
    case (Suc j)
    have w: "0 \<le> wr hist (text_write (subscribe_message sb))" using Cons.prems(3) [of 0] Suc by simp
    have later: "0 \<le> wr ((hist @ [subscribe_message sb]) @ map subscribe_message (take i ss)) (text_write (subscribe_message (ss ! i)))"
      if "i < j" for i
      using Cons.prems(3) [of "Suc i"] Suc that by simp
    have "subscribe_from wr (ss @ [[]]) (hist @ [subscribe_message sb]) =
        (if j = length ss then 0 else - 1, (hist @ [subscribe_message sb]) @ map subscribe_message (take (Suc j) ss))"
      using Cons.prems(1,2,4) Suc later by (intro Cons.IH) auto
    then show ?thesis using Cons.prems(1) Suc w by (simp add: write_to_server_def)
  qed
qed simp

text \<open>
  Subscribing covers exactly the configured symbols.  Let \<open>k\<close> be the position of the first
  write that fails, or the number of symbols if none does: then one complete message for
  each symbol up to that position is sent, in the order of the list, nothing after it, and
  the result is 0 exactly if none failed.
\<close>

lemma subscribe_covers_symbols:
  assumes "k \<le> SYMBOL_COUNT"
    and "\<And>j. j < k \<Longrightarrow> 0 \<le> wr (hist @ map subscribe_message (take j active_symbols))
      (text_write (subscribe_message (active_symbols ! j)))"
    and "k < SYMBOL_COUNT \<Longrightarrow> wr (hist @ map subscribe_message (take k active_symbols))
      (text_write (subscribe_message (active_symbols ! k))) < 0"
  shows "subscribe_to_symbols wr hist =
      (if k = SYMBOL_COUNT then 0 else - 1, hist @ map subscribe_message (take (Suc k) active_symbols)) \<and>
    (\<forall>sb \<in> set active_symbols. subscribe_message sb = ''{'' @ quote @ ''type'' @ quote @ '':'' @ quote @
      ''subscribe'' @ quote @ '','' @ quote @ ''symbol'' @ quote @ '':'' @ quote @ sb @ quote @ ''}'')"
  using subscribe_from_upto [of active_symbols k wr hist] assms active_symbols_nonempty subscribe_message_full
  by (simp add: subscribe_to_symbols_def symbols_list_split del: SYMBOL_COUNT_21)

lemma subscribe_covers_symbols_witness:
  "subscribe_to_symbols (lws_write sample_lib) [] = (0, map subscribe_message active_symbols)"
  using subscribe_covers_symbols [of SYMBOL_COUNT "lws_write sample_lib" "[]"]
  by (simp add: sample_lib_def text_write_def)

section \<open>The other reasons\<close>

text \<open>
  The callback acts on four numbers only.  Whatever integer other than 1, 3, 8 and 75 the
  library passes as the reason of a call, the callback returns 0, which means that the
  connection goes on, and changes nothing: no wait, no lock, no write, no item.
\<close>

lemma other_reasons_ignored:
  assumes "reason_of_code i = Some reason" and "i \<notin> {1, 3, 8, 75}"
  shows "lws_callback lib now reason inp s = Returns 0 s"
proof (cases reason)
  case (WsClient r)
  then have "ws_client_code r = i" using reason_of_codeD [OF assms(1)] by simp
  then show ?thesis using WsClient assms(2) by (cases r) (simp_all add: lws_callback_def)
qed (simp_all add: lws_callback_def)

lemma other_reasons_ignored_witness:
  "reason_of_code 10 = Some (WsClient LWS_CALLBACK_CLIENT_WRITEABLE) \<and>
   lws_callback sample_lib \<lparr>tv_sec = 5, tv_usec = 6\<rparr> (WsClient LWS_CALLBACK_CLIENT_WRITEABLE) [] sample_wss =
     Returns 0 sample_wss"
proof -
  have "reason_of_code 10 = Some (WsClient LWS_CALLBACK_CLIENT_WRITEABLE)"
    using reason_of_code_code [of "WsClient LWS_CALLBACK_CLIENT_WRITEABLE"] by simp
  then show ?thesis using other_reasons_ignored by fastforce
qed

text \<open>
  The end of a connection: the callback marks it as closed, destroys the parser and returns
  -1; if the exit was ordered it gives the status of a normal closure, which may be sent, and
  signals the consumers.
\<close>

lemma closed_connection:
  "lws_callback lib now (WsClient LWS_CALLBACK_CLIENT_CLOSED) inp s =
    Returns (- 1) (s\<lparr>connection_closed := True, json_ctx := lejp_destruct lib (json_ctx s),
      not_empty_signals := not_empty_signals s + (if q_exit_flag (api_queue s) then 1 else 0),
      close_reason := (if q_exit_flag (api_queue s) then Some LWS_CLOSE_STATUS_NORMAL else close_reason s)\<rparr>) \<and>
   \<not> close_reserved LWS_CLOSE_STATUS_NORMAL"
  by (simp add: lws_callback_def close_reserved_def Let_def)

section \<open>Time\<close>

lemma sdiv_nonneg: "0 \<le> a \<Longrightarrow> 0 < b \<Longrightarrow> a sdiv b = a div (b :: int)"
  and smod_nonneg: "0 \<le> a \<Longrightarrow> 0 < b \<Longrightarrow> a smod b = a mod (b :: int)"
  by (auto simp: signed_divide_int_def signed_modulo_int_def sgn_if)


definition sample_setitimer :: "itimerval \<Rightarrow> int" where
  "sample_setitimer t = (if 0 \<le> tv_usec (it_value t) \<and> tv_usec (it_value t) < 1000000 then 0 else - 1)"


lemma count_minute_step:
  assumes "0 \<le> m" and "0 \<le> h"
  shows "count_minute \<lparr>minute_counter = m, hour_counter = h\<rparr> =
    \<lparr>minute_counter = (m + 1) mod 60, hour_counter = h + (m + 1) div 60\<rparr>"
  using assms by (simp add: count_minute_def Let_def sdiv_nonneg smod_nonneg)

lemma next_minute: "a div 60 + (a mod 60 + 1) div 60 = (a + 1) div (60 :: int)"
  by (simp add: div_add1_eq [of a 1])

lemma count_minutes:
  "(count_minute ^^ k) counters_init = \<lparr>minute_counter = int k mod 60, hour_counter = int k div 60\<rparr>"
proof (induction k)
  case (Suc k)
  have "(count_minute ^^ Suc k) counters_init =
      count_minute \<lparr>minute_counter = int k mod 60, hour_counter = int k div 60\<rparr>"
    using Suc by simp
  also have "\<dots> = \<lparr>minute_counter = (int k + 1) mod 60, hour_counter = (int k + 1) div 60\<rparr>"
    by (subst count_minute_step) (simp_all add: mod_add_left_eq next_minute)
  finally show ?case by (simp add: ac_simps)
qed (simp add: counters_init_def)

lemma hour_48: "(int k + 1) div 60 = 48 \<longleftrightarrow> 2880 \<le> k + 1 \<and> k + 1 < 2940"
  by auto



end
