(* ===== verification/ThreadRoutines.thy ===== *)
theory ThreadRoutines
  imports CalculatorBuffers WSSHandling "HOL-Library.Multiset"
begin

text \<open>
  \<^verbatim>\<open>src/ThreadRoutines.c\<close>: the threads and the pipeline they form.  A step is one
  action of one thread: a call on a queue (one step, as \<open>StageRuns\<close> justifies, and only when
  it does not have to wait), the logging of a trade under its file's mutex, or the treatment of
  an item by the calculator.  The interleaving is arbitrary, as are the readings of the
  clock.  Histories that the program does not have record what arrived, was logged, was
  handled by the calculator (with the clock readings of that step) and was refused.
\<close>

section \<open>Writers and calculator\<close>

datatype writer_pc = W_get | W_got WorkItem | W_add WorkItem | W_done

datatype calculator_pc = C_start | C_get | C_got WorkItem | C_done

record pipeline =
  p_api :: PCQueue
  p_calcq :: PCQueue
  p_writers :: "writer_pc list"
  p_calculator :: calculator_pc
  p_trade_files :: "FILE list"
  p_writer_delays :: "FILE list"
  p_calc :: calc_files
  p_arrived :: "WorkItem list"
  p_logged :: "WorkItem list"
  p_handled :: "(WorkItem \<times> (nat \<Rightarrow> timeval)) list"
  p_dropped :: "WorkItem list"

definition is_trade :: "WorkItem \<Rightarrow> bool" where
  "is_trade x \<longleftrightarrow> DIRECTIVE_CALCULATE_MINUTE < trade_v (item_trade x)"

text \<open>What the writer at position \<open>i\<close> does with an item before it passes it on.\<close>

definition Writer_log :: "nat \<Rightarrow> WorkItem \<Rightarrow> timeval \<Rightarrow> pipeline \<Rightarrow> pipeline option" where
  "Writer_log i x now s =
     (if is_trade x then
        (case write_trade_to_file (item_trade x) (p_trade_files s) (item_event_time x) (p_writer_delays s ! i) now of
           None \<Rightarrow> None
         | Some (files, delay) \<Rightarrow> Some (s\<lparr>p_trade_files := files,
             p_writer_delays := (p_writer_delays s)[i := delay], p_logged := p_logged s @ [x]\<rparr>))
      else Some s)"

text \<open>What the calculator does with an item, for \<open>n\<close> symbols.\<close>

definition Calculator_item :: "nat \<Rightarrow> WorkItem \<times> (nat \<Rightarrow> timeval) \<Rightarrow> calc_files \<Rightarrow> calc_files option" where
  "Calculator_item n xc c = (let (x, clock) = xc in
     if is_trade x
     then map_option (\<lambda>bs. c\<lparr>buffers := bs\<rparr>) (add_trade_to_buffers (item_trade x) (buffers c))
     else write_and_reset_buffers (trade_t (item_trade x)) (item_event_time x) n clock c)"

definition Calculator_start :: "nat \<Rightarrow> calc_files \<Rightarrow> calc_files" where
  "Calculator_start n c = c\<lparr>buffers := fst (init_calculator_buffers (buffers c) n)\<rparr>"

definition set_writer :: "nat \<Rightarrow> writer_pc \<Rightarrow> pipeline \<Rightarrow> pipeline" where
  "set_writer i w s = s\<lparr>p_writers := (p_writers s)[i := w]\<rparr>"

text \<open>The steps; \<open>n\<close> is the number of symbols.\<close>

inductive pstep :: "nat \<Rightarrow> pipeline \<Rightarrow> pipeline \<Rightarrow> bool" for n where
  arrive: "queue_add (p_api s) x = Returns 0 q \<Longrightarrow>
    pstep n s (s\<lparr>p_api := q, p_arrived := p_arrived s @ [x]\<rparr>)"
| exit_order: "pstep n s (s\<lparr>p_api := (p_api s)\<lparr>q_exit_flag := True\<rparr>\<rparr>)"
| writer_get: "i < length (p_writers s) \<Longrightarrow> p_writers s ! i = W_get \<Longrightarrow>
    queue_remove (p_api s) = Returns 0 (Some x, q) \<Longrightarrow>
    pstep n s (set_writer i (W_got x) s\<lparr>p_api := q\<rparr>)"
| writer_log: "i < length (p_writers s) \<Longrightarrow> p_writers s ! i = W_got x \<Longrightarrow>
    Writer_log i x now s = Some s' \<Longrightarrow> pstep n s (set_writer i (W_add x) s')"
| writer_add: "i < length (p_writers s) \<Longrightarrow> p_writers s ! i = W_add x \<Longrightarrow>
    queue_add (p_calcq s) x = Returns 0 q \<Longrightarrow>
    pstep n s (set_writer i W_get s\<lparr>p_calcq := q\<rparr>)"
| writer_refused: "i < length (p_writers s) \<Longrightarrow> p_writers s ! i = W_add x \<Longrightarrow>
    queue_add (p_calcq s) x = Returns (- 1) q \<Longrightarrow>
    pstep n s (set_writer i W_get s\<lparr>p_calcq := q, p_dropped := p_dropped s @ [x]\<rparr>)"
| writer_exit: "i < length (p_writers s) \<Longrightarrow> p_writers s ! i = W_get \<Longrightarrow>
    queue_remove (p_api s) = Returns (- 1) (none, q) \<Longrightarrow>
    pstep n s (set_writer i W_done s\<lparr>p_api := q, p_calcq := (p_calcq s)\<lparr>q_exit_flag := True\<rparr>\<rparr>)"
| calculator_start: "p_calculator s = C_start \<Longrightarrow>
    pstep n s (s\<lparr>p_calculator := C_get, p_calc := Calculator_start n (p_calc s)\<rparr>)"
| calculator_get: "p_calculator s = C_get \<Longrightarrow> queue_remove (p_calcq s) = Returns 0 (Some x, q) \<Longrightarrow>
    pstep n s (s\<lparr>p_calculator := C_got x, p_calcq := q\<rparr>)"
| calculator_item: "p_calculator s = C_got x \<Longrightarrow> Calculator_item n (x, clock) (p_calc s) = Some c \<Longrightarrow>
    pstep n s (s\<lparr>p_calculator := C_get, p_calc := c, p_handled := p_handled s @ [(x, clock)]\<rparr>)"
| calculator_exit: "p_calculator s = C_get \<Longrightarrow> queue_remove (p_calcq s) = Returns (- 1) (none, q) \<Longrightarrow>
    pstep n s (s\<lparr>p_calculator := C_done, p_calcq := q\<rparr>)"

text \<open>
  The start: new queues, \<open>w\<close> writers with a delay file each, one trade file per symbol, and
  the calculator with its files and an array of arbitrary contents.
\<close>

definition p_start :: "nat \<Rightarrow> nat \<Rightarrow> calc_files \<Rightarrow> pipeline" where
  "p_start n w c = \<lparr>p_api = queue_init, p_calcq = queue_init, p_writers = replicate w W_get,
     p_calculator = C_start, p_trade_files = replicate n [], p_writer_delays = replicate w [],
     p_calc = c, p_arrived = [], p_logged = [], p_handled = [], p_dropped = []\<rparr>"

inductive preach :: "nat \<Rightarrow> nat \<Rightarrow> calc_files \<Rightarrow> pipeline \<Rightarrow> bool" for n w c where
  start: "preach n w c (p_start n w c)"
| step: "preach n w c s \<Longrightarrow> pstep n s s' \<Longrightarrow> preach n w c s'"

lemma set_writer_simps [simp]:
  "p_writers (set_writer i w s) = (p_writers s)[i := w]"
  "p_api (set_writer i w s) = p_api s" "p_calcq (set_writer i w s) = p_calcq s"
  "p_calculator (set_writer i w s) = p_calculator s" "p_calc (set_writer i w s) = p_calc s"
  "p_trade_files (set_writer i w s) = p_trade_files s" "p_writer_delays (set_writer i w s) = p_writer_delays s"
  "p_arrived (set_writer i w s) = p_arrived s" "p_logged (set_writer i w s) = p_logged s"
  "p_handled (set_writer i w s) = p_handled s" "p_dropped (set_writer i w s) = p_dropped s"
  by (simp_all add: set_writer_def)

lemma Writer_log_frame:
  assumes "Writer_log i x now s = Some s'"
  shows "p_api s' = p_api s" "p_calcq s' = p_calcq s" "p_writers s' = p_writers s"
    "p_calculator s' = p_calculator s" "p_calc s' = p_calc s" "p_arrived s' = p_arrived s"
    "p_handled s' = p_handled s" "p_dropped s' = p_dropped s"
    "p_logged s' = p_logged s @ (if is_trade x then [x] else [])"
  using assms by (auto simp: Writer_log_def split: if_splits option.splits)

section \<open>The calls on the queues\<close>

lemma queue_add_cases:
  assumes "wf_queue q" and "queue_add q x = Returns r q'"
  obtains "r = 0" "\<not> q_exit_flag q" "wf_queue q'" "contents q' = contents q @ [x]" "\<not> q_exit_flag q'"
  | "r = - 1" "q_exit_flag q" "q' = q"
  using assms ring.inv_put [OF assms(1)] ring.items_put [OF assms(1)]
  by (auto simp: queue_add_def split: if_splits)

lemma queue_remove_cases:
  assumes "wf_queue q" and "queue_remove q = Returns r (y, q')"
  obtains x where "r = 0" "y = Some x" "wf_queue q'" "contents q = x # contents q'" "q_exit_flag q' = q_exit_flag q"
  | "r = - 1" "contents q = []" "q_exit_flag q" "q' = q"
proof (cases "q_empty q")
  case True
  then show ?thesis using assms that(2) ring.empty_iff [OF assms(1)]
    by (auto simp: queue_remove_def split: if_splits)
next
  case False
  then have "r = 0" "y = Some (hd (contents q))" "q' = snd (queue_take q)"
    using assms ring.fst_get [OF assms(1) False] by (auto simp: queue_remove_def prod_eq_iff)
  then show ?thesis
    using that(1) ring.inv_get [OF assms(1) False] ring.get_nonempty [OF assms(1) False] False by simp
qed

definition good_queues :: "pipeline \<Rightarrow> bool" where
  "good_queues s \<longleftrightarrow> wf_queue (p_api s) \<and> wf_queue (p_calcq s)"

lemma pstep_good: "pstep n s s' \<Longrightarrow> good_queues s \<Longrightarrow> good_queues s'"
  by (induction rule: pstep.induct)
    (auto simp: good_queues_def Writer_log_frame elim: queue_add_cases queue_remove_cases)

lemma preach_good: "preach n w c s \<Longrightarrow> good_queues s"
proof (induction rule: preach.induct)
  case (step s s')
  then show ?case by (blast intro: pstep_good)
qed (simp add: good_queues_def p_start_def)

text \<open>The steps with what the calls on good queues do.\<close>

lemma good_step:
  assumes "pstep n s s'" and "good_queues s"
  obtains (arrive) x q where "s' = s\<lparr>p_api := q, p_arrived := p_arrived s @ [x]\<rparr>"
      "queue_add (p_api s) x = Returns 0 q" "contents q = contents (p_api s) @ [x]"
      "\<not> q_exit_flag (p_api s)" "\<not> q_exit_flag q"
  | (exit_order) "s' = s\<lparr>p_api := (p_api s)\<lparr>q_exit_flag := True\<rparr>\<rparr>"
  | (writer_get) i x q where "s' = set_writer i (W_got x) s\<lparr>p_api := q\<rparr>" "i < length (p_writers s)"
      "p_writers s ! i = W_get" "queue_remove (p_api s) = Returns 0 (Some x, q)"
      "contents (p_api s) = x # contents q" "q_exit_flag q = q_exit_flag (p_api s)"
  | (writer_log) i x now s1 where "s' = set_writer i (W_add x) s1" "i < length (p_writers s)"
      "p_writers s ! i = W_got x" "Writer_log i x now s = Some s1"
  | (writer_add) i x q where "s' = set_writer i W_get s\<lparr>p_calcq := q\<rparr>" "i < length (p_writers s)"
      "p_writers s ! i = W_add x" "queue_add (p_calcq s) x = Returns 0 q"
      "contents q = contents (p_calcq s) @ [x]" "\<not> q_exit_flag (p_calcq s)" "\<not> q_exit_flag q"
  | (writer_refused) i x where "s' = set_writer i W_get s\<lparr>p_dropped := p_dropped s @ [x]\<rparr>" "i < length (p_writers s)"
      "p_writers s ! i = W_add x" "q_exit_flag (p_calcq s)"
  | (writer_exit) i where "s' = set_writer i W_done s\<lparr>p_calcq := (p_calcq s)\<lparr>q_exit_flag := True\<rparr>\<rparr>"
      "i < length (p_writers s)" "p_writers s ! i = W_get" "contents (p_api s) = []" "q_exit_flag (p_api s)"
  | (calculator_start) "s' = s\<lparr>p_calculator := C_get, p_calc := Calculator_start n (p_calc s)\<rparr>" "p_calculator s = C_start"
  | (calculator_get) x q where "s' = s\<lparr>p_calculator := C_got x, p_calcq := q\<rparr>" "p_calculator s = C_get"
      "queue_remove (p_calcq s) = Returns 0 (Some x, q)" "contents (p_calcq s) = x # contents q"
      "q_exit_flag q = q_exit_flag (p_calcq s)"
  | (calculator_item) x clock c where "s' = s\<lparr>p_calculator := C_get, p_calc := c, p_handled := p_handled s @ [(x, clock)]\<rparr>"
      "p_calculator s = C_got x" "Calculator_item n (x, clock) (p_calc s) = Some c"
  | (calculator_exit) "s' = s\<lparr>p_calculator := C_done\<rparr>" "p_calculator s = C_get" "contents (p_calcq s) = []" "q_exit_flag (p_calcq s)"
proof -
  have wf: "wf_queue (p_api s)" "wf_queue (p_calcq s)" using assms(2) by (simp_all add: good_queues_def)
  have same: "s\<lparr>p_api := p_api s\<rparr> = s" "s\<lparr>p_calcq := p_calcq s\<rparr> = s" for s by simp_all
  from assms(1) show thesis
  proof (cases rule: pstep.cases)
    case (arrive x q)
    from queue_add_cases [OF wf(1) arrive(2)] show ?thesis using that(1) [OF arrive] by auto
  next
    case (writer_get i x q)
    from queue_remove_cases [OF wf(1) writer_get(4)] show ?thesis using that(3) [OF writer_get] by auto
  next
    case (writer_add i x q)
    from queue_add_cases [OF wf(2) writer_add(4)] show ?thesis using that(5) [OF writer_add] by auto
  next
    case (writer_refused i x q)
    from queue_add_cases [OF wf(2) writer_refused(4)] have "q = p_calcq s" "q_exit_flag (p_calcq s)" by auto
    then show ?thesis using that(6) [OF _ writer_refused(2,3)] writer_refused(1) by (simp add: set_writer_def)
  next
    case (writer_exit i none q)
    from queue_remove_cases [OF wf(1) writer_exit(4)] have "q = p_api s" "contents (p_api s) = []" "q_exit_flag (p_api s)" by auto
    then show ?thesis using that(7) [OF _ writer_exit(2,3)] writer_exit(1) by (simp add: set_writer_def)
  next
    case (calculator_get x q)
    from queue_remove_cases [OF wf(2) calculator_get(3)] show ?thesis using that(9) [OF calculator_get] by auto
  next
    case (calculator_exit none q)
    from queue_remove_cases [OF wf(2) calculator_exit(3)] have "q = p_calcq s" "contents (p_calcq s) = []" "q_exit_flag (p_calcq s)" by auto
    then show ?thesis using that(11) calculator_exit(1,2) by simp
  qed (fact that)+
qed

section \<open>Nothing is lost on the way\<close>

fun writer_hand :: "writer_pc \<Rightarrow> WorkItem list" where
  "writer_hand (W_got x) = [x]" | "writer_hand (W_add x) = [x]" | "writer_hand _ = []"

fun to_log :: "writer_pc \<Rightarrow> WorkItem list" where
  "to_log (W_got x) = [x]" | "to_log _ = []"

fun calculator_hand :: "calculator_pc \<Rightarrow> WorkItem list" where
  "calculator_hand (C_got x) = [x]" | "calculator_hand _ = []"

lemma mset_hands:
  "i < length ws \<Longrightarrow> mset (concat (map f (ws[i := w]))) + mset (f (ws ! i)) = mset (concat (map f ws)) + mset (f w)"
proof (induction ws arbitrary: i)
  case (Cons v ws)
  then show ?case by (cases i) (auto simp: add.assoc add.commute add.left_commute)
qed simp

text \<open>
  The account of the items: each one that the first queue accepted is in a queue, in the
  hands of a thread, handled, or refused by the second queue.
\<close>

definition inv_account :: "pipeline \<Rightarrow> bool" where
  "inv_account s \<longleftrightarrow> mset (p_arrived s) =
     mset (contents (p_api s)) + mset (concat (map writer_hand (p_writers s))) + mset (contents (p_calcq s)) +
     mset (calculator_hand (p_calculator s)) + mset (map fst (p_handled s)) + mset (p_dropped s)"

definition inv_logged :: "pipeline \<Rightarrow> bool" where
  "inv_logged s \<longleftrightarrow> mset (filter is_trade (p_arrived s)) = mset (p_logged s) +
     mset (filter is_trade (contents (p_api s))) + mset (concat (map (filter is_trade \<circ> to_log) (p_writers s)))"

lemma pstep_account:
  assumes "pstep n s s'" and "good_queues s" and "inv_account s"
  shows "inv_account s'"
  using assms(1,2)
proof (cases rule: good_step)
  case (writer_log i x now s1)
  then show ?thesis
    using assms(3) mset_hands [of i "p_writers s" writer_hand "W_add x"]
    by (simp add: inv_account_def Writer_log_frame [OF writer_log(4)])
next
  case (writer_get i x q)
  then show ?thesis
    using assms(3) mset_hands [of i "p_writers s" writer_hand "W_got x"]
    by (simp add: inv_account_def)
next
  case (writer_add i x q)
  then show ?thesis
    using assms(3) mset_hands [of i "p_writers s" writer_hand W_get]
    by (simp add: inv_account_def)
next
  case (writer_refused i x)
  then show ?thesis
    using assms(3) mset_hands [of i "p_writers s" writer_hand W_get]
    by (simp add: inv_account_def)
next
  case (writer_exit i)
  then show ?thesis
    using assms(3) mset_hands [of i "p_writers s" writer_hand W_done]
    by (simp add: inv_account_def)
qed (use assms(3) in \<open>simp_all add: inv_account_def\<close>)

lemma pstep_logged:
  assumes "pstep n s s'" and "good_queues s" and "inv_logged s"
  shows "inv_logged s'"
  using assms(1,2)
proof (cases rule: good_step)
  case (writer_log i x now s1)
  then show ?thesis
    using assms(3) mset_hands [of i "p_writers s" "filter is_trade \<circ> to_log" "W_add x"]
    by (auto simp: inv_logged_def Writer_log_frame [OF writer_log(4)])
next
  case (writer_get i x q)
  then show ?thesis
    using assms(3) mset_hands [of i "p_writers s" "filter is_trade \<circ> to_log" "W_got x"]
    by (auto simp: inv_logged_def)
next
  case (writer_add i x q)
  then show ?thesis
    using assms(3) mset_hands [of i "p_writers s" "filter is_trade \<circ> to_log" W_get] by (simp add: inv_logged_def)
next
  case (writer_refused i x)
  then show ?thesis
    using assms(3) mset_hands [of i "p_writers s" "filter is_trade \<circ> to_log" W_get] by (simp add: inv_logged_def)
next
  case (writer_exit i)
  then show ?thesis
    using assms(3) mset_hands [of i "p_writers s" "filter is_trade \<circ> to_log" W_done]
    by (simp add: inv_logged_def)
qed (use assms(3) in \<open>simp_all add: inv_logged_def\<close>)

lemma concat_map_Nil: "\<forall>x \<in> set xs. f x = [] \<Longrightarrow> concat (map f xs) = []"
  by (induction xs) auto

lemma preach_account: "preach n w c s \<Longrightarrow> inv_account s \<and> inv_logged s"
proof (induction rule: preach.induct)
  case start
  then show ?case by (simp add: inv_account_def inv_logged_def p_start_def concat_map_Nil)
next
  case (step s s')
  then show ?case using pstep_account pstep_logged preach_good by blast
qed

section \<open>The exit order\<close>

definition inv_exit :: "pipeline \<Rightarrow> bool" where
  "inv_exit s \<longleftrightarrow>
     (W_done \<in> set (p_writers s) \<longrightarrow> q_exit_flag (p_api s) \<and> contents (p_api s) = []) \<and>
     (q_exit_flag (p_calcq s) \<longrightarrow> W_done \<in> set (p_writers s)) \<and>
     (p_calculator s = C_done \<longrightarrow> q_exit_flag (p_calcq s) \<and> contents (p_calcq s) = [])"

lemma done_update: "W_done \<in> set (ws[i := w]) \<Longrightarrow> w \<noteq> W_done \<Longrightarrow> W_done \<in> set ws"
  using set_update_subset_insert [of ws i w] by blast

lemma done_stays:
  "W_done \<in> set ws \<Longrightarrow> ws ! i \<noteq> W_done \<Longrightarrow> W_done \<in> set (ws[i := w])"
  by (metis in_set_conv_nth length_list_update nth_list_update_neq)

lemma pstep_exit:
  assumes "pstep n s s'" and "good_queues s" and "inv_exit s"
  shows "inv_exit s'"
  using assms(1,2)
proof (cases rule: good_step)
  case (writer_get i x q)
  then have "W_done \<notin> set (p_writers s)" using assms(3) by (auto simp: inv_exit_def)
  then show ?thesis using writer_get assms(3) done_update by (auto simp: inv_exit_def)
next
  case (writer_log i x now s1)
  then have "W_done \<in> set (p_writers s') \<longleftrightarrow> W_done \<in> set (p_writers s)"
    using done_update [of "p_writers s" i "W_add x"] done_stays [of "p_writers s" i "W_add x"]
    by (auto simp: Writer_log_frame [OF writer_log(4)])
  then show ?thesis
    using assms(3) unfolding writer_log(1) by (simp add: inv_exit_def Writer_log_frame [OF writer_log(4)])
next
  case (writer_add i x q)
  then show ?thesis using assms(3) done_update by (auto simp: inv_exit_def)
next
  case (writer_refused i x)
  then show ?thesis
    using assms(3) done_update [of "p_writers s" i W_get] done_stays [of "p_writers s" i W_get]
    by (auto simp: inv_exit_def)
next
  case (writer_exit i)
  then have "W_done \<in> set ((p_writers s)[i := W_done])" by (simp add: set_update_memI)
  then show ?thesis using writer_exit assms(3) by (auto simp: inv_exit_def)
qed (use assms(3) in \<open>auto simp: inv_exit_def\<close>)

lemma preach_exit: "preach n w c s \<Longrightarrow> inv_exit s"
proof (induction rule: preach.induct)
  case start
  then show ?case by (auto simp: inv_exit_def p_start_def)
next
  case (step s s')
  then show ?case using pstep_exit preach_good by blast
qed

text \<open>
  Accounts at shutdown.  When all writers and the calculator have returned, both queues
  are empty: every trade that the first queue accepted is in the trade log exactly once, and
  every accepted item was either handled by the calculator or refused by the second queue
  after the exit order.
\<close>

lemma shutdown_accounts:
  assumes "preach n w c s" and "\<forall>v \<in> set (p_writers s). v = W_done" and "p_writers s \<noteq> []"
    and "p_calculator s = C_done"
  shows "mset (p_logged s) = mset (filter is_trade (p_arrived s)) \<and>
    mset (map fst (p_handled s)) + mset (p_dropped s) = mset (p_arrived s) \<and>
    contents (p_api s) = [] \<and> contents (p_calcq s) = []"
proof -
  have "W_done \<in> set (p_writers s)" using assms(2,3) by (cases "p_writers s") auto
  then have e: "contents (p_api s) = []" "contents (p_calcq s) = []"
    using preach_exit [OF assms(1)] assms(4) by (auto simp: inv_exit_def)
  have h: "concat (map writer_hand (p_writers s)) = []"
    "concat (map (filter is_trade \<circ> to_log) (p_writers s)) = []"
    using assms(2) by (auto intro!: concat_map_Nil)
  have "inv_account s" "inv_logged s" using preach_account [OF assms(1)] by simp_all
  note i = this [unfolded inv_account_def inv_logged_def h e assms(4)]
  show ?thesis using i e by simp
qed

section \<open>The trade log\<close>

definition inv_files :: "nat \<Rightarrow> pipeline \<Rightarrow> bool" where
  "inv_files n s \<longleftrightarrow> length (p_trade_files s) = n \<and>
     (\<forall>k < n. p_trade_files s ! k =
       map (trade_line \<circ> item_trade) (filter (\<lambda>x. symbol_index (item_trade x) = k) (p_logged s)))"

lemma pstep_files: "pstep n s s' \<Longrightarrow> inv_files n s \<Longrightarrow> inv_files n s'"
proof (induction rule: pstep.cases)
  case (writer_log i s x now s1)
  then show ?case
    by (auto simp: inv_files_def Writer_log_def write_trade_to_file_def Let_def nth_list_update
        split: if_splits option.splits)
qed (simp_all add: inv_files_def)

lemma preach_files: "preach n w c s \<Longrightarrow> inv_files n s"
proof (induction rule: preach.induct)
  case start
  then show ?case by (simp add: inv_files_def p_start_def)
next
  case (step s s')
  then show ?case by (blast intro: pstep_files)
qed


section \<open>What the calculator computes\<close>

fun calc_run :: "nat \<Rightarrow> (WorkItem \<times> (nat \<Rightarrow> timeval)) list \<Rightarrow> calc_files \<Rightarrow> calc_files option" where
  "calc_run n [] c = Some c"
| "calc_run n (xc # xcs) c = (case Calculator_item n xc c of None \<Rightarrow> None | Some c' \<Rightarrow> calc_run n xcs c')"

lemma calc_run_snoc:
  "calc_run n xcs c = Some c' \<Longrightarrow> calc_run n (xcs @ [xc]) c = Calculator_item n xc c'"
  by (induction xcs arbitrary: c) (auto split: option.splits)

definition inv_calc :: "nat \<Rightarrow> calc_files \<Rightarrow> pipeline \<Rightarrow> bool" where
  "inv_calc n c s \<longleftrightarrow>
     (if p_calculator s = C_start then p_handled s = [] \<and> p_calc s = c
      else calc_run n (p_handled s) (Calculator_start n c) = Some (p_calc s))"

lemma pstep_calc: "pstep n s s' \<Longrightarrow> inv_calc n c s \<Longrightarrow> inv_calc n c s'"
  by (induction rule: pstep.cases) (auto simp: inv_calc_def Writer_log_frame calc_run_snoc split: if_splits)

lemma preach_calc: "preach n w c s \<Longrightarrow> inv_calc n c s"
proof (induction rule: preach.induct)
  case start
  then show ?case by (simp add: inv_calc_def p_start_def)
next
  case (step s s')
  then show ?case by (blast intro: pstep_calc)
qed

text \<open>The part of an item that concerns one symbol.\<close>

definition symbol_step :: "nat \<Rightarrow> WorkItem \<Rightarrow> CalculatorBuffer \<Rightarrow> CalculatorBuffer" where
  "symbol_step i x b =
     (if \<not> is_trade x then close_minute b
      else if symbol_index (item_trade x) = i
      then b\<lparr>candlestick := add_trade_to_candlestick (item_trade x) (candlestick b)\<rparr> else b)"

definition symbol_run :: "nat \<Rightarrow> WorkItem list \<Rightarrow> CalculatorBuffer \<Rightarrow> CalculatorBuffer" where
  "symbol_run i xs b = fold (symbol_step i) xs b"

lemma minute_run:
  assumes "calc_wf n c"
  shows "\<exists>c'. write_and_reset_buffers ts ev n clock c = Some c' \<and> calc_wf n c' \<and>
    buffers c' = map close_minute (buffers c)"
proof -
  have "write_and_reset_buffers ts ev n clock c = Some (closed_upto ts ev clock n c)"
    using assms by (simp add: write_and_reset_buffers_def calc_wf_in_bounds closed_loop calc_wf_def)
  then show ?thesis using assms by (auto simp: closed_upto_def calc_wf_def close_minute_def)
qed

lemma Calculator_item_ok:
  assumes "calc_wf n c" and "is_trade x \<longrightarrow> symbol_index (item_trade x) < n"
  shows "\<exists>c'. Calculator_item n (x, clock) c = Some c' \<and> calc_wf n c' \<and>
    (\<forall>i < n. buffers c' ! i = symbol_step i x (buffers c ! i))"
proof (cases "is_trade x")
  case True
  then show ?thesis
    using assms by (auto simp: Calculator_item_def add_trade_to_buffers_def Let_def calc_wf_def symbol_step_def
        nth_list_update all_set_conv_all_nth)
next
  case False
  obtain c' where "write_and_reset_buffers (trade_t (item_trade x)) (item_event_time x) n clock c = Some c'"
    and "calc_wf n c'" and "buffers c' = map close_minute (buffers c)"
    using minute_run [OF assms(1)] by blast
  then show ?thesis using False assms(1) by (simp add: Calculator_item_def symbol_step_def calc_wf_def)
qed

lemma Calculator_item_bounds:
  assumes "Calculator_item n (x, clock) c = Some c'" and "calc_wf n c"
  shows "is_trade x \<longrightarrow> symbol_index (item_trade x) < n"
  using assms by (auto simp: Calculator_item_def add_trade_to_buffers_def Let_def calc_wf_def split: if_splits)

lemma calc_run_symbols:
  assumes "calc_wf n c" and "calc_run n xcs c = Some c'"
  shows "calc_wf n c' \<and> (\<forall>i < n. buffers c' ! i = symbol_run i (map fst xcs) (buffers c ! i))"
  using assms
proof (induction xcs arbitrary: c)
  case (Cons xc xcs)
  obtain x clock where xc: "xc = (x, clock)" by fastforce
  obtain c1 where c1: "Calculator_item n (x, clock) c = Some c1" "calc_run n xcs c1 = Some c'"
    using Cons.prems(2) xc by (auto split: option.splits)
  have "calc_wf n c1 \<and> (\<forall>i < n. buffers c1 ! i = symbol_step i x (buffers c ! i))"
    using Calculator_item_ok [OF Cons.prems(1) Calculator_item_bounds [OF c1(1) Cons.prems(1)], of clock] c1(1) by auto
  then show ?case using Cons.IH [OF _ c1(2)] by (simp add: xc symbol_run_def)
qed (simp add: symbol_run_def)

text \<open>The arrays that the calculator is given.\<close>

definition calc_ready :: "nat \<Rightarrow> calc_files \<Rightarrow> bool" where
  "calc_ready n c \<longleftrightarrow> length (buffers c) = n \<and> length (candlestick_files c) = n \<and>
     length (avg_files c) = n \<and> (\<forall>b \<in> set (buffers c). wf_arrays b)"

lemma wf_avg_zero [simp]: "wf_avg zero_avg"
  by (simp add: wf_avg_def zero_avg_def)

lemma Calculator_start_wf:
  assumes "calc_ready n c"
  shows "calc_wf n (Calculator_start n c)"
    and "i < n \<Longrightarrow> avg_info (buffers (Calculator_start n c) ! i) = zero_avg \<and>
      c_open (candlestick (buffers (Calculator_start n c) ! i)) = CANDLESTICK_IS_EMPTY"
proof -
  have "init_inv (buffers c) n (buffers (Calculator_start n c))"
    using init_loop [of "buffers c" n] assms
    by (simp add: calc_ready_def Calculator_start_def init_calculator_buffers_def)
  then show "i < n \<Longrightarrow> avg_info (buffers (Calculator_start n c) ! i) = zero_avg \<and>
      c_open (candlestick (buffers (Calculator_start n c) ! i)) = CANDLESTICK_IS_EMPTY" for i
    by (simp add: init_inv_def marked_empty_def)
  then show "calc_wf n (Calculator_start n c)"
    using \<open>init_inv (buffers c) n (buffers (Calculator_start n c))\<close> assms
    by (auto simp: calc_wf_def calc_ready_def init_inv_def all_set_conv_all_nth Calculator_start_def)
qed

lemma preach_calc_wf:
  assumes "preach n w c s" and "calc_ready n c" and "p_calculator s \<noteq> C_start"
  shows "calc_wf n (p_calc s) \<and> (\<forall>i < n. buffers (p_calc s) ! i =
      symbol_run i (map fst (p_handled s)) (buffers (Calculator_start n c) ! i))"
  using calc_run_symbols [OF Calculator_start_wf(1) [OF assms(2)]] preach_calc [OF assms(1)] assms(3)
  by (simp add: inv_calc_def)

text \<open>
  C5: What the calculator holds for a symbol depends on that symbol's trades and the minute
  directives only: in every reachable state its buffer is the result of applying, in the
  order handled, its own trades and the closings of the minutes to its initial buffer, and
  the arrays stay well formed.
\<close>

theorem calculator_state_per_symbol:
  assumes "preach n w c s" and "calc_ready n c" and "p_calculator s \<noteq> C_start" and "i < n"
  shows "calc_wf n (p_calc s) \<and> buffers (p_calc s) ! i =
    symbol_run i (filter (\<lambda>x. is_trade x \<longrightarrow> symbol_index (item_trade x) = i) (map fst (p_handled s)))
      (buffers (Calculator_start n c) ! i)"
proof -
  have "symbol_run i xs b = symbol_run i (filter (\<lambda>x. is_trade x \<longrightarrow> symbol_index (item_trade x) = i) xs) b" for xs b
    by (induction xs arbitrary: b) (simp_all add: symbol_run_def symbol_step_def)
  then show ?thesis using preach_calc_wf [OF assms(1-3)] assms(4) by simp
qed

lemma held_items_processable:
  assumes "preach n w c s" and "calc_ready n c"
    and "\<forall>x \<in> set (p_arrived s). is_trade x \<longrightarrow> symbol_index (item_trade x) < n"
  shows "(\<forall>i x. i < length (p_writers s) \<and> p_writers s ! i = W_got x \<longrightarrow> Writer_log i x now s \<noteq> None) \<and>
    (\<forall>x. p_calculator s = C_got x \<longrightarrow> Calculator_item n (x, clock) (p_calc s) \<noteq> None)"
proof -
  have acc: "set (p_arrived s) = set (contents (p_api s)) \<union> set (concat (map writer_hand (p_writers s))) \<union>
      set (contents (p_calcq s)) \<union> set (calculator_hand (p_calculator s)) \<union> set (map fst (p_handled s)) \<union> set (p_dropped s)"
    using arg_cong [of _ _ set_mset, OF preach_account [OF assms(1), THEN conjunct1, unfolded inv_account_def]]
    by (simp add: Un_assoc)
  have "is_trade x \<longrightarrow> symbol_index (item_trade x) < n" if "i < length (p_writers s)" "p_writers s ! i = W_got x" for i x
  proof -
    have "x \<in> set (concat (map writer_hand (p_writers s)))"
      using that nth_mem [OF that(1)] by force
    then show ?thesis using assms(3) acc by blast
  qed
  moreover have "is_trade x \<longrightarrow> symbol_index (item_trade x) < n" if "p_calculator s = C_got x" for x
    using that assms(3) acc by auto
  moreover have "calc_wf n (p_calc s)" if "p_calculator s = C_got x" for x
    using preach_calc_wf [OF assms(1,2)] that by simp
  ultimately show ?thesis
    using preach_files [OF assms(1)] Calculator_item_ok [of n "p_calc s" _ clock]
    by (fastforce simp: Writer_log_def write_trade_to_file_def Let_def inv_files_def)
qed

section \<open>Order\<close>

definition inv_order :: "pipeline \<Rightarrow> bool" where
  "inv_order s \<longleftrightarrow> length (p_writers s) = 1 \<longrightarrow> p_dropped s = [] \<and>
     p_arrived s = map fst (p_handled s) @ calculator_hand (p_calculator s) @ contents (p_calcq s) @
       writer_hand (p_writers s ! 0) @ contents (p_api s)"

lemma pstep_order:
  assumes "pstep n s s'" and "good_queues s" and "inv_exit s" and "inv_order s"
  shows "inv_order s'"
  using assms(1,2)
proof (cases rule: good_step)
  case (writer_refused i x)
  then have "W_done \<in> set (p_writers s)" using assms(3) by (simp add: inv_exit_def)
  then have "length (p_writers s) \<noteq> 1"
    using writer_refused(2,3) by (auto simp: in_set_conv_nth)
  then show ?thesis using writer_refused by (simp add: inv_order_def)
next
  case (writer_log i x now s1)
  then show ?thesis using assms(4) by (auto simp: inv_order_def Writer_log_frame [OF writer_log(4)])
qed (use assms(4) in \<open>auto simp: inv_order_def\<close>)

lemma preach_order: "preach n w c s \<Longrightarrow> inv_order s"
proof (induction rule: preach.induct)
  case start
  then show ?case by (simp add: inv_order_def p_start_def)
next
  case (step s s')
  then show ?case using pstep_order preach_good preach_exit by blast
qed

lemma preach_writers: "preach n w c s \<Longrightarrow> length (p_writers s) = w"
proof (induction rule: preach.induct)
  case (step s s')
  have "length (p_writers s') = length (p_writers s)"
    using step(2) by (cases rule: pstep.cases) (simp_all add: Writer_log_frame)
  then show ?case using step by simp
qed (simp add: p_start_def)

text \<open>
  With one writer the pipeline keeps the order: what the calculator has handled, followed
  by what is under way from its end to the first queue, is exactly what arrived, in order,
  and nothing is ever refused.
\<close>

lemma single_writer_order:
  assumes "preach n 1 c s"
  shows "p_dropped s = [] \<and> p_arrived s = map fst (p_handled s) @ calculator_hand (p_calculator s) @
    contents (p_calcq s) @ writer_hand (p_writers s ! 0) @ contents (p_api s)"
  using preach_order [OF assms] preach_writers [OF assms] by (simp add: inv_order_def)

section \<open>Runs of the pipeline\<close>

text \<open>
  What the runs below follow of a state: the two queues with their flags, the threads, and
  what arrived, was handled and was refused.
\<close>

type_synonym view = "WorkItem list \<times> bool \<times> WorkItem list \<times> bool \<times> writer_pc list \<times> calculator_pc \<times>
  WorkItem list \<times> WorkItem list \<times> WorkItem list"

definition view :: "pipeline \<Rightarrow> view" where
  "view s = (contents (p_api s), q_exit_flag (p_api s), contents (p_calcq s), q_exit_flag (p_calcq s),
     p_writers s, p_calculator s, p_arrived s, map fst (p_handled s), p_dropped s)"

text \<open>A run is followed through a set of states, of which only the view is kept.\<close>

definition shows_view :: "(pipeline \<Rightarrow> bool) \<Rightarrow> view \<Rightarrow> bool" where
  "shows_view R v \<longleftrightarrow> (\<exists>s. R s \<and> view s = v)"

definition thread_moves :: "pipeline \<Rightarrow> pipeline \<Rightarrow> bool" where
  "thread_moves s s' \<longleftrightarrow> p_writers s' \<noteq> p_writers s \<or> p_calculator s' \<noteq> p_calculator s"

lemma queue_add_room:
  assumes "wf_queue q" and "\<not> q_exit_flag q" and "length (contents q) < 2000"
  shows "queue_add q x = Returns 0 (queue_put x q)" and "contents (queue_put x q) = contents q @ [x]"
  using assms ring.full_iff [OF assms(1)] ring.items_put [OF assms(1)]
  by (simp_all add: queue_add_def QUEUE_SIZE_def)

lemma queue_remove_item:
  assumes "wf_queue q" and "contents q = x # xs"
  shows "\<exists>q'. queue_remove q = Returns 0 (Some x, q') \<and> contents q' = xs \<and> q_exit_flag q' = q_exit_flag q"
proof -
  have "\<not> q_empty q" using ring.empty_iff [OF assms(1)] assms(2) by simp
  then have "queue_remove q = Returns 0 (Some x, snd (queue_take q))"
    using ring.fst_get [OF assms(1)] assms(2) by (simp add: queue_remove_def prod_eq_iff)
  then show ?thesis
    using ring.items_get [OF assms(1) \<open>\<not> q_empty q\<close>] assms(2) by auto
qed

lemma queue_remove_none:
  "wf_queue q \<Longrightarrow> contents q = [] \<Longrightarrow> q_exit_flag q \<Longrightarrow> queue_remove q = Returns (- 1) (None, q)"
  using ring.empty_iff [of q] by (simp add: queue_remove_def)

lemma shows_viewI: "R s \<Longrightarrow> view s = v \<Longrightarrow> shows_view R v"
  unfolding shows_view_def by blast

lemma move_start: "shows_view (preach n w c) ([], False, [], False, replicate w W_get, C_start, [], [], [])"
  unfolding shows_view_def
  by (intro exI [of _ "p_start n w c"] conjI preach.start) (simp add: view_def p_start_def)

lemma move_arrive:
  assumes "shows_view (preach n w c) (a, False, b, f, ws, k, ar, h, d)" and "length a < 2000"
  shows "shows_view (preach n w c) (a @ [x], False, b, f, ws, k, ar @ [x], h, d)"
proof -
  obtain s where s: "preach n w c s" "view s = (a, False, b, f, ws, k, ar, h, d)"
    using assms(1) by (auto simp: shows_view_def)
  then have "wf_queue (p_api s)" using preach_good by (auto simp: good_queues_def)
  note q = queue_add_room [OF this, of x]
  show ?thesis
    by (rule shows_viewI [where R = "preach n w c", OF preach.step [OF s(1) pstep.arrive [OF q(1)]]]) (use s(2) assms(2) q(2) in \<open>auto simp: view_def\<close>)
qed

lemma move_exit_order:
  assumes "shows_view (preach n w c) (a, e, b, f, ws, k, ar, h, d)"
  shows "shows_view (preach n w c) (a, True, b, f, ws, k, ar, h, d)"
proof -
  obtain s where s: "preach n w c s" "view s = (a, e, b, f, ws, k, ar, h, d)"
    using assms(1) by (auto simp: shows_view_def)
  show ?thesis
    by (rule shows_viewI [where R = "preach n w c", OF preach.step [OF s(1) pstep.exit_order]]) (use s(2) in \<open>auto simp: view_def\<close>)
qed

text \<open>
  The moves of the threads, for any set of reachable states that is closed under them: the
  set of all of them, or of those that a larger program passes through.
\<close>

locale thread_runs =
  fixes n w :: nat and c :: calc_files and R :: "pipeline \<Rightarrow> bool"
  assumes reached: "R s \<Longrightarrow> preach n w c s"
    and moved_to: "R s \<Longrightarrow> pstep n s s' \<Longrightarrow> thread_moves s s' \<Longrightarrow> R s'"
begin

lemmas moves = view_def thread_moves_def list_update_same_conv

lemma showsI: "R s \<Longrightarrow> pstep n s s' \<Longrightarrow> thread_moves s s' \<Longrightarrow> view s' = v \<Longrightarrow> shows_view R v"
  using moved_to unfolding shows_view_def by blast

lemma move_get:
  assumes "shows_view R (x # a, e, b, f, ws, k, ar, h, d)" and "i < length ws" and "ws ! i = W_get"
  shows "shows_view R (a, e, b, f, ws[i := W_got x], k, ar, h, d)"
proof -
  obtain s where s: "R s" "view s = (x # a, e, b, f, ws, k, ar, h, d)"
    using assms(1) by (auto simp: shows_view_def)
  then have "wf_queue (p_api s)" "contents (p_api s) = x # a"
    using preach_good [OF reached] by (auto simp: good_queues_def view_def)
  then obtain q where q: "queue_remove (p_api s) = Returns 0 (Some x, q)" "contents q = a"
    "q_exit_flag q = q_exit_flag (p_api s)"
    using queue_remove_item by blast
  show ?thesis
    by (rule showsI [OF s(1) pstep.writer_get [OF _ _ q(1), of i]])
      (use s(2) assms(2,3) q in \<open>auto simp: moves\<close>)
qed

lemma move_log:
  assumes "shows_view R (a, e, b, f, ws, k, ar, h, d)" and "i < length ws" and "ws ! i = W_got x"
    and "calc_ready n c" and "\<forall>x \<in> set ar. is_trade x \<longrightarrow> symbol_index (item_trade x) < n"
  shows "shows_view R (a, e, b, f, ws[i := W_add x], k, ar, h, d)"
proof -
  obtain s where s: "R s" "view s = (a, e, b, f, ws, k, ar, h, d)"
    using assms(1) by (auto simp: shows_view_def)
  then have "i < length (p_writers s)" "p_writers s ! i = W_got x" "p_arrived s = ar"
    using assms(2,3) by (auto simp: view_def)
  then have "Writer_log i x (item_event_time x) s \<noteq> None"
    using held_items_processable [OF reached [OF s(1)] assms(4), of "item_event_time x"] assms(5) by blast
  then obtain s1 where s1: "Writer_log i x (item_event_time x) s = Some s1" by blast
  show ?thesis
    by (rule showsI [OF s(1) pstep.writer_log [where i = i, OF _ _ s1]])
      (use s(2) assms(2,3) in \<open>auto simp: moves Writer_log_frame [OF s1]\<close>)
qed

lemma move_add:
  assumes "shows_view R (a, e, b, False, ws, k, ar, h, d)" and "i < length ws" and "ws ! i = W_add x"
    and "length b < 2000"
  shows "shows_view R (a, e, b @ [x], False, ws[i := W_get], k, ar, h, d)"
proof -
  obtain s where s: "R s" "view s = (a, e, b, False, ws, k, ar, h, d)"
    using assms(1) by (auto simp: shows_view_def)
  then have "wf_queue (p_calcq s)" using preach_good [OF reached] by (auto simp: good_queues_def)
  note q = queue_add_room [OF this, of x]
  show ?thesis
    by (rule showsI [OF s(1) pstep.writer_add [OF _ _ q(1), of i]])
      (use s(2) assms(2-4) q(2) in \<open>auto simp: moves\<close>)
qed

lemma move_refused:
  assumes "shows_view R (a, e, b, True, ws, k, ar, h, d)" and "i < length ws" and "ws ! i = W_add x"
  shows "shows_view R (a, e, b, True, ws[i := W_get], k, ar, h, d @ [x])"
proof -
  obtain s where s: "R s" "view s = (a, e, b, True, ws, k, ar, h, d)"
    using assms(1) by (auto simp: shows_view_def)
  then have q: "queue_add (p_calcq s) x = Returns (- 1) (p_calcq s)" by (simp add: queue_add_def view_def)
  show ?thesis
    by (rule showsI [OF s(1) pstep.writer_refused [OF _ _ q, of i]])
      (use s(2) assms(2,3) in \<open>auto simp: moves\<close>)
qed

lemma move_writer_exit:
  assumes "shows_view R ([], True, b, f, ws, k, ar, h, d)" and "i < length ws" and "ws ! i = W_get"
  shows "shows_view R ([], True, b, True, ws[i := W_done], k, ar, h, d)"
proof -
  obtain s where s: "R s" "view s = ([], True, b, f, ws, k, ar, h, d)"
    using assms(1) by (auto simp: shows_view_def)
  then have q: "queue_remove (p_api s) = Returns (- 1) (None, p_api s)"
    using preach_good [OF reached [OF s(1)]] by (intro queue_remove_none) (auto simp: view_def good_queues_def)
  show ?thesis
    by (rule showsI [OF s(1) pstep.writer_exit [OF _ _ q, of i]])
      (use s(2) assms(2,3) in \<open>auto simp: moves\<close>)
qed

lemma move_calculator_start:
  assumes "shows_view R (a, e, b, f, ws, C_start, ar, h, d)"
  shows "shows_view R (a, e, b, f, ws, C_get, ar, h, d)"
proof -
  obtain s where s: "R s" "view s = (a, e, b, f, ws, C_start, ar, h, d)"
    using assms(1) by (auto simp: shows_view_def)
  show ?thesis
    by (rule showsI [OF s(1) pstep.calculator_start]) (use s(2) in \<open>auto simp: moves\<close>)
qed

lemma move_calculator_get:
  assumes "shows_view R (a, e, x # b, f, ws, C_get, ar, h, d)"
  shows "shows_view R (a, e, b, f, ws, C_got x, ar, h, d)"
proof -
  obtain s where s: "R s" "view s = (a, e, x # b, f, ws, C_get, ar, h, d)"
    using assms(1) by (auto simp: shows_view_def)
  then have "wf_queue (p_calcq s)" "contents (p_calcq s) = x # b"
    using preach_good [OF reached] by (auto simp: good_queues_def view_def)
  then obtain q where q: "queue_remove (p_calcq s) = Returns 0 (Some x, q)" "contents q = b"
    "q_exit_flag q = q_exit_flag (p_calcq s)"
    using queue_remove_item by blast
  show ?thesis
    by (rule showsI [OF s(1) pstep.calculator_get [OF _ q(1)]]) (use s(2) q in \<open>auto simp: moves\<close>)
qed

lemma move_calculator_item:
  assumes "shows_view R (a, e, b, f, ws, C_got x, ar, h, d)"
    and "calc_ready n c" and "\<forall>x \<in> set ar. is_trade x \<longrightarrow> symbol_index (item_trade x) < n"
  shows "shows_view R (a, e, b, f, ws, C_get, ar, h @ [x], d)"
proof -
  obtain s where s: "R s" "view s = (a, e, b, f, ws, C_got x, ar, h, d)"
    using assms(1) by (auto simp: shows_view_def)
  let ?clock = "\<lambda>_. item_event_time x"
  have "p_calculator s = C_got x" "p_arrived s = ar" using s(2) by (simp_all add: view_def)
  then have "Calculator_item n (x, ?clock) (p_calc s) \<noteq> None"
    using held_items_processable [OF reached [OF s(1)] assms(2), of _ ?clock] assms(3) by blast
  then obtain c' where c': "Calculator_item n (x, ?clock) (p_calc s) = Some c'" by blast
  show ?thesis
    by (rule showsI [OF s(1) pstep.calculator_item [OF _ c']]) (use s(2) in \<open>auto simp: moves\<close>)
qed

lemma move_calculator_exit:
  assumes "shows_view R (a, e, [], True, ws, C_get, ar, h, d)"
  shows "shows_view R (a, e, [], True, ws, C_done, ar, h, d)"
proof -
  obtain s where s: "R s" "view s = (a, e, [], True, ws, C_get, ar, h, d)"
    using assms(1) by (auto simp: shows_view_def)
  then have q: "queue_remove (p_calcq s) = Returns (- 1) (None, p_calcq s)"
    using preach_good [OF reached [OF s(1)]] by (intro queue_remove_none) (auto simp: view_def good_queues_def)
  show ?thesis
    by (rule showsI [OF s(1) pstep.calculator_exit [OF _ q]]) (use s(2) in \<open>auto simp: moves\<close>)
qed

end

interpretation alone: thread_runs n w c "preach n w c" for n w c
  by unfold_locales (auto intro: preach.step)

text \<open>Two items, one in the hands of each of the two writers.\<close>

lemma both_hold:
  "shows_view (preach n 2 c) ([], False, [], False, [W_got x, W_got y], C_get, [x, y], [], [])"
proof -
  have "shows_view (preach n 2 c) ([], False, [], False, [W_get, W_get], C_start, [], [], [])"
    using move_start [of n 2 c] by (simp add: numeral_2_eq_2)
  note this [THEN alone.move_calculator_start]
  note move_arrive [OF this, of x] move_arrive [OF move_arrive [OF this, of x], of y]
  from this(2) have "shows_view (preach n 2 c) ([x, y], False, [], False, [W_get, W_get], C_get, [x, y], [], [])" by simp
  from alone.move_get [OF this, of 0] have "shows_view (preach n 2 c) ([y], False, [], False, [W_got x, W_get], C_get, [x, y], [], [])"
    by simp
  from alone.move_get [OF this, of 1] show ?thesis by simp
qed

text \<open>
  C30: Two writers, as the program has, can change the order: for any two items that arrive
  one after the other, with listed symbols, the calculator may handle the second before the
  first.  A trade that arrives just before the end of a minute can be counted after the
  directive that closes it.
\<close>

theorem two_writers_reorder:
  assumes "calc_ready n c" and "\<forall>z \<in> {x, y}. is_trade z \<longrightarrow> symbol_index (item_trade z) < n"
  shows "\<exists>s. preach n 2 c s \<and> p_arrived s = [x, y] \<and> map fst (p_handled s) = [y, x]"
proof -
  have valid: "\<forall>z \<in> set [x, y]. is_trade z \<longrightarrow> symbol_index (item_trade z) < n" using assms(2) by simp
  note log = alone.move_log [OF _ _ _ assms(1) valid] and item = alone.move_calculator_item [OF _ assms(1) valid]
  have "shows_view (preach n 2 c) ([], False, [], False, [W_got x, W_add y], C_get, [x, y], [], [])"
    using log [OF both_hold, of 1] by simp
  from alone.move_add [OF this, of 1] have
    "shows_view (preach n 2 c) ([], False, [y], False, [W_got x, W_get], C_get, [x, y], [], [])" by simp
  from log [OF this, of 0] have "shows_view (preach n 2 c) ([], False, [y], False, [W_add x, W_get], C_get, [x, y], [], [])"
    by simp
  from alone.move_add [OF this, of 0] have
    "shows_view (preach n 2 c) ([], False, [y, x], False, [W_get, W_get], C_get, [x, y], [], [])" by simp
  from item [OF alone.move_calculator_get [OF this]]
  have "shows_view (preach n 2 c) ([], False, [x], False, [W_get, W_get], C_get, [x, y], [y], [])" by simp
  from item [OF alone.move_calculator_get [OF this]]
  have "shows_view (preach n 2 c) ([], False, [], False, [W_get, W_get], C_get, [x, y], [y, x], [])" by simp
  then show ?thesis by (auto simp: shows_view_def view_def)
qed

definition ready_files :: calc_files where
  "ready_files = \<lparr>buffers = [zero_buffer], candlestick_files = [[]], avg_files = [[]], calc_delay_file = []\<rparr>"

lemma ready_ready_files: "calc_ready 1 ready_files"
  by (simp add: calc_ready_def ready_files_def wf_arrays_def zero_buffer_def zero_avg_def)

definition first_trade :: WorkItem where
  "first_trade = \<lparr>item_trade = unit_trade 100 1, item_event_time = \<lparr>tv_sec = 59, tv_usec = 0\<rparr>\<rparr>"

definition first_directive :: WorkItem where
  "first_directive = directive_item \<lparr>tv_sec = 60, tv_usec = 0\<rparr> (unit_trade 0 0)"

lemma first_items:
  "symbol_index (item_trade first_trade) = 0" "\<not> is_trade first_directive"
  by (simp_all add: first_trade_def unit_trade_def symbol_index_def first_directive_def directive_item_def is_trade_def)

lemma two_writers_reorder_witness:
  "\<exists>s. preach 1 2 ready_files s \<and> p_arrived s = [first_trade, first_directive] \<and>
     map fst (p_handled s) = [first_directive, first_trade]"
  using two_writers_reorder [OF ready_ready_files, of first_trade first_directive] first_items by simp

text \<open>
  C31: An item can get lost at shutdown: when the first writer that sees the exit order sets
  the flag of the second queue while the other still holds an item, that queue refuses the
  item.  For any two items the program can end normally with the first one, if it is a
  trade, in the trade log but never handled by the calculator.
\<close>

theorem item_lost_at_shutdown:
  assumes "calc_ready n c" and "\<forall>z \<in> {x, y}. is_trade z \<longrightarrow> symbol_index (item_trade z) < n"
  shows "\<exists>s. preach n 2 c s \<and> p_writers s = [W_done, W_done] \<and> p_calculator s = C_done \<and>
    p_arrived s = [x, y] \<and> map fst (p_handled s) = [y] \<and> p_dropped s = [x]"
proof -
  have valid: "\<forall>z \<in> set [x, y]. is_trade z \<longrightarrow> symbol_index (item_trade z) < n" using assms(2) by simp
  note log = alone.move_log [OF _ _ _ assms(1) valid] and item = alone.move_calculator_item [OF _ assms(1) valid]
  have "shows_view (preach n 2 c) ([], False, [], False, [W_got x, W_add y], C_get, [x, y], [], [])"
    using log [OF both_hold, of 1] by simp
  from move_exit_order [OF alone.move_add [OF this, of 1]] have
    "shows_view (preach n 2 c) ([], True, [y], False, [W_got x, W_get], C_get, [x, y], [], [])" by simp
  from alone.move_writer_exit [OF this, of 1] have
    "shows_view (preach n 2 c) ([], True, [y], True, [W_got x, W_done], C_get, [x, y], [], [])" by simp
  from log [OF this, of 0] have "shows_view (preach n 2 c) ([], True, [y], True, [W_add x, W_done], C_get, [x, y], [], [])"
    by simp
  from alone.move_refused [OF this, of 0] have
    "shows_view (preach n 2 c) ([], True, [y], True, [W_get, W_done], C_get, [x, y], [], [x])" by simp
  from alone.move_writer_exit [OF this, of 0] have
    "shows_view (preach n 2 c) ([], True, [y], True, [W_done, W_done], C_get, [x, y], [], [x])" by simp
  from item [OF alone.move_calculator_get [OF this]] have
    "shows_view (preach n 2 c) ([], True, [], True, [W_done, W_done], C_get, [x, y], [y], [x])" by simp
  from alone.move_calculator_exit [OF this] show ?thesis by (auto simp: shows_view_def view_def)
qed

lemma item_lost_at_shutdown_witness:
  "\<exists>s. preach 1 2 ready_files s \<and> p_calculator s = C_done \<and> p_dropped s = [first_trade]"
  using item_lost_at_shutdown [OF ready_ready_files, of first_trade first_directive] first_items by auto

section \<open>Witnesses\<close>

lemma finished_run:
  "\<exists>s. preach 1 2 ready_files s \<and> p_writers s = [W_done, W_done] \<and> p_calculator s = C_done"
proof -
  have "shows_view (preach 1 2 ready_files) ([], False, [], False, [W_get, W_get], C_start, [], [], [])"
    using move_start [of 1 2 ready_files] by (simp add: numeral_2_eq_2)
  note move_exit_order [OF alone.move_calculator_start [OF this]]
  from alone.move_writer_exit [OF this, of 0] have
    "shows_view (preach 1 2 ready_files) ([], True, [], True, [W_done, W_get], C_get, [], [], [])" by simp
  from alone.move_writer_exit [OF this, of 1] have
    "shows_view (preach 1 2 ready_files) ([], True, [], True, [W_done, W_done], C_get, [], [], [])" by simp
  from alone.move_calculator_exit [OF this] show ?thesis by (auto simp: shows_view_def view_def)
qed

lemma shutdown_accounts_witness:
  "\<exists>s. preach 1 2 ready_files s \<and> p_calculator s = C_done \<and>
     mset (map fst (p_handled s)) + mset (p_dropped s) = mset (p_arrived s)"
proof -
  obtain s where s: "preach 1 2 ready_files s" "p_writers s = [W_done, W_done]" "p_calculator s = C_done"
    using finished_run by blast
  from shutdown_accounts [OF s(1)] s show ?thesis by auto
qed


lemma single_writer_order_witness: "p_arrived (p_start 1 1 ready_files) = []"
  using single_writer_order [OF preach.start, of 1 ready_files] by (simp add: p_start_def)

lemma calculator_state_per_symbol_witness:
  "\<exists>s. preach 1 2 ready_files s \<and> calc_wf 1 (p_calc s)"
proof -
  obtain s where s: "preach 1 2 ready_files s" "p_calculator s = C_done" using finished_run by blast
  from calculator_state_per_symbol [OF s(1) ready_ready_files, of 0] s show ?thesis by auto
qed

end
