(* ===== verification/Monitor.thy ===== *)
theory Monitor
  imports PCQueue
begin

text \<open>
  The queue under concurrency: the two operations of \<^verbatim>\<open>src/PCQueue.c\<close> cut at every
  lock, test, wait, unlock and signal, together with the pieces of code that touch a queue
  from outside them: the interrupt handler and the hour limit of \<^verbatim>\<open>WSSHandling.c\<close>, the
  end of \<^verbatim>\<open>WSSClient\<close> and the hand-over of the exit order in \<^verbatim>\<open>Writer\<close>.  A state is
  the queue, the owner of its mutex, a program counter per thread, and two histories that
  the program does not have: the items accepted and the items delivered, in order.
\<close>

section \<open>Threads\<close>

text \<open>
  \<open>Add\<close>: \<^verbatim>\<open>queue_add\<close>; \<open>Rem\<close>: \<^verbatim>\<open>queue_remove\<close> in the loop of its callers, which
  return to it after an item and leave it on -1; \<open>Int\<close>: \<^verbatim>\<open>close_connection_interrupt\<close>;
  \<open>Limit\<close>: the assignment to the flag in \<^verbatim>\<open>send_directive_to_queue\<close>; \<open>Close\<close>: the end of
  \<^verbatim>\<open>WSSClient\<close>; \<open>Pass\<close>: the end of a \<^verbatim>\<open>Writer\<close>, on the queue of the next stage.
\<close>

datatype pc =
    Idle
  | Add_lock WorkItem | Add_check WorkItem | Add_refuse | Add_test WorkItem
  | Add_wait WorkItem | Add_woken WorkItem | Add_unlock | Add_signal | Add_done int
  | Rem_lock | Rem_test | Rem_exit_test | Rem_sleep | Rem_wait | Rem_woken
  | Rem_exit_unlock | Rem_exit_signal | Rem_exited
  | Rem_unlock "WorkItem option" | Rem_signal "WorkItem option" | Rem_done "WorkItem option"
  | Int_lock | Int_set | Int_unlock
  | Limit_set
  | Close_lock | Close_test | Close_unlock | Closed
  | Pass_flag | Pass_signal | Passed

datatype cond = Not_full | Not_empty

record monitor =
  m_queue :: PCQueue
  m_owner :: "nat option"
  m_pc :: "nat \<Rightarrow> pc"
  m_accepted :: "WorkItem list"
  m_delivered :: "WorkItem option list"

definition m_init :: monitor where
  "m_init = \<lparr>m_queue = queue_init, m_owner = None, m_pc = (\<lambda>_. Idle), m_accepted = [], m_delivered = []\<rparr>"

text \<open>
  Where a thread may start: the closing code of \<^verbatim>\<open>WSSClient\<close> is reached only with the
  exit flag set.
\<close>

fun entry :: "PCQueue \<Rightarrow> pc \<Rightarrow> bool" where
  "entry q (Add_lock x) \<longleftrightarrow> True"
| "entry q Rem_lock \<longleftrightarrow> True"
| "entry q Int_lock \<longleftrightarrow> True"
| "entry q Limit_set \<longleftrightarrow> True"
| "entry q Close_lock \<longleftrightarrow> q_exit_flag q"
| "entry q Pass_flag \<longleftrightarrow> True"
| "entry q _ \<longleftrightarrow> False"

text \<open>Taking and giving back the mutex.\<close>

fun lock_to :: "pc \<Rightarrow> pc option" where
  "lock_to (Add_lock x) = Some (Add_check x)"
| "lock_to (Add_woken x) = Some (Add_test x)"
| "lock_to Rem_lock = Some Rem_test"
| "lock_to Rem_woken = Some Rem_test"
| "lock_to Int_lock = Some Int_set"
| "lock_to Close_lock = Some Close_test"
| "lock_to _ = None"

fun unlock_to :: "pc \<Rightarrow> pc option" where
  "unlock_to Add_refuse = Some (Add_done (- 1))"
| "unlock_to Add_unlock = Some Add_signal"
| "unlock_to Rem_exit_unlock = Some Rem_exit_signal"
| "unlock_to (Rem_unlock x) = Some (Rem_signal x)"
| "unlock_to Int_unlock = Some Idle"
| "unlock_to Close_unlock = Some Closed"
| "unlock_to _ = None"

text \<open>The tests and assignments on the queue.\<close>

definition set_exit :: "monitor \<Rightarrow> monitor" where
  "set_exit s = s\<lparr>m_queue := (m_queue s)\<lparr>q_exit_flag := True\<rparr>\<rparr>"

definition accept :: "WorkItem \<Rightarrow> monitor \<Rightarrow> monitor" where
  "accept x s = s\<lparr>m_queue := queue_put x (m_queue s), m_accepted := m_accepted s @ [x]\<rparr>"

definition deliver :: "monitor \<Rightarrow> monitor" where
  "deliver s = s\<lparr>m_queue := snd (queue_take (m_queue s)),
     m_delivered := m_delivered s @ [fst (queue_take (m_queue s))]\<rparr>"

fun inside :: "pc \<Rightarrow> monitor \<Rightarrow> (pc \<times> monitor) option" where
  "inside (Add_check x) s = Some (if q_exit_flag (m_queue s) then Add_refuse else Add_test x, s)"
| "inside (Add_test x) s = (if q_full (m_queue s) then None else Some (Add_unlock, accept x s))"
| "inside Rem_test s =
     Some (if q_empty (m_queue s) then (Rem_exit_test, s)
           else (Rem_unlock (fst (queue_take (m_queue s))), deliver s))"
| "inside Rem_exit_test s = Some (if q_exit_flag (m_queue s) then Rem_exit_unlock else Rem_sleep, s)"
| "inside Int_set s = Some (Int_unlock, set_exit s)"
| "inside Limit_set s = Some (Idle, set_exit s)"
| "inside Close_test s = (if q_empty (m_queue s) then None else Some (Close_unlock, s))"
| "inside Pass_flag s = Some (Pass_signal, set_exit s)"
| "inside _ s = None"

text \<open>\<^verbatim>\<open>pthread_cond_wait\<close>: the mutex is given back and the thread sleeps, in one step.\<close>

fun sleep_to :: "pc \<Rightarrow> PCQueue \<Rightarrow> pc option" where
  "sleep_to (Add_test x) q = (if q_full q then Some (Add_wait x) else None)"
| "sleep_to Rem_sleep q = Some Rem_wait"
| "sleep_to _ q = None"

text \<open>\<^verbatim>\<open>pthread_cond_signal\<close>: where it is called, and the effect on a sleeping thread.\<close>

fun signal_to :: "pc \<Rightarrow> PCQueue \<Rightarrow> (cond \<times> pc) option" where
  "signal_to Add_signal q = Some (Not_empty, Add_done 0)"
| "signal_to (Rem_signal x) q = Some (Not_full, Rem_done x)"
| "signal_to Rem_exit_signal q = Some (Not_empty, Rem_exited)"
| "signal_to Close_test q = (if q_empty q then Some (Not_empty, Close_unlock) else None)"
| "signal_to Pass_signal q = Some (Not_empty, Passed)"
| "signal_to _ q = None"

fun woken :: "cond \<Rightarrow> pc \<Rightarrow> pc option" where
  "woken Not_full (Add_wait x) = Some (Add_woken x)"
| "woken Not_empty Rem_wait = Some Rem_woken"
| "woken _ _ = None"

inductive signalled :: "cond \<Rightarrow> (nat \<Rightarrow> pc) \<Rightarrow> (nat \<Rightarrow> pc) \<Rightarrow> bool" where
  one: "woken c (f u) = Some p \<Longrightarrow> signalled c f (f(u := p))"
| none: "(\<And>u. woken c (f u) = None) \<Longrightarrow> signalled c f f"

text \<open>After an item the callers come back; after the call of a producer the thread is free.\<close>

fun return_to :: "pc \<Rightarrow> pc option" where
  "return_to (Add_done r) = Some Idle"
| "return_to (Rem_done x) = Some Rem_lock"
| "return_to _ = None"

definition goto :: "nat \<Rightarrow> pc \<Rightarrow> monitor \<Rightarrow> monitor" where
  "goto t p s = s\<lparr>m_pc := (m_pc s)(t := p)\<rparr>"

text \<open>One step of one of the \<open>n\<close> threads, or a wake-up without a signal.\<close>

inductive mstep :: "nat \<Rightarrow> monitor \<Rightarrow> monitor \<Rightarrow> bool" for n where
  call: "t < n \<Longrightarrow> m_pc s t = Idle \<Longrightarrow> entry (m_queue s) p \<Longrightarrow> mstep n s (goto t p s)"
| lock: "t < n \<Longrightarrow> lock_to (m_pc s t) = Some p \<Longrightarrow> m_owner s = None \<Longrightarrow>
    mstep n s (goto t p s\<lparr>m_owner := Some t\<rparr>)"
| local: "t < n \<Longrightarrow> inside (m_pc s t) s = Some (p, s') \<Longrightarrow> mstep n s (goto t p s')"
| unlock: "t < n \<Longrightarrow> unlock_to (m_pc s t) = Some p \<Longrightarrow> mstep n s (goto t p s\<lparr>m_owner := None\<rparr>)"
| sleep: "t < n \<Longrightarrow> sleep_to (m_pc s t) (m_queue s) = Some p \<Longrightarrow> mstep n s (goto t p s\<lparr>m_owner := None\<rparr>)"
| signal: "t < n \<Longrightarrow> signal_to (m_pc s t) (m_queue s) = Some (c, p) \<Longrightarrow>
    signalled c ((m_pc s)(t := p)) f \<Longrightarrow> mstep n s (s\<lparr>m_pc := f\<rparr>)"
| spurious: "t < n \<Longrightarrow> woken c (m_pc s t) = Some p \<Longrightarrow> mstep n s (goto t p s)"
| return: "t < n \<Longrightarrow> return_to (m_pc s t) = Some p \<Longrightarrow> mstep n s (goto t p s)"

inductive reach :: "nat \<Rightarrow> monitor \<Rightarrow> bool" for n where
  init: "reach n m_init"
| step: "reach n s \<Longrightarrow> mstep n s s' \<Longrightarrow> reach n s'"

inductive_cases mstepE: "mstep n s s'"
inductive_cases signalledE: "signalled c f f'"
fun_cases lock_toE: "lock_to p = Some p'"
fun_cases unlock_toE: "unlock_to p = Some p'"
fun_cases insideE: "inside p s = Some (p', s')"
fun_cases sleep_toE: "sleep_to p q = Some p'"
fun_cases signal_toE: "signal_to p q = Some (c, p')"
fun_cases wokenE: "woken c p = Some p'"
fun_cases return_toE: "return_to p = Some p'"

lemma goto_simps [simp]:
  "m_queue (goto t p s) = m_queue s" "m_owner (goto t p s) = m_owner s"
  "m_pc (goto t p s) = (m_pc s)(t := p)"
  "m_accepted (goto t p s) = m_accepted s" "m_delivered (goto t p s) = m_delivered s"
  by (simp_all add: goto_def)

lemma effect_simps [simp]:
  "m_pc (set_exit s) = m_pc s" "m_owner (set_exit s) = m_owner s"
  "m_accepted (set_exit s) = m_accepted s" "m_delivered (set_exit s) = m_delivered s"
  "m_queue (set_exit s) = (m_queue s)\<lparr>q_exit_flag := True\<rparr>"
  "m_pc (accept x s) = m_pc s" "m_owner (accept x s) = m_owner s"
  "m_accepted (accept x s) = m_accepted s @ [x]" "m_delivered (accept x s) = m_delivered s"
  "m_queue (accept x s) = queue_put x (m_queue s)"
  "m_pc (deliver s) = m_pc s" "m_owner (deliver s) = m_owner s"
  "m_accepted (deliver s) = m_accepted s"
  "m_delivered (deliver s) = m_delivered s @ [fst (queue_take (m_queue s))]"
  "m_queue (deliver s) = snd (queue_take (m_queue s))"
  by (simp_all add: set_exit_def accept_def deliver_def)

lemmas steps = lock_toE unlock_toE insideE sleep_toE signal_toE wokenE return_toE

section \<open>Mutual exclusion\<close>

fun holds :: "pc \<Rightarrow> bool" where
  "holds (Add_check x) \<longleftrightarrow> True" | "holds Add_refuse \<longleftrightarrow> True"
| "holds (Add_test x) \<longleftrightarrow> True" | "holds Add_unlock \<longleftrightarrow> True"
| "holds Rem_test \<longleftrightarrow> True" | "holds Rem_exit_test \<longleftrightarrow> True" | "holds Rem_sleep \<longleftrightarrow> True"
| "holds Rem_exit_unlock \<longleftrightarrow> True" | "holds (Rem_unlock x) \<longleftrightarrow> True"
| "holds Int_set \<longleftrightarrow> True" | "holds Int_unlock \<longleftrightarrow> True"
| "holds Close_test \<longleftrightarrow> True" | "holds Close_unlock \<longleftrightarrow> True"
| "holds _ \<longleftrightarrow> False"

definition inv_mutex :: "monitor \<Rightarrow> bool" where
  "inv_mutex s \<longleftrightarrow> (\<forall>t. holds (m_pc s t) \<longleftrightarrow> m_owner s = Some t)"

definition inv_threads :: "nat \<Rightarrow> monitor \<Rightarrow> bool" where
  "inv_threads n s \<longleftrightarrow> (\<forall>t \<ge> n. m_pc s t = Idle)"

lemma signalled_pointwise: "signalled c f f' \<Longrightarrow> f' u = f u \<or> woken c (f u) = Some (f' u)"
  by (auto elim!: signalledE)

text \<open>How each kind of step deals with the mutex.\<close>

lemma step_holds:
  "entry q p \<Longrightarrow> \<not> holds p"
  "lock_to p = Some p' \<Longrightarrow> \<not> holds p \<and> holds p'"
  "inside p s = Some (p', s') \<Longrightarrow> (holds p' \<longleftrightarrow> holds p) \<and> m_pc s' = m_pc s \<and> m_owner s' = m_owner s"
  "unlock_to p = Some p' \<Longrightarrow> holds p \<and> \<not> holds p'"
  "sleep_to p q = Some p' \<Longrightarrow> holds p \<and> \<not> holds p'"
  "signal_to p q = Some (c, p') \<Longrightarrow> holds p' \<longleftrightarrow> holds p"
  "woken c p = Some p' \<Longrightarrow> \<not> holds p \<and> \<not> holds p'"
  "return_to p = Some p' \<Longrightarrow> \<not> holds p \<and> \<not> holds p'"
  by (cases p; simp) (auto elim!: steps split: if_splits)

lemma signalled_holds: "signalled c f f' \<Longrightarrow> holds (f' u) \<longleftrightarrow> holds (f u)"
  using signalled_pointwise [of c f f' u] step_holds(7) by metis

lemma mutex_unique: "inv_mutex s \<Longrightarrow> holds (m_pc s t) \<Longrightarrow> holds (m_pc s u) \<Longrightarrow> t = u"
  by (simp add: inv_mutex_def)

lemma inv_mutex_goto:
  assumes "inv_mutex s" and "m_pc s' = (m_pc s)(t := p)"
    and "m_owner s' = (if holds p then Some t else if holds (m_pc s t) then None else m_owner s)"
    and "holds p \<longrightarrow> holds (m_pc s t) \<or> m_owner s = None"
  shows "inv_mutex s'"
  unfolding inv_mutex_def
proof
  fix u
  have *: "holds (m_pc s v) \<longleftrightarrow> m_owner s = Some v" for v
    using assms(1) by (simp add: inv_mutex_def)
  show "holds (m_pc s' u) \<longleftrightarrow> m_owner s' = Some u"
    using *[of t] *[of u] assms(2-4) by (cases "u = t"; cases "holds p"; cases "holds (m_pc s t)") auto
qed

lemma mstep_mutex:
  assumes "mstep n s s'" and "inv_mutex s"
  shows "inv_mutex s'"
  using assms(1)
proof (cases rule: mstep.cases)
  case (call t p)
  then show ?thesis using step_holds(1) by (intro inv_mutex_goto [OF assms(2)]) auto
next
  case (lock t p)
  then show ?thesis using step_holds(2) by (intro inv_mutex_goto [OF assms(2)]) auto
next
  case (local t p s1)
  have "holds (m_pc s t) \<longleftrightarrow> m_owner s = Some t" using assms(2) by (simp add: inv_mutex_def)
  then show ?thesis using local step_holds(3) [OF local(3)] by (intro inv_mutex_goto [OF assms(2)]) auto
next
  case (unlock t p)
  then show ?thesis using step_holds(4) by (intro inv_mutex_goto [OF assms(2)]) auto
next
  case (sleep t p)
  then show ?thesis using step_holds(5) by (intro inv_mutex_goto [OF assms(2)]) auto
next
  case (signal t c p f)
  then show ?thesis
    using assms(2) signalled_holds [OF signal(4)] step_holds(6) [OF signal(3)] by (auto simp: inv_mutex_def)
next
  case (spurious t c p)
  then show ?thesis using step_holds(7) by (intro inv_mutex_goto [OF assms(2)]) auto
next
  case (return t p)
  then show ?thesis using step_holds(8) by (intro inv_mutex_goto [OF assms(2)]) auto
qed

lemma mstep_threads: "mstep n s s' \<Longrightarrow> inv_threads n s \<Longrightarrow> inv_threads n s'"
proof (induction rule: mstep.cases)
  case (signal t s c p f)
  have "f u = Idle" if "n \<le> u" for u
    using signalled_pointwise [OF signal(5), of u] signal that by (auto simp: inv_threads_def)
  then show ?case using signal by (simp add: inv_threads_def)
qed (auto simp: inv_threads_def elim!: insideE split: if_splits)

lemma reach_mutex: "reach n s \<Longrightarrow> inv_mutex s"
proof (induction rule: reach.induct)
  case (step s s')
  then show ?case by (blast intro: mstep_mutex)
qed (simp add: inv_mutex_def m_init_def)

lemma reach_threads: "reach n s \<Longrightarrow> inv_threads n s"
proof (induction rule: reach.induct)
  case (step s s')
  then show ?case by (blast intro: mstep_threads)
qed (simp add: inv_threads_def m_init_def)

section \<open>First in, first out\<close>

definition inv_fifo :: "monitor \<Rightarrow> bool" where
  "inv_fifo s \<longleftrightarrow> wf_queue (m_queue s) \<and>
     map Some (m_accepted s) = m_delivered s @ map Some (contents (m_queue s))"

lemma inside_queue:
  "inside p s = Some (p', s') \<Longrightarrow>
     s' = s \<or> s' = set_exit s \<or> (\<exists>x. p = Add_test x \<and> \<not> q_full (m_queue s) \<and> s' = accept x s) \<or>
     p = Rem_test \<and> \<not> q_empty (m_queue s) \<and> s' = deliver s"
  by (cases p) (auto split: if_splits)

lemma accept_fifo: "inv_fifo s \<Longrightarrow> \<not> q_full (m_queue s) \<Longrightarrow> inv_fifo (accept x s)"
  using ring.inv_put [of "m_queue s" x] ring.items_put [of "m_queue s" x] by (simp add: inv_fifo_def)

lemma deliver_fifo: "inv_fifo s \<Longrightarrow> \<not> q_empty (m_queue s) \<Longrightarrow> inv_fifo (deliver s)"
  using ring.inv_get [of "m_queue s"] ring.fst_get [of "m_queue s"]
    arg_cong [OF ring.get_nonempty [of "m_queue s"], of "map Some"]
  by (simp add: inv_fifo_def)

lemma mstep_fifo: "mstep n s s' \<Longrightarrow> inv_fifo s \<Longrightarrow> inv_fifo s'"
proof (induction rule: mstep.cases)
  case (local t s p s1)
  have "inv_fifo s1"
    using inside_queue [OF local(4)] local(5) accept_fifo deliver_fifo
    by (auto simp: local inv_fifo_def [of "set_exit s"] inv_fifo_def [of s])
  then show ?case using local by (simp add: inv_fifo_def)
qed (simp_all add: inv_fifo_def)

lemma reach_fifo: "reach n s \<Longrightarrow> inv_fifo s"
proof (induction rule: reach.induct)
  case (step s s')
  then show ?case by (blast intro: mstep_fifo)
qed (simp add: inv_fifo_def m_init_def)

text \<open>
  Mutual exclusion: for any number of threads and any interleaving, with spurious
  wake-ups and flags set without the lock, at most one thread is inside a critical section
  of the queue.
\<close>

theorem queue_mutual_exclusion:
  assumes "reach n s" and "holds (m_pc s t)" and "holds (m_pc s u)"
  shows "t = u"
  using reach_mutex [OF assms(1)] assms(2,3) by (rule mutex_unique)

text \<open>
  C2: The concurrent queue is first in, first out: in every reachable state the items
  delivered so far, followed by those inside, are the items accepted so far, in order.
  Every item goes to one consumer, none is lost, duplicated or reordered, no consumer reads
  an unwritten slot, and there are never more than 2000 inside.
\<close>

theorem concurrent_queue_fifo:
  assumes "reach n s"
  shows "m_delivered s @ map Some (contents (m_queue s)) = map Some (m_accepted s) \<and>
    length (contents (m_queue s)) \<le> 2000"
  using reach_fifo [OF assms] ring.within [of "m_queue s"] by (simp add: inv_fifo_def QUEUE_SIZE_def)

section \<open>An undisturbed call\<close>

text \<open>Runs of one thread, from the lock on.\<close>

lemma goto_goto [simp]: "goto t p (goto t p' s) = goto t p s"
  by (simp add: goto_def)

lemma signalled_possible: "\<exists>f'. signalled c f f'"
proof (cases "\<exists>u. woken c (f u) \<noteq> None")
  case True
  then show ?thesis by (blast intro: signalled.one)
next
  case False
  then show ?thesis by (blast intro: signalled.none)
qed

lemma signal_step:
  assumes "t < n" and "signal_to (m_pc s t) (m_queue s) = Some (c, p)" and "woken c p = None"
  shows "\<exists>s'. mstep n s s' \<and> m_queue s' = m_queue s \<and> m_pc s' t = p"
proof -
  obtain f where f: "signalled c ((m_pc s)(t := p)) f" using signalled_possible by blast
  then have "f t = p" using signalled_pointwise [OF f, of t] assms(3) by auto
  then show ?thesis using mstep.signal [OF assms(1,2) f] by fastforce
qed

lemma solo_queue_add:
  assumes "t < n" and "m_pc s t = Add_lock x" and "m_owner s = None"
  shows "\<exists>s'. (mstep n)\<^sup>*\<^sup>* s s' \<and> (case queue_add (m_queue s) x of
      Returns r q \<Rightarrow> m_pc s' t = Add_done r \<and> m_queue s' = q
    | Waits \<Rightarrow> m_pc s' t = Add_wait x \<and> m_queue s' = m_queue s)"
proof -
  let ?s1 = "goto t (Add_check x) s\<lparr>m_owner := Some t\<rparr>"
  have 1: "mstep n s ?s1" using assms by (intro mstep.lock) simp_all
  consider (refuse) "q_exit_flag (m_queue s)" | (full) "\<not> q_exit_flag (m_queue s)" "q_full (m_queue s)"
    | (put) "\<not> q_exit_flag (m_queue s)" "\<not> q_full (m_queue s)" by blast
  then show ?thesis
  proof cases
    case refuse
    have 2: "mstep n ?s1 (goto t Add_refuse ?s1)" using refuse assms(1) by (intro mstep.local) simp_all
    moreover have "mstep n (goto t Add_refuse ?s1) (goto t (Add_done (- 1)) (goto t Add_refuse ?s1)\<lparr>m_owner := None\<rparr>)"
      using assms(1) by (intro mstep.unlock) simp_all
    ultimately show ?thesis
      using 1 refuse by (intro exI [of _ "goto t (Add_done (- 1)) (goto t Add_refuse ?s1)\<lparr>m_owner := None\<rparr>"])
        (auto simp: queue_add_def intro: rtranclp.rtrancl_into_rtrancl)
  next
    case full
    let ?s2 = "goto t (Add_test x) ?s1"
    have "mstep n ?s1 ?s2" using full assms(1) by (intro mstep.local) simp_all
    moreover have "mstep n ?s2 (goto t (Add_wait x) ?s2\<lparr>m_owner := None\<rparr>)"
      using full assms(1) by (intro mstep.sleep) simp_all
    ultimately show ?thesis
      using 1 full by (intro exI [of _ "goto t (Add_wait x) ?s2\<lparr>m_owner := None\<rparr>"])
        (auto simp: queue_add_def intro: rtranclp.rtrancl_into_rtrancl)
  next
    case put
    let ?s2 = "goto t (Add_test x) ?s1"
    let ?s3 = "goto t Add_unlock (accept x ?s2)"
    let ?s4 = "goto t Add_signal ?s3\<lparr>m_owner := None\<rparr>"
    have "mstep n ?s1 ?s2" using put assms(1) by (intro mstep.local) simp_all
    moreover have "mstep n ?s2 ?s3" using put assms(1) by (intro mstep.local) simp_all
    moreover have "mstep n ?s3 ?s4" using assms(1) by (intro mstep.unlock) simp_all
    moreover obtain s5 where "mstep n ?s4 s5" "m_queue s5 = m_queue ?s4" "m_pc s5 t = Add_done 0"
      using signal_step [of t n ?s4 Not_empty "Add_done 0"] assms(1) by auto
    ultimately show ?thesis
      using 1 put by (intro exI [of _ s5]) (auto simp: queue_add_def intro: rtranclp.rtrancl_into_rtrancl)
  qed
qed

lemma solo_queue_remove:
  assumes "t < n" and "m_pc s t = Rem_lock" and "m_owner s = None"
  shows "\<exists>s'. (mstep n)\<^sup>*\<^sup>* s s' \<and> (case queue_remove (m_queue s) of
      Returns r xq \<Rightarrow> m_pc s' t = (if r = 0 then Rem_done (fst xq) else Rem_exited) \<and> m_queue s' = snd xq
    | Waits \<Rightarrow> m_pc s' t = Rem_wait \<and> m_queue s' = m_queue s)"
proof -
  let ?s1 = "goto t Rem_test s\<lparr>m_owner := Some t\<rparr>" and ?x = "fst (queue_take (m_queue s))"
  have 1: "mstep n s ?s1" using assms by (intro mstep.lock) simp_all
  consider (take) "\<not> q_empty (m_queue s)" | (exit) "q_empty (m_queue s)" "q_exit_flag (m_queue s)"
    | (sleep) "q_empty (m_queue s)" "\<not> q_exit_flag (m_queue s)" by blast
  then show ?thesis
  proof cases
    case take
    let ?s2 = "goto t (Rem_unlock ?x) (deliver ?s1)"
    let ?s3 = "goto t (Rem_signal ?x) ?s2\<lparr>m_owner := None\<rparr>"
    have "mstep n ?s1 ?s2" using take assms(1) by (intro mstep.local) simp_all
    moreover have "mstep n ?s2 ?s3" using assms(1) by (intro mstep.unlock) simp_all
    moreover obtain s4 where "mstep n ?s3 s4" "m_queue s4 = m_queue ?s3" "m_pc s4 t = Rem_done ?x"
      using signal_step [of t n ?s3 Not_full "Rem_done ?x"] assms(1) by auto
    ultimately show ?thesis
      using 1 take by (intro exI [of _ s4])
        (auto simp: queue_remove_def intro: rtranclp.rtrancl_into_rtrancl)
  next
    case exit
    let ?s2 = "goto t Rem_exit_test ?s1"
    let ?s3 = "goto t Rem_exit_unlock ?s2"
    let ?s4 = "goto t Rem_exit_signal ?s3\<lparr>m_owner := None\<rparr>"
    have "mstep n ?s1 ?s2" using exit assms(1) by (intro mstep.local) simp_all
    moreover have "mstep n ?s2 ?s3" using exit assms(1) by (intro mstep.local) simp_all
    moreover have "mstep n ?s3 ?s4" using assms(1) by (intro mstep.unlock) simp_all
    moreover obtain s5 where "mstep n ?s4 s5" "m_queue s5 = m_queue ?s4" "m_pc s5 t = Rem_exited"
      using signal_step [of t n ?s4 Not_empty Rem_exited] assms(1) by auto
    ultimately show ?thesis
      using 1 exit by (intro exI [of _ s5]) (auto simp: queue_remove_def intro: rtranclp.rtrancl_into_rtrancl)
  next
    case sleep
    let ?s2 = "goto t Rem_exit_test ?s1"
    let ?s3 = "goto t Rem_sleep ?s2"
    have "mstep n ?s1 ?s2" using sleep assms(1) by (intro mstep.local) simp_all
    moreover have "mstep n ?s2 ?s3" using sleep assms(1) by (intro mstep.local) simp_all
    moreover have "mstep n ?s3 (goto t Rem_wait ?s3\<lparr>m_owner := None\<rparr>)"
      using assms(1) by (intro mstep.sleep) simp_all
    ultimately show ?thesis
      using 1 sleep by (intro exI [of _ "goto t Rem_wait ?s3\<lparr>m_owner := None\<rparr>"])
        (auto simp: queue_remove_def intro: rtranclp.rtrancl_into_rtrancl)
  qed
qed

text \<open>
  C34: The sequential operations are what a call does when no other thread interferes.  From a
  free mutex, \<^verbatim>\<open>queue_add\<close> reaches its return with the status and the queue that the
  model of the undisturbed call gives, or falls asleep where it waits; \<^verbatim>\<open>queue_remove\<close>
  delivers the item and leaves that queue, makes its caller leave its loop on -1, or falls
  asleep.
\<close>

theorem solo_queue_calls:
  assumes "t < n" and "m_owner s = None"
  shows "(m_pc s t = Add_lock x \<longrightarrow>
      (\<exists>s'. (mstep n)\<^sup>*\<^sup>* s s' \<and> (case queue_add (m_queue s) x of
          Returns r q \<Rightarrow> m_pc s' t = Add_done r \<and> m_queue s' = q
        | Waits \<Rightarrow> m_pc s' t = Add_wait x \<and> m_queue s' = m_queue s))) \<and>
    (m_pc s t = Rem_lock \<longrightarrow>
      (\<exists>s'. (mstep n)\<^sup>*\<^sup>* s s' \<and> (case queue_remove (m_queue s) of
          Returns r xq \<Rightarrow> m_pc s' t = (if r = 0 then Rem_done (fst xq) else Rem_exited) \<and> m_queue s' = snd xq
        | Waits \<Rightarrow> m_pc s' t = Rem_wait \<and> m_queue s' = m_queue s)))"
  using solo_queue_add [OF assms(1) _ assms(2)] solo_queue_remove [OF assms(1) _ assms(2)] by blast

lemma solo_queue_calls_witness:
  "\<exists>s'. (mstep 1)\<^sup>*\<^sup>* (goto 0 (Add_lock sample_item) m_init) s' \<and> m_pc s' 0 = Add_done 0 \<and>
     m_queue s' = queue_put sample_item queue_init"
  using solo_queue_calls [of 0 1 "goto 0 (Add_lock sample_item) m_init" sample_item]
  by (simp add: queue_add_def m_init_def)

section \<open>Sleepers and signals\<close>

text \<open>The threads that have seen the queue empty, under the lock.\<close>

fun saw_empty :: "pc \<Rightarrow> bool" where
  "saw_empty Rem_exit_test \<longleftrightarrow> True" | "saw_empty Rem_sleep \<longleftrightarrow> True"
| "saw_empty Rem_exit_unlock \<longleftrightarrow> True" | "saw_empty _ \<longleftrightarrow> False"

fun_cases saw_emptyE: "saw_empty p"

definition inv_empty :: "monitor \<Rightarrow> bool" where
  "inv_empty s \<longleftrightarrow> (\<forall>t. saw_empty (m_pc s t) \<longrightarrow> q_empty (m_queue s))"

lemma step_saw_empty:
  "entry q p \<Longrightarrow> \<not> saw_empty p"
  "lock_to p = Some p' \<Longrightarrow> \<not> saw_empty p'"
  "inside p s = Some (p', s') \<Longrightarrow> saw_empty p' \<Longrightarrow> q_empty (m_queue s') \<or> saw_empty p"
  "inside p s = Some (p', s') \<Longrightarrow> q_empty (m_queue s) \<longrightarrow> q_empty (m_queue s') \<or> (\<exists>x. p = Add_test x)"
  "unlock_to p = Some p' \<Longrightarrow> \<not> saw_empty p'"
  "sleep_to p q = Some p' \<Longrightarrow> \<not> saw_empty p'"
  "signal_to p q = Some (c, p') \<Longrightarrow> \<not> saw_empty p'"
  "woken c p = Some p' \<Longrightarrow> \<not> saw_empty p'"
  "return_to p = Some p' \<Longrightarrow> \<not> saw_empty p'"
  "saw_empty p \<Longrightarrow> holds p"
  by (cases p; simp) (auto elim!: steps saw_emptyE split: if_splits)

lemma mstep_empty: "mstep n s s' \<Longrightarrow> inv_mutex s \<Longrightarrow> inv_empty s \<Longrightarrow> inv_empty s'"
proof (induction rule: mstep.cases)
  case (local t s p s1)
  have other: "\<not> saw_empty (m_pc s u)" if "u \<noteq> t" "\<exists>x. m_pc s t = Add_test x" for u
    using that mutex_unique [OF local(5), of t u] step_saw_empty(10) [of "m_pc s u"]
    by (auto simp: local(1))
  show ?case
    using local step_saw_empty(3,4) [OF local(4)] other step_holds(3) [OF local(4)]
    by (auto simp: inv_empty_def)
next
  case (signal t s c p f)
  then show ?case
    using signalled_pointwise [OF signal(5)] step_saw_empty(7,8)
    by (auto simp: inv_empty_def) (metis fun_upd_apply)
qed (auto simp: inv_empty_def dest: step_saw_empty)

lemma reach_empty: "reach n s \<Longrightarrow> inv_empty s"
proof (induction rule: reach.induct)
  case (step s s')
  then show ?case by (blast intro: mstep_empty reach_mutex)
qed (simp add: inv_empty_def m_init_def)

lemma sum_weight_upd:
  fixes w :: "pc \<Rightarrow> nat" and n :: nat
  assumes "t < n"
  shows "(\<Sum>u<n. w ((f(t := p)) u)) + w (f t) = (\<Sum>u<n. w (f u)) + w p"
proof -
  have "(\<Sum>u<n. w (g u)) = w (g t) + (\<Sum>u \<in> {..<n} - {t}. w (g u))" for g :: "nat \<Rightarrow> pc"
    using assms by (intro sum.remove) simp_all
  moreover have "(\<Sum>u \<in> {..<n} - {t}. w ((f(t := p)) u)) = (\<Sum>u \<in> {..<n} - {t}. w (f u))"
    by (intro sum.cong) simp_all
  ultimately show ?thesis by simp
qed

text \<open>
  The account of wake-ups of one condition variable: while a thread sleeps on it, the queue
  must not need more threads than are awake for it or about to be woken by a signal on its
  way.  \<open>need\<close> is what the sleepers wait for (items, or free slots), \<open>weight\<close> marks the
  threads that count.
\<close>

definition covered :: "cond \<Rightarrow> (PCQueue \<Rightarrow> nat) \<Rightarrow> (pc \<Rightarrow> nat) \<Rightarrow> nat \<Rightarrow> monitor \<Rightarrow> bool" where
  "covered c need weight n s \<longleftrightarrow> ((\<exists>t. woken c (m_pc s t) \<noteq> None) \<longrightarrow>
     need (m_queue s) \<le> (\<Sum>t<n. weight (m_pc s t)))"

lemma coveredD:
  "covered c need weight n s \<Longrightarrow> woken c (m_pc s t) = Some p \<Longrightarrow>
     need (m_queue s) \<le> (\<Sum>t<n. weight (m_pc s t))"
  by (auto simp: covered_def)

text \<open>What a thread knows of a good queue when it takes its step.\<close>

definition informed :: "pc \<Rightarrow> PCQueue \<Rightarrow> bool" where
  "informed p q \<longleftrightarrow> wf_queue q \<and> (saw_empty p \<longrightarrow> q_empty q)"

text \<open>A step of one thread that does not unbalance the account.\<close>

definition balanced :: "cond \<Rightarrow> (PCQueue \<Rightarrow> nat) \<Rightarrow> (pc \<Rightarrow> nat) \<Rightarrow> pc \<Rightarrow> PCQueue \<Rightarrow> pc \<Rightarrow> PCQueue \<Rightarrow> bool" where
  "balanced c need weight p q p' q' \<longleftrightarrow>
     need q' = 0 \<or> need q' + weight p \<le> need q + weight p' \<and> woken c p' = None"

locale wake_account =
  fixes c :: cond and need :: "PCQueue \<Rightarrow> nat" and weight :: "pc \<Rightarrow> nat"
  assumes entry_ok: "entry q p \<Longrightarrow> balanced c need weight Idle q p q"
    and lock_ok: "lock_to p = Some p' \<Longrightarrow> balanced c need weight p q p' q"
    and inside_ok: "inside p s = Some (p', s') \<Longrightarrow> informed p (m_queue s) \<Longrightarrow>
      balanced c need weight p (m_queue s) p' (m_queue s')"
    and unlock_ok: "unlock_to p = Some p' \<Longrightarrow> balanced c need weight p q p' q"
    and sleep_ok: "sleep_to p q = Some p' \<Longrightarrow> informed p q \<Longrightarrow> balanced c need weight p q p' q"
    and signal_ok: "signal_to p q = Some (d, p') \<Longrightarrow>
      weight p \<le> weight p' + (if d = c then 1 else 0) \<and> woken c p' = None"
    and woken_ok: "woken d p = Some p' \<Longrightarrow>
      weight p + (if d = c then 1 else 0) \<le> weight p' \<and> woken c p' = None"
    and return_ok: "return_to p = Some p' \<Longrightarrow> balanced c need weight p q p' q"
begin

lemma covered_one:
  assumes "covered c need weight n s" and "t < n" and "m_pc s' = (m_pc s)(t := p)"
    and "balanced c need weight (m_pc s t) (m_queue s) p (m_queue s')"
  shows "covered c need weight n s'"
  unfolding covered_def
proof
  assume sl: "\<exists>u. woken c (m_pc s' u) \<noteq> None"
  show "need (m_queue s') \<le> (\<Sum>u<n. weight (m_pc s' u))"
  proof (cases "need (m_queue s') = 0")
    case False
    then have b: "need (m_queue s') + weight (m_pc s t) \<le> need (m_queue s) + weight p" "woken c p = None"
      using assms(4) by (simp_all add: balanced_def)
    with sl have "\<exists>u. woken c (m_pc s u) \<noteq> None" using assms(3) by (auto split: if_splits)
    then have "need (m_queue s) \<le> (\<Sum>u<n. weight (m_pc s u))" using assms(1) by (simp add: covered_def)
    then show ?thesis using b sum_weight_upd [OF assms(2), of weight "m_pc s" p] by (simp add: assms(3))
  qed simp
qed

lemma covered_signal:
  assumes "covered c need weight n s" and "t < n" and "signal_to (m_pc s t) (m_queue s) = Some (d, p)"
    and "signalled d ((m_pc s)(t := p)) f" and "inv_threads n s"
  shows "covered c need weight n (s\<lparr>m_pc := f\<rparr>)"
proof -
  note w = signal_ok [OF assms(3)] and sum = sum_weight_upd [OF assms(2), of weight "m_pc s" p]
  have old: "need (m_queue s) \<le> (\<Sum>u<n. weight (m_pc s u))" if "woken c (((m_pc s)(t := p)) u) \<noteq> None" for u
    using assms(1) w that by (auto simp: covered_def split: if_splits)
  show ?thesis
    using assms(4)
  proof (cases rule: signalled.cases)
    case none
    show ?thesis
    proof (cases "d = c")
      case True
      then show ?thesis using none by (auto simp: covered_def)
    next
      case False
      then show ?thesis using none w sum old by (fastforce simp: covered_def simp del: fun_upd_apply)
    qed
  next
    case (one u p')
    let ?g = "(m_pc s)(t := p)"
    have "?g u \<noteq> Idle" using one(2) by auto
    then have "u < n" using assms(2,5) by (auto simp: inv_threads_def not_le [symmetric] split: if_splits)
    note sum' = sum_weight_upd [OF this, of weight ?g p']
    have "need (m_queue s) \<le> (\<Sum>v<n. weight (m_pc s v))" if "woken c (f v) \<noteq> None" for v
      using that old woken_ok [OF one(2)] by (auto simp: one(1) split: if_splits)
    moreover have "(\<Sum>v<n. weight (m_pc s v)) \<le> (\<Sum>v<n. weight (f v))"
      using w sum sum' woken_ok [OF one(2)] unfolding one(1)
      by (cases "d = c") (simp_all del: fun_upd_apply)
    ultimately have "need (m_queue s) \<le> (\<Sum>v<n. weight (f v))" if "woken c (f v) \<noteq> None" for v
      using that le_trans by blast
    then show ?thesis by (auto simp: covered_def)
  qed
qed

lemma covered_step:
  assumes "mstep n s s'" and "covered c need weight n s"
    and "inv_threads n s" and "\<And>t. informed (m_pc s t) (m_queue s)"
  shows "covered c need weight n s'"
  using assms(1)
proof (cases rule: mstep.cases)
  case (call t p)
  then show ?thesis using entry_ok by (intro covered_one [OF assms(2)]) auto
next
  case (lock t p)
  then show ?thesis using lock_ok by (intro covered_one [OF assms(2)]) auto
next
  case (local t p s1)
  then show ?thesis
    using inside_ok [OF local(3) assms(4)] step_holds(3) [OF local(3)]
    by (intro covered_one [OF assms(2) local(2)]) auto
next
  case (unlock t p)
  then show ?thesis using unlock_ok by (intro covered_one [OF assms(2)]) auto
next
  case (sleep t p)
  then show ?thesis using sleep_ok [OF _ assms(4)] by (intro covered_one [OF assms(2)]) auto
next
  case (signal t d p f)
  then show ?thesis using covered_signal [OF assms(2) signal(2-4) assms(3)] by simp
next
  case (spurious t d p)
  have "balanced c need weight (m_pc s t) (m_queue s) p (m_queue s)"
    using woken_ok [OF spurious(3)] by (simp add: balanced_def)
  then show ?thesis using spurious by (intro covered_one [OF assms(2)]) auto
next
  case (return t p)
  then show ?thesis using return_ok by (intro covered_one [OF assms(2)]) auto
qed

lemma covered_reach: "reach n s \<Longrightarrow> covered c need weight n s"
proof (induction rule: reach.induct)
  case init
  then show ?case by (simp add: covered_def m_init_def)
next
  case (step s s')
  have "informed (m_pc s t) (m_queue s)" for t
    using reach_fifo [OF step(1)] reach_empty [OF step(1)] by (auto simp: informed_def inv_fifo_def inv_empty_def)
  then show ?case using covered_step [OF step(2,3) reach_threads [OF step(1)]] by blast
qed

end

text \<open>Consumers are woken for items, producers for free slots.\<close>

fun for_items :: "pc \<Rightarrow> nat" where
  "for_items Add_unlock = 1" | "for_items Add_signal = 1" | "for_items Rem_test = 1"
| "for_items Rem_exit_test = 1" | "for_items Rem_sleep = 1" | "for_items Rem_woken = 1"
| "for_items _ = 0"

fun for_slots :: "pc \<Rightarrow> nat" where
  "for_slots (Rem_unlock x) = 1" | "for_slots (Rem_signal x) = 1" | "for_slots (Add_woken x) = 1"
| "for_slots (Add_test x) = 1" | "for_slots _ = 0"

definition free_slots :: "PCQueue \<Rightarrow> nat" where
  "free_slots q = QUEUE_SIZE - item_count q"

lemma informed_counts:
  assumes "informed p q"
  shows "saw_empty p \<Longrightarrow> item_count q = 0"
    and "\<not> q_full q \<Longrightarrow> item_count (queue_put x q) = item_count q + 1 \<and> item_count q < QUEUE_SIZE"
    and "\<not> q_empty q \<Longrightarrow> item_count q = Suc (item_count (snd (queue_take q)))"
    and "q_full q \<Longrightarrow> item_count q = QUEUE_SIZE"
  using assms item_count_empty [of q] item_count_put [of q x] item_count_take [of q] item_count_full [of q]
    ring.room [of q] by (auto simp: informed_def)

interpretation items: wake_account Not_empty item_count for_items
proof
  fix q and p p' :: pc and s s' :: monitor and d
  show "entry q p \<Longrightarrow> balanced Not_empty item_count for_items Idle q p q"
    by (cases p) (auto simp: balanced_def)
  show "lock_to p = Some p' \<Longrightarrow> balanced Not_empty item_count for_items p q p' q"
    by (cases p) (auto simp: balanced_def)
  show "unlock_to p = Some p' \<Longrightarrow> balanced Not_empty item_count for_items p q p' q"
    by (cases p) (auto simp: balanced_def)
  show "return_to p = Some p' \<Longrightarrow> balanced Not_empty item_count for_items p q p' q"
    by (cases p) (auto simp: balanced_def)
  show "inside p s = Some (p', s') \<Longrightarrow> informed p (m_queue s) \<Longrightarrow>
      balanced Not_empty item_count for_items p (m_queue s) p' (m_queue s')"
    using informed_counts [of p "m_queue s"] by (cases p) (auto simp: balanced_def split: if_splits)
  show "sleep_to p q = Some p' \<Longrightarrow> informed p q \<Longrightarrow> balanced Not_empty item_count for_items p q p' q"
    using informed_counts [of p q] by (cases p) (auto simp: balanced_def split: if_splits)
  show "signal_to p q = Some (d, p') \<Longrightarrow>
      for_items p \<le> for_items p' + (if d = Not_empty then 1 else 0) \<and> woken Not_empty p' = None"
    by (cases p) (auto split: if_splits)
  show "woken d p = Some p' \<Longrightarrow>
      for_items p + (if d = Not_empty then 1 else 0) \<le> for_items p' \<and> woken Not_empty p' = None"
    by (cases p; cases d) auto
qed

interpretation slots: wake_account Not_full free_slots for_slots
proof
  fix q and p p' :: pc and s s' :: monitor and d
  show "entry q p \<Longrightarrow> balanced Not_full free_slots for_slots Idle q p q"
    by (cases p) (auto simp: balanced_def)
  show "lock_to p = Some p' \<Longrightarrow> balanced Not_full free_slots for_slots p q p' q"
    by (cases p) (auto simp: balanced_def)
  show "unlock_to p = Some p' \<Longrightarrow> balanced Not_full free_slots for_slots p q p' q"
    by (cases p) (auto simp: balanced_def)
  show "return_to p = Some p' \<Longrightarrow> balanced Not_full free_slots for_slots p q p' q"
    by (cases p) (auto simp: balanced_def)
  show "inside p s = Some (p', s') \<Longrightarrow> informed p (m_queue s) \<Longrightarrow>
      balanced Not_full free_slots for_slots p (m_queue s) p' (m_queue s')"
    using informed_counts [of p "m_queue s"] item_count_le [of "m_queue s"]
    by (cases p) (auto simp: balanced_def free_slots_def split: if_splits)
  show "sleep_to p q = Some p' \<Longrightarrow> informed p q \<Longrightarrow> balanced Not_full free_slots for_slots p q p' q"
    using informed_counts [of p q] by (cases p) (auto simp: balanced_def free_slots_def split: if_splits)
  show "signal_to p q = Some (d, p') \<Longrightarrow>
      for_slots p \<le> for_slots p' + (if d = Not_full then 1 else 0) \<and> woken Not_full p' = None"
    by (cases p) (auto split: if_splits)
  show "woken d p = Some p' \<Longrightarrow>
      for_slots p + (if d = Not_full then 1 else 0) \<le> for_slots p' \<and> woken Not_full p' = None"
    by (cases p; cases d) auto
qed

text \<open>Threads that take no step of their own: free, finished or asleep.\<close>

fun quiet :: "pc \<Rightarrow> bool" where
  "quiet Idle \<longleftrightarrow> True" | "quiet (Add_wait x) \<longleftrightarrow> True" | "quiet Rem_wait \<longleftrightarrow> True"
| "quiet Rem_exited \<longleftrightarrow> True" | "quiet Closed \<longleftrightarrow> True" | "quiet Passed \<longleftrightarrow> True"
| "quiet _ \<longleftrightarrow> False"

text \<open>Threads inside no call, or asleep: also those whose call is over.\<close>

fun resting :: "pc \<Rightarrow> bool" where
  "resting (Add_done r) \<longleftrightarrow> True" | "resting (Rem_done y) \<longleftrightarrow> True" | "resting p \<longleftrightarrow> quiet p"

lemma resting_weights: "resting p \<Longrightarrow> for_items p = 0 \<and> for_slots p = 0"
  by (cases p) auto

lemma quiet_resting: "quiet p \<Longrightarrow> resting p"
  by (cases p) auto

lemma resting_sleepers:
  assumes "reach n s" and "\<forall>t < n. resting (m_pc s t)"
  shows "((\<exists>t. m_pc s t = Rem_wait) \<longrightarrow> contents (m_queue s) = []) \<and>
    ((\<exists>t x. m_pc s t = Add_wait x) \<longrightarrow> length (contents (m_queue s)) = 2000)"
proof -
  have zero: "(\<Sum>t<n. for_items (m_pc s t)) = 0" "(\<Sum>t<n. for_slots (m_pc s t)) = 0"
    using assms(2) resting_weights by (auto intro!: sum.neutral)
  have "item_count (m_queue s) = 0" if "m_pc s t = Rem_wait" for t
    using coveredD [OF items.covered_reach [OF assms(1)], of t] that zero by simp
  moreover have "free_slots (m_queue s) = 0" if "m_pc s t = Add_wait x" for t x
    using coveredD [OF slots.covered_reach [OF assms(1)], of t] that zero by simp
  ultimately show ?thesis
    using item_count_le [of "m_queue s"]
    by (auto simp: free_slots_def QUEUE_SIZE_def simp flip: length_contents simp del: length_contents)
qed


text \<open>
  Two interleavings used below: consumer 0 sleeps on the empty queue; the same consumer has
  read the exit flag as not set and is about to sleep.
\<close>

definition before_sleep :: monitor where
  "before_sleep = goto 0 Rem_sleep m_init\<lparr>m_owner := Some 0\<rparr>"

lemma goto_owner [simp]: "goto t p (s\<lparr>m_owner := w\<rparr>) = goto t p s\<lparr>m_owner := w\<rparr>"
  by (simp add: goto_def)

lemma reach_before_sleep: "0 < n \<Longrightarrow> reach n before_sleep"
proof -
  assume n: "0 < n"
  let ?s1 = "goto 0 Rem_lock m_init" and ?s2 = "goto 0 Rem_test m_init\<lparr>m_owner := Some 0\<rparr>"
    and ?s3 = "goto 0 Rem_exit_test m_init\<lparr>m_owner := Some 0\<rparr>"
  have "mstep n m_init ?s1" using n by (intro mstep.call) (simp_all add: m_init_def)
  moreover have "mstep n ?s1 ?s2"
    using mstep.lock [of 0 n ?s1 Rem_test] n by (simp add: m_init_def)
  moreover have "mstep n ?s2 ?s3"
    using mstep.local [of 0 n ?s2 Rem_exit_test ?s2] n by (simp add: m_init_def)
  moreover have "mstep n ?s3 before_sleep"
    using mstep.local [of 0 n ?s3 Rem_sleep ?s3] n by (simp add: m_init_def before_sleep_def)
  ultimately show "reach n before_sleep" by (meson reach.intros)
qed


lemma queue_mutual_exclusion_witness: "reach 2 before_sleep \<and> \<not> holds (m_pc before_sleep 1)"
proof -
  have r: "reach 2 before_sleep" by (rule reach_before_sleep) simp
  have "holds (m_pc before_sleep 0)" by (simp add: before_sleep_def)
  from queue_mutual_exclusion [OF r this, of 1] r show ?thesis by auto
qed

lemma concurrent_queue_fifo_witness:
  "m_delivered before_sleep @ map Some (contents (m_queue before_sleep)) = map Some (m_accepted before_sleep)"
  using concurrent_queue_fifo [OF reach_before_sleep [of 1]] by simp

section \<open>The exit order\<close>


text \<open>The threads that take part in emptying the queue, or are about to wake one that does.\<close>

fun active :: "pc \<Rightarrow> bool" where
  "active Rem_lock \<longleftrightarrow> True" | "active Rem_test \<longleftrightarrow> True" | "active Rem_exit_test \<longleftrightarrow> True"
| "active Rem_woken \<longleftrightarrow> True" | "active Rem_exit_unlock \<longleftrightarrow> True" | "active Rem_exit_signal \<longleftrightarrow> True"
| "active (Rem_unlock x) \<longleftrightarrow> True" | "active (Rem_signal x) \<longleftrightarrow> True" | "active (Rem_done x) \<longleftrightarrow> True"
| "active Add_unlock \<longleftrightarrow> True" | "active Add_signal \<longleftrightarrow> True" | "active _ \<longleftrightarrow> False"

fun closing :: "pc \<Rightarrow> bool" where
  "closing Close_lock \<longleftrightarrow> True" | "closing Close_test \<longleftrightarrow> True" | "closing Close_unlock \<longleftrightarrow> True"
| "closing Closed \<longleftrightarrow> True" | "closing _ \<longleftrightarrow> False"

fun has_closed :: "pc \<Rightarrow> bool" where
  "has_closed Close_unlock \<longleftrightarrow> True" | "has_closed Closed \<longleftrightarrow> True" | "has_closed _ \<longleftrightarrow> False"

definition inv_closing :: "monitor \<Rightarrow> bool" where
  "inv_closing s \<longleftrightarrow> ((\<exists>t. closing (m_pc s t)) \<longrightarrow> q_exit_flag (m_queue s))"

lemma step_closing:
  "entry q p \<Longrightarrow> closing p \<Longrightarrow> q_exit_flag q"
  "lock_to p = Some p' \<Longrightarrow> closing p' = closing p"
  "inside p s = Some (p', s') \<Longrightarrow> closing p' = closing p"
  "inside p s = Some (p', s') \<Longrightarrow> q_exit_flag (m_queue s) \<Longrightarrow> q_exit_flag (m_queue s')"
  "unlock_to p = Some p' \<Longrightarrow> closing p' = closing p"
  "sleep_to p q = Some p' \<Longrightarrow> closing p' = closing p"
  "signal_to p q = Some (c, p') \<Longrightarrow> closing p' = closing p"
  "woken c p = Some p' \<Longrightarrow> closing p' = closing p"
  "return_to p = Some p' \<Longrightarrow> closing p' = closing p"
  by (cases p; simp) (auto elim!: steps split: if_splits)

lemma mstep_closing: "mstep n s s' \<Longrightarrow> inv_closing s \<Longrightarrow> inv_closing s'"
proof (induction rule: mstep.cases)
  case (local t s p s1)
  then show ?case
    using step_closing(3,4) [OF local(4)] step_holds(3) [OF local(4)] by (auto simp: inv_closing_def split: if_splits)
next
  case (signal t s c p f)
  have "closing (f u) = closing (m_pc s u)" for u
    using signalled_pointwise [OF signal(5), of u] step_closing(7) [OF signal(4)] step_closing(8)
    by (auto split: if_splits)
  then show ?case using signal by (auto simp: inv_closing_def)
qed (auto simp: inv_closing_def dest: step_closing split: if_splits)

lemma reach_closing: "reach n s \<Longrightarrow> inv_closing s"
proof (induction rule: reach.induct)
  case (step s s')
  then show ?case by (blast intro: mstep_closing)
qed (simp add: inv_closing_def m_init_def)

definition inv_drain :: "monitor \<Rightarrow> bool" where
  "inv_drain s \<longleftrightarrow> ((\<exists>t. has_closed (m_pc s t)) \<longrightarrow>
     (\<forall>u. m_pc s u \<noteq> Rem_sleep) \<and> ((\<exists>u. m_pc s u = Rem_wait) \<longrightarrow> (\<exists>u. active (m_pc s u))))"

text \<open>A step that keeps a thread active, if it was, and puts none to sleep.\<close>

definition keeps_draining :: "pc \<Rightarrow> pc \<Rightarrow> bool" where
  "keeps_draining p p' \<longleftrightarrow> (active p \<longrightarrow> active p') \<and> p' \<noteq> Rem_sleep \<and> p' \<noteq> Rem_wait"

lemma step_draining:
  "entry q p \<Longrightarrow> keeps_draining Idle p \<and> \<not> has_closed p"
  "lock_to p = Some p' \<Longrightarrow> keeps_draining p p' \<and> \<not> has_closed p'"
  "inside p s = Some (p', s') \<Longrightarrow> q_exit_flag (m_queue s) \<Longrightarrow> keeps_draining p p'"
  "inside p s = Some (p', s') \<Longrightarrow> has_closed p' \<Longrightarrow> p = Close_test \<and> \<not> q_empty (m_queue s)"
  "unlock_to p = Some p' \<Longrightarrow> keeps_draining p p' \<and> has_closed p' = has_closed p"
  "sleep_to p q = Some p' \<Longrightarrow> p \<noteq> Rem_sleep \<Longrightarrow> keeps_draining p p'"
  "sleep_to p q = Some p' \<Longrightarrow> \<not> has_closed p'"
  "signal_to p q = Some (Not_full, p') \<Longrightarrow> keeps_draining p p' \<and> \<not> has_closed p'"
  "signal_to p q = Some (c, p') \<Longrightarrow> p' \<noteq> Rem_sleep"
  "signal_to p q = Some (c, p') \<Longrightarrow> has_closed p' \<Longrightarrow> p = Close_test"
  "woken c p = Some p' \<Longrightarrow> keeps_draining p p' \<and> \<not> has_closed p' \<and> p \<noteq> Rem_sleep \<and> \<not> active p"
  "return_to p = Some p' \<Longrightarrow> keeps_draining p p' \<and> \<not> has_closed p'"
  by (cases p; simp add: keeps_draining_def)
    (auto simp: keeps_draining_def elim!: steps split: if_splits)

lemma drain_one:
  assumes "inv_drain s" and "m_pc s' = (m_pc s)(t := p)"
    and "\<exists>u. has_closed (m_pc s u) \<Longrightarrow> keeps_draining (m_pc s t) p"
    and "has_closed p \<Longrightarrow> has_closed (m_pc s t)"
  shows "inv_drain s'"
  unfolding inv_drain_def
proof
  assume "\<exists>u. has_closed (m_pc s' u)"
  then have c: "\<exists>u. has_closed (m_pc s u)" using assms(2,4) by (auto split: if_splits)
  then have *: "\<forall>u. m_pc s u \<noteq> Rem_sleep" "(\<exists>u. m_pc s u = Rem_wait) \<longrightarrow> (\<exists>u. active (m_pc s u))"
    using assms(1) by (simp_all add: inv_drain_def)
  note k = assms(3) [OF c, unfolded keeps_draining_def]
  have "\<exists>u. active (m_pc s' u)" if w: "m_pc s' u = Rem_wait" for u
  proof -
    have "m_pc s u = Rem_wait" using w k assms(2) by (auto split: if_splits)
    then obtain v where "active (m_pc s v)" using *(2) by blast
    then show ?thesis using k assms(2) by (intro exI [of _ v]) auto
  qed
  moreover have "\<forall>u. m_pc s' u \<noteq> Rem_sleep" using * k assms(2) by simp
  ultimately show "(\<forall>u. m_pc s' u \<noteq> Rem_sleep) \<and>
      ((\<exists>u. m_pc s' u = Rem_wait) \<longrightarrow> (\<exists>u. active (m_pc s' u)))" by blast
qed

lemma drain_signal:
  assumes "signalled Not_empty g f" and "\<forall>u. g u \<noteq> Rem_sleep"
  shows "(\<forall>u. f u \<noteq> Rem_sleep) \<and> ((\<exists>u. f u = Rem_wait) \<longrightarrow> (\<exists>u. active (f u)))"
  using assms(1)
proof (cases rule: signalled.cases)
  case (one u p)
  then have "p = Rem_woken" by (auto elim!: wokenE)
  then have "active (f u)" by (simp add: one)
  then show ?thesis using assms(2) one \<open>p = Rem_woken\<close> by auto
next
  case none
  have "f u \<noteq> Rem_wait" for u using none(2) [of u] none(1) by auto
  then show ?thesis using assms(2) none by auto
qed

text \<open>When the closing code finds items in the queue, the account of wake-ups shows a live thread.\<close>

lemma nonempty_active:
  assumes "reach n s" and "\<not> q_empty (m_queue s)" and "m_pc s u = Rem_wait" and "\<forall>u. m_pc s u \<noteq> Rem_sleep"
  shows "\<exists>v. active (m_pc s v)"
proof -
  have "0 < item_count (m_queue s)"
    using assms(2) item_count_empty reach_fifo [OF assms(1)] by (auto simp: inv_fifo_def)
  then have "0 < (\<Sum>t<n. for_items (m_pc s t))"
    using coveredD [OF items.covered_reach [OF assms(1)], of u] assms(3) by simp
  then obtain t where "0 < for_items (m_pc s t)" by (metis bot_nat_0.not_eq_extremum sum.neutral)
  then have "active (m_pc s t)" using assms(4) by (cases "m_pc s t") auto
  then show ?thesis by blast
qed

lemma close_test_alone:
  assumes "reach n s" and "m_pc s t = Close_test"
  shows "\<forall>u. m_pc s u \<noteq> Rem_sleep"
proof (intro allI notI)
  fix u
  assume "m_pc s u = Rem_sleep"
  then show False using mutex_unique [OF reach_mutex [OF assms(1)], of t u] assms(2) by auto
qed

lemma drain_local:
  assumes "inside (m_pc s t) s = Some (p, s1)" and "s' = goto t p s1" and "reach n s" and "inv_drain s"
  shows "inv_drain s'"
proof -
  have pcs: "m_pc s' = (m_pc s)(t := p)" using assms(2) step_holds(3) [OF assms(1)] by simp
  show ?thesis
  proof (cases "m_pc s t = Close_test")
    case True
    then have p: "p = Close_unlock" "\<not> q_empty (m_queue s)" using assms(1) by (auto split: if_splits)
    have "\<exists>v. active (m_pc s' v)" if "m_pc s' u = Rem_wait" for u
    proof -
      have "m_pc s u = Rem_wait" using that pcs p by (auto split: if_splits)
      then obtain v where "active (m_pc s v)"
        using nonempty_active [OF assms(3) p(2)] close_test_alone [OF assms(3) True] by blast
      then show ?thesis using True pcs by (intro exI [of _ v]) auto
    qed
    moreover have "\<forall>u. m_pc s' u \<noteq> Rem_sleep"
      using close_test_alone [OF assms(3) True] pcs p by simp
    ultimately show ?thesis unfolding inv_drain_def by blast
  next
    case False
    have "has_closed x \<Longrightarrow> closing x" for x by (cases x) auto
    then have "q_exit_flag (m_queue s)" if "has_closed (m_pc s u)" for u
      using reach_closing [OF assms(3)] that by (auto simp: inv_closing_def)
    then show ?thesis
      using False step_draining(3,4) [OF assms(1)] by (intro drain_one [OF assms(4) pcs]) auto
  qed
qed

lemma drain_not_empty:
  assumes "signal_to (m_pc s t) (m_queue s) = Some (Not_empty, p)" and "signalled Not_empty ((m_pc s)(t := p)) f"
    and "reach n s" and "inv_drain s"
  shows "inv_drain (s\<lparr>m_pc := f\<rparr>)"
proof (cases "m_pc s t = Close_test")
  case True
  have "\<forall>u. ((m_pc s)(t := p)) u \<noteq> Rem_sleep"
    using close_test_alone [OF assms(3) True] step_draining(9) [OF assms(1)] by simp
  then show ?thesis using drain_signal assms(2) by (simp add: inv_drain_def)
next
  case False
  have *: "\<forall>u. ((m_pc s)(t := p)) u \<noteq> Rem_sleep" if "\<exists>u. has_closed (m_pc s u)"
    using assms(4) that step_draining(9) [OF assms(1)] by (auto simp: inv_drain_def)
  have "has_closed (f u) \<Longrightarrow> has_closed (m_pc s u)" for u
    using signalled_pointwise [OF assms(2), of u] step_draining(10) [OF assms(1)] step_draining(11) False
    by (auto split: if_splits)
  then show ?thesis using drain_signal [OF assms(2) *] by (auto simp: inv_drain_def)
qed

lemma drain_not_full:
  assumes "signal_to (m_pc s t) (m_queue s) = Some (Not_full, p)" and "signalled Not_full ((m_pc s)(t := p)) f"
    and "inv_drain s"
  shows "inv_drain (s\<lparr>m_pc := f\<rparr>)"
proof -
  have k: "keeps_draining (m_pc s t) p \<and> \<not> has_closed p"
    using step_draining(8) assms(1) by blast
  have g: "inv_drain (s\<lparr>m_pc := (m_pc s)(t := p)\<rparr>)"
    by (rule drain_one [OF assms(3), of _ t p]) (use k in auto)
  show ?thesis
    using assms(2)
  proof (cases rule: signalled.cases)
    case (one u p')
    then show ?thesis using step_draining(11) [OF one(2)]
      by (intro drain_one [OF g, of _ u p']) auto
  next
    case none
    then show ?thesis using g by simp
  qed
qed

lemma mstep_drain:
  assumes "mstep n s s'" and "reach n s" and "inv_drain s"
  shows "inv_drain s'"
  using assms(1)
proof (cases rule: mstep.cases)
  case (local t p s1)
  then show ?thesis using drain_local [OF local(3) _ assms(2,3)] by blast
next
  case (signal t c p f)
  then show ?thesis using drain_not_empty [OF _ _ assms(2,3)] drain_not_full [OF _ _ assms(3)] by (cases c) simp_all
next
  case (sleep t p)
  have "m_pc s t \<noteq> Rem_sleep" if "\<exists>u. has_closed (m_pc s u)"
    using assms(3) that by (auto simp: inv_drain_def)
  then show ?thesis using sleep step_draining(6,7) by (intro drain_one [OF assms(3), of _ t p]) auto
qed (use step_draining in \<open>auto intro!: drain_one [OF assms(3)]\<close>)

lemma reach_drain: "reach n s \<Longrightarrow> inv_drain s"
proof (induction rule: reach.induct)
  case (step s s')
  then show ?case by (blast intro: mstep_drain)
qed (simp add: inv_drain_def m_init_def)

text \<open>
  On the first queue the exit order reaches everyone.  Once \<^verbatim>\<open>WSSClient\<close> has run its
  closing code, which tests and signals under the lock, no consumer stays behind: when every
  thread is free, finished or asleep, none sleeps waiting for items, since each consumer
  that leaves signals the next.
\<close>

lemma close_reaches_consumers:
  assumes "reach n s" and "m_pc s t = Closed" and "\<forall>t < n. quiet (m_pc s t)"
  shows "m_pc s u \<noteq> Rem_wait"
proof
  assume w: "m_pc s u = Rem_wait"
  have "has_closed (m_pc s t)" using assms(2) by simp
  then obtain v where v: "active (m_pc s v)"
    using reach_drain [OF assms(1)] w unfolding inv_drain_def by blast
  have "\<not> quiet p" if "active p" for p using that by (cases p) auto
  moreover have "quiet (m_pc s v)"
    using reach_threads [OF assms(1)] assms(3) by (cases "v < n") (auto simp: inv_threads_def)
  ultimately show False using v by blast
qed

lemma reach_closed: "reach 1 (goto 0 Closed (set_exit m_init))"
proof -
  let ?e = "set_exit m_init"
  let ?s1 = "goto 0 Limit_set m_init" and ?s2 = "goto 0 Idle ?e" and ?s3 = "goto 0 Close_lock ?e"
    and ?s4 = "goto 0 Close_test ?e\<lparr>m_owner := Some 0\<rparr>"
    and ?s5 = "goto 0 Close_unlock ?e\<lparr>m_owner := Some 0\<rparr>" and ?s6 = "goto 0 Closed ?e"
  have "mstep 1 m_init ?s1" by (intro mstep.call) (simp_all add: m_init_def)
  moreover have "mstep 1 ?s1 ?s2"
    using mstep.local [of 0 1 ?s1 Idle "set_exit ?s1"] by (simp add: m_init_def set_exit_def goto_def)
  moreover have "mstep 1 ?s2 ?s3"
    using mstep.call [of 0 1 ?s2 Close_lock] by (simp add: m_init_def)
  moreover have "mstep 1 ?s3 ?s4"
    using mstep.lock [of 0 1 ?s3 Close_test] by (simp add: m_init_def)
  moreover have "mstep 1 ?s4 ?s5"
  proof -
    have "signalled Not_empty ((m_pc ?s4)(0 := Close_unlock)) ((m_pc ?s4)(0 := Close_unlock))"
      by (rule signalled.none) (simp add: m_init_def)
    from mstep.signal [OF _ _ this, of 1] show ?thesis by (simp add: m_init_def goto_def set_exit_def)
  qed
  moreover have "mstep 1 ?s5 ?s6"
    using mstep.unlock [of 0 1 ?s5 Closed] by (simp add: m_init_def set_exit_def goto_def)
  ultimately show ?thesis by (meson reach.intros)
qed

lemma close_reaches_consumers_witness:
  "reach 1 (goto 0 Closed (set_exit m_init)) \<and> m_pc (goto 0 Closed (set_exit m_init)) 5 \<noteq> Rem_wait"
  using close_reaches_consumers [OF reach_closed, of 0 5] reach_closed by simp

section \<open>Progress\<close>

text \<open>Whether thread \<open>t\<close> has a step of its own, neither a new call nor a spurious wake-up.\<close>

definition can_move :: "monitor \<Rightarrow> nat \<Rightarrow> bool" where
  "can_move s t \<longleftrightarrow> (let p = m_pc s t; q = m_queue s in
     (lock_to p \<noteq> None \<and> m_owner s = None) \<or> inside p s \<noteq> None \<or> unlock_to p \<noteq> None \<or>
     sleep_to p q \<noteq> None \<or> signal_to p q \<noteq> None \<or> return_to p \<noteq> None)"

lemma can_move_step:
  assumes "can_move s t" and "t < n"
  shows "\<exists>s'. mstep n s s'"
  using assms mstep.lock [of t n s] mstep.local [of t n s] mstep.unlock [of t n s] mstep.sleep [of t n s]
    mstep.return [of t n s] mstep.signal [of t n s] signalled_possible
  by (fastforce simp: can_move_def Let_def)

lemma locked_or_moving:
  "\<not> quiet p \<Longrightarrow> lock_to p \<noteq> None \<or> inside p s \<noteq> None \<or> unlock_to p \<noteq> None \<or>
     sleep_to p (m_queue s) \<noteq> None \<or> signal_to p (m_queue s) \<noteq> None \<or> return_to p \<noteq> None"
  by (cases p) auto

lemma holds_moving: "holds p \<Longrightarrow> \<not> quiet p \<and> lock_to p = None"
  by (cases p) auto

text \<open>
  C33: No deadlock inside the queue: in a reachable state in which some thread is neither
  free, finished nor asleep, some thread can take a step of its own.
\<close>

theorem queue_progress:
  assumes "reach n s" and "t < n" and "\<not> quiet (m_pc s t)"
  shows "\<exists>u < n. can_move s u \<and> (\<exists>s'. mstep n s s')"
proof (cases "m_owner s")
  case None
  then have "can_move s t" using locked_or_moving [OF assms(3), of s] by (auto simp: can_move_def Let_def)
  then show ?thesis using assms(2) can_move_step by blast
next
  case (Some u)
  then have h: "holds (m_pc s u)" using reach_mutex [OF assms(1)] by (simp add: inv_mutex_def)
  then have "can_move s u"
    using holds_moving [OF h] locked_or_moving [of "m_pc s u" s] by (auto simp: can_move_def Let_def)
  moreover have "u < n"
    using h reach_threads [OF assms(1)] by (cases "u < n") (auto simp: inv_threads_def)
  ultimately show ?thesis using can_move_step by blast
qed

lemma queue_progress_witness: "\<exists>u < 1. can_move before_sleep u"
  using queue_progress [OF reach_before_sleep [of 1], of 0] by (auto simp: before_sleep_def)

end
