(* ===== verification/ThreadSteps.thy ===== *)
theory ThreadSteps
  imports Monitor
begin

text \<open>
  The steps of \<open>Monitor\<close> seen from outside: which step of a thread has an effect on the queue
  and the histories, and which is silent.  A call takes effect at one of its steps: an
  insertion when the thread holds the lock and has found room, a removal when it takes the
  item, the end of a consumer when it sees the exit flag.  \<open>Stages\<close> puts two queues together
  with this.
\<close>

section \<open>The steps of one thread\<close>

inductive thread_step :: "nat \<Rightarrow> monitor \<Rightarrow> monitor \<Rightarrow> bool" for t where
  lock: "lock_to (m_pc m t) = Some p \<Longrightarrow> m_owner m = None \<Longrightarrow>
    thread_step t m (goto t p m\<lparr>m_owner := Some t\<rparr>)"
| local: "inside (m_pc m t) m = Some (p, m') \<Longrightarrow> thread_step t m (goto t p m')"
| unlock: "unlock_to (m_pc m t) = Some p \<Longrightarrow> thread_step t m (goto t p m\<lparr>m_owner := None\<rparr>)"
| sleep: "sleep_to (m_pc m t) (m_queue m) = Some p \<Longrightarrow> thread_step t m (goto t p m\<lparr>m_owner := None\<rparr>)"
| signal: "signal_to (m_pc m t) (m_queue m) = Some (c, p) \<Longrightarrow> signalled c ((m_pc m)(t := p)) f \<Longrightarrow>
    thread_step t m (m\<lparr>m_pc := f\<rparr>)"

lemma thread_step_mstep: "thread_step t m m' \<Longrightarrow> t < n \<Longrightarrow> mstep n m m'"
  by (induction rule: thread_step.induct) (auto intro: mstep.intros)

lemma can_move_thread_step:
  assumes "can_move m t" and "return_to (m_pc m t) = None"
  shows "\<exists>m'. thread_step t m m'"
  using assms thread_step.lock [of m t] thread_step.local [of m t] thread_step.unlock [of m t]
    thread_step.sleep [of m t] thread_step.signal [of m t] signalled_possible
  by (fastforce simp: can_move_def Let_def)

text \<open>Control points that steps of threads do not leave.\<close>

definition kept :: "(pc \<Rightarrow> bool) \<Rightarrow> bool" where
  "kept F \<longleftrightarrow> (\<forall>p p'. F p \<longrightarrow> lock_to p = Some p' \<longrightarrow> F p') \<and>
     (\<forall>p p' m m'. F p \<longrightarrow> wf_queue (m_queue m) \<longrightarrow> inside p m = Some (p', m') \<longrightarrow> F p') \<and>
     (\<forall>p p'. F p \<longrightarrow> unlock_to p = Some p' \<longrightarrow> F p') \<and> (\<forall>p p' q. F p \<longrightarrow> sleep_to p q = Some p' \<longrightarrow> F p') \<and>
     (\<forall>p p' q v. F p \<longrightarrow> signal_to p q = Some (v, p') \<longrightarrow> F p') \<and> (\<forall>p p' v. F p \<longrightarrow> woken v p = Some p' \<longrightarrow> F p')"

lemma keptD:
  assumes "kept F" and "F p"
  shows "lock_to p = Some p' \<Longrightarrow> F p'"
    and "wf_queue (m_queue m) \<Longrightarrow> inside p m = Some (p', m') \<Longrightarrow> F p'"
    and "unlock_to p = Some p' \<Longrightarrow> F p'" and "sleep_to p q = Some p' \<Longrightarrow> F p'"
    and "signal_to p q = Some (v, p') \<Longrightarrow> F p'" and "woken v p = Some p' \<Longrightarrow> F p'"
  using assms unfolding kept_def by blast+

lemma keptI:
  assumes "\<And>p p'. F p \<Longrightarrow> lock_to p = Some p' \<Longrightarrow> F p'"
    and "\<And>p p' m m'. F p \<Longrightarrow> wf_queue (m_queue m) \<Longrightarrow> inside p m = Some (p', m') \<Longrightarrow> F p'"
    and "\<And>p p'. F p \<Longrightarrow> unlock_to p = Some p' \<Longrightarrow> F p'" and "\<And>p p' q. F p \<Longrightarrow> sleep_to p q = Some p' \<Longrightarrow> F p'"
    and "\<And>p p' q v. F p \<Longrightarrow> signal_to p q = Some (v, p') \<Longrightarrow> F p'" and "\<And>p p' v. F p \<Longrightarrow> woken v p = Some p' \<Longrightarrow> F p'"
  shows "kept F"
  unfolding kept_def using assms by blast

lemma kept_step:
  assumes "kept F" and "thread_step t m m'" and "wf_queue (m_queue m)" and "F (m_pc m u)"
  shows "F (m_pc m' u)"
  using assms(2)
proof (cases rule: thread_step.cases)
  case (lock p)
  then show ?thesis using keptD(1) [OF assms(1)] assms(4) by (cases "u = t") auto
next
  case (local p m1)
  then show ?thesis
    using keptD(2) [OF assms(1) _ assms(3) local(2)] assms(4) step_holds(3) [OF local(2)] by (cases "u = t") auto
next
  case (unlock p)
  then show ?thesis using keptD(3) [OF assms(1)] assms(4) by (cases "u = t") auto
next
  case (sleep p)
  then show ?thesis using keptD(4) [OF assms(1)] assms(4) by (cases "u = t") auto
next
  case (signal c p f)
  have "F (((m_pc m)(t := p)) u)" using keptD(5) [OF assms(1) _ signal(2)] assms(4) by (cases "u = t") auto
  then show ?thesis
    using signalled_pointwise [OF signal(3), of u] signal(1) keptD(6) [OF assms(1)] by fastforce
qed

lemma kept_woken: "kept F \<Longrightarrow> woken v (m_pc m t) = Some p \<Longrightarrow> F (m_pc m u) \<Longrightarrow> F (m_pc (goto t p m) u)"
  using keptD(6) [of F "m_pc m t" v p] by (cases "u = t") auto

text \<open>
  How far a thread is with its call: adding an item, having added it (or been refused),
  getting one, having one, leaving because of the exit order, passing the order on.  A thread
  that holds the lock and finds room has added its item.
\<close>

datatype phase = Free | Adding WorkItem | Added | Getting | Has "WorkItem option" | Leaving | Passing | Past

fun pc_phase :: "bool \<Rightarrow> pc \<Rightarrow> phase" where
  "pc_phase full (Add_lock x) = Adding x" | "pc_phase full (Add_check x) = Adding x"
| "pc_phase full (Add_test x) = (if full then Adding x else Added)"
| "pc_phase full (Add_wait x) = Adding x" | "pc_phase full (Add_woken x) = Adding x"
| "pc_phase full Add_refuse = Added" | "pc_phase full Add_unlock = Added"
| "pc_phase full Add_signal = Added" | "pc_phase full (Add_done r) = Added"
| "pc_phase full Rem_lock = Getting" | "pc_phase full Rem_test = Getting"
| "pc_phase full Rem_exit_test = Getting" | "pc_phase full Rem_sleep = Getting"
| "pc_phase full Rem_wait = Getting" | "pc_phase full Rem_woken = Getting"
| "pc_phase full (Rem_unlock y) = Has y" | "pc_phase full (Rem_signal y) = Has y"
| "pc_phase full (Rem_done y) = Has y"
| "pc_phase full Rem_exit_unlock = Leaving" | "pc_phase full Rem_exit_signal = Leaving"
| "pc_phase full Rem_exited = Leaving"
| "pc_phase full Pass_flag = Passing" | "pc_phase full Pass_signal = Past" | "pc_phase full Passed = Past"
| "pc_phase full _ = Free"

definition phase_of :: "monitor \<Rightarrow> nat \<Rightarrow> phase" where
  "phase_of m t = pc_phase (q_full (m_queue m)) (m_pc m t)"

text \<open>The item of a thread that holds the lock, has found room, and will put it next.\<close>

definition pending :: "monitor \<Rightarrow> WorkItem list" where
  "pending m = (case m_owner m of None \<Rightarrow> [] | Some t \<Rightarrow> (case m_pc m t of
     Add_test x \<Rightarrow> if q_full (m_queue m) then [] else [x] | _ \<Rightarrow> []))"

definition settled :: "monitor \<Rightarrow> PCQueue" where
  "settled m = fold queue_put (pending m) (m_queue m)"

definition settled_items :: "monitor \<Rightarrow> WorkItem list" where
  "settled_items m = m_accepted m @ pending m"

text \<open>
  The effect of the next step of a thread.  \<open>Puts_late\<close>: the thread slept on the full queue,
  and when it has the lock again the exit flag is set; \<^verbatim>\<open>queue_add\<close> does not test it again.
\<close>

datatype effect = Silent | Puts WorkItem | Puts_late WorkItem | Refuses WorkItem | Takes | Sees_exit | Sets_exit

fun pc_effect :: "PCQueue \<Rightarrow> pc \<Rightarrow> effect" where
  "pc_effect q (Add_check x) =
     (if q_exit_flag q then Refuses x else if q_full q then Silent else Puts x)"
| "pc_effect q (Add_woken x) =
     (if q_full q then Silent else if q_exit_flag q then Puts_late x else Puts x)"
| "pc_effect q Rem_test = (if q_empty q then Silent else Takes)"
| "pc_effect q Rem_exit_test = (if q_exit_flag q then Sees_exit else Silent)"
| "pc_effect q Int_set = Sets_exit" | "pc_effect q Limit_set = Sets_exit"
| "pc_effect q Pass_flag = Sets_exit"
| "pc_effect q _ = Silent"

definition effect_of :: "monitor \<Rightarrow> nat \<Rightarrow> effect" where
  "effect_of m t = pc_effect (m_queue m) (m_pc m t)"

fun put_items :: "effect \<Rightarrow> WorkItem list" where
  "put_items (Puts x) = [x]" | "put_items (Puts_late x) = [x]" | "put_items _ = []"

fun change_queue :: "effect \<Rightarrow> PCQueue \<Rightarrow> PCQueue" where
  "change_queue (Puts x) q = queue_put x q" | "change_queue (Puts_late x) q = queue_put x q"
| "change_queue Takes q = snd (queue_take q)" | "change_queue Sets_exit q = q\<lparr>q_exit_flag := True\<rparr>"
| "change_queue _ q = q"

fun change_phase :: "effect \<Rightarrow> PCQueue \<Rightarrow> phase \<Rightarrow> phase" where
  "change_phase (Puts x) q ph = Added" | "change_phase (Puts_late x) q ph = Added"
| "change_phase (Refuses x) q ph = Added" | "change_phase Takes q ph = Has (fst (queue_take q))"
| "change_phase Sees_exit q ph = Leaving" | "change_phase Sets_exit q ph = (if ph = Passing then Past else Free)"
| "change_phase Silent q ph = ph"

lemma queue_put_exit: "queue_put x (q\<lparr>q_exit_flag := b\<rparr>) = (queue_put x q)\<lparr>q_exit_flag := b\<rparr>"
  by (simp add: queue_put_def Let_def)

text \<open>While one thread holds the lock, the others can only signal, be woken, or set the flag.\<close>

lemma pending_owner:
  assumes "inv_mutex m" and "m_pc m t = Add_test x"
  shows "pending m = (if q_full (m_queue m) then [] else [x])"
proof -
  have "holds (m_pc m t)" using assms(2) by simp
  then have "m_owner m = Some t" using assms(1) by (simp add: inv_mutex_def)
  then show ?thesis using assms(2) by (simp add: pending_def)
qed

lemma pending_none:
  assumes "inv_mutex m" and "holds (m_pc m t)" and "\<forall>x. m_pc m t \<noteq> Add_test x"
  shows "pending m = []"
proof -
  have "m_owner m = Some t" using assms(1,2) by (simp add: inv_mutex_def)
  then show ?thesis using assms(3) by (simp add: pending_def split: pc.splits)
qed

lemma pending_same:
  assumes "m_owner m' = m_owner m" and "q_full (m_queue m') = q_full (m_queue m)"
    and "\<And>v. m_owner m = Some v \<Longrightarrow> m_pc m' v = m_pc m v"
  shows "pending m' = pending m"
  using assms by (cases "m_owner m") (simp_all add: pending_def split: pc.split)

lemma pending_free: "m_owner m = None \<Longrightarrow> pending m = []"
  by (simp add: pending_def)

text \<open>The other threads: at most one of them is woken, which is no progress with its call.\<close>

lemma woken_phase: "woken c p = Some p' \<Longrightarrow> pc_phase b p' = pc_phase b p"
  by (cases p; cases c) auto

lemma woken_not_holding: "woken c p = Some p' \<Longrightarrow> \<not> holds p \<and> \<not> holds p'"
  by (rule step_holds(7))

lemma full_irrelevant: "\<not> holds p \<Longrightarrow> pc_phase b p = pc_phase b' p"
  by (cases p) auto

lemma effect_lock:
  assumes "lock_to (m_pc m t) = Some p" and "m_owner m = None" and "m' = goto t p m\<lparr>m_owner := Some t\<rparr>"
  shows "settled m' = change_queue (effect_of m t) (settled m)"
    and "settled_items m' = settled_items m @ put_items (effect_of m t)"
    and "phase_of m' u = (if u = t then change_phase (effect_of m t) (settled m) (phase_of m t) else phase_of m u)"
proof -
  have "pending m = []" using assms(2) by (rule pending_free)
  moreover have "pending m' = put_items (effect_of m t)"
    using assms(1) by (cases "m_pc m t") (auto simp: assms(3) pending_def effect_of_def)
  moreover have "change_queue (effect_of m t) (m_queue m) = fold queue_put (put_items (effect_of m t)) (m_queue m)"
    using assms(1) by (cases "m_pc m t") (simp_all add: effect_of_def)
  ultimately show "settled m' = change_queue (effect_of m t) (settled m)"
    "settled_items m' = settled_items m @ put_items (effect_of m t)"
    by (simp_all add: settled_def settled_items_def assms(3))
  show "phase_of m' u = (if u = t then change_phase (effect_of m t) (settled m) (phase_of m t) else phase_of m u)"
    using assms(1) by (cases "m_pc m t") (auto simp: assms(3) phase_of_def effect_of_def)
qed

lemma effect_local_holding:
  assumes "inside (m_pc m t) m = Some (p, m1)" and "holds (m_pc m t)" and "inv_mutex m" and "m' = goto t p m1"
  shows "settled m' = change_queue (effect_of m t) (settled m)"
    and "settled_items m' = settled_items m @ put_items (effect_of m t)"
    and "phase_of m' u = (if u = t then change_phase (effect_of m t) (settled m) (phase_of m t) else phase_of m u)"
proof -
  have o: "m_owner m = Some t" using assms(2,3) by (simp add: inv_mutex_def)
  have "settled m' = change_queue (effect_of m t) (settled m) \<and>
      settled_items m' = settled_items m @ put_items (effect_of m t)"
    using assms(1,2) o by (cases "m_pc m t")
      (auto simp: assms(4) settled_def settled_items_def pending_def effect_of_def split: if_splits)
  then show "settled m' = change_queue (effect_of m t) (settled m)"
    "settled_items m' = settled_items m @ put_items (effect_of m t)" by simp_all
  have other: "\<not> holds (m_pc m u)" if "u \<noteq> t"
    using mutex_unique [OF assms(3,2), of u] that by blast
  show "phase_of m' u = (if u = t then change_phase (effect_of m t) (settled m) (phase_of m t) else phase_of m u)"
  proof (cases "u = t")
    case True
    then show ?thesis
      using assms(1,2) o by (cases "m_pc m t")
        (auto simp: assms(4) settled_def pending_def effect_of_def phase_of_def split: if_splits)
  next
    case False
    then show ?thesis
      using assms(4) step_holds(3) [OF assms(1)] full_irrelevant [OF other [OF False]] by (simp add: phase_of_def)
  qed
qed

lemma effect_local_flag:
  assumes "inside (m_pc m t) m = Some (p, m1)" and "\<not> holds (m_pc m t)" and "inv_mutex m" and "m' = goto t p m1"
  shows "settled m' = change_queue (effect_of m t) (settled m)"
    and "settled_items m' = settled_items m @ put_items (effect_of m t)"
    and "phase_of m' u = (if u = t then change_phase (effect_of m t) (settled m) (phase_of m t) else phase_of m u)"
proof -
  have m1: "m1 = set_exit m" "m_pc m t = Limit_set \<and> p = Idle \<or> m_pc m t = Pass_flag \<and> p = Pass_signal"
    using assms(1,2) by (auto elim!: insideE)
  have "m_owner m \<noteq> Some t" using assms(2,3) by (simp add: inv_mutex_def)
  then have "pending m' = pending m" using m1(1) assms(4) by (intro pending_same) auto
  moreover have "fold queue_put ys (q\<lparr>q_exit_flag := True\<rparr>) = (fold queue_put ys q)\<lparr>q_exit_flag := True\<rparr>" for ys q
    by (induction ys arbitrary: q) (simp_all add: queue_put_exit)
  ultimately show "settled m' = change_queue (effect_of m t) (settled m)"
    "settled_items m' = settled_items m @ put_items (effect_of m t)"
    using m1 assms(4) by (auto simp: settled_def settled_items_def effect_of_def)
  show "phase_of m' u = (if u = t then change_phase (effect_of m t) (settled m) (phase_of m t) else phase_of m u)"
    using m1 assms(4) by (auto simp: phase_of_def effect_of_def)
qed

lemma effect_release:
  assumes "unlock_to (m_pc m t) = Some p \<or> sleep_to (m_pc m t) (m_queue m) = Some p" and "inv_mutex m"
    and "m' = goto t p m\<lparr>m_owner := None\<rparr>"
  shows "settled m' = change_queue (effect_of m t) (settled m)"
    and "settled_items m' = settled_items m @ put_items (effect_of m t)"
    and "phase_of m' u = (if u = t then change_phase (effect_of m t) (settled m) (phase_of m t) else phase_of m u)"
proof -
  have h: "holds (m_pc m t)" using assms(1) step_holds(4,5) by blast
  have "pending m = []"
    using assms(1) pending_owner [OF assms(2)] pending_none [OF assms(2) h]
    by (auto elim!: unlock_toE sleep_toE split: if_splits)
  moreover have "effect_of m t = Silent \<and> pc_phase (q_full (m_queue m)) p = pc_phase (q_full (m_queue m)) (m_pc m t)"
    using assms(1) by (cases "m_pc m t") (auto simp: effect_of_def split: if_splits)
  moreover have "pending m' = []" by (rule pending_free) (simp add: assms(3))
  ultimately show "settled m' = change_queue (effect_of m t) (settled m)"
    "settled_items m' = settled_items m @ put_items (effect_of m t)"
    "phase_of m' u = (if u = t then change_phase (effect_of m t) (settled m) (phase_of m t) else phase_of m u)"
    by (simp_all add: settled_def settled_items_def phase_of_def assms(3))
qed

lemma effect_signal:
  assumes "signal_to (m_pc m t) (m_queue m) = Some (c, p)" and "signalled c ((m_pc m)(t := p)) f"
    and "inv_mutex m" and "m' = m\<lparr>m_pc := f\<rparr>"
  shows "settled m' = change_queue (effect_of m t) (settled m)"
    and "settled_items m' = settled_items m @ put_items (effect_of m t)"
    and "phase_of m' u = (if u = t then change_phase (effect_of m t) (settled m) (phase_of m t) else phase_of m u)"
proof -
  have silent: "effect_of m t = Silent" "pc_phase b p = pc_phase b (m_pc m t)" for b
    using assms(1) by (cases "m_pc m t"; auto simp: effect_of_def split: if_splits)+
  have f: "f v = ((m_pc m)(t := p)) v \<or> woken c (((m_pc m)(t := p)) v) = Some (f v)" for v
    by (rule signalled_pointwise [OF assms(2)])
  have o: "holds (m_pc m v) \<longleftrightarrow> m_owner m = Some v" for v
    using assms(3) by (simp add: inv_mutex_def)
  have "pending m' = pending m"
  proof (cases "m_pc m t = Close_test")
    case True
    then have "p = Close_unlock" "m_owner m = Some t"
      using assms(1) o [of t] by (simp_all split: if_splits)
    then show ?thesis using True f [of t] by (simp add: assms(4) pending_def)
  next
    case False
    then have "\<not> holds (m_pc m t)" using assms(1) by (cases "m_pc m t") auto
    then have "f v = m_pc m v" if "m_owner m = Some v" for v
    proof -
      have "holds (m_pc m v)" "v \<noteq> t" using that o [of v] \<open>\<not> holds (m_pc m t)\<close> by auto
      then show ?thesis using f [of v] woken_not_holding [of c "m_pc m v" "f v"] by auto
    qed
    then show ?thesis by (intro pending_same) (simp_all add: assms(4))
  qed
  then show "settled m' = change_queue (effect_of m t) (settled m)"
    "settled_items m' = settled_items m @ put_items (effect_of m t)"
    using silent by (simp_all add: settled_def settled_items_def assms(4))
  show "phase_of m' u = (if u = t then change_phase (effect_of m t) (settled m) (phase_of m t) else phase_of m u)"
    using f [of u] silent woken_phase [of c _ "f u"] by (auto simp: phase_of_def assms(4) split: if_splits)
qed

text \<open>
  A step of a thread does to the queue, to the accepted items and to the phases of all threads
  what its effect says.
\<close>

lemma thread_step_effect:
  assumes "thread_step t m m'" and "inv_mutex m"
  shows "settled m' = change_queue (effect_of m t) (settled m) \<and>
    settled_items m' = settled_items m @ put_items (effect_of m t) \<and>
    phase_of m' u = (if u = t then change_phase (effect_of m t) (settled m) (phase_of m t) else phase_of m u)"
  using assms(1)
proof (cases rule: thread_step.cases)
  case (lock p)
  then show ?thesis by (intro conjI effect_lock)
next
  case (local p m1)
  then show ?thesis
    using assms(2) by (cases "holds (m_pc m t)") (intro conjI effect_local_holding effect_local_flag; assumption)+
next
  case (unlock p)
  then show ?thesis using assms(2) by (intro conjI effect_release) auto
next
  case (sleep p)
  then show ?thesis using assms(2) by (intro conjI effect_release) auto
next
  case (signal c p f)
  then show ?thesis using assms(2) by (intro conjI effect_signal)
qed

text \<open>Beginning a call, coming back from it, and waking without a signal are silent.\<close>

lemma goto_effect:
  assumes "inv_mutex m" and "\<not> holds (m_pc m t)" and "\<not> holds p"
  shows "settled (goto t p m) = settled m \<and> settled_items (goto t p m) = settled_items m \<and>
    phase_of (goto t p m) u = (if u = t then pc_phase b p else phase_of m u)"
proof -
  have "m_owner m \<noteq> Some t" using assms(1,2) by (simp add: inv_mutex_def)
  then have "pending (goto t p m) = pending m" by (intro pending_same) auto
  then show ?thesis
    using full_irrelevant [OF assms(3)] by (simp add: settled_def settled_items_def phase_of_def)
qed

lemma woken_effect:
  assumes "inv_mutex m" and "woken c (m_pc m t) = Some p"
  shows "settled (goto t p m) = settled m \<and> settled_items (goto t p m) = settled_items m \<and>
    phase_of (goto t p m) u = phase_of m u"
  using goto_effect [OF assms(1), of t p u "q_full (m_queue m)"] woken_not_holding [OF assms(2)] woken_phase [OF assms(2)]
  by (simp add: phase_of_def)

text \<open>The queue of a good state, with its pending item, is a good queue.\<close>

lemma settled_good:
  assumes "inv_fifo m"
  shows "wf_queue (settled m)" and "length (contents (settled m)) \<le> 2000"
    and "q_exit_flag (settled m) = q_exit_flag (m_queue m)"
proof -
  have wf: "wf_queue (m_queue m)" using assms by (simp add: inv_fifo_def)
  have "pending m = [] \<or> (\<exists>x. pending m = [x] \<and> \<not> q_full (m_queue m))"
    by (auto simp: pending_def split: option.split pc.split)
  then show w: "wf_queue (settled m)"
    using wf ring.inv_put [OF wf] by (auto simp: settled_def)
  show "length (contents (settled m)) \<le> 2000" using ring.within [OF w] by (simp add: QUEUE_SIZE_def)
  show "q_exit_flag (settled m) = q_exit_flag (m_queue m)"
    by (auto simp: settled_def pending_def split: option.split pc.split)
qed

text \<open>When a step has an effect, no other item is pending, and the tests of the code hold.\<close>

lemma effect_settled:
  assumes "thread_step t m m'" and "inv_mutex m" and "effect_of m t \<notin> {Silent, Sets_exit}"
  shows "settled m = m_queue m"
proof (cases "\<exists>x. m_pc m t = Add_woken x")
  case True
  then have "m_owner m = None" using assms(1) by (auto elim!: thread_step.cases)
  then show ?thesis by (simp add: settled_def pending_free)
next
  case False
  then have "holds (m_pc m t)" "\<forall>x. m_pc m t \<noteq> Add_test x"
    using assms(3) by (cases "m_pc m t"; simp add: effect_of_def)+
  then show ?thesis using pending_none [OF assms(2)] by (simp add: settled_def)
qed

lemma effect_tests:
  assumes "thread_step t m m'" and "inv_mutex m" and "inv_empty m"
  shows "effect_of m t = Puts x \<Longrightarrow>
      \<not> q_exit_flag (settled m) \<and> \<not> q_full (settled m) \<and> phase_of m t = Adding x"
    and "effect_of m t = Refuses x \<Longrightarrow> q_exit_flag (settled m) \<and> phase_of m t = Adding x"
    and "effect_of m t = Takes \<Longrightarrow> \<not> q_empty (settled m) \<and> phase_of m t = Getting"
    and "effect_of m t = Sees_exit \<Longrightarrow> q_exit_flag (settled m) \<and> q_empty (settled m) \<and> phase_of m t = Getting"
    and "effect_of m t = Sets_exit \<Longrightarrow> m_pc m t \<in> {Int_set, Limit_set, Pass_flag}"
proof -
  show "\<not> q_exit_flag (settled m) \<and> \<not> q_full (settled m) \<and> phase_of m t = Adding x" if "effect_of m t = Puts x"
    using that effect_settled [OF assms(1,2)]
    by (cases "m_pc m t") (simp_all add: effect_of_def phase_of_def split: if_splits)
  show "q_exit_flag (settled m) \<and> phase_of m t = Adding x" if "effect_of m t = Refuses x"
    using that effect_settled [OF assms(1,2)]
    by (cases "m_pc m t") (simp_all add: effect_of_def phase_of_def split: if_splits)
  show "\<not> q_empty (settled m) \<and> phase_of m t = Getting" if "effect_of m t = Takes"
    using that effect_settled [OF assms(1,2)]
    by (cases "m_pc m t") (simp_all add: effect_of_def phase_of_def split: if_splits)
  show "q_exit_flag (settled m) \<and> q_empty (settled m) \<and> phase_of m t = Getting" if "effect_of m t = Sees_exit"
  proof -
    have pc: "m_pc m t = Rem_exit_test" "q_exit_flag (m_queue m)"
      using that by (cases "m_pc m t"; simp add: effect_of_def split: if_splits)+
    then have "saw_empty (m_pc m t)" by simp
    then have "q_empty (m_queue m)" using assms(3) unfolding inv_empty_def by blast
    then show ?thesis using that pc effect_settled [OF assms(1,2)] by (simp add: phase_of_def)
  qed
  show "m_pc m t \<in> {Int_set, Limit_set, Pass_flag}" if "effect_of m t = Sets_exit"
    using that by (cases "m_pc m t") (simp_all add: effect_of_def split: if_splits)
qed

section \<open>States without steps\<close>

text \<open>Unless all threads rest, one of them has a step.\<close>

lemma someone_steps:
  assumes "reach n m" and "t < n" and "\<not> resting (m_pc m t)"
  shows "\<exists>u < n. \<exists>m'. thread_step u m m'"
proof (cases "m_owner m")
  case None
  then have "can_move m t" "return_to (m_pc m t) = None"
    using assms(3) by (cases "m_pc m t"; simp add: can_move_def)+
  then show ?thesis using assms(2) can_move_thread_step by blast
next
  case (Some u)
  then have h: "holds (m_pc m u)" using reach_mutex [OF assms(1)] by (simp add: inv_mutex_def)
  then have "can_move m u" "return_to (m_pc m u) = None" by (cases "m_pc m u"; auto simp: can_move_def)+
  moreover have "u < n"
    using h reach_threads [OF assms(1)] by (cases "u < n") (auto simp: inv_threads_def)
  ultimately show ?thesis using can_move_thread_step by blast
qed

lemma all_resting:
  assumes "reach n m" and "\<And>u m'. u < n \<Longrightarrow> \<not> thread_step u m m'"
  shows "\<forall>t < n. resting (m_pc m t)" and "settled m = m_queue m" and "settled_items m = m_accepted m"
proof -
  show r: "\<forall>t < n. resting (m_pc m t)" using someone_steps [OF assms(1)] assms(2) by blast
  have "m_owner m = None"
  proof (rule ccontr)
    assume "m_owner m \<noteq> None"
    then obtain u where h: "holds (m_pc m u)" using reach_mutex [OF assms(1)] by (auto simp: inv_mutex_def)
    then have "u < n" using reach_threads [OF assms(1)] by (cases "u < n") (auto simp: inv_threads_def)
    then show False using r h by (cases "m_pc m u") auto
  qed
  then show "settled m = m_queue m" "settled_items m = m_accepted m"
    by (simp_all add: settled_def settled_items_def pending_free)
qed

end
