(* ===== verification/Calls.thy ===== *)
theory Calls
  imports ThreadSteps
begin

text \<open>
  The calls that one thread makes while the others do nothing and none sleeps: each as a
  sequence of steps of which one has the effect of the call.  They are used to build runs.
\<close>

section \<open>Silent steps and calls\<close>

definition silent_step :: "nat \<Rightarrow> monitor \<Rightarrow> monitor \<Rightarrow> bool" where
  "silent_step t m m' \<longleftrightarrow> thread_step t m m' \<and> effect_of m t = Silent"

definition call :: "nat \<Rightarrow> monitor \<Rightarrow> effect \<Rightarrow> monitor \<Rightarrow> bool" where
  "call t m e m' \<longleftrightarrow> (\<exists>a b. (silent_step t)\<^sup>*\<^sup>* m a \<and> thread_step t a b \<and> effect_of a t = e \<and> (silent_step t)\<^sup>*\<^sup>* b m')"

text \<open>A step that neither puts an item late nor is refused.\<close>

fun calm :: "effect \<Rightarrow> bool" where
  "calm (Puts_late x) \<longleftrightarrow> False" | "calm (Refuses x) \<longleftrightarrow> False" | "calm _ \<longleftrightarrow> True"

definition calm_step :: "nat \<Rightarrow> monitor \<Rightarrow> monitor \<Rightarrow> bool" where
  "calm_step t m m' \<longleftrightarrow> thread_step t m m' \<and> calm (effect_of m t)"

lemma calm_steps_reach:
  assumes "(calm_step t)\<^sup>*\<^sup>* m m'" and "reach n m" and "t < n"
  shows "reach n m'"
  using assms(1,2)
proof (induction rule: rtranclp_induct)
  case (step y z)
  then show ?case using thread_step_mstep assms(3) by (auto simp: calm_step_def intro: reach.step)
qed

lemma silent_calm: "(silent_step t)\<^sup>*\<^sup>* m m' \<Longrightarrow> (calm_step t)\<^sup>*\<^sup>* m m'"
  by (erule rtranclp_mono [THEN predicate2D, rotated]) (auto simp: silent_step_def calm_step_def)

lemma call_calm:
  assumes "call t m e m'" and "calm e"
  shows "(calm_step t)\<^sup>*\<^sup>* m m'"
proof -
  obtain a b where "(silent_step t)\<^sup>*\<^sup>* m a" "calm_step t a b" "(silent_step t)\<^sup>*\<^sup>* b m'"
    using assms by (auto simp: call_def calm_step_def)
  then have "(calm_step t)\<^sup>*\<^sup>* m a" "calm_step t a b" "(calm_step t)\<^sup>*\<^sup>* b m'" by (simp_all add: silent_calm)
  then show ?thesis by (meson rtranclp.rtrancl_into_rtrancl rtranclp_trans)
qed

lemma call_reach: "call t m e m' \<Longrightarrow> reach n m \<Longrightarrow> t < n \<Longrightarrow> calm e \<Longrightarrow> reach n m'"
  using calm_steps_reach call_calm by blast

lemma callI:
  assumes "(silent_step t)\<^sup>*\<^sup>* m a" and "thread_step t a b" and "effect_of a t = e" and "(silent_step t)\<^sup>*\<^sup>* b m'"
  shows "call t m e m'"
  using assms unfolding call_def by blast

lemmas silent_trans = converse_rtranclp_into_rtranclp [of "silent_step t" for t]

lemma goto_accept [simp]: "accept x (goto t p m) = goto t p (accept x m)"
  "accept x (m\<lparr>m_owner := b\<rparr>) = (accept x m)\<lparr>m_owner := b\<rparr>"
  by (simp_all add: accept_def goto_def)

lemma goto_deliver [simp]: "deliver (goto t p m) = goto t p (deliver m)"
  "deliver (m\<lparr>m_owner := b\<rparr>) = (deliver m)\<lparr>m_owner := b\<rparr>"
  by (simp_all add: deliver_def goto_def)

lemma goto_set_exit [simp]: "set_exit (goto t p m) = goto t p (set_exit m)"
  "set_exit (m\<lparr>m_owner := b\<rparr>) = (set_exit m)\<lparr>m_owner := b\<rparr>"
  by (simp_all add: set_exit_def goto_def)

lemma same_owner [simp]: "m_owner m = b \<Longrightarrow> m\<lparr>m_owner := b\<rparr> = m"
  by (cases m) simp

lemma signal_none:
  assumes "signal_to (m_pc m t) (m_queue m) = Some (c, p)" and "woken c p = None"
    and "\<And>u. u \<noteq> t \<Longrightarrow> woken c (m_pc m u) = None"
  shows "thread_step t m (goto t p m)"
proof -
  have "signalled c ((m_pc m)(t := p)) ((m_pc m)(t := p))"
    using assms(2,3) by (intro signalled.none) auto
  from thread_step.signal [OF assms(1) this] show ?thesis by (simp add: goto_def)
qed

lemma silent_lock:
  "lock_to (m_pc m t) = Some p \<Longrightarrow> m_owner m = None \<Longrightarrow> (\<forall>x. m_pc m t \<noteq> Add_woken x) \<Longrightarrow>
     silent_step t m (goto t p m\<lparr>m_owner := Some t\<rparr>)"
  using thread_step.lock [of m t p] by (cases "m_pc m t") (simp_all add: silent_step_def effect_of_def)

lemma silent_unlock: "unlock_to (m_pc m t) = Some p \<Longrightarrow> silent_step t m (goto t p m\<lparr>m_owner := None\<rparr>)"
  using thread_step.unlock [of m t p] by (cases "m_pc m t") (simp_all add: silent_step_def effect_of_def)

lemma silent_local:
  "inside (m_pc m t) m = Some (p, m') \<Longrightarrow> effect_of m t = Silent \<Longrightarrow> silent_step t m (goto t p m')"
  using thread_step.local [of m t p m'] by (simp add: silent_step_def)

lemma silent_signal:
  assumes "signal_to (m_pc m t) (m_queue m) = Some (c, p)" and "woken c p = None"
    and "\<And>u. u \<noteq> t \<Longrightarrow> woken c (m_pc m u) = None"
  shows "silent_step t m (goto t p m)"
  using signal_none [OF assms] assms(1) by (cases "m_pc m t") (auto simp: silent_step_def effect_of_def split: if_splits)

lemma nobody_waits:
  "(\<And>u. m_pc m u \<noteq> Rem_wait) \<Longrightarrow> woken Not_empty (m_pc m u) = None"
  "(\<And>u x. m_pc m u \<noteq> Add_wait x) \<Longrightarrow> woken Not_full (m_pc m u) = None"
  by (cases "m_pc m u"; auto; fail)+

section \<open>The calls of the program\<close>

text \<open>\<open>queue_add\<close>: the item is accepted, or refused after the exit order.\<close>

lemma call_add:
  assumes "m_pc m t = Add_lock x" and "m_owner m = None" and "\<not> q_exit_flag (m_queue m)"
    and "\<not> q_full (m_queue m)" and "\<And>u. m_pc m u \<noteq> Rem_wait"
  shows "call t m (Puts x) (goto t (Add_done 0) (accept x m))"
proof -
  let ?m1 = "goto t (Add_check x) m\<lparr>m_owner := Some t\<rparr>" and ?m2 = "goto t (Add_test x) m\<lparr>m_owner := Some t\<rparr>"
  let ?m3 = "goto t Add_unlock (accept x m)\<lparr>m_owner := Some t\<rparr>" and ?m4 = "goto t Add_signal (accept x m)"
  have "silent_step t m ?m1" using assms by (intro silent_lock) simp_all
  moreover have "thread_step t ?m1 ?m2" "effect_of ?m1 t = Puts x"
    using assms thread_step.local [of ?m1 t "Add_test x" ?m1] by (simp_all add: effect_of_def)
  moreover have "silent_step t ?m2 ?m3"
    using assms silent_local [of ?m2 t Add_unlock "accept x ?m2"] by (simp add: effect_of_def)
  moreover have "silent_step t ?m3 ?m4" using assms silent_unlock [of ?m3 t Add_signal] by simp
  moreover have "silent_step t ?m4 (goto t (Add_done 0) (accept x m))"
    using silent_signal [of ?m4 t Not_empty "Add_done 0"] nobody_waits(1) [OF assms(5)] by simp
  ultimately show ?thesis by (intro callI [of t m ?m1 ?m2]) (blast intro: silent_trans)+
qed

lemma call_refuse:
  assumes "m_pc m t = Add_lock x" and "m_owner m = None" and "q_exit_flag (m_queue m)"
  shows "call t m (Refuses x) (goto t (Add_done (- 1)) m)"
proof -
  let ?m1 = "goto t (Add_check x) m\<lparr>m_owner := Some t\<rparr>" and ?m2 = "goto t Add_refuse m\<lparr>m_owner := Some t\<rparr>"
  have "silent_step t m ?m1" using assms by (intro silent_lock) simp_all
  moreover have "thread_step t ?m1 ?m2" "effect_of ?m1 t = Refuses x"
    using assms thread_step.local [of ?m1 t Add_refuse ?m1] by (simp_all add: effect_of_def)
  moreover have "silent_step t ?m2 (goto t (Add_done (- 1)) m)"
    using assms silent_unlock [of ?m2 t "Add_done (- 1)"] by simp
  ultimately show ?thesis by (intro callI [of t m ?m1 ?m2]) (blast intro: silent_trans)+
qed

text \<open>\<open>queue_remove\<close>: an item is taken, the exit order is seen, or the thread falls asleep.\<close>

lemma call_take:
  assumes "m_pc m t = Rem_lock" and "m_owner m = None" and "\<not> q_empty (m_queue m)"
    and "\<And>u x. m_pc m u \<noteq> Add_wait x"
  shows "call t m Takes (goto t (Rem_done (fst (queue_take (m_queue m)))) (deliver m))"
proof -
  let ?x = "fst (queue_take (m_queue m))"
  let ?m1 = "goto t Rem_test m\<lparr>m_owner := Some t\<rparr>" and ?m2 = "goto t (Rem_unlock ?x) (deliver m)\<lparr>m_owner := Some t\<rparr>"
  let ?m3 = "goto t (Rem_signal ?x) (deliver m)"
  have "silent_step t m ?m1" using assms by (intro silent_lock) simp_all
  moreover have "thread_step t ?m1 ?m2" "effect_of ?m1 t = Takes"
    using assms thread_step.local [of ?m1 t "Rem_unlock ?x" "deliver ?m1"] by (simp_all add: effect_of_def)
  moreover have "silent_step t ?m2 ?m3" using assms silent_unlock [of ?m2 t "Rem_signal ?x"] by simp
  moreover have "silent_step t ?m3 (goto t (Rem_done ?x) (deliver m))"
    using silent_signal [of ?m3 t Not_full "Rem_done ?x"] nobody_waits(2) [OF assms(4)] by simp
  ultimately show ?thesis by (intro callI [of t m ?m1 ?m2]) (blast intro: silent_trans)+
qed

lemma call_exit:
  assumes "m_pc m t = Rem_lock" and "m_owner m = None" and "q_empty (m_queue m)" and "q_exit_flag (m_queue m)"
    and "\<And>u. m_pc m u \<noteq> Rem_wait"
  shows "call t m Sees_exit (goto t Rem_exited m)"
proof -
  let ?m1 = "goto t Rem_test m\<lparr>m_owner := Some t\<rparr>" and ?m2 = "goto t Rem_exit_test m\<lparr>m_owner := Some t\<rparr>"
  let ?m3 = "goto t Rem_exit_unlock m\<lparr>m_owner := Some t\<rparr>" and ?m4 = "goto t Rem_exit_signal m"
  have "silent_step t m ?m1" using assms by (intro silent_lock) simp_all
  moreover have "silent_step t ?m1 ?m2"
    using assms silent_local [of ?m1 t Rem_exit_test ?m1] by (simp add: effect_of_def)
  moreover have "thread_step t ?m2 ?m3" "effect_of ?m2 t = Sees_exit"
    using assms thread_step.local [of ?m2 t Rem_exit_unlock ?m2] by (simp_all add: effect_of_def)
  moreover have "silent_step t ?m3 ?m4" using assms silent_unlock [of ?m3 t Rem_exit_signal] by simp
  moreover have "silent_step t ?m4 (goto t Rem_exited m)"
    using silent_signal [of ?m4 t Not_empty Rem_exited] nobody_waits(1) [OF assms(5)] by simp
  ultimately show ?thesis by (intro callI [of t m ?m2 ?m3]) (blast intro: silent_trans)+
qed

lemma sleeps:
  assumes "m_pc m t = Rem_lock" and "m_owner m = None" and "q_empty (m_queue m)" and "\<not> q_exit_flag (m_queue m)"
  shows "(silent_step t)\<^sup>*\<^sup>* m (goto t Rem_wait m)"
proof -
  let ?m1 = "goto t Rem_test m\<lparr>m_owner := Some t\<rparr>" and ?m2 = "goto t Rem_exit_test m\<lparr>m_owner := Some t\<rparr>"
    and ?m3 = "goto t Rem_sleep m\<lparr>m_owner := Some t\<rparr>"
  have "silent_step t m ?m1" using assms by (intro silent_lock) simp_all
  moreover have "silent_step t ?m1 ?m2"
    using assms silent_local [of ?m1 t Rem_exit_test ?m1] by (simp add: effect_of_def)
  moreover have "silent_step t ?m2 ?m3"
    using assms silent_local [of ?m2 t Rem_sleep ?m2] by (simp add: effect_of_def)
  moreover have "silent_step t ?m3 (goto t Rem_wait m)"
    using assms thread_step.sleep [of ?m3 t Rem_wait] by (simp add: silent_step_def effect_of_def)
  ultimately show ?thesis by (blast intro: silent_trans)
qed

text \<open>The exit orders, the end of the connecting thread, and the hand-over of a writer.\<close>

lemma call_interrupt:
  assumes "m_pc m t = Int_lock" and "m_owner m = None"
  shows "call t m Sets_exit (goto t Idle (set_exit m))"
proof -
  let ?m1 = "goto t Int_set m\<lparr>m_owner := Some t\<rparr>" and ?m2 = "goto t Int_unlock (set_exit m)\<lparr>m_owner := Some t\<rparr>"
  have "silent_step t m ?m1" using assms by (intro silent_lock) simp_all
  moreover have "thread_step t ?m1 ?m2" "effect_of ?m1 t = Sets_exit"
    using assms thread_step.local [of ?m1 t Int_unlock "set_exit ?m1"] by (simp_all add: effect_of_def)
  moreover have "silent_step t ?m2 (goto t Idle (set_exit m))" using assms silent_unlock [of ?m2 t Idle] by simp
  ultimately show ?thesis by (intro callI [of t m ?m1 ?m2]) (blast intro: silent_trans)+
qed

lemma call_limit: "m_pc m t = Limit_set \<Longrightarrow> call t m Sets_exit (goto t Idle (set_exit m))"
  using thread_step.local [of m t Idle "set_exit m"]
  by (intro callI [OF rtranclp.rtrancl_refl _ _ rtranclp.rtrancl_refl]) (simp_all add: effect_of_def)

lemma call_pass:
  assumes "m_pc m t = Pass_flag" and "\<And>u. m_pc m u \<noteq> Rem_wait"
  shows "call t m Sets_exit (goto t Passed (set_exit m))"
proof -
  let ?m1 = "goto t Pass_signal (set_exit m)"
  have "thread_step t m ?m1" "effect_of m t = Sets_exit"
    using assms thread_step.local [of m t Pass_signal "set_exit m"] by (simp_all add: effect_of_def)
  moreover have "silent_step t ?m1 (goto t Passed (set_exit m))"
    using silent_signal [of ?m1 t Not_empty Passed] nobody_waits(1) [OF assms(2)] by simp
  ultimately show ?thesis by (intro callI [of t m m ?m1]) (blast intro: silent_trans)+
qed

lemma closing:
  assumes "m_pc m t = Close_lock" and "m_owner m = None" and "\<And>u. m_pc m u \<noteq> Rem_wait"
  shows "(silent_step t)\<^sup>*\<^sup>* m (goto t Closed m)"
proof -
  let ?m1 = "goto t Close_test m\<lparr>m_owner := Some t\<rparr>" and ?m2 = "goto t Close_unlock m\<lparr>m_owner := Some t\<rparr>"
  have "silent_step t m ?m1" using assms by (intro silent_lock) simp_all
  moreover have "silent_step t ?m1 ?m2"
  proof (cases "q_empty (m_queue m)")
    case True
    then have "silent_step t ?m1 (goto t Close_unlock ?m1)"
      using silent_signal [of ?m1 t Not_empty Close_unlock] nobody_waits(1) [OF assms(3)] by simp
    then show ?thesis by simp
  next
    case False
    then show ?thesis using silent_local [of ?m1 t Close_unlock ?m1] by (simp add: effect_of_def)
  qed
  moreover have "silent_step t ?m2 (goto t Closed m)" using assms silent_unlock [of ?m2 t Closed] by simp
  ultimately show ?thesis by (blast intro: silent_trans)
qed

end
