(* ===== verification/Refinement.thy ===== *)
theory Refinement
  imports Main
begin

text \<open>
  Refinement mappings between step relations: the contract that a detailed model and an
  abstract one share when each detailed step is, seen through a mapping of the states, a step
  of the abstract model, or none at all, or several.  Facts about the reachable states of the abstract
  model then hold of the images of the reachable states of the detailed one.
\<close>

lemma step_or_same: "a' = a \<or> r a a' \<Longrightarrow> r\<^sup>*\<^sup>* a a'"
  by blast

locale refinement_map =
  fixes creach :: "'c \<Rightarrow> bool" and cinit :: 'c and cstep :: "'c \<Rightarrow> 'c \<Rightarrow> bool"
    and areach :: "'a \<Rightarrow> bool" and astep :: "'a \<Rightarrow> 'a \<Rightarrow> bool" and abs :: "'c \<Rightarrow> 'a"
  assumes creach_induct: "creach s \<Longrightarrow> P cinit \<Longrightarrow>
      (\<And>s s'. creach s \<Longrightarrow> P s \<Longrightarrow> cstep s s' \<Longrightarrow> P s') \<Longrightarrow> P s"
    and start_mapped: "areach (abs cinit)"
    and areach_step: "areach a \<Longrightarrow> astep a a' \<Longrightarrow> areach a'"
    and step_mapped: "creach s \<Longrightarrow> areach (abs s) \<Longrightarrow> cstep s s' \<Longrightarrow>
      astep\<^sup>*\<^sup>* (abs s) (abs s')"
begin

lemma areach_steps: "astep\<^sup>*\<^sup>* a a' \<Longrightarrow> areach a \<Longrightarrow> areach a'"
  by (induction rule: rtranclp_induct) (auto intro: areach_step)

lemma mapped:
  assumes "creach s"
  shows "areach (abs s)"
  by (rule creach_induct [where P = "\<lambda>s. areach (abs s)", OF assms start_mapped])
    (metis step_mapped areach_steps)

lemma transfer: "creach s \<Longrightarrow> (\<And>a. areach a \<Longrightarrow> P a) \<Longrightarrow> P (abs s)"
  using mapped by blast

end

text \<open>
  The other direction: from some of the detailed states, those that are \<open>calm\<close>, each abstract step
  can be taken in detail and leads to such a state again.  Then both models have the same states.
\<close>

locale covering_map = refinement_map creach cinit cstep areach astep abs
  for creach :: "'c \<Rightarrow> bool" and cinit :: 'c and cstep :: "'c \<Rightarrow> 'c \<Rightarrow> bool"
    and areach :: "'a \<Rightarrow> bool" and astep :: "'a \<Rightarrow> 'a \<Rightarrow> bool" and abs :: "'c \<Rightarrow> 'a" +
  fixes calm :: "'c \<Rightarrow> bool"
  assumes areach_induct: "areach a \<Longrightarrow> P (abs cinit) \<Longrightarrow>
      (\<And>a a'. areach a \<Longrightarrow> P a \<Longrightarrow> astep a a' \<Longrightarrow> P a') \<Longrightarrow> P a"
    and calm_start: "creach cinit \<and> calm cinit"
    and step_covered: "creach s \<Longrightarrow> calm s \<Longrightarrow> astep (abs s) a \<Longrightarrow> \<exists>s'. creach s' \<and> calm s' \<and> abs s' = a"
begin

lemma covered:
  assumes "areach a"
  shows "\<exists>s. creach s \<and> calm s \<and> abs s = a"
  by (rule areach_induct [where P = "\<lambda>a. \<exists>s. creach s \<and> calm s \<and> abs s = a", OF assms])
    (use calm_start step_covered in blast)+

lemma same_states: "areach a \<longleftrightarrow> (\<exists>s. creach s \<and> abs s = a)"
  using covered mapped by blast

end

end
