(* ===== verification/Stages.thy ===== *)
theory Stages
  imports ThreadRoutines Calls Refinement
begin

text \<open>
  \<^verbatim>\<open>src/ThreadRoutines.c\<close> over \<^verbatim>\<open>src/PCQueue.c\<close>, with the calls on both queues cut at every
  lock, test, wait, unlock and signal: the model of \<open>ThreadRoutines\<close> without the assumption
  that a call is one step.  Thread \<open>i < w\<close> is a writer, on both queues; on the first queue the
  threads from \<open>w\<close> on are producers and those that order the exit, on the second queue thread
  \<open>w\<close> is the calculator.  Each step is one of \<open>Monitor\<close> on one queue, or one between the calls.
\<close>

section \<open>Two queues and their threads\<close>

text \<open>
  \<open>st_writers\<close> and \<open>st_calculator\<close> say where a thread is in its own loop; \<open>W_get\<close>, \<open>W_add\<close>
  and \<open>C_get\<close> stand for the call, and the control point inside it is that of the monitor.
  \<open>st_late\<close> records that an item was put after the exit order by a call that had slept.
\<close>

record stages =
  st_api :: monitor
  st_calcq :: monitor
  st_writers :: "writer_pc list"
  st_calculator :: calculator_pc
  st_trade_files :: "FILE list"
  st_writer_delays :: "FILE list"
  st_calc :: calc_files
  st_logged :: "WorkItem list"
  st_handled :: "(WorkItem \<times> (nat \<Rightarrow> timeval)) list"
  st_dropped :: "WorkItem list"
  st_late :: bool

definition stages_start :: "nat \<Rightarrow> nat \<Rightarrow> calc_files \<Rightarrow> stages" where
  "stages_start n w c = \<lparr>st_api = m_init, st_calcq = m_init, st_writers = replicate w W_get,
     st_calculator = C_start, st_trade_files = replicate n [], st_writer_delays = replicate w [],
     st_calc = c, st_logged = [], st_handled = [], st_dropped = [], st_late = False\<rparr>"

abbreviation writer_count :: "stages \<Rightarrow> nat" where
  "writer_count s \<equiv> length (st_writers s)"

fun is_late :: "effect \<Rightarrow> bool" where
  "is_late (Puts_late x) \<longleftrightarrow> True" | "is_late _ \<longleftrightarrow> False"

fun refused_items :: "effect \<Rightarrow> WorkItem list" where
  "refused_items (Refuses x) = [x]" | "refused_items _ = []"

text \<open>The state as the pipeline of \<open>ThreadRoutines\<close>, where a call is done once it has taken effect.\<close>

fun writer_view :: "phase \<Rightarrow> writer_pc \<Rightarrow> phase \<Rightarrow> writer_pc" where
  "writer_view a W_get k =
     (case a of Has (Some x) \<Rightarrow> W_got x | _ \<Rightarrow> if k = Past then W_done else W_get)"
| "writer_view a (W_got x) k = W_got x"
| "writer_view a (W_add x) k = (if k = Added then W_get else W_add x)"
| "writer_view a W_done k = W_done"

fun calculator_view :: "calculator_pc \<Rightarrow> phase \<Rightarrow> calculator_pc" where
  "calculator_view C_get k = (case k of Has (Some x) \<Rightarrow> C_got x | Leaving \<Rightarrow> C_done | _ \<Rightarrow> C_get)"
| "calculator_view l k = l"

definition writer_views :: "(nat \<Rightarrow> phase) \<Rightarrow> writer_pc list \<Rightarrow> (nat \<Rightarrow> phase) \<Rightarrow> writer_pc list" where
  "writer_views a ws k = map (\<lambda>i. writer_view (a i) (ws ! i) (k i)) [0..<length ws]"

definition pipe :: "stages \<Rightarrow> pipeline" where
  "pipe s = \<lparr>p_api = settled (st_api s), p_calcq = settled (st_calcq s),
     p_writers = writer_views (phase_of (st_api s)) (st_writers s) (phase_of (st_calcq s)),
     p_calculator = calculator_view (st_calculator s) (phase_of (st_calcq s) (writer_count s)),
     p_trade_files = st_trade_files s, p_writer_delays = st_writer_delays s, p_calc = st_calc s,
     p_arrived = settled_items (st_api s), p_logged = st_logged s, p_handled = st_handled s,
     p_dropped = st_dropped s\<rparr>"

text \<open>
  The steps of the program.  What writer \<open>i\<close> and the calculator do between their calls: logging
  and the treatment of an item are those of the pipeline; after the call on the second queue a
  writer goes back to the first one.  The other steps are those inside the calls.
\<close>

inductive writer_own :: "nat \<Rightarrow> nat \<Rightarrow> stages \<Rightarrow> stages \<Rightarrow> bool" for n i where
  writer_call: "st_writers s ! i = W_get \<Longrightarrow> m_pc (st_api s) i = Idle \<Longrightarrow>
    writer_own n i s (s\<lparr>st_api := goto i Rem_lock (st_api s)\<rparr>)"
| writer_item: "st_writers s ! i = W_get \<Longrightarrow> m_pc (st_api s) i = Rem_done (Some x) \<Longrightarrow>
    writer_own n i s (s\<lparr>st_writers := (st_writers s)[i := W_got x]\<rparr>)"
| log_item: "st_writers s ! i = W_got x \<Longrightarrow> Writer_log i x now (pipe s) = Some p \<Longrightarrow>
    writer_own n i s (s\<lparr>st_trade_files := p_trade_files p, st_writer_delays := p_writer_delays p,
      st_logged := p_logged p, st_writers := (st_writers s)[i := W_add x]\<rparr>)"
| writer_call_add: "st_writers s ! i = W_add x \<Longrightarrow> m_pc (st_calcq s) i = Idle \<Longrightarrow>
    writer_own n i s (s\<lparr>st_calcq := goto i (Add_lock x) (st_calcq s)\<rparr>)"
| writer_added: "st_writers s ! i = W_add x \<Longrightarrow> m_pc (st_calcq s) i = Add_done r \<Longrightarrow> m_pc (st_api s) i = Rem_done y \<Longrightarrow>
    writer_own n i s (s\<lparr>st_calcq := goto i Idle (st_calcq s), st_api := goto i Rem_lock (st_api s),
      st_writers := (st_writers s)[i := W_get]\<rparr>)"
| writer_pass: "st_writers s ! i = W_get \<Longrightarrow> m_pc (st_api s) i = Rem_exited \<Longrightarrow> m_pc (st_calcq s) i = Idle \<Longrightarrow>
    writer_own n i s (s\<lparr>st_calcq := goto i Pass_flag (st_calcq s)\<rparr>)"
| writer_end: "st_writers s ! i = W_get \<Longrightarrow> m_pc (st_calcq s) i = Passed \<Longrightarrow>
    writer_own n i s (s\<lparr>st_writers := (st_writers s)[i := W_done]\<rparr>)"

inductive calculator_own :: "nat \<Rightarrow> stages \<Rightarrow> stages \<Rightarrow> bool" for n where
  calculator_init: "st_calculator s = C_start \<Longrightarrow> m_pc (st_calcq s) (writer_count s) = Idle \<Longrightarrow>
    calculator_own n s (s\<lparr>st_calculator := C_get, st_calc := Calculator_start n (st_calc s),
      st_calcq := goto (writer_count s) Rem_lock (st_calcq s)\<rparr>)"
| calculator_got: "st_calculator s = C_get \<Longrightarrow> m_pc (st_calcq s) (writer_count s) = Rem_done (Some x) \<Longrightarrow>
    calculator_own n s (s\<lparr>st_calculator := C_got x\<rparr>)"
| calculator_does: "st_calculator s = C_got x \<Longrightarrow> m_pc (st_calcq s) (writer_count s) = Rem_done y \<Longrightarrow>
    Calculator_item n (x, clock) (st_calc s) = Some c \<Longrightarrow>
    calculator_own n s (s\<lparr>st_calculator := C_get, st_calc := c, st_handled := st_handled s @ [(x, clock)],
      st_calcq := goto (writer_count s) Rem_lock (st_calcq s)\<rparr>)"
| calculator_end: "st_calculator s = C_get \<Longrightarrow> m_pc (st_calcq s) (writer_count s) = Rem_exited \<Longrightarrow>
    calculator_own n s (s\<lparr>st_calculator := C_done\<rparr>)"

inductive own_step :: "nat \<Rightarrow> nat \<Rightarrow> stages \<Rightarrow> stages \<Rightarrow> bool" for n k where
  api_step: "t < writer_count s + k \<Longrightarrow> thread_step t (st_api s) m \<Longrightarrow>
    own_step n k s (s\<lparr>st_api := m, st_late := st_late s \<or> is_late (effect_of (st_api s) t)\<rparr>)"
| calc_step: "t < writer_count s + 1 \<Longrightarrow> thread_step t (st_calcq s) m \<Longrightarrow>
    own_step n k s (s\<lparr>st_calcq := m, st_late := st_late s \<or> is_late (effect_of (st_calcq s) t),
      st_dropped := st_dropped s @ refused_items (effect_of (st_calcq s) t)\<rparr>)"
| producer_return: "writer_count s \<le> t \<Longrightarrow> t < writer_count s + k \<Longrightarrow> m_pc (st_api s) t = Add_done r \<Longrightarrow>
    own_step n k s (s\<lparr>st_api := goto t Idle (st_api s)\<rparr>)"
| writer: "i < writer_count s \<Longrightarrow> writer_own n i s s' \<Longrightarrow> own_step n k s s'"
| calculator: "calculator_own n s s' \<Longrightarrow> own_step n k s s'"

text \<open>New calls of the producers, and wake-ups without a signal.\<close>

inductive outer_step :: "nat \<Rightarrow> stages \<Rightarrow> stages \<Rightarrow> bool" for k where
  producer_call: "writer_count s \<le> t \<Longrightarrow> t < writer_count s + k \<Longrightarrow> m_pc (st_api s) t = Idle \<Longrightarrow>
    entry (m_queue (st_api s)) p \<Longrightarrow> p \<noteq> Rem_lock \<Longrightarrow> p \<noteq> Pass_flag \<Longrightarrow>
    outer_step k s (s\<lparr>st_api := goto t p (st_api s)\<rparr>)"
| spurious_api: "t < writer_count s + k \<Longrightarrow> woken v (m_pc (st_api s) t) = Some p \<Longrightarrow>
    outer_step k s (s\<lparr>st_api := goto t p (st_api s)\<rparr>)"
| spurious_calc: "t < writer_count s + 1 \<Longrightarrow> woken v (m_pc (st_calcq s) t) = Some p \<Longrightarrow>
    outer_step k s (s\<lparr>st_calcq := goto t p (st_calcq s)\<rparr>)"

definition stage_step :: "nat \<Rightarrow> nat \<Rightarrow> stages \<Rightarrow> stages \<Rightarrow> bool" where
  "stage_step n k s s' \<longleftrightarrow> own_step n k s s' \<or> outer_step k s s'"

inductive sreach :: "nat \<Rightarrow> nat \<Rightarrow> nat \<Rightarrow> calc_files \<Rightarrow> stages \<Rightarrow> bool" for n k w c where
  start: "sreach n k w c (stages_start n w c)"
| step: "sreach n k w c s \<Longrightarrow> stage_step n k s s' \<Longrightarrow> sreach n k w c s'"

section \<open>Each queue is a monitor\<close>

fun consumes :: "pc \<Rightarrow> bool" where
  "consumes Rem_lock \<longleftrightarrow> True" | "consumes Rem_test \<longleftrightarrow> True" | "consumes Rem_exit_test \<longleftrightarrow> True"
| "consumes Rem_sleep \<longleftrightarrow> True" | "consumes Rem_wait \<longleftrightarrow> True" | "consumes Rem_woken \<longleftrightarrow> True"
| "consumes Rem_exit_unlock \<longleftrightarrow> True" | "consumes Rem_exit_signal \<longleftrightarrow> True" | "consumes Rem_exited \<longleftrightarrow> True"
| "consumes (Rem_unlock y) \<longleftrightarrow> y \<noteq> None" | "consumes (Rem_signal y) \<longleftrightarrow> y \<noteq> None"
| "consumes (Rem_done y) \<longleftrightarrow> y \<noteq> None" | "consumes _ \<longleftrightarrow> False"

fun adds :: "WorkItem \<Rightarrow> pc \<Rightarrow> bool" where
  "adds x (Add_lock y) \<longleftrightarrow> y = x" | "adds x (Add_check y) \<longleftrightarrow> y = x" | "adds x (Add_test y) \<longleftrightarrow> y = x"
| "adds x (Add_wait y) \<longleftrightarrow> y = x" | "adds x (Add_woken y) \<longleftrightarrow> y = x" | "adds x Add_refuse \<longleftrightarrow> True"
| "adds x Add_unlock \<longleftrightarrow> True" | "adds x Add_signal \<longleftrightarrow> True" | "adds x (Add_done r) \<longleftrightarrow> True"
| "adds x _ \<longleftrightarrow> False"

fun passes :: "pc \<Rightarrow> bool" where
  "passes Pass_flag \<longleftrightarrow> True" | "passes Pass_signal \<longleftrightarrow> True" | "passes Passed \<longleftrightarrow> True" | "passes _ \<longleftrightarrow> False"

fun produces :: "pc \<Rightarrow> bool" where
  "produces Idle \<longleftrightarrow> True" | "produces (Add_lock x) \<longleftrightarrow> True" | "produces (Add_check x) \<longleftrightarrow> True"
| "produces Add_refuse \<longleftrightarrow> True" | "produces (Add_test x) \<longleftrightarrow> True" | "produces (Add_wait x) \<longleftrightarrow> True"
| "produces (Add_woken x) \<longleftrightarrow> True" | "produces Add_unlock \<longleftrightarrow> True" | "produces Add_signal \<longleftrightarrow> True"
| "produces (Add_done r) \<longleftrightarrow> True" | "produces Int_lock \<longleftrightarrow> True" | "produces Int_set \<longleftrightarrow> True"
| "produces Int_unlock \<longleftrightarrow> True" | "produces Limit_set \<longleftrightarrow> True" | "produces Close_lock \<longleftrightarrow> True"
| "produces Close_test \<longleftrightarrow> True" | "produces Close_unlock \<longleftrightarrow> True" | "produces Closed \<longleftrightarrow> True"
| "produces _ \<longleftrightarrow> False"

lemma woken_cases: "woken v p = Some p' \<Longrightarrow> (\<exists>x. p = Add_wait x \<and> p' = Add_woken x) \<or> p = Rem_wait \<and> p' = Rem_woken"
  by (auto elim!: wokenE)

lemma kept_consumes: "kept consumes"
proof (rule keptI)
  fix p p' m m'
  assume "consumes p" "wf_queue (m_queue m)" "inside p m = Some (p', m')"
  then show "consumes p'" using ring.fst_get [of "m_queue m"] by (cases p) (auto split: if_splits)
next
  fix p p' v
  show "consumes p \<Longrightarrow> woken v p = Some p' \<Longrightarrow> consumes p'" by (auto dest!: woken_cases)
next
  fix p p' q v
  show "consumes p \<Longrightarrow> lock_to p = Some p' \<Longrightarrow> consumes p'" by (cases p) auto
  show "consumes p \<Longrightarrow> unlock_to p = Some p' \<Longrightarrow> consumes p'" by (cases p) auto
  show "consumes p \<Longrightarrow> sleep_to p q = Some p' \<Longrightarrow> consumes p'" by (cases p) (auto split: if_splits)
  show "consumes p \<Longrightarrow> signal_to p q = Some (v, p') \<Longrightarrow> consumes p'" by (cases p) (auto split: if_splits)
qed

text \<open>The other families do not depend on the queue.\<close>

lemma kept_adds: "kept (adds x)"
  by (rule keptI; (auto dest!: woken_cases; fail | (case_tac p; auto split: if_splits)))

lemma kept_passes: "kept passes"
  by (rule keptI; (auto dest!: woken_cases; fail | (case_tac p; auto split: if_splits)))

lemma kept_produces: "kept produces"
  by (rule keptI; (auto dest!: woken_cases; fail | (case_tac p; auto split: if_splits)))

text \<open>A step of the whole is, on each queue, a step of the monitor or none.\<close>

lemma own_step_monitors:
  assumes "own_step n k s s'"
  shows "st_api s' = st_api s \<or> mstep (writer_count s + k) (st_api s) (st_api s')"
    and "st_calcq s' = st_calcq s \<or> mstep (writer_count s + 1) (st_calcq s) (st_calcq s')"
  using assms
  by (cases rule: own_step.cases;
      auto intro: thread_step_mstep mstep.call mstep.return elim!: writer_own.cases calculator_own.cases)+

lemma outer_step_monitors:
  assumes "outer_step k s s'"
  shows "st_api s' = st_api s \<or> mstep (writer_count s + k) (st_api s) (st_api s')"
    and "st_calcq s' = st_calcq s \<or> mstep (writer_count s + 1) (st_calcq s) (st_calcq s')"
  using assms
  by (cases rule: outer_step.cases; auto intro: mstep.call mstep.spurious)+

lemma stage_step_monitors:
  assumes "stage_step n k s s'"
  shows "st_api s' = st_api s \<or> mstep (writer_count s + k) (st_api s) (st_api s')"
    and "st_calcq s' = st_calcq s \<or> mstep (writer_count s + 1) (st_calcq s) (st_calcq s')"
  using assms own_step_monitors [of n k s s'] outer_step_monitors [of k s s'] unfolding stage_step_def by blast+

lemma stage_step_writers: "stage_step n k s s' \<Longrightarrow> writer_count s' = writer_count s"
  by (auto simp: stage_step_def elim!: own_step.cases writer_own.cases calculator_own.cases outer_step.cases)

lemma sreach_writers: "sreach n k w c s \<Longrightarrow> writer_count s = w"
  by (induction rule: sreach.induct) (simp_all add: stages_start_def stage_step_writers)

interpretation api: refinement_map "sreach n k w c" "stages_start n w c" "stage_step n k"
    "reach (w + k)" "mstep (w + k)" st_api for n k w c
proof
  show "reach (w + k) (st_api (stages_start n w c))" by (simp add: stages_start_def reach.init)
  show "reach (w + k) a \<Longrightarrow> mstep (w + k) a a' \<Longrightarrow> reach (w + k) a'" for a a' by (rule reach.step)
  show "sreach n k w c s \<Longrightarrow> stage_step n k s s' \<Longrightarrow>
      (mstep (w + k))\<^sup>*\<^sup>* (st_api s) (st_api s')" for s s'
    using stage_step_monitors(1) [of n k s s'] sreach_writers [of n k w c s] by (intro step_or_same) simp
qed (rule sreach.induct)

interpretation calcq: refinement_map "sreach n k w c" "stages_start n w c" "stage_step n k"
    "reach (w + 1)" "mstep (w + 1)" st_calcq for n k w c
proof
  show "reach (w + 1) (st_calcq (stages_start n w c))" by (simp add: stages_start_def reach.init)
  show "reach (w + 1) a \<Longrightarrow> mstep (w + 1) a a' \<Longrightarrow> reach (w + 1) a'" for a a' by (rule reach.step)
  show "sreach n k w c s \<Longrightarrow> stage_step n k s s' \<Longrightarrow>
      (mstep (w + 1))\<^sup>*\<^sup>* (st_calcq s) (st_calcq s')" for s s'
    using stage_step_monitors(2) [of n k s s'] sreach_writers [of n k w c s] by (intro step_or_same) simp
qed (rule sreach.induct)

text \<open>What holds of both monitors in every reachable state.\<close>

definition good_monitor :: "monitor \<Rightarrow> bool" where
  "good_monitor m \<longleftrightarrow> inv_mutex m \<and> inv_fifo m \<and> inv_empty m"

lemma reach_good: "reach n m \<Longrightarrow> good_monitor m"
  by (simp add: good_monitor_def reach_mutex reach_fifo reach_empty)

lemma sreach_good: "sreach n k w c s \<Longrightarrow> good_monitor (st_api s) \<and> good_monitor (st_calcq s)"
  using api.mapped calcq.mapped reach_good by blast

section \<open>Where the threads are\<close>

fun writer_fits :: "pc \<Rightarrow> writer_pc \<Rightarrow> pc \<Rightarrow> bool" where
  "writer_fits a W_get b \<longleftrightarrow> (a = Idle \<or> consumes a) \<and> (b = Idle \<or> a = Rem_exited \<and> passes b)"
| "writer_fits a (W_got x) b \<longleftrightarrow> a = Rem_done (Some x) \<and> b = Idle"
| "writer_fits a (W_add x) b \<longleftrightarrow> a = Rem_done (Some x) \<and> (b = Idle \<or> adds x b)"
| "writer_fits a W_done b \<longleftrightarrow> a = Rem_exited \<and> b = Passed"

fun calculator_fits :: "calculator_pc \<Rightarrow> pc \<Rightarrow> bool" where
  "calculator_fits C_start b \<longleftrightarrow> b = Idle"
| "calculator_fits C_get b \<longleftrightarrow> consumes b"
| "calculator_fits (C_got x) b \<longleftrightarrow> b = Rem_done (Some x)"
| "calculator_fits C_done b \<longleftrightarrow> b = Rem_exited"

definition inv_places :: "stages \<Rightarrow> bool" where
  "inv_places s \<longleftrightarrow>
     (\<forall>i < writer_count s. writer_fits (m_pc (st_api s) i) (st_writers s ! i) (m_pc (st_calcq s) i)) \<and>
     (\<forall>t \<ge> writer_count s. produces (m_pc (st_api s) t)) \<and>
     calculator_fits (st_calculator s) (m_pc (st_calcq s) (writer_count s))"

lemma kept_conj: "kept F \<Longrightarrow> kept G \<Longrightarrow> kept (\<lambda>p. F p \<and> G p)"
  by (rule keptI) (auto dest: keptD)

lemma kept_disj: "kept F \<Longrightarrow> kept G \<Longrightarrow> kept (\<lambda>p. F p \<or> G p)"
  by (rule keptI) (auto dest: keptD)

lemma kept_const: "kept (\<lambda>p. b)"
  by (rule keptI) auto

lemma kept_points: "kept (\<lambda>p. p = Idle)" "kept (\<lambda>p. p = Rem_done y)" "kept (\<lambda>p. p = Rem_exited)"
  "kept (\<lambda>p. p = Passed)"
  by (rule keptI; auto dest!: woken_cases)+

lemmas kept_rules = kept_consumes kept_adds kept_passes kept_produces kept_conj kept_disj
  kept_const kept_points

lemma kept_eq:
  assumes "kept G" and "\<And>p. F p = G p"
  shows "kept F"
proof -
  have "F = G" using assms(2) by (rule ext)
  then show ?thesis using assms(1) by simp
qed

lemma kept_fits:
  "kept (\<lambda>a. writer_fits a l b)" "kept (\<lambda>b. writer_fits a l b)" "kept (\<lambda>b. calculator_fits v b)"
proof -
  have "kept (\<lambda>a. (a = Idle \<or> consumes a) \<and> (b = Idle \<or> a = Rem_exited \<and> passes b))"
    "kept (\<lambda>a. a = Rem_done (Some x) \<and> b = Idle)" "kept (\<lambda>a. a = Rem_done (Some x) \<and> (b = Idle \<or> adds x b))"
    "kept (\<lambda>a. a = Rem_exited \<and> b = Passed)" for x
    by (intro kept_rules)+
  then show "kept (\<lambda>a. writer_fits a l b)" by (cases l) (auto intro: kept_eq)
  have "kept (\<lambda>b. (a = Idle \<or> consumes a) \<and> (b = Idle \<or> a = Rem_exited \<and> passes b))"
    "kept (\<lambda>b. a = Rem_done (Some x) \<and> b = Idle)" "kept (\<lambda>b. a = Rem_done (Some x) \<and> (b = Idle \<or> adds x b))"
    "kept (\<lambda>b. a = Rem_exited \<and> b = Passed)" for x
    by (intro kept_rules)+
  then show "kept (\<lambda>b. writer_fits a l b)" by (cases l) (auto intro: kept_eq)
  show "kept (\<lambda>b. calculator_fits v b)" by (cases v) (auto intro: kept_eq [OF kept_points(1)] kept_eq [OF kept_points(2)]
    kept_eq [OF kept_points(3)] kept_eq [OF kept_consumes])
qed

lemma good_wf: "good_monitor m \<Longrightarrow> wf_queue (m_queue m)"
  by (simp add: good_monitor_def inv_fifo_def)

lemma places_api:
  assumes "inv_places s" and "thread_step t (st_api s) m" and "good_monitor (st_api s)"
  shows "inv_places (s\<lparr>st_api := m, st_late := b\<rparr>)"
proof -
  note step = kept_step [OF _ assms(2) good_wf [OF assms(3)]]
  have "writer_fits (m_pc m i) (st_writers s ! i) (m_pc (st_calcq s) i)" if "i < writer_count s" for i
    using step [OF kept_fits(1)] assms(1) that by (simp add: inv_places_def)
  moreover have "produces (m_pc m u)" if "writer_count s \<le> u" for u
    using step [OF kept_produces] assms(1) that by (simp add: inv_places_def)
  ultimately show ?thesis using assms(1) by (simp add: inv_places_def)
qed

lemma places_calcq:
  assumes "inv_places s" and "thread_step t (st_calcq s) m" and "good_monitor (st_calcq s)"
  shows "inv_places (s\<lparr>st_calcq := m, st_late := b, st_dropped := d\<rparr>)"
proof -
  note step = kept_step [OF _ assms(2) good_wf [OF assms(3)]]
  have "writer_fits (m_pc (st_api s) i) (st_writers s ! i) (m_pc m i)" if "i < writer_count s" for i
    using step [OF kept_fits(2)] assms(1) that by (simp add: inv_places_def)
  moreover have "calculator_fits (st_calculator s) (m_pc m (writer_count s))"
    using step [OF kept_fits(3)] assms(1) by (simp add: inv_places_def)
  ultimately show ?thesis using assms(1) by (simp add: inv_places_def)
qed

lemma own_step_places:
  assumes "own_step n k s s'" and "inv_places s" and "good_monitor (st_api s)" and "good_monitor (st_calcq s)"
  shows "inv_places s'"
  using assms(1)
proof (cases rule: own_step.cases)
  case (api_step t m)
  then show ?thesis using places_api assms(2,3) by simp
next
  case (calc_step t m)
  then show ?thesis using places_calcq assms(2,4) by simp
next
  case (writer i)
  from writer(2) show ?thesis
    by cases (use assms(2) writer(1) in \<open>force simp: inv_places_def nth_list_update\<close>)+
next
  case calculator
  then show ?thesis by cases (use assms(2) in \<open>force simp: inv_places_def\<close>)+
qed (use assms(2) in \<open>force simp: inv_places_def\<close>)

lemma entry_produces: "entry q p \<Longrightarrow> p \<noteq> Rem_lock \<Longrightarrow> p \<noteq> Pass_flag \<Longrightarrow> produces p"
  by (cases p) auto

lemma outer_step_places:
  assumes "outer_step k s s'" and "inv_places s"
  shows "inv_places s'"
  using assms(1)
proof (cases rule: outer_step.cases)
  case (producer_call t p)
  then show ?thesis using assms(2) entry_produces [of "m_queue (st_api s)" p] by (simp add: inv_places_def)
next
  case (spurious_api t v p)
  note step = kept_woken [OF _ spurious_api(3)]
  show ?thesis
    using assms(2) step [OF kept_fits(1)] step [OF kept_produces] unfolding inv_places_def spurious_api(1) by simp
next
  case (spurious_calc t v p)
  note step = kept_woken [OF _ spurious_calc(3)]
  show ?thesis
    using assms(2) step [OF kept_fits(2)] step [OF kept_fits(3)] unfolding inv_places_def spurious_calc(1) by simp
qed

lemma sreach_places: "sreach n k w c s \<Longrightarrow> inv_places s"
proof (induction rule: sreach.induct)
  case start
  then show ?case by (simp add: inv_places_def stages_start_def m_init_def)
next
  case (step s s')
  then show ?case using sreach_good own_step_places outer_step_places unfolding stage_step_def by blast
qed

section \<open>The exit order on the first queue\<close>

text \<open>
  As long as no item was put late, a writer that leaves because of the exit order leaves an
  empty queue, to which nothing can be added any more.
\<close>

definition inv_leaving :: "stages \<Rightarrow> bool" where
  "inv_leaving s \<longleftrightarrow> \<not> st_late s \<longrightarrow> (\<forall>i < writer_count s. phase_of (st_api s) i = Leaving \<longrightarrow>
     q_exit_flag (settled (st_api s)) \<and> contents (settled (st_api s)) = [])"

lemma good_parts: "good_monitor m \<Longrightarrow> inv_mutex m \<and> inv_fifo m \<and> inv_empty m \<and> wf_queue (settled m)"
  by (simp add: good_monitor_def settled_good)

lemma leaving_step:
  assumes "thread_step t m m'" and "good_monitor m" and "\<not> is_late (effect_of m t)"
    and "\<And>i. i < w \<Longrightarrow> phase_of m i = Leaving \<Longrightarrow> q_exit_flag (settled m) \<and> contents (settled m) = []"
    and "i < w" and "phase_of m' i = Leaving"
  shows "q_exit_flag (settled m') \<and> contents (settled m') = []"
proof -
  note g = good_parts [OF assms(2)]
  note e = thread_step_effect [OF assms(1) g [THEN conjunct1], of i]
  note tests = effect_tests [OF assms(1), OF g [THEN conjunct1] g [THEN conjunct2, THEN conjunct2, THEN conjunct1]]
  have empty: "q_empty (settled m) \<longleftrightarrow> contents (settled m) = []" using ring.empty_iff g by blast
  have "q_exit_flag (settled m) \<and> contents (settled m) = []" if "effect_of m t \<noteq> Sees_exit"
    using that e assms(4) [OF assms(5)] assms(6) by (cases "effect_of m t") (auto split: if_splits)
  then show ?thesis using e tests empty assms(3) by (cases "effect_of m t") auto
qed

lemma leaving_goto:
  assumes "inv_leaving s" and "good_monitor (st_api s)" and "\<not> holds (m_pc (st_api s) t)" and "\<not> holds p"
    and "pc_phase False p \<noteq> Leaving" and "st_api s' = goto t p (st_api s)"
    and "st_late s' = st_late s" and "writer_count s' = writer_count s"
  shows "inv_leaving s'"
  using assms(1,5) goto_effect [OF _ assms(3,4), of _ False] good_parts [OF assms(2)]
  by (auto simp: inv_leaving_def assms(6-8) split: if_splits)

lemma own_step_leaving:
  assumes "own_step n k s s'" and "inv_leaving s" and "good_monitor (st_api s)"
  shows "inv_leaving s'"
  using assms(1)
proof (cases rule: own_step.cases)
  case (api_step t m)
  then show ?thesis
    using leaving_step [OF api_step(3) assms(3)] assms(2) by (auto simp: inv_leaving_def)
next
  case (calc_step t m)
  then show ?thesis using assms(2) by (auto simp: inv_leaving_def)
next
  case (producer_return t r)
  then show ?thesis by (intro leaving_goto [OF assms(2,3), of t Idle]) simp_all
next
  case (writer i)
  from writer(2) show ?thesis
  proof cases
    case writer_call
    then show ?thesis by (intro leaving_goto [OF assms(2,3), of i Rem_lock]) simp_all
  next
    case (writer_added x r y)
    then show ?thesis by (intro leaving_goto [OF assms(2,3), of i Rem_lock]) simp_all
  qed (use assms(2) in \<open>simp_all add: inv_leaving_def\<close>)
next
  case calculator
  then show ?thesis by cases (use assms(2) in \<open>simp_all add: inv_leaving_def\<close>)
qed

lemma woken_phase_leaving: "woken v p = Some p' \<Longrightarrow> \<not> holds p \<and> \<not> holds p' \<and> pc_phase False p' \<noteq> Leaving"
  by (cases p; cases v) auto

lemma outer_step_leaving:
  assumes "outer_step k s s'" and "inv_leaving s" and "good_monitor (st_api s)"
  shows "inv_leaving s'"
  using assms(1)
proof (cases rule: outer_step.cases)
  case (producer_call t p)
  have "pc_phase False p \<noteq> Leaving" "\<not> holds p" using producer_call(5) by (cases p; simp)+
  then show ?thesis using producer_call by (intro leaving_goto [OF assms(2,3), of t p]) simp_all
next
  case (spurious_api t v p)
  then show ?thesis
    using woken_phase_leaving [OF spurious_api(3)] by (intro leaving_goto [OF assms(2,3), of t p]) simp_all
next
  case (spurious_calc t v p)
  then show ?thesis using assms(2) by (simp add: inv_leaving_def)
qed

lemma sreach_leaving: "sreach n k w c s \<Longrightarrow> inv_leaving s"
proof (induction rule: sreach.induct)
  case start
  then show ?case by (simp add: inv_leaving_def stages_start_def m_init_def phase_of_def)
next
  case (step s s')
  then show ?case using sreach_good own_step_leaving outer_step_leaving unfolding stage_step_def by blast
qed

end
