(* ===== verification/StageRuns.thy ===== *)
theory StageRuns
  imports Stages
begin

text \<open>
  The model of \<open>Stages\<close> implements the pipeline of \<open>ThreadRoutines\<close>, whose calls are single
  steps; when no thread can go on by itself nothing is left in a queue or a hand; and a run
  that shows the hypotheses of these theorems at work.
\<close>

section \<open>The pipeline is what the stages do\<close>

lemma phase_families:
  "produces p \<Longrightarrow> pc_phase b p = Free \<or> pc_phase b p = Added \<or> (\<exists>x. pc_phase b p = Adding x)"
  "consumes p \<Longrightarrow> pc_phase b p = Getting \<or> pc_phase b p = Leaving \<or> (\<exists>x. pc_phase b p = Has (Some x))"
  "adds x p \<Longrightarrow> pc_phase b p = Adding x \<or> pc_phase b p = Added"
  "passes p \<Longrightarrow> pc_phase b p = Passing \<or> pc_phase b p = Past"
  by (cases p; auto)+

fun phases_fit :: "phase \<Rightarrow> writer_pc \<Rightarrow> phase \<Rightarrow> bool" where
  "phases_fit a W_get b \<longleftrightarrow> (a = Free \<or> a = Getting \<or> a = Leaving \<or> (\<exists>x. a = Has (Some x))) \<and>
     (b = Free \<or> a = Leaving \<and> (b = Passing \<or> b = Past))"
| "phases_fit a (W_got x) b \<longleftrightarrow> a = Has (Some x) \<and> b = Free"
| "phases_fit a (W_add x) b \<longleftrightarrow> a = Has (Some x) \<and> (b = Free \<or> b = Adding x \<or> b = Added)"
| "phases_fit a W_done b \<longleftrightarrow> a = Leaving \<and> b = Past"

lemma fits_phases: "writer_fits a l b \<Longrightarrow> phases_fit (pc_phase f a) l (pc_phase g b)"
  using phase_families(2) [of a f] phase_families(3) [of _ b g] phase_families(4) [of b g] by (cases l) auto

lemma writer_phases:
  assumes "inv_places s" and "i < writer_count s"
  shows "phase_of (st_api s) i = Getting \<Longrightarrow> st_writers s ! i = W_get \<and> phase_of (st_calcq s) i = Free"
    and "phase_of (st_api s) i \<noteq> Adding x"
    and "phase_of (st_calcq s) i = Adding x \<Longrightarrow> st_writers s ! i = W_add x"
    and "phase_of (st_calcq s) i = Passing \<Longrightarrow> st_writers s ! i = W_get \<and> phase_of (st_api s) i = Leaving"
    and "phase_of (st_calcq s) i \<noteq> Getting"
    and "m_pc (st_api s) i \<notin> {Int_set, Limit_set, Pass_flag}" "m_pc (st_calcq s) i \<notin> {Int_set, Limit_set}"
proof -
  have f: "writer_fits (m_pc (st_api s) i) (st_writers s ! i) (m_pc (st_calcq s) i)"
    using assms by (simp add: inv_places_def)
  then have "phases_fit (phase_of (st_api s) i) (st_writers s ! i) (phase_of (st_calcq s) i)"
    unfolding phase_of_def by (rule fits_phases)
  then show "phase_of (st_api s) i = Getting \<Longrightarrow> st_writers s ! i = W_get \<and> phase_of (st_calcq s) i = Free"
    "phase_of (st_api s) i \<noteq> Adding x"
    "phase_of (st_calcq s) i = Adding x \<Longrightarrow> st_writers s ! i = W_add x"
    "phase_of (st_calcq s) i = Passing \<Longrightarrow> st_writers s ! i = W_get \<and> phase_of (st_api s) i = Leaving"
    "phase_of (st_calcq s) i \<noteq> Getting"
    by (cases "st_writers s ! i"; auto)+
  show "m_pc (st_api s) i \<notin> {Int_set, Limit_set, Pass_flag}" "m_pc (st_calcq s) i \<notin> {Int_set, Limit_set}"
    using f by (cases "st_writers s ! i"; auto)+
qed

lemma producer_phases:
  assumes "inv_places s" and "writer_count s \<le> t"
  shows "phase_of (st_api s) t \<noteq> Getting" and "m_pc (st_api s) t \<noteq> Pass_flag"
  using assms phase_families(1) [of "m_pc (st_api s) t" "q_full (m_queue (st_api s))"]
  by (auto simp: inv_places_def phase_of_def)

lemma calculator_phases:
  assumes "inv_places s"
  shows "phase_of (st_calcq s) (writer_count s) = Getting \<Longrightarrow> st_calculator s = C_get"
    and "phase_of (st_calcq s) (writer_count s) \<noteq> Adding x"
    and "m_pc (st_calcq s) (writer_count s) \<notin> {Int_set, Limit_set, Pass_flag}"
proof -
  have f: "calculator_fits (st_calculator s) (m_pc (st_calcq s) (writer_count s))"
    using assms by (simp add: inv_places_def)
  note c = phase_families(2) [of "m_pc (st_calcq s) (writer_count s)" "q_full (m_queue (st_calcq s))"]
  show "phase_of (st_calcq s) (writer_count s) = Getting \<Longrightarrow> st_calculator s = C_get"
    "phase_of (st_calcq s) (writer_count s) \<noteq> Adding x"
    "m_pc (st_calcq s) (writer_count s) \<notin> {Int_set, Limit_set, Pass_flag}"
    using f c by (cases "st_calculator s"; auto simp: phase_of_def)+
qed

lemma views_cong:
  assumes "length ws' = length ws"
    and "\<And>i. i < length ws \<Longrightarrow> writer_view (a' i) (ws' ! i) (k' i) = writer_view (a i) (ws ! i) (k i)"
  shows "writer_views a' ws' k' = writer_views a ws k"
  using assms by (auto simp: writer_views_def)

lemma views_update:
  assumes "length ws' = length ws" and "t < length ws" and "writer_view (a' t) (ws' ! t) (k' t) = v"
    and "\<And>i. i < length ws \<Longrightarrow> i \<noteq> t \<Longrightarrow> writer_view (a' i) (ws' ! i) (k' i) = writer_view (a i) (ws ! i) (k i)"
  shows "writer_views a' ws' k' = (writer_views a ws k)[t := v]"
  using assms by (intro nth_equalityI) (auto simp: writer_views_def nth_list_update)

lemma views_nth: "i < length ws \<Longrightarrow> writer_views a ws k ! i = writer_view (a i) (ws ! i) (k i)"
  by (simp add: writer_views_def)

lemma pipe_simps [simp]:
  "p_api (pipe s) = settled (st_api s)" "p_calcq (pipe s) = settled (st_calcq s)"
  "p_writers (pipe s) = writer_views (phase_of (st_api s)) (st_writers s) (phase_of (st_calcq s))"
  "p_calculator (pipe s) = calculator_view (st_calculator s) (phase_of (st_calcq s) (writer_count s))"
  "p_trade_files (pipe s) = st_trade_files s" "p_writer_delays (pipe s) = st_writer_delays s"
  "p_calc (pipe s) = st_calc s" "p_arrived (pipe s) = settled_items (st_api s)" "p_logged (pipe s) = st_logged s"
  "p_handled (pipe s) = st_handled s" "p_dropped (pipe s) = st_dropped s"
  by (simp_all add: pipe_def)

lemma length_views [simp]: "length (writer_views a ws k) = length ws"
  by (simp add: writer_views_def)

lemma queue_add_puts: "\<not> q_exit_flag q \<Longrightarrow> \<not> q_full q \<Longrightarrow> queue_add q x = Returns 0 (queue_put x q)"
  by (simp add: queue_add_def)

lemma queue_add_refuses: "q_exit_flag q \<Longrightarrow> queue_add q x = Returns (- 1) q"
  by (simp add: queue_add_def)

lemma queue_remove_takes:
  assumes "wf_queue q" and "\<not> q_empty q"
  obtains x where "fst (queue_take q) = Some x" and "queue_remove q = Returns 0 (Some x, snd (queue_take q))"
  using ring.fst_get [OF assms] assms(2) by (auto simp: queue_remove_def prod_eq_iff)

lemma pipe_api_takes:
  assumes "inv_places s" and "good_monitor (st_api s)" and "thread_step t (st_api s) m"
    and "effect_of (st_api s) t = Takes"
  shows "pstep n (pipe s) (pipe (s\<lparr>st_api := m, st_late := b\<rparr>))"
proof -
  note g = good_parts [OF assms(2)]
  note e = thread_step_effect [OF assms(3) g [THEN conjunct1]]
  note tests = effect_tests(3) [OF assms(3) g [THEN conjunct1] g [THEN conjunct2, THEN conjunct2, THEN conjunct1] assms(4)]
  have w: "t < writer_count s"
    using producer_phases(1) [OF assms(1), of t] tests by (cases "t < writer_count s") auto
  note p = writer_phases(1) [OF assms(1) w] tests
  obtain x where x: "fst (queue_take (settled (st_api s))) = Some x"
    "queue_remove (settled (st_api s)) = Returns 0 (Some x, snd (queue_take (settled (st_api s))))"
    using queue_remove_takes g p by blast
  have "writer_views (phase_of m) (st_writers s) (phase_of (st_calcq s)) = (p_writers (pipe s))[t := W_got x]"
    using w e p assms(4) x(1) by (simp, intro views_update) auto
  then have "pipe (s\<lparr>st_api := m, st_late := b\<rparr>) =
      set_writer t (W_got x) (pipe s)\<lparr>p_api := snd (queue_take (settled (st_api s)))\<rparr>"
    using e [of t] assms(4) by (simp add: pipe_def set_writer_def)
  moreover have "p_writers (pipe s) ! t = W_get" using w p by (simp add: views_nth)
  ultimately show ?thesis using pstep.writer_get [of t "pipe s" x] w x(2) by simp
qed

text \<open>The other effects on the first queue leave the writers where they are in the pipeline.\<close>

lemma api_views:
  assumes "inv_places s" and "good_monitor (st_api s)" and "thread_step t (st_api s) m"
    and "effect_of (st_api s) t \<noteq> Takes" and "\<not> is_late (effect_of (st_api s) t)"
  shows "writer_views (phase_of m) (st_writers s) (phase_of (st_calcq s)) = p_writers (pipe s)"
proof -
  note g = good_parts [OF assms(2)]
  note e = thread_step_effect [OF assms(3) g [THEN conjunct1]]
  note tests = effect_tests [OF assms(3) g [THEN conjunct1] g [THEN conjunct2, THEN conjunct2, THEN conjunct1]]
  have "writer_view (phase_of m i) (st_writers s ! i) (phase_of (st_calcq s) i) =
      writer_view (phase_of (st_api s) i) (st_writers s ! i) (phase_of (st_calcq s) i)" if i: "i < writer_count s" for i
  proof (cases "i = t")
    case True
    note w = writer_phases [OF assms(1) i]
    show ?thesis
      using e [of i] True assms(4,5) tests [unfolded True [symmetric]] w(1,2,6) by (cases "effect_of (st_api s) t") auto
  qed (use e in simp)
  then show ?thesis by (simp, intro views_cong) auto
qed

lemma pipe_api_step:
  assumes "inv_places s" and "good_monitor (st_api s)" and "thread_step t (st_api s) m"
    and "\<not> is_late (effect_of (st_api s) t)"
  shows "pipe (s\<lparr>st_api := m, st_late := b\<rparr>) = pipe s \<or> pstep n (pipe s) (pipe (s\<lparr>st_api := m, st_late := b\<rparr>))"
proof -
  note g = good_parts [OF assms(2)]
  note e = thread_step_effect [OF assms(3) g [THEN conjunct1]]
  note tests = effect_tests [OF assms(3) g [THEN conjunct1] g [THEN conjunct2, THEN conjunct2, THEN conjunct1]]
  note views = api_views [OF assms(1-3) _ assms(4)]
  let ?s' = "s\<lparr>st_api := m, st_late := b\<rparr>"
  show ?thesis
  proof (cases "effect_of (st_api s) t")
    case (Puts x)
    then have "pipe ?s' = (pipe s)\<lparr>p_api := queue_put x (settled (st_api s)), p_arrived := settled_items (st_api s) @ [x]\<rparr>"
      using e views by (simp add: pipe_def)
    moreover have "queue_add (p_api (pipe s)) x = Returns 0 (queue_put x (settled (st_api s)))"
      using tests(1) [OF Puts] by (simp add: queue_add_puts)
    ultimately show ?thesis using pstep.arrive [of "pipe s" x] by simp
  next
    case Takes
    then show ?thesis using pipe_api_takes [OF assms(1-3)] by blast
  next
    case Sets_exit
    then have "pipe ?s' = (pipe s)\<lparr>p_api := (p_api (pipe s))\<lparr>q_exit_flag := True\<rparr>\<rparr>"
      using e views by (simp add: pipe_def)
    then show ?thesis using pstep.exit_order [of n "pipe s"] by simp
  qed (use e views assms(4) in \<open>simp_all add: pipe_def\<close>)
qed

text \<open>A step on the second queue: whose call it is, and what it does to the views of the writers.\<close>

lemma calcq_roles:
  assumes "inv_places s" and "t < writer_count s + 1"
  shows "phase_of (st_calcq s) t = Adding x \<Longrightarrow> t < writer_count s \<and> st_writers s ! t = W_add x"
    and "phase_of (st_calcq s) t = Getting \<Longrightarrow> t = writer_count s \<and> st_calculator s = C_get"
    and "m_pc (st_calcq s) t \<in> {Int_set, Limit_set, Pass_flag} \<Longrightarrow>
      t < writer_count s \<and> phase_of (st_calcq s) t = Passing \<and> st_writers s ! t = W_get"
proof -
  have t: "t < writer_count s \<or> t = writer_count s" using assms(2) by auto
  show "phase_of (st_calcq s) t = Adding x \<Longrightarrow> t < writer_count s \<and> st_writers s ! t = W_add x"
    using t calculator_phases(2) [OF assms(1)] writer_phases(3) [OF assms(1)] by auto
  show "phase_of (st_calcq s) t = Getting \<Longrightarrow> t = writer_count s \<and> st_calculator s = C_get"
    using t calculator_phases(1) [OF assms(1)] writer_phases(5) [OF assms(1)] by auto
  assume flag: "m_pc (st_calcq s) t \<in> {Int_set, Limit_set, Pass_flag}"
  then have w: "t < writer_count s" and pc: "m_pc (st_calcq s) t = Pass_flag"
    using t calculator_phases(3) [OF assms(1)] writer_phases(7) [OF assms(1), of t] by auto
  then have "phase_of (st_calcq s) t = Passing" by (simp add: phase_of_def)
  then show "t < writer_count s \<and> phase_of (st_calcq s) t = Passing \<and> st_writers s ! t = W_get"
    using w writer_phases(4) [OF assms(1)] by blast
qed

lemma calcq_views:
  assumes "\<And>u. u \<noteq> t \<Longrightarrow> f u = phase_of (st_calcq s) u"
  shows "t = writer_count s \<Longrightarrow> writer_views (phase_of (st_api s)) (st_writers s) f = p_writers (pipe s)"
    and "t < writer_count s \<Longrightarrow> writer_view (phase_of (st_api s) t) (st_writers s ! t) (f t) = v \<Longrightarrow>
      writer_views (phase_of (st_api s)) (st_writers s) f = (p_writers (pipe s))[t := v]"
  using assms by (simp_all, intro views_cong views_update; simp)+

lemma pipe_calc_adds:
  assumes "inv_places s" and "good_monitor (st_calcq s)" and "thread_step t (st_calcq s) m" and "t < writer_count s + 1"
    and "effect_of (st_calcq s) t = Puts x \<or> effect_of (st_calcq s) t = Refuses x"
    and "s' = s\<lparr>st_calcq := m, st_late := b, st_dropped := st_dropped s @ refused_items (effect_of (st_calcq s) t)\<rparr>"
  shows "pstep n (pipe s) (pipe s')"
proof -
  note g = good_parts [OF assms(2)]
  note e = thread_step_effect [OF assms(3) g [THEN conjunct1]]
  note tests = effect_tests [OF assms(3) g [THEN conjunct1] g [THEN conjunct2, THEN conjunct2, THEN conjunct1]]
  have ph: "phase_of (st_calcq s) t = Adding x" using assms(5) tests(1,2) by blast
  note w = calcq_roles(1) [OF assms(1,4) ph]
  have at: "p_writers (pipe s) ! t = W_add x" using w ph by (simp add: views_nth)
  have views: "writer_views (phase_of (st_api s)) (st_writers s) (phase_of m) = (p_writers (pipe s))[t := W_get]"
    by (rule calcq_views(2)) (use e [of t] e w assms(5) in auto)
  have calc: "phase_of m (writer_count s) = phase_of (st_calcq s) (writer_count s)"
    using e [of "writer_count s"] w by simp
  show ?thesis
    using assms(5)
  proof
    assume Puts: "effect_of (st_calcq s) t = Puts x"
    then have "pipe s' = set_writer t W_get (pipe s)\<lparr>p_calcq := queue_put x (settled (st_calcq s))\<rparr>"
      using e views calc by (simp add: pipe_def set_writer_def assms(6))
    moreover have "queue_add (p_calcq (pipe s)) x = Returns 0 (queue_put x (settled (st_calcq s)))"
      using tests(1) [OF Puts] by (simp add: queue_add_puts)
    ultimately show ?thesis using pstep.writer_add [of t "pipe s" x] w at by simp
  next
    assume Refuses: "effect_of (st_calcq s) t = Refuses x"
    then have "pipe s' = set_writer t W_get (pipe s)\<lparr>p_calcq := settled (st_calcq s), p_dropped := st_dropped s @ [x]\<rparr>"
      using e views calc by (simp add: pipe_def set_writer_def assms(6))
    then show ?thesis
      using pstep.writer_refused [of t "pipe s" x] w at tests(2) [OF Refuses] by (simp add: queue_add_refuses)
  qed
qed

lemma pipe_calc_removes:
  assumes "inv_places s" and "good_monitor (st_calcq s)" and "thread_step t (st_calcq s) m" and "t < writer_count s + 1"
    and "effect_of (st_calcq s) t = Takes \<or> effect_of (st_calcq s) t = Sees_exit"
    and "s' = s\<lparr>st_calcq := m, st_late := b, st_dropped := st_dropped s @ refused_items (effect_of (st_calcq s) t)\<rparr>"
  shows "pstep n (pipe s) (pipe s')"
proof -
  note g = good_parts [OF assms(2)]
  note e = thread_step_effect [OF assms(3) g [THEN conjunct1]]
  note tests = effect_tests [OF assms(3) g [THEN conjunct1] g [THEN conjunct2, THEN conjunct2, THEN conjunct1]]
  have ph: "phase_of (st_calcq s) t = Getting" using assms(5) tests(3,4) by blast
  note t = calcq_roles(2) [OF assms(1,4) ph]
  have at: "p_calculator (pipe s) = C_get" using t ph by simp
  have views: "writer_views (phase_of (st_api s)) (st_writers s) (phase_of m) = p_writers (pipe s)"
    by (rule calcq_views(1)) (use e t in auto)
  show ?thesis
    using assms(5)
  proof
    assume Takes: "effect_of (st_calcq s) t = Takes"
    obtain x where x: "fst (queue_take (settled (st_calcq s))) = Some x"
      "queue_remove (settled (st_calcq s)) = Returns 0 (Some x, snd (queue_take (settled (st_calcq s))))"
      using queue_remove_takes g tests(3) [OF Takes] by blast
    have "pipe s' = pipe s\<lparr>p_calculator := C_got x, p_calcq := snd (queue_take (settled (st_calcq s)))\<rparr>"
      using e [of t] Takes t x(1) views by (simp add: pipe_def assms(6))
    then show ?thesis using pstep.calculator_get [of "pipe s" x] x(2) at by simp
  next
    assume Exit: "effect_of (st_calcq s) t = Sees_exit"
    then have "pipe s' = pipe s\<lparr>p_calculator := C_done, p_calcq := settled (st_calcq s)\<rparr>"
      using e [of t] t views by (simp add: pipe_def assms(6))
    moreover have "queue_remove (settled (st_calcq s)) = Returns (- 1) (None, settled (st_calcq s))"
      using tests(4) [OF Exit] by (simp add: queue_remove_def)
    ultimately show ?thesis using pstep.calculator_exit [of "pipe s" None] at by simp
  qed
qed

lemma pipe_calc_passes:
  assumes "inv_places s" and "good_monitor (st_calcq s)" and "good_monitor (st_api s)" and "inv_leaving s"
    and "thread_step t (st_calcq s) m" and "t < writer_count s + 1"
    and "effect_of (st_calcq s) t = Sets_exit" and "\<not> st_late s"
    and "s' = s\<lparr>st_calcq := m, st_late := b, st_dropped := st_dropped s @ refused_items (effect_of (st_calcq s) t)\<rparr>"
  shows "pstep n (pipe s) (pipe s')"
proof -
  note g = good_parts [OF assms(2)]
  note e = thread_step_effect [OF assms(5) g [THEN conjunct1]]
  note tests = effect_tests [OF assms(5) g [THEN conjunct1] g [THEN conjunct2, THEN conjunct2, THEN conjunct1]]
  note w = calcq_roles(3) [OF assms(1,6) tests(5) [OF assms(7)]]
  note l = writer_phases(4) [OF assms(1) w [THEN conjunct1] w [THEN conjunct2, THEN conjunct1]]
  have "q_exit_flag (settled (st_api s))" "contents (settled (st_api s)) = []"
    using assms(4,8) w l by (auto simp: inv_leaving_def)
  then have empty: "queue_remove (settled (st_api s)) = Returns (- 1) (None, settled (st_api s))"
    using good_parts [OF assms(3)] by (intro queue_remove_none) auto
  have "writer_views (phase_of (st_api s)) (st_writers s) (phase_of m) = (p_writers (pipe s))[t := W_done]"
    by (rule calcq_views(2)) (use e [of t] e w l assms(7) in auto)
  then have "pipe s' = set_writer t W_done (pipe s)\<lparr>p_api := settled (st_api s),
      p_calcq := (p_calcq (pipe s))\<lparr>q_exit_flag := True\<rparr>\<rparr>"
    using e [of t] e [of "writer_count s"] assms(7) w by (simp add: pipe_def set_writer_def assms(9))
  moreover have "p_writers (pipe s) ! t = W_get" using w l by (simp add: views_nth)
  ultimately show ?thesis using pstep.writer_exit [of t "pipe s" None] w empty by simp
qed

lemma pipe_calc_step:
  assumes "inv_places s" and "good_monitor (st_calcq s)" and "good_monitor (st_api s)" and "inv_leaving s"
    and "thread_step t (st_calcq s) m" and "t < writer_count s + 1"
    and "\<not> is_late (effect_of (st_calcq s) t)" and "\<not> st_late s"
    and "s' = s\<lparr>st_calcq := m, st_late := b, st_dropped := st_dropped s @ refused_items (effect_of (st_calcq s) t)\<rparr>"
  shows "pipe s' = pipe s \<or> pstep n (pipe s) (pipe s')"
proof (cases "effect_of (st_calcq s) t")
  case Silent
  note e = thread_step_effect [OF assms(5) good_parts [OF assms(2), THEN conjunct1]]
  then have "phase_of m = phase_of (st_calcq s)" using Silent by (simp add: fun_eq_iff)
  then show ?thesis using e Silent by (simp add: pipe_def assms(9))
next
  case (Puts_late x)
  then show ?thesis using assms(7) by simp
next
  case Sets_exit
  then show ?thesis using pipe_calc_passes [OF assms(1-6) _ assms(8,9)] by blast
qed (use pipe_calc_adds [OF assms(1,2,5,6) _ assms(9)] pipe_calc_removes [OF assms(1,2,5,6) _ assms(9)] in blast)+

text \<open>The steps between the calls: logging and the treatment of an item are steps of the pipeline.\<close>

lemma pipe_log_item:
  assumes "inv_places s" and "i < writer_count s" and "st_writers s ! i = W_got x"
    and "Writer_log i x now (pipe s) = Some p"
    and "s' = s\<lparr>st_trade_files := p_trade_files p, st_writer_delays := p_writer_delays p,
      st_logged := p_logged p, st_writers := (st_writers s)[i := W_add x]\<rparr>"
  shows "pstep n (pipe s) (pipe s')"
proof -
  have "writer_fits (m_pc (st_api s) i) (st_writers s ! i) (m_pc (st_calcq s) i)"
    using assms(1,2) by (simp add: inv_places_def)
  then have "phase_of (st_calcq s) i = Free" using assms(3) by (simp add: phase_of_def)
  then have "writer_views (phase_of (st_api s)) ((st_writers s)[i := W_add x]) (phase_of (st_calcq s)) =
      (p_writers (pipe s))[i := W_add x]"
    using assms(2) by (simp, intro views_update) auto
  then have "pipe s' = set_writer i (W_add x) p"
    using assms(5) by (intro pipeline.equality) (simp_all add: Writer_log_frame [OF assms(4)])
  then show ?thesis using pstep.writer_log [OF _ _ assms(4)] assms(2,3) by (simp add: views_nth)
qed

lemma pipe_calculator_restarts:
  assumes "good_monitor (st_calcq s)" and "\<not> holds (m_pc (st_calcq s) (writer_count s))"
    and "s' = s\<lparr>st_calculator := C_get, st_calc := c, st_handled := hs, st_calcq := goto (writer_count s) Rem_lock (st_calcq s)\<rparr>"
  shows "pipe s' = (pipe s)\<lparr>p_calculator := C_get, p_calc := c, p_handled := hs\<rparr>"
  using assms(2,3) goto_effect [OF good_parts [OF assms(1), THEN conjunct1], of "writer_count s" Rem_lock _ False]
  by (auto simp: pipe_def intro!: views_cong)

lemma phase_between:
  "m_pc m i = Idle \<Longrightarrow> phase_of m i = Free" "m_pc m i = Rem_done y \<Longrightarrow> phase_of m i = Has y"
  "m_pc m i = Add_done r \<Longrightarrow> phase_of m i = Added" "m_pc m i = Rem_exited \<Longrightarrow> phase_of m i = Leaving"
  "m_pc m i = Passed \<Longrightarrow> phase_of m i = Past"
  by (simp_all add: phase_of_def)

text \<open>All others are silent: a thread begins a call or comes back from one.\<close>

lemma pipe_writer_own:
  assumes "writer_own n i s s'" and "i < writer_count s" and "inv_places s" and "good_monitor (st_api s)"
    and "good_monitor (st_calcq s)"
  shows "pipe s' = pipe s \<or> pstep n (pipe s) (pipe s')"
proof -
  have fits: "writer_fits (m_pc (st_api s) i) (st_writers s ! i) (m_pc (st_calcq s) i)"
    using assms(2,3) by (simp add: inv_places_def)
  note ga = goto_effect [OF good_parts [OF assms(4), THEN conjunct1], of _ _ _ False]
    and gc = goto_effect [OF good_parts [OF assms(5), THEN conjunct1], of _ _ _ False]
  from assms(1) show ?thesis
  proof cases
    case (log_item x now p)
    then show ?thesis using pipe_log_item [OF assms(3,2)] by blast
  qed (use fits assms(2) in \<open>auto simp: pipe_def nth_list_update ga gc phase_between intro!: disjI1 views_cong\<close>)
qed

lemma pipe_calculator_own:
  assumes "calculator_own n s s'" and "good_monitor (st_calcq s)"
  shows "pipe s' = pipe s \<or> pstep n (pipe s) (pipe s')"
  using assms(1)
proof cases
  case calculator_init
  then have "pipe s' = (pipe s)\<lparr>p_calculator := C_get, p_calc := Calculator_start n (p_calc (pipe s))\<rparr>"
    using pipe_calculator_restarts [OF assms(2), where hs = "st_handled s"] by simp
  then show ?thesis using pstep.calculator_start [of "pipe s"] calculator_init by simp
next
  case (calculator_does x y clock c)
  then have "pipe s' = (pipe s)\<lparr>p_calculator := C_get, p_calc := c, p_handled := p_handled (pipe s) @ [(x, clock)]\<rparr>"
    using pipe_calculator_restarts [OF assms(2)] by simp
  then show ?thesis using pstep.calculator_item [of "pipe s" x n clock c] calculator_does by simp
qed (simp_all add: pipe_def phase_between)

lemma pipe_own_step:
  assumes "own_step n k s s'" and "inv_places s" and "good_monitor (st_api s)" and "good_monitor (st_calcq s)"
    and "inv_leaving s" and "\<not> st_late s'"
  shows "pipe s' = pipe s \<or> pstep n (pipe s) (pipe s')"
  using assms(1)
proof (cases rule: own_step.cases)
  case (api_step t m)
  then show ?thesis using pipe_api_step [OF assms(2,3) api_step(3)] assms(6) by simp
next
  case (calc_step t m)
  then show ?thesis using pipe_calc_step [OF assms(2,4,3,5) calc_step(3,2)] assms(6) by simp
next
  case (producer_return t r)
  then show ?thesis using goto_effect [OF good_parts [OF assms(3), THEN conjunct1], of t Idle _ False]
    by (auto simp: pipe_def intro!: disjI1 views_cong)
next
  case (writer i)
  then show ?thesis by (intro pipe_writer_own [OF _ _ assms(2-4)])
next
  case calculator
  then show ?thesis by (rule pipe_calculator_own [OF _ assms(4)])
qed

lemma pipe_outer_step:
  assumes "outer_step k s s'" and "good_monitor (st_api s)" and "good_monitor (st_calcq s)"
  shows "pipe s' = pipe s"
  using assms(1)
proof (cases rule: outer_step.cases)
  case (producer_call t p)
  have "\<not> holds p" using producer_call(5) by (cases p) auto
  then show ?thesis
    using producer_call goto_effect [OF good_parts [OF assms(2), THEN conjunct1], of t p _ False]
    by (auto simp: pipe_def intro!: views_cong)
next
  case (spurious_api t v p)
  then show ?thesis
    using woken_effect [OF good_parts [OF assms(2), THEN conjunct1] spurious_api(3)]
    by (auto simp: pipe_def intro!: views_cong)
next
  case (spurious_calc t v p)
  then show ?thesis
    using woken_effect [OF good_parts [OF assms(3), THEN conjunct1] spurious_calc(3)]
    by (auto simp: pipe_def intro!: views_cong)
qed

lemma stage_step_late: "stage_step n k s s' \<Longrightarrow> st_late s \<Longrightarrow> st_late s'"
  by (auto simp: stage_step_def elim!: own_step.cases writer_own.cases calculator_own.cases outer_step.cases)

lemma pipe_stage_step:
  assumes "sreach n k w c s" and "stage_step n k s s'" and "\<not> st_late s'"
  shows "pipe s' = pipe s \<or> pstep n (pipe s) (pipe s')"
proof -
  have "good_monitor (st_api s)" "good_monitor (st_calcq s)" using sreach_good [OF assms(1)] by simp_all
  then show ?thesis
    using assms(2) pipe_own_step [OF _ sreach_places [OF assms(1)] _ _ sreach_leaving [OF assms(1)] assms(3)]
      pipe_outer_step unfolding stage_step_def by blast
qed

lemma pipe_start: "pipe (stages_start n w c) = p_start n w c"
proof -
  have "writer_views (\<lambda>_. Free) (replicate w W_get) (\<lambda>_. Free) = replicate w W_get"
    by (intro nth_equalityI) (auto simp: views_nth)
  then show ?thesis
    by (simp add: pipe_def stages_start_def p_start_def settled_def settled_items_def pending_def m_init_def
        phase_of_def [abs_def])
qed

interpretation pipes: refinement_map "\<lambda>s. sreach n k w c s \<and> \<not> st_late s" "stages_start n w c"
    "\<lambda>s s'. stage_step n k s s' \<and> \<not> st_late s'" "preach n w c" "pstep n" pipe for n k w c
proof
  fix s P
  assume s: "sreach n k w c s \<and> \<not> st_late s" and init: "P (stages_start n w c)"
    and steps: "\<And>s s'. sreach n k w c s \<and> \<not> st_late s \<Longrightarrow> P s \<Longrightarrow> stage_step n k s s' \<and> \<not> st_late s' \<Longrightarrow> P s'"
  have "sreach n k w c s \<Longrightarrow> \<not> st_late s \<longrightarrow> P s"
  proof (induction rule: sreach.induct)
    case (step s s')
    then show ?case using steps stage_step_late by blast
  qed (simp add: init)
  then show "P s" using s by blast
next
  show "preach n w c (pipe (stages_start n w c))" by (simp add: pipe_start preach.start)
  show "preach n w c a \<Longrightarrow> pstep n a a' \<Longrightarrow> preach n w c a'" for a a' by (rule preach.step)
  show "sreach n k w c s \<and> \<not> st_late s \<Longrightarrow> stage_step n k s s' \<and> \<not> st_late s' \<Longrightarrow>
      (pstep n)\<^sup>*\<^sup>* (pipe s) (pipe s')" for s s'
    using pipe_stage_step by (intro step_or_same) blast
qed

text \<open>
  C6: The pipeline with calls as single steps is what the threads do when the calls are cut at
  every lock, test, wait, unlock and signal.  As long as no call that slept on a full queue
  puts its item after the exit order, the state seen through \<open>pipe\<close> is a reachable state of
  the pipeline, and each step of a thread is a step of the pipeline or none: every fact about
  reachable states of the pipeline holds of the program with its locks.
\<close>

theorem stages_refine_pipeline:
  assumes "sreach n k w c s" and "\<not> st_late s"
  shows "preach n w c (pipe s) \<and>
    (\<forall>s'. stage_step n k s s' \<and> \<not> st_late s' \<longrightarrow> pipe s' = pipe s \<or> pstep n (pipe s) (pipe s'))"
  using pipes.mapped pipe_stage_step assms by blast

section \<open>Nothing is left behind\<close>

text \<open>No thread can go on by itself.\<close>

definition at_rest :: "nat \<Rightarrow> nat \<Rightarrow> stages \<Rightarrow> bool" where
  "at_rest n k s \<longleftrightarrow> \<not> (\<exists>s'. own_step n k s s')"

lemma rest_monitors:
  assumes "sreach n k w c s" and "at_rest n k s"
  shows "\<forall>t < w + k. resting (m_pc (st_api s) t)" "settled (st_api s) = m_queue (st_api s)"
    "settled_items (st_api s) = m_accepted (st_api s)"
    "\<forall>t < w + 1. resting (m_pc (st_calcq s) t)" "settled (st_calcq s) = m_queue (st_calcq s)"
proof -
  have a: "\<not> thread_step t (st_api s) m" if "t < w + k" for t m
    using own_step.api_step [of t s k m n] assms(2) that sreach_writers [OF assms(1)] by (auto simp: at_rest_def)
  have c: "\<not> thread_step t (st_calcq s) m" if "t < w + 1" for t m
    using own_step.calc_step [of t s m n k] assms(2) that sreach_writers [OF assms(1)] by (auto simp: at_rest_def)
  show "\<forall>t < w + k. resting (m_pc (st_api s) t)" "settled (st_api s) = m_queue (st_api s)"
    "settled_items (st_api s) = m_accepted (st_api s)"
    by (rule all_resting [OF api.mapped [OF assms(1)]]; use a in blast)+
  show "\<forall>t < w + 1. resting (m_pc (st_calcq s) t)" "settled (st_calcq s) = m_queue (st_calcq s)"
    by (rule all_resting [OF calcq.mapped [OF assms(1)]]; use c in blast)+
qed

text \<open>What a thread that cannot go on is doing; \<open>good\<close> items are those that can be processed.\<close>

lemma rest_writer:
  assumes "sreach n k w c s" and "at_rest n k s" and "i < w"
    and "\<And>x. st_writers s ! i = W_got x \<Longrightarrow> Writer_log i x now (pipe s) \<noteq> None"
  shows "st_writers s ! i = W_done \<or> st_writers s ! i = W_get \<and> m_pc (st_api s) i = Rem_wait \<or>
    (\<exists>x. st_writers s ! i = W_add x \<and> m_pc (st_calcq s) i = Add_wait x)"
proof -
  have w: "i < writer_count s" using assms(3) sreach_writers [OF assms(1)] by simp
  have fits: "writer_fits (m_pc (st_api s) i) (st_writers s ! i) (m_pc (st_calcq s) i)"
    using sreach_places [OF assms(1)] w by (simp add: inv_places_def)
  have ra: "resting (m_pc (st_api s) i)" and rc: "resting (m_pc (st_calcq s) i)"
    using rest_monitors(1,4) [OF assms(1,2)] assms(3) by simp_all
  have stuck: "\<not> own_step n k s s'" for s' using assms(2) by (simp add: at_rest_def)
  show ?thesis
  proof (cases "st_writers s ! i")
    case W_get
    have "m_pc (st_api s) i \<noteq> Idle" "m_pc (st_api s) i \<noteq> Rem_done (Some x)" for x
      using own_step.writer [OF _ writer_own.writer_call, OF w W_get] own_step.writer [OF _ writer_own.writer_item, OF w W_get] stuck by blast+
    moreover have "m_pc (st_api s) i \<noteq> Rem_exited"
    proof
      assume e: "m_pc (st_api s) i = Rem_exited"
      have "m_pc (st_calcq s) i = Idle \<or> m_pc (st_calcq s) i = Passed"
        using fits rc W_get by (cases "m_pc (st_calcq s) i") auto
      then show False using own_step.writer [OF _ writer_own.writer_pass, OF w W_get e] own_step.writer [OF _ writer_own.writer_end, OF w W_get] stuck by blast
    qed
    ultimately have "m_pc (st_api s) i = Rem_wait" using fits ra W_get by (cases "m_pc (st_api s) i") auto
    then show ?thesis using W_get by simp
  next
    case (W_got x)
    then show ?thesis using own_step.writer [OF _ writer_own.log_item, OF w W_got] stuck assms(4) by blast
  next
    case (W_add x)
    have "m_pc (st_api s) i = Rem_done (Some x)" using fits W_add by simp
    then have "m_pc (st_calcq s) i \<noteq> Idle" "m_pc (st_calcq s) i \<noteq> Add_done r" for r
      using own_step.writer [OF _ writer_own.writer_call_add, OF w W_add] own_step.writer [OF _ writer_own.writer_added, OF w W_add] stuck by blast+
    then have "m_pc (st_calcq s) i = Add_wait x" using fits rc W_add by (cases "m_pc (st_calcq s) i") auto
    then show ?thesis using W_add by simp
  qed simp
qed

lemma rest_calculator:
  assumes "sreach n k w c s" and "at_rest n k s"
    and "\<And>x. st_calculator s = C_got x \<Longrightarrow> Calculator_item n (x, clock) (st_calc s) \<noteq> None"
  shows "st_calculator s = C_done \<or> st_calculator s = C_get \<and> m_pc (st_calcq s) w = Rem_wait"
proof -
  note w = sreach_writers [OF assms(1)]
  have fits: "calculator_fits (st_calculator s) (m_pc (st_calcq s) w)"
    using sreach_places [OF assms(1)] w by (simp add: inv_places_def)
  have rc: "resting (m_pc (st_calcq s) w)" using rest_monitors(4) [OF assms(1,2)] by simp
  have stuck: "\<not> own_step n k s s'" for s' using assms(2) by (simp add: at_rest_def)
  show ?thesis
  proof (cases "st_calculator s")
    case C_start
    then show ?thesis using own_step.calculator [OF calculator_own.calculator_init, OF C_start] stuck fits w by auto
  next
    case C_get
    have "m_pc (st_calcq s) w \<noteq> Rem_done (Some x)" "m_pc (st_calcq s) w \<noteq> Rem_exited" for x
      using own_step.calculator [OF calculator_own.calculator_got, OF C_get] own_step.calculator [OF calculator_own.calculator_end, OF C_get] stuck w by blast+
    then have "m_pc (st_calcq s) w = Rem_wait" using fits rc C_get by (cases "m_pc (st_calcq s) w") auto
    then show ?thesis using C_get by simp
  next
    case (C_got x)
    then have "m_pc (st_calcq s) (writer_count s) = Rem_done (Some x)" using fits w by simp
    then show ?thesis using own_step.calculator [OF calculator_own.calculator_does, OF C_got] stuck assms(3) [OF C_got] by blast
  qed simp
qed

lemma rest_drained:
  assumes "sreach n k w c s" and "at_rest n k s" and "\<not> st_late s" and "0 < w"
    and "\<And>i x now. i < w \<Longrightarrow> st_writers s ! i = W_got x \<Longrightarrow> Writer_log i x now (pipe s) \<noteq> None"
    and "\<And>x clock. st_calculator s = C_got x \<Longrightarrow> Calculator_item n (x, clock) (st_calc s) \<noteq> None"
  shows "contents (m_queue (st_api s)) = [] \<and> contents (m_queue (st_calcq s)) = [] \<and>
    (\<forall>v \<in> set (p_writers (pipe s)). v = W_get \<or> v = W_done) \<and>
    (p_calculator (pipe s) = C_get \<or> p_calculator (pipe s) = C_done)"
proof -
  note w = sreach_writers [OF assms(1)] and rest = rest_monitors [OF assms(1,2)]
  have exit: "inv_exit (pipe s)" using pipes.mapped assms(1,3) preach_exit by blast
  note sleep = resting_sleepers [OF api.mapped [OF assms(1)] rest(1)]
    resting_sleepers [OF calcq.mapped [OF assms(1)] rest(4)]
  note calculator = rest_calculator [OF assms(1,2) assms(6)]
  have calcq: "contents (m_queue (st_calcq s)) = []"
    using calculator sleep(2) exit rest(5) by (auto simp: inv_exit_def)
  have writer: "st_writers s ! i = W_done \<or> st_writers s ! i = W_get \<and> m_pc (st_api s) i = Rem_wait" if "i < w" for i
    using rest_writer [OF assms(1,2) that assms(5) [OF that]] sleep(2) calcq by fastforce
  have view: "p_writers (pipe s) ! i = st_writers s ! i" if "i < w" for i
  proof -
    have "writer_fits (m_pc (st_api s) i) (st_writers s ! i) (m_pc (st_calcq s) i)"
      using sreach_places [OF assms(1)] w that by (simp add: inv_places_def)
    then show ?thesis using writer [OF that] that w by (auto simp: views_nth phase_of_def)
  qed
  have "contents (m_queue (st_api s)) = []"
  proof (cases "st_writers s ! 0 = W_done")
    case True
    then have "W_done \<in> set (p_writers (pipe s))" using view [OF assms(4)] assms(4) w nth_mem [of 0 "p_writers (pipe s)"] by simp
    then show ?thesis using exit rest(2) by (simp add: inv_exit_def)
  qed (use writer [OF assms(4)] sleep(1) in blast)
  moreover have "\<forall>v \<in> set (p_writers (pipe s)). v = W_get \<or> v = W_done"
  proof -
    have "length (p_writers (pipe s)) = w" using w by simp
    moreover have "p_writers (pipe s) ! i = W_get \<or> p_writers (pipe s) ! i = W_done" if "i < w" for i
      using writer [OF that] view [OF that] by auto
    ultimately show ?thesis by (simp add: all_set_conv_all_nth del: pipe_simps)
  qed
  moreover have "p_calculator (pipe s) = C_get \<or> p_calculator (pipe s) = C_done"
    using calculator w by (auto simp: phase_of_def)
  ultimately show ?thesis using calcq by blast
qed


section \<open>A run\<close>

text \<open>
  A run for one trade with undisturbed calls.  Between the calls a state is described by where
  the threads stand on each queue and what is inside, the writers, the calculator and what
  was accepted; the exit is not ordered and nothing is late.
\<close>

type_synonym stage_view = "(nat \<Rightarrow> pc) \<times> WorkItem list \<times> (nat \<Rightarrow> pc) \<times> WorkItem list \<times> writer_pc list \<times>
  calculator_pc \<times> WorkItem list"

definition quiet_queue :: "monitor \<Rightarrow> bool" where
  "quiet_queue m \<longleftrightarrow> m_owner m = None \<and> \<not> q_exit_flag (m_queue m)"

definition sits :: "nat \<Rightarrow> nat \<Rightarrow> nat \<Rightarrow> calc_files \<Rightarrow> stage_view \<Rightarrow> stages \<Rightarrow> bool" where
  "sits n k w c v s \<longleftrightarrow> sreach n k w c s \<and> \<not> st_late s \<and> quiet_queue (st_api s) \<and> quiet_queue (st_calcq s) \<and>
     v = (m_pc (st_api s), contents (m_queue (st_api s)), m_pc (st_calcq s), contents (m_queue (st_calcq s)),
       st_writers s, st_calculator s, m_accepted (st_api s))"

lemma sitsD:
  assumes "sits n k w c (f, xs, g, ys, ws, l, acc) s"
  shows "sreach n k w c s" "\<not> st_late s" "quiet_queue (st_api s)" "quiet_queue (st_calcq s)"
    "m_pc (st_api s) = f" "contents (m_queue (st_api s)) = xs" "m_pc (st_calcq s) = g"
    "contents (m_queue (st_calcq s)) = ys" "st_writers s = ws" "st_calculator s = l" "m_accepted (st_api s) = acc"
    "wf_queue (m_queue (st_api s))" "wf_queue (m_queue (st_calcq s))" "writer_count s = w"
  using assms good_wf sreach_good [of n k w c s] sreach_writers [of n k w c s] by (auto simp: sits_def)

lemma sits_step:
  assumes "sits n k w c v s" and "stage_step n k s s'" and "\<not> st_late s'"
    and "quiet_queue (st_api s')" and "quiet_queue (st_calcq s')"
    and "v' = (m_pc (st_api s'), contents (m_queue (st_api s')), m_pc (st_calcq s'), contents (m_queue (st_calcq s')),
       st_writers s', st_calculator s', m_accepted (st_api s'))"
  shows "sits n k w c v' s'"
  using assms sreach.step unfolding sits_def by blast

lemma sreach_api_calm:
  assumes "(calm_step t)\<^sup>*\<^sup>* (st_api s) m" and "sreach n k w c s" and "t < w + k"
  shows "sreach n k w c (s\<lparr>st_api := m\<rparr>)"
  using assms(1)
proof (induction rule: rtranclp_induct)
  case base
  then show ?case using assms(2) by simp
next
  case (step y z)
  have "\<not> is_late (effect_of y t)" using step(2) by (cases "effect_of y t") (auto simp: calm_step_def)
  then have "own_step n k (s\<lparr>st_api := y\<rparr>) (s\<lparr>st_api := z\<rparr>)"
    using own_step.api_step [of t "s\<lparr>st_api := y\<rparr>" k z n] step(2) assms(3) sreach_writers [OF assms(2)]
    by (cases s) (simp add: calm_step_def)
  then show ?case using sreach.step [OF step(3)] by (simp add: stage_step_def)
qed

lemma sreach_calcq_calm:
  assumes "(calm_step t)\<^sup>*\<^sup>* (st_calcq s) m" and "sreach n k w c s" and "t < w + 1"
  shows "sreach n k w c (s\<lparr>st_calcq := m\<rparr>)"
  using assms(1)
proof (induction rule: rtranclp_induct)
  case base
  then show ?case using assms(2) by simp
next
  case (step y z)
  have "\<not> is_late (effect_of y t)" "refused_items (effect_of y t) = []"
    using step(2) by (cases "effect_of y t"; auto simp: calm_step_def)+
  then have "own_step n k (s\<lparr>st_calcq := y\<rparr>) (s\<lparr>st_calcq := z\<rparr>)"
    using own_step.calc_step [of t "s\<lparr>st_calcq := y\<rparr>" z n k] step(2) assms(3) sreach_writers [OF assms(2)]
    by (cases s) (simp add: calm_step_def)
  then show ?case using sreach.step [OF step(3)] by (simp add: stage_step_def)
qed

lemma sits_api_calm:
  assumes "sits n k w c (f, xs, g, ys, ws, l, acc) s" and "(calm_step t)\<^sup>*\<^sup>* (st_api s) m" and "t < w + k"
    and "quiet_queue m" and "v = (m_pc m, contents (m_queue m), g, ys, ws, l, m_accepted m)"
  shows "sits n k w c v (s\<lparr>st_api := m\<rparr>)"
  using sreach_api_calm [OF assms(2) sitsD(1) [OF assms(1)] assms(3)] assms(1,4,5) by (simp add: sits_def)

lemma sits_calcq_calm:
  assumes "sits n k w c (f, xs, g, ys, ws, l, acc) s" and "(calm_step t)\<^sup>*\<^sup>* (st_calcq s) m" and "t < w + 1"
    and "quiet_queue m" and "v = (f, xs, m_pc m, contents (m_queue m), ws, l, acc)"
  shows "sits n k w c v (s\<lparr>st_calcq := m\<rparr>)"
  using sreach_calcq_calm [OF assms(2) sitsD(1) [OF assms(1)] assms(3)] assms(1,4,5) by (simp add: sits_def)

text \<open>The undisturbed calls on a queue, by its items.\<close>

lemma calm_add:
  assumes "quiet_queue m" and "wf_queue (m_queue m)" and "m_pc m t = Add_lock x" and "length (contents (m_queue m)) < 2000"
    and "\<And>u. m_pc m u \<noteq> Rem_wait"
  shows "\<exists>m'. (calm_step t)\<^sup>*\<^sup>* m m' \<and> quiet_queue m' \<and> m_pc m' = (m_pc m)(t := Add_done 0) \<and>
    contents (m_queue m') = contents (m_queue m) @ [x] \<and> m_accepted m' = m_accepted m @ [x]"
proof -
  have f: "\<not> q_full (m_queue m)" using ring.full_iff [OF assms(2)] assms(4) by (simp add: QUEUE_SIZE_def)
  have "(calm_step t)\<^sup>*\<^sup>* m (goto t (Add_done 0) (accept x m))"
    using assms f by (intro call_calm [OF call_add]) (auto simp: quiet_queue_def)
  then show ?thesis
    using assms(1) ring.items_put [OF assms(2) f]
    by (intro exI [of _ "goto t (Add_done 0) (accept x m)"]) (simp add: quiet_queue_def)
qed

lemma calm_take:
  assumes "quiet_queue m" and "wf_queue (m_queue m)" and "m_pc m t = Rem_lock" and "contents (m_queue m) = x # xs"
    and "\<And>u y. m_pc m u \<noteq> Add_wait y"
  shows "\<exists>m'. (calm_step t)\<^sup>*\<^sup>* m m' \<and> quiet_queue m' \<and> m_pc m' = (m_pc m)(t := Rem_done (Some x)) \<and>
    contents (m_queue m') = xs \<and> m_accepted m' = m_accepted m"
proof -
  have e: "\<not> q_empty (m_queue m)" using ring.empty_iff [OF assms(2)] assms(4) by simp
  have x: "fst (queue_take (m_queue m)) = Some x" using ring.fst_get [OF assms(2) e] assms(4) by simp
  have "(calm_step t)\<^sup>*\<^sup>* m (goto t (Rem_done (fst (queue_take (m_queue m)))) (deliver m))"
    using assms e by (intro call_calm [OF call_take]) (auto simp: quiet_queue_def)
  then show ?thesis
    using assms(1,4) x ring.items_get [OF assms(2) e]
    by (intro exI [of _ "goto t (Rem_done (Some x)) (deliver m)"]) (simp add: quiet_queue_def)
qed

lemma calm_sleep:
  assumes "quiet_queue m" and "wf_queue (m_queue m)" and "m_pc m t = Rem_lock" and "contents (m_queue m) = []"
  shows "(calm_step t)\<^sup>*\<^sup>* m (goto t Rem_wait m)"
  using assms ring.empty_iff [OF assms(2)] by (intro silent_calm [OF sleeps]) (auto simp: quiet_queue_def)

lemma sits_start: "sits n k w c (\<lambda>_. Idle, [], \<lambda>_. Idle, [], replicate w W_get, C_start, []) (stages_start n w c)"
  by (simp add: sits_def sreach.start quiet_queue_def) (simp add: stages_start_def m_init_def)

text \<open>An item arrives while nobody waits.\<close>

lemma sits_arrive:
  assumes "sits n k w c (f, xs, g, ys, ws, l, acc) s" and "w \<le> t" and "t < w + k" and "f t = Idle"
    and "length xs < 2000" and "\<And>u. f u \<noteq> Rem_wait"
  shows "\<exists>s. sits n k w c (f, xs @ [x], g, ys, ws, l, acc @ [x]) s"
proof -
  note d = sitsD [OF assms(1)]
  have step: "stage_step n k s (s\<lparr>st_api := goto t (Add_lock x) (st_api s)\<rparr>)"
    using assms(2-4) d(5,14) by (auto simp: stage_step_def intro!: outer_step.producer_call)
  obtain s1 where s1: "sits n k w c (f(t := Add_lock x), xs, g, ys, ws, l, acc) s1"
    by (rule that, rule sits_step [OF assms(1) step]) (use d in \<open>simp_all add: quiet_queue_def\<close>)
  note e = sitsD [OF s1]
  have free: "m_pc (st_api s1) u \<noteq> Rem_wait" for u using e(5) assms(6) by simp
  obtain m where m: "(calm_step t)\<^sup>*\<^sup>* (st_api s1) m" "quiet_queue m" "m_pc m = f(t := Add_done 0)"
    "contents (m_queue m) = xs @ [x]" "m_accepted m = acc @ [x]"
    using calm_add [OF e(3,12) _ _ free, of t x] e(5,6,11) assms(5) by auto
  obtain s2 where s2: "sits n k w c (f(t := Add_done 0), xs @ [x], g, ys, ws, l, acc @ [x]) s2"
    by (rule that, rule sits_api_calm [OF s1 m(1)]) (use m assms(2,3) in simp_all)
  note e2 = sitsD [OF s2]
  have step: "stage_step n k s2 (s2\<lparr>st_api := goto t Idle (st_api s2)\<rparr>)"
    using assms(2,3) e2(5,14) by (auto simp: stage_step_def intro!: own_step.producer_return)
  show ?thesis
    by (intro exI, rule sits_step [OF s2 step]) (use e2 assms(4) in \<open>simp_all add: quiet_queue_def fun_upd_idem\<close>)
qed

text \<open>A writer takes an item, logs it and passes it on; \<open>good\<close> items can be logged.\<close>

lemma sits_logs:
  assumes "sits n k w c (f, xs, g, ys, ws, l, acc) s" and "i < w" and "ws ! i = W_got x" and "calc_ready n c"
    and "\<forall>x \<in> set acc. is_trade x \<longrightarrow> symbol_index (item_trade x) < n"
  shows "\<exists>s. sits n k w c (f, xs, g, ys, ws[i := W_add x], l, acc) s"
proof -
  note d = sitsD [OF assms(1)]
  have "settled_items (st_api s) = acc" using d(3,11) by (simp add: quiet_queue_def settled_items_def pending_free)
  moreover have "i < length (p_writers (pipe s))" "p_writers (pipe s) ! i = W_got x"
    using assms(2,3) d(9,14) by (auto simp: views_nth)
  ultimately have "Writer_log i x (item_event_time x) (pipe s) \<noteq> None"
    using held_items_processable [OF pipes.mapped assms(4), of k w s] d(1,2) assms(5) by auto
  then obtain p where p: "Writer_log i x (item_event_time x) (pipe s) = Some p" by blast
  have step: "stage_step n k s (s\<lparr>st_trade_files := p_trade_files p, st_writer_delays := p_writer_delays p,
      st_logged := p_logged p, st_writers := (st_writers s)[i := W_add x]\<rparr>)"
    unfolding stage_step_def by (rule disjI1, rule own_step.writer [OF _ writer_own.log_item, OF _ _ p]) (use assms(2,3) d(9,14) in simp_all)
  show ?thesis
    by (intro exI, rule sits_step [OF assms(1) step]) (use d in \<open>simp_all add: quiet_queue_def\<close>)
qed

lemma sits_writer:
  assumes "sits n k w c (f, x # xs, g, ys, ws, l, acc) s" and "i < w" and "f i = Rem_lock" and "g i = Idle"
    and "ws ! i = W_get" and "length ys < 2000" and "\<forall>u y. f u \<noteq> Add_wait y" and "\<forall>u. g u \<noteq> Rem_wait"
    and "calc_ready n c" and "\<forall>x \<in> set acc. is_trade x \<longrightarrow> symbol_index (item_trade x) < n"
  shows "\<exists>s. sits n k w c (f, xs, g, ys @ [x], ws, l, acc) s"
proof -
  note d = sitsD [OF assms(1)]
  obtain m where m: "(calm_step i)\<^sup>*\<^sup>* (st_api s) m" "quiet_queue m" "m_pc m = f(i := Rem_done (Some x))"
    "contents (m_queue m) = xs" "m_accepted m = acc"
    using calm_take [OF d(3,12), of i x xs] d(5,6,11) assms(3,7) by auto
  obtain s1 where s1: "sits n k w c (f(i := Rem_done (Some x)), xs, g, ys, ws, l, acc) s1"
    by (rule that, rule sits_api_calm [OF assms(1) m(1)]) (use m assms(2,3) in simp_all)
  note d1 = sitsD [OF s1]
  have step: "stage_step n k s1 (s1\<lparr>st_writers := (st_writers s1)[i := W_got x]\<rparr>)"
    using assms(2,5) d1(5,9,14) by (auto simp: stage_step_def intro!: own_step.writer [OF _ writer_own.writer_item])
  obtain s2 where s2: "sits n k w c (f(i := Rem_done (Some x)), xs, g, ys, ws[i := W_got x], l, acc) s2"
    by (rule that, rule sits_step [OF s1 step]) (use d1 in \<open>simp_all add: quiet_queue_def\<close>)
  note d2 = sitsD [OF s2]
  obtain s3 where s3: "sits n k w c (f(i := Rem_done (Some x)), xs, g, ys, ws[i := W_add x], l, acc) s3"
    using sits_logs [OF s2 assms(2) _ assms(9,10)] assms(2) d2(9,14) by auto
  note d3 = sitsD [OF s3]
  have step: "stage_step n k s3 (s3\<lparr>st_calcq := goto i (Add_lock x) (st_calcq s3)\<rparr>)"
    using assms(2,4) d3(7,9,14) by (auto simp: stage_step_def intro!: own_step.writer [OF _ writer_own.writer_call_add])
  obtain s4 where s4:
    "sits n k w c (f(i := Rem_done (Some x)), xs, g(i := Add_lock x), ys, ws[i := W_add x], l, acc) s4"
    by (rule that, rule sits_step [OF s3 step]) (use d3 in \<open>simp_all add: quiet_queue_def\<close>)
  note d4 = sitsD [OF s4]
  have free: "m_pc (st_calcq s4) u \<noteq> Rem_wait" for u using d4(7) assms(8) by simp
  obtain m where m: "(calm_step i)\<^sup>*\<^sup>* (st_calcq s4) m" "quiet_queue m" "m_pc m = g(i := Add_done 0)"
    "contents (m_queue m) = ys @ [x]"
    using calm_add [OF d4(4,13) _ _ free, of i x] d4(7,8) assms(6) by auto
  obtain s5 where s5:
    "sits n k w c (f(i := Rem_done (Some x)), xs, g(i := Add_done 0), ys @ [x], ws[i := W_add x], l, acc) s5"
    by (rule that, rule sits_calcq_calm [OF s4 m(1)]) (use m assms(2,3) in simp_all)
  note d5 = sitsD [OF s5]
  have step: "stage_step n k s5 (s5\<lparr>st_calcq := goto i Idle (st_calcq s5), st_api := goto i Rem_lock (st_api s5),
      st_writers := (st_writers s5)[i := W_get]\<rparr>)"
    unfolding stage_step_def
    by (rule disjI1, rule own_step.writer [OF _ writer_own.writer_added]) (use assms(2) d5(5,7,9,14) in simp_all)
  show ?thesis
    by (intro exI, rule sits_step [OF s5 step])
      (use d5 assms(3-5) list_update_id [of ws i] in \<open>simp_all add: quiet_queue_def fun_upd_idem\<close>)
qed

text \<open>A writer begins its first call, and a writer falls asleep on the empty queue.\<close>

lemma sits_writer_begins:
  assumes "sits n k w c (f, xs, g, ys, ws, l, acc) s" and "i < w" and "f i = Idle" and "ws ! i = W_get"
  shows "\<exists>s. sits n k w c (f(i := Rem_lock), xs, g, ys, ws, l, acc) s"
proof -
  note d = sitsD [OF assms(1)]
  have step: "stage_step n k s (s\<lparr>st_api := goto i Rem_lock (st_api s)\<rparr>)"
    unfolding stage_step_def by (rule disjI1, rule own_step.writer [OF _ writer_own.writer_call]) (use assms(2-4) d(5,9,14) in simp_all)
  show ?thesis
    by (intro exI, rule sits_step [OF assms(1) step]) (use d in \<open>simp_all add: quiet_queue_def\<close>)
qed

lemma sits_writer_sleeps:
  assumes "sits n k w c (f, [], g, ys, ws, l, acc) s" and "i < w" and "f i = Rem_lock"
  shows "\<exists>s. sits n k w c (f(i := Rem_wait), [], g, ys, ws, l, acc) s"
proof -
  note d = sitsD [OF assms(1)]
  have "(calm_step i)\<^sup>*\<^sup>* (st_api s) (goto i Rem_wait (st_api s))"
    using d(5,6) assms(3) by (intro calm_sleep [OF d(3,12)]) simp_all
  then show ?thesis
    by (intro exI, rule sits_api_calm [OF assms(1)]) (use d assms(2) in \<open>simp_all add: quiet_queue_def\<close>)
qed

text \<open>The calculator begins, handles an item, and falls asleep.\<close>

lemma sits_calculator_begins:
  assumes "sits n k w c (f, xs, g, ys, ws, C_start, acc) s" and "g w = Idle"
  shows "\<exists>s. sits n k w c (f, xs, g(w := Rem_lock), ys, ws, C_get, acc) s"
proof -
  note d = sitsD [OF assms(1)]
  have step: "stage_step n k s (s\<lparr>st_calculator := C_get, st_calc := Calculator_start n (st_calc s),
      st_calcq := goto (writer_count s) Rem_lock (st_calcq s)\<rparr>)"
    unfolding stage_step_def by (rule disjI1, rule own_step.calculator [OF calculator_own.calculator_init]) (use assms(2) d(7,10,14) in simp_all)
  show ?thesis
    by (intro exI, rule sits_step [OF assms(1) step]) (use d in \<open>simp_all add: quiet_queue_def\<close>)
qed

lemma sits_calculator:
  assumes "sits n k w c (f, xs, g, y # ys, ws, C_get, acc) s" and "g w = Rem_lock" and "\<forall>u z. g u \<noteq> Add_wait z"
    and "calc_ready n c" and "\<forall>x \<in> set acc. is_trade x \<longrightarrow> symbol_index (item_trade x) < n"
  shows "\<exists>s. sits n k w c (f, xs, g, ys, ws, C_get, acc) s"
proof -
  note d = sitsD [OF assms(1)]
  obtain m where m: "(calm_step w)\<^sup>*\<^sup>* (st_calcq s) m" "quiet_queue m" "m_pc m = g(w := Rem_done (Some y))"
    "contents (m_queue m) = ys"
    using calm_take [OF d(4,13), of w y ys] d(7,8) assms(2,3) by auto
  obtain s1 where s1: "sits n k w c (f, xs, g(w := Rem_done (Some y)), ys, ws, C_get, acc) s1"
    by (rule that, rule sits_calcq_calm [OF assms(1) m(1)]) (use m in simp_all)
  note d1 = sitsD [OF s1]
  have step: "stage_step n k s1 (s1\<lparr>st_calculator := C_got y\<rparr>)"
    unfolding stage_step_def by (rule disjI1, rule own_step.calculator [OF calculator_own.calculator_got]) (use d1(7,10,14) in simp_all)
  obtain s2 where s2: "sits n k w c (f, xs, g(w := Rem_done (Some y)), ys, ws, C_got y, acc) s2"
    by (rule that, rule sits_step [OF s1 step]) (use d1 in \<open>simp_all add: quiet_queue_def\<close>)
  note d2 = sitsD [OF s2]
  let ?clock = "\<lambda>_. item_event_time y"
  have "settled_items (st_api s2) = acc" using d2(3,11) by (simp add: quiet_queue_def settled_items_def pending_free)
  then have "Calculator_item n (y, ?clock) (st_calc s2) \<noteq> None"
    using held_items_processable [OF pipes.mapped assms(4), of k w s2 _ ?clock] d2(1,2,10) assms(5) by auto
  then obtain c' where c': "Calculator_item n (y, ?clock) (st_calc s2) = Some c'" by blast
  have step: "stage_step n k s2 (s2\<lparr>st_calculator := C_get, st_calc := c', st_handled := st_handled s2 @ [(y, ?clock)],
      st_calcq := goto (writer_count s2) Rem_lock (st_calcq s2)\<rparr>)"
    unfolding stage_step_def by (rule disjI1, rule own_step.calculator [OF calculator_own.calculator_does, OF _ _ c']) (use d2(7,10,14) in simp_all)
  show ?thesis
    by (intro exI, rule sits_step [OF s2 step]) (use d2 assms(2) in \<open>simp_all add: quiet_queue_def fun_upd_idem\<close>)
qed

lemma sits_calculator_sleeps:
  assumes "sits n k w c (f, xs, g, [], ws, l, acc) s" and "g w = Rem_lock"
  shows "\<exists>s. sits n k w c (f, xs, g(w := Rem_wait), [], ws, l, acc) s"
proof -
  note d = sitsD [OF assms(1)]
  have "(calm_step w)\<^sup>*\<^sup>* (st_calcq s) (goto w Rem_wait (st_calcq s))"
    using d(7,8) assms(2) by (intro calm_sleep [OF d(4,13)]) simp_all
  then show ?thesis
    by (intro exI, rule sits_calcq_calm [OF assms(1)]) (use d in \<open>simp_all add: quiet_queue_def\<close>)
qed

text \<open>One writer, one producer: the trade has gone all the way and both threads sleep.\<close>

lemma one_trade_run:
  "\<exists>s. sits 1 1 1 ready_files ((\<lambda>_. Idle)(0 := Rem_wait), [], (\<lambda>_. Idle)(1 := Rem_wait), [], [W_get], C_get,
     [first_trade]) s"
proof -
  have valid: "\<forall>x \<in> set [first_trade]. is_trade x \<longrightarrow> symbol_index (item_trade x) < 1" by (simp add: first_items)
  have awake: "\<forall>u y. ((\<lambda>_. Idle)(0 := Rem_lock)) u \<noteq> Add_wait y" by simp
  have awake': "\<forall>u y. ((\<lambda>_. Idle)(1 := Rem_lock)) u \<noteq> Add_wait y" by simp
  have "sits 1 1 1 ready_files (\<lambda>_. Idle, [], \<lambda>_. Idle, [], [W_get], C_start, []) (stages_start 1 1 ready_files)"
    using sits_start [of 1 1 1 ready_files] by simp
  from sits_arrive [OF this, of 1 first_trade]
  obtain s where "sits 1 1 1 ready_files (\<lambda>_. Idle, [first_trade], \<lambda>_. Idle, [], [W_get], C_start, [first_trade]) s" by auto
  from sits_writer_begins [OF this, of 0] obtain s where
    "sits 1 1 1 ready_files ((\<lambda>_. Idle)(0 := Rem_lock), [first_trade], \<lambda>_. Idle, [], [W_get], C_start, [first_trade]) s" by auto
  from sits_writer [where i = 0 and f = "(\<lambda>_. Idle)(0 := Rem_lock)", OF this _ _ _ _ _ awake _ ready_ready_files valid] obtain s where
    "sits 1 1 1 ready_files ((\<lambda>_. Idle)(0 := Rem_lock), [], \<lambda>_. Idle, [first_trade], [W_get], C_start, [first_trade]) s" by auto
  from sits_writer_sleeps [OF this, of 0] obtain s where
    "sits 1 1 1 ready_files ((\<lambda>_. Idle)(0 := Rem_wait), [], \<lambda>_. Idle, [first_trade], [W_get], C_start, [first_trade]) s" by auto
  from sits_calculator_begins [OF this] obtain s where
    "sits 1 1 1 ready_files ((\<lambda>_. Idle)(0 := Rem_wait), [], (\<lambda>_. Idle)(1 := Rem_lock), [first_trade], [W_get], C_get,
       [first_trade]) s" by auto
  from sits_calculator [where g = "(\<lambda>_. Idle)(1 := Rem_lock)", OF this _ awake' ready_ready_files valid] obtain s where
    "sits 1 1 1 ready_files ((\<lambda>_. Idle)(0 := Rem_wait), [], (\<lambda>_. Idle)(1 := Rem_lock), [], [W_get], C_get, [first_trade]) s"
    by auto
  from sits_calculator_sleeps [OF this] show ?thesis by simp
qed

lemma asleep_at_rest:
  assumes "sits n k w c (f, xs, g, ys, replicate w W_get, C_get, acc) s"
    and "\<And>i. i < w \<Longrightarrow> f i = Rem_wait" "\<And>t. w \<le> t \<Longrightarrow> f t = Idle" "\<And>i. i < w \<Longrightarrow> g i = Idle" and "g w = Rem_wait"
  shows "at_rest n k s"
proof -
  note d = sitsD [OF assms(1)]
  have f: "f t = Rem_wait \<or> f t = Idle" for t using assms(2,3) by (cases "t < w") auto
  have "\<not> thread_step t (st_api s) m" for t m
    using f [of t] d(5) by (auto elim!: thread_step.cases)
  moreover have "\<not> thread_step t (st_calcq s) m" if "t < w + 1" for t m
    using assms(4) [of t] assms(5) d(7) that by (cases "t = w") (auto elim!: thread_step.cases)
  ultimately show ?thesis
    using assms d(5,7,9,10,14) unfolding at_rest_def by (auto elim!: own_step.cases writer_own.cases calculator_own.cases)
qed


lemma stages_refine_pipeline_witness:
  "\<exists>s. sreach 1 1 1 ready_files s \<and> preach 1 1 ready_files (pipe s) \<and> p_arrived (pipe s) = [first_trade]"
proof -
  obtain s where s: "sits 1 1 1 ready_files ((\<lambda>_. Idle)(0 := Rem_wait), [], (\<lambda>_. Idle)(1 := Rem_wait), [], [W_get], C_get,
     [first_trade]) s" using one_trade_run by blast
  note d = sitsD [OF s]
  have "p_arrived (pipe s) = [first_trade]"
    using d(3,11) by (simp add: settled_items_def quiet_queue_def pending_free)
  then show ?thesis using stages_refine_pipeline [OF d(1,2)] d(1) by blast
qed

end
