(* ===== verification/Client.thy ===== *)
theory Client
  imports WSSHandling
begin

text \<open>
  \<^verbatim>\<open>WSSClient\<close> of \<^verbatim>\<open>src/ThreadRoutines.c\<close>: the thread that connects, serves the
  connection, reconnects when it is closed, and wakes a consumer when it ends.  The answers
  of the library at each attempt and the exit order come from outside at any time; while the
  thread is inside the library, a callback may set the flag of a closed connection.
\<close>

datatype client_pc = K_loop | K_setup | K_sleep | K_service | K_serving | K_check | K_destroy | K_close | K_done

text \<open>\<open>k_failed\<close> records the contexts whose connection failed; the program does not have it.\<close>

record client =
  k_pc :: client_pc
  k_exit_flag :: bool
  k_connection_closed :: bool
  k_wss :: WSS_Objects
  k_contexts :: contexts
  k_signalled :: bool
  k_failed :: "nat set"

definition client_start :: client where
  "client_start = \<lparr>k_pc = K_loop, k_exit_flag = False, k_connection_closed = False,
     k_wss = \<lparr>wss_ctx = None, wss_wsi = None\<rparr>,
     k_contexts = \<lparr>created = 0, live = {}, sigint_bound = False\<rparr>, k_signalled = False, k_failed = {}\<rparr>"

text \<open>The attempt to connect, and where the thread goes from there.\<close>

definition client_connect :: "connect_lib \<Rightarrow> string \<Rightarrow> client \<Rightarrow> client" where
  "client_connect lib api_key s =
     (let (wss, cs) = finnhub_connection_setup lib api_key (k_contexts s);
          s1 = s\<lparr>k_wss := wss, k_contexts := cs,
            k_failed := k_failed s \<union> (if wss_ctx wss = None then {created (k_contexts s)..<created cs} else {})\<rparr> in
      if wss_ctx wss = None \<or> wss_wsi wss = None then s1\<lparr>k_pc := K_sleep\<rparr>
      else s1\<lparr>k_connection_closed := False, k_pc := K_service\<rparr>)"

inductive client_step :: "string \<Rightarrow> client \<Rightarrow> client \<Rightarrow> bool" for api_key where
  loop: "k_pc s = K_loop \<Longrightarrow>
    client_step api_key s (s\<lparr>k_pc := (if k_exit_flag s then K_close else K_setup)\<rparr>)"
| attempt: "k_pc s = K_setup \<Longrightarrow> client_step api_key s (client_connect lib api_key s)"
| slept: "k_pc s = K_sleep \<Longrightarrow> client_step api_key s (s\<lparr>k_pc := K_loop\<rparr>)"
| service: "k_pc s = K_service \<Longrightarrow> \<not> k_connection_closed s \<Longrightarrow>
    client_step api_key s (s\<lparr>k_pc := K_serving\<rparr>)"
| call_back: "k_pc s \<in> {K_setup, K_serving, K_destroy} \<Longrightarrow>
    client_step api_key s (s\<lparr>k_connection_closed := True\<rparr>)"
| served: "k_pc s = K_serving \<Longrightarrow> client_step api_key s (s\<lparr>k_pc := K_check\<rparr>)"
| closed: "k_pc s = K_service \<Longrightarrow> k_connection_closed s \<Longrightarrow> client_step api_key s (s\<lparr>k_pc := K_destroy\<rparr>)"
| check: "k_pc s = K_check \<Longrightarrow>
    client_step api_key s (s\<lparr>k_pc := (if k_exit_flag s then K_destroy else K_service)\<rparr>)"
| destroy: "k_pc s = K_destroy \<Longrightarrow>
    client_step api_key s (s\<lparr>k_contexts := lws_context_destroy (wss_ctx (k_wss s)) (k_contexts s), k_pc := K_loop\<rparr>)"
| finish: "k_pc s = K_close \<Longrightarrow> client_step api_key s (s\<lparr>k_signalled := queue_is_empty, k_pc := K_done\<rparr>)"
| exit_order: "client_step api_key s (s\<lparr>k_exit_flag := True\<rparr>)"

inductive client_reach :: "string \<Rightarrow> client \<Rightarrow> bool" for api_key where
  start: "client_reach api_key client_start"
| step: "client_reach api_key s \<Longrightarrow> client_step api_key s s' \<Longrightarrow> client_reach api_key s'"

text \<open>The contexts that are in use at a program point.\<close>

definition in_use :: "client \<Rightarrow> nat set" where
  "in_use s = (if k_pc s \<in> {K_service, K_serving, K_check, K_destroy} then set_option (wss_ctx (k_wss s)) else {})"

definition inv_client :: "client \<Rightarrow> bool" where
  "inv_client s \<longleftrightarrow> live (k_contexts s) = k_failed s \<union> in_use s \<and> k_failed s \<inter> in_use s = {} \<and>
     (\<forall>k \<in> live (k_contexts s). k < created (k_contexts s)) \<and>
     (k_pc s \<in> {K_close, K_done} \<longrightarrow> k_exit_flag s)"

abbreviation grants_context :: "connect_lib \<Rightarrow> bool" where
  "grants_context lib \<equiv> lws_create_context lib context_info"

abbreviation grants_wsi :: "connect_lib \<Rightarrow> nat \<Rightarrow> string \<Rightarrow> nat option" where
  "grants_wsi lib ctx api_key \<equiv> lws_client_connect_via_info lib (connect_info ctx api_key)"

lemma setup_cases:
  "\<not> grants_context lib \<Longrightarrow> finnhub_connection_setup lib key c = (\<lparr>wss_ctx = None, wss_wsi = None\<rparr>, c)"
  "grants_context lib \<Longrightarrow> grants_wsi lib (created c) key = None \<Longrightarrow> finnhub_connection_setup lib key c =
     (\<lparr>wss_ctx = None, wss_wsi = None\<rparr>, c\<lparr>created := created c + 1, live := insert (created c) (live c)\<rparr>)"
  "grants_context lib \<Longrightarrow> grants_wsi lib (created c) key = Some w \<Longrightarrow> finnhub_connection_setup lib key c =
     (\<lparr>wss_ctx = Some (created c), wss_wsi = Some w\<rparr>,
      c\<lparr>created := created c + 1, live := insert (created c) (live c), sigint_bound := True\<rparr>)"
  by (simp_all add: finnhub_connection_setup_def lws_context_destroy_def Let_def)

lemma connect_cases:
  "\<not> grants_context lib \<Longrightarrow> client_connect lib key s = s\<lparr>k_wss := \<lparr>wss_ctx = None, wss_wsi = None\<rparr>, k_pc := K_sleep\<rparr>"
  "grants_context lib \<Longrightarrow> grants_wsi lib (created (k_contexts s)) key = None \<Longrightarrow> client_connect lib key s =
     s\<lparr>k_wss := \<lparr>wss_ctx = None, wss_wsi = None\<rparr>, k_contexts := (k_contexts s)\<lparr>created := created (k_contexts s) + 1,
       live := insert (created (k_contexts s)) (live (k_contexts s))\<rparr>,
       k_failed := insert (created (k_contexts s)) (k_failed s), k_pc := K_sleep\<rparr>"
  "grants_context lib \<Longrightarrow> grants_wsi lib (created (k_contexts s)) key = Some w \<Longrightarrow> client_connect lib key s =
     s\<lparr>k_wss := \<lparr>wss_ctx = Some (created (k_contexts s)), wss_wsi = Some w\<rparr>,
       k_contexts := (k_contexts s)\<lparr>created := created (k_contexts s) + 1,
         live := insert (created (k_contexts s)) (live (k_contexts s)), sigint_bound := True\<rparr>,
       k_connection_closed := False, k_pc := K_service\<rparr>"
  by (simp_all add: client_connect_def setup_cases Let_def)

lemma client_connect_inv:
  assumes "inv_client s" and "k_pc s = K_setup"
  shows "inv_client (client_connect lib api_key s)"
proof -
  let ?k = "created (k_contexts s)"
  consider "\<not> grants_context lib" | "grants_context lib" "grants_wsi lib ?k api_key = None"
    | w where "grants_context lib" "grants_wsi lib ?k api_key = Some w" by blast
  then show ?thesis
    using assms by cases (auto simp: connect_cases inv_client_def in_use_def intro: less_SucI)
qed

lemma client_step_inv: "client_step api_key s s' \<Longrightarrow> inv_client s \<Longrightarrow> inv_client s'"
proof (induction rule: client_step.cases)
  case (attempt s lib)
  then show ?case using client_connect_inv by simp
next
  case (destroy s)
  then show ?case
    by (auto simp: inv_client_def in_use_def lws_context_destroy_def split: option.splits)
qed (auto simp: inv_client_def in_use_def)

lemma client_reach_inv: "client_reach api_key s \<Longrightarrow> inv_client s"
proof (induction rule: client_reach.induct)
  case start
  then show ?case by (simp add: inv_client_def client_start_def in_use_def)
next
  case (step s s')
  then show ?case by (blast intro: client_step_inv)
qed

text \<open>
  The connecting thread ends only after the exit order, and then the contexts still alive
  are exactly those of its failed attempts: every connection that was established has been
  torn down, whether it was closed by the server or by the exit order.
\<close>

lemma client_end:
  assumes "client_reach api_key s" and "k_pc s = K_done"
  shows "k_exit_flag s \<and> live (k_contexts s) = k_failed s"
  using client_reach_inv [OF assms(1)] assms(2) by (simp add: inv_client_def in_use_def)

text \<open>A run with one failed and one established connection.\<close>

lemma client_run:
  "\<exists>s. client_reach key s \<and> k_pc s = K_done \<and> k_failed s = {0} \<and> created (k_contexts s) = 2"
proof -
  let ?fail = "client_connect \<lparr>lws_create_context = \<lambda>_. True, lws_client_connect_via_info = \<lambda>_. None\<rparr> key"
    and ?ok = "client_connect \<lparr>lws_create_context = \<lambda>_. True, lws_client_connect_via_info = \<lambda>_. Some 7\<rparr> key"
  let ?s1 = "client_start\<lparr>k_pc := K_setup\<rparr>"
  let ?s2 = "?fail ?s1" let ?s4 = "?s2\<lparr>k_pc := K_setup\<rparr>"
  let ?s5 = "?ok ?s4"
  have 1: "client_reach key ?s1"
    using client_step.loop [of client_start key] by (intro client_reach.step [OF client_reach.start]) (simp add: client_start_def)
  have 2: "client_reach key ?s2" by (intro client_reach.step [OF 1] client_step.attempt) simp
  have "k_pc ?s2 = K_sleep" by (simp add: connect_cases)
  then have "client_reach key (?s2\<lparr>k_pc := K_loop\<rparr>)" by (intro client_reach.step [OF 2] client_step.slept)
  from client_reach.step [OF this client_step.loop] have 4: "client_reach key ?s4"
    by (simp add: connect_cases client_start_def)
  have 5: "client_reach key ?s5" by (intro client_reach.step [OF 4] client_step.attempt) simp
  have pc5: "k_pc ?s5 = K_service" "\<not> k_connection_closed ?s5"
    by (simp_all add: connect_cases)
  have "client_reach key (?s5\<lparr>k_pc := K_serving\<rparr>)"
    using pc5 by (intro client_reach.step [OF 5] client_step.service)
  from client_reach.step [OF this client_step.served]
  have "client_reach key (?s5\<lparr>k_pc := K_check\<rparr>)" by simp
  then have "client_reach key (?s5\<lparr>k_pc := K_check, k_exit_flag := True\<rparr>)"
    by (rule client_reach.step [OF _ client_step.exit_order])
  from client_reach.step [OF this client_step.check]
  have "client_reach key (?s5\<lparr>k_exit_flag := True, k_pc := K_destroy\<rparr>)" by simp
  from client_reach.step [OF this client_step.destroy]
  have "client_reach key (?s5\<lparr>k_exit_flag := True,
      k_contexts := lws_context_destroy (wss_ctx (k_wss ?s5)) (k_contexts ?s5), k_pc := K_loop\<rparr>)" (is "client_reach key ?s8")
    by simp
  from client_reach.step [OF this client_step.loop] have "client_reach key (?s8\<lparr>k_pc := K_close\<rparr>)" by simp
  from client_reach.step [OF this client_step.finish, of True]
  have "client_reach key (?s8\<lparr>k_signalled := True, k_pc := K_done\<rparr>)" by simp
  then show ?thesis
    by (intro exI [of _ "?s8\<lparr>k_signalled := True, k_pc := K_done\<rparr>"]) (simp add: connect_cases client_start_def lws_context_destroy_def)
qed

lemma client_end_witness: "\<exists>s. client_reach ''k'' s \<and> live (k_contexts s) = {0}"
proof -
  obtain s where "client_reach ''k'' s" "k_pc s = K_done" "k_failed s = {0}" using client_run by blast
  with client_end show ?thesis by metis
qed

end
