(* ===== verification/SystemHandling.thy ===== *)
theory SystemHandling
  imports Symbols
begin

text \<open>
  \<^verbatim>\<open>include/SystemHandling.h\<close> and \<^verbatim>\<open>src/SystemHandling.c\<close>: the directories and
  the log files.  The operating system is a record: the directories that exist, those that
  can be made, the paths that can be opened, and the paths opened so far.  A handle is the
  path it was opened for, \<open>None\<close> is the null pointer.
\<close>

definition FILEPATH_BUFFER_LENGTH :: nat where
  "FILEPATH_BUFFER_LENGTH = 100"

record os =
  os_dirs :: "string set"
  os_can_mkdir :: "string \<Rightarrow> bool"
  os_can_open :: "string \<Rightarrow> bool"
  os_opened :: "string list"

type_synonym handle = "string option"

text \<open>A call that returns a status, or ends the program with \<^verbatim>\<open>exit\<close>.\<close>

datatype 'a ending = Exits int os | Ends int 'a os

definition ensure_directory_exists :: "string \<Rightarrow> os \<Rightarrow> int \<times> os" where
  "ensure_directory_exists dir s =
     (if dir \<notin> os_dirs s then
        (if os_can_mkdir s dir then (0, s\<lparr>os_dirs := insert dir (os_dirs s)\<rparr>) else (- 1, s))
      else (0, s))"

text \<open>\<^verbatim>\<open>fopen(path, "a")\<close>\<close>

definition fopen_a :: "string \<Rightarrow> os \<Rightarrow> handle \<times> os" where
  "fopen_a path s =
     (if os_can_open s path then (Some path, s\<lparr>os_opened := os_opened s @ [path]\<rparr>) else (None, s))"

definition csv_path :: "string \<Rightarrow> string \<Rightarrow> string" where
  "csv_path folder sb = snprintf (FILEPATH_BUFFER_LENGTH - 1) (folder @ ''/'' @ sb @ ''.csv'')"

text \<open>
  The loop over the symbols.  The test that follows \<^verbatim>\<open>fopen\<close> compares the array of the
  handles with the null pointer, not the handle; the array of a caller never is null.
\<close>

definition array_is_null :: "handle list \<Rightarrow> bool" where
  "array_is_null handlers \<longleftrightarrow> False"

fun open_csv_loop :: "string \<Rightarrow> string list \<Rightarrow> handle list \<Rightarrow> os \<Rightarrow> handle list ending" where
  "open_csv_loop folder [] handlers s = Ends 0 handlers s"
| "open_csv_loop folder (sb # ss) handlers s =
     (let (h, s') = fopen_a (csv_path folder sb) s; handlers' = handlers @ [h] in
      if array_is_null handlers' then Ends (- 1) handlers' s'
      else open_csv_loop folder ss handlers' s')"

definition open_csv_batch :: "string \<Rightarrow> nat \<Rightarrow> os \<Rightarrow> handle list ending" where
  "open_csv_batch folder symbols_count s =
     (let (r, s') = ensure_directory_exists folder s in
      if r \<noteq> 0 then Exits (- 1) s'
      else open_csv_loop folder (take symbols_count symbols_list) [] s')"

text \<open>\<^verbatim>\<open>fclose\<close> on every handle; on a null pointer its behaviour is undefined, \<open>None\<close>.\<close>

fun close_csv_batch :: "handle list \<Rightarrow> string list option" where
  "close_csv_batch [] = Some []"
| "close_csv_batch (None # hs) = None"
| "close_csv_batch (Some path # hs) = map_option (Cons path) (close_csv_batch hs)"

definition writer_path :: "string \<Rightarrow> nat \<Rightarrow> string" where
  "writer_path folder i = snprintf FILEPATH_BUFFER_LENGTH (folder @ ''/writer_'' @ fmt_d (int i) @ ''.csv'')"

fun open_writer_loop :: "string \<Rightarrow> nat list \<Rightarrow> handle list \<Rightarrow> os \<Rightarrow> handle list ending" where
  "open_writer_loop folder [] handlers s = Ends 0 handlers s"
| "open_writer_loop folder (i # is) handlers s =
     (let (h, s') = fopen_a (writer_path folder i) s; handlers' = handlers @ [h] in
      if h = None then Ends (- 1) handlers' s' else open_writer_loop folder is handlers' s')"

definition open_delay_files :: "string \<Rightarrow> nat \<Rightarrow> os \<Rightarrow> (handle list \<times> handle) ending" where
  "open_delay_files folder writers_count s =
     (let (r, s1) = ensure_directory_exists ''./delays'' s in
      if r \<noteq> 0 then Exits (- 1) s1
      else (case open_writer_loop folder [0..<writers_count] [] s1 of
          Exits e s2 \<Rightarrow> Exits e s2
        | Ends r hs s2 \<Rightarrow>
            if r \<noteq> 0 then Ends r (hs, None) s2
            else (let (h, s3) = fopen_a (snprintf FILEPATH_BUFFER_LENGTH (folder @ ''/calculator.csv'')) s2 in
              if h = None then Ends (- 1) (hs, h) s3 else Ends 0 (hs, h) s3)))"

definition close_delay_files :: "handle list \<Rightarrow> handle \<Rightarrow> string list option" where
  "close_delay_files writers calc = close_csv_batch (writers @ [calc])"

section \<open>The batches of log files\<close>

lemma fopen_a_fst [simp]: "fst (fopen_a p s) = (if os_can_open s p then Some p else None)"
  by (simp add: fopen_a_def)

lemma fopen_a_os [simp]:
  "os_can_open (snd (fopen_a p s)) = os_can_open s" "os_dirs (snd (fopen_a p s)) = os_dirs s"
  "os_can_mkdir (snd (fopen_a p s)) = os_can_mkdir s"
  "os_opened (snd (fopen_a p s)) = os_opened s @ (if os_can_open s p then [p] else [])"
  by (simp_all add: fopen_a_def)

definition open_attempt :: "os \<Rightarrow> string \<Rightarrow> handle" where
  "open_attempt s p = (if os_can_open s p then Some p else None)"

lemma open_csv_loop_result:
  "\<exists>s'. open_csv_loop folder ss hs s = Ends 0 (hs @ map (\<lambda>sb. open_attempt s (csv_path folder sb)) ss) s' \<and>
     os_opened s' = os_opened s @ filter (os_can_open s) (map (csv_path folder) ss) \<and>
     os_can_open s' = os_can_open s \<and> os_dirs s' = os_dirs s \<and> os_can_mkdir s' = os_can_mkdir s"
proof (induction ss arbitrary: hs s)
  case (Cons sb ss)
  obtain h s1 where f: "fopen_a (csv_path folder sb) s = (h, s1)" by fastforce
  then have h: "h = open_attempt s (csv_path folder sb)" and
    s1: "os_can_open s1 = os_can_open s" "os_dirs s1 = os_dirs s" "os_can_mkdir s1 = os_can_mkdir s"
    "os_opened s1 = os_opened s @ (if os_can_open s (csv_path folder sb) then [csv_path folder sb] else [])"
    using fopen_a_fst [of "csv_path folder sb" s] fopen_a_os [of "csv_path folder sb" s]
    by (simp_all add: open_attempt_def del: fopen_a_fst fopen_a_os)
  show ?case
    using Cons [of "hs @ [h]" s1] s1 h
    by (cases "os_can_open s (csv_path folder sb)") (simp_all add: f array_is_null_def open_attempt_def)
qed simp

lemma active_symbols_take: "take SYMBOL_COUNT symbols_list = active_symbols"
  unfolding symbols_list_split by (simp del: SYMBOL_COUNT_21)

lemma csv_path_full:
  assumes "length folder \<le> 74" and "sb \<in> set active_symbols"
  shows "csv_path folder sb = folder @ ''/'' @ sb @ ''.csv''"
  using assms(1) active_symbols_short [OF assms(2)]
  by (simp add: csv_path_def snprintf_def FILEPATH_BUFFER_LENGTH_def SYMBOLS_MAX_LENGTH_def)

text \<open>
  Opening a batch gives every symbol a file of its own: if the folder exists or can be
  made and every file can be opened, the call returns 0 and the handle at a symbol's position
  is \<^verbatim>\<open>folder/SYMBOL.csv\<close>, never cut off by the buffer for folder names of up to 74
  characters, and no two symbols share a file.
\<close>

theorem open_csv_batch_files:
  assumes "folder \<in> os_dirs s \<or> os_can_mkdir s folder" and "length folder \<le> 74"
    and "\<forall>sb \<in> set active_symbols. os_can_open s (folder @ ''/'' @ sb @ ''.csv'')"
  shows "\<exists>s'. open_csv_batch folder SYMBOL_COUNT s =
      Ends 0 (map (\<lambda>sb. Some (folder @ ''/'' @ sb @ ''.csv'')) active_symbols) s' \<and>
    folder \<in> os_dirs s' \<and> distinct (map (\<lambda>sb. folder @ ''/'' @ sb @ ''.csv'') active_symbols)"
proof -
  obtain s1 where e: "ensure_directory_exists folder s = (0, s1)" "os_can_open s1 = os_can_open s"
    "folder \<in> os_dirs s1"
    using assms(1) by (cases "folder \<in> os_dirs s") (auto simp: ensure_directory_exists_def)
  obtain s' where "open_csv_loop folder active_symbols [] s1 =
      Ends 0 (map (\<lambda>sb. open_attempt s1 (csv_path folder sb)) active_symbols) s'" "os_dirs s' = os_dirs s1"
    using open_csv_loop_result [of folder active_symbols "[]" s1] by auto
  moreover have "map (\<lambda>sb. open_attempt s1 (csv_path folder sb)) active_symbols =
      map (\<lambda>sb. Some (folder @ ''/'' @ sb @ ''.csv'')) active_symbols"
    using assms(2,3) e(2) by (simp add: open_attempt_def csv_path_full)
  ultimately show ?thesis
    using e distinct_active_symbols
    by (auto simp: open_csv_batch_def active_symbols_take distinct_map inj_on_def simp del: SYMBOL_COUNT_21)
qed

definition sample_os :: os where
  "sample_os = \<lparr>os_dirs = {}, os_can_mkdir = (\<lambda>_. True), os_can_open = (\<lambda>_. True), os_opened = []\<rparr>"

lemma open_csv_batch_files_witness:
  "\<exists>s'. open_csv_batch ''./trade_logs'' SYMBOL_COUNT sample_os =
      Ends 0 (map (\<lambda>sb. Some (''./trade_logs/'' @ sb @ ''.csv'')) active_symbols) s'"
  using open_csv_batch_files [of "''./trade_logs''" sample_os] by (auto simp: sample_os_def)

text \<open>
  A file of a batch that cannot be opened is not reported, against the header's promise
  of -1: the call returns 0 with a null handle in the array, and closing the batch has
  undefined behaviour.
\<close>

theorem open_csv_batch_hides_failure:
  assumes "folder \<in> os_dirs s" and "sb \<in> set active_symbols" and "\<not> os_can_open s (csv_path folder sb)"
  shows "\<exists>hs s'. open_csv_batch folder SYMBOL_COUNT s = Ends 0 hs s' \<and> None \<in> set hs \<and>
    close_csv_batch hs = None"
proof -
  obtain s' where "open_csv_loop folder active_symbols [] s =
      Ends 0 (map (\<lambda>sb. open_attempt s (csv_path folder sb)) active_symbols) s'"
    using open_csv_loop_result [of folder active_symbols "[]" s] by auto
  moreover have "None \<in> set (map (\<lambda>sb. open_attempt s (csv_path folder sb)) active_symbols)"
    using assms(2,3) by (force simp: open_attempt_def)
  moreover have "close_csv_batch hs = None" if "None \<in> set hs" for hs
    using that by (induction hs rule: close_csv_batch.induct) auto
  ultimately show ?thesis
    using assms(1) by (auto simp: open_csv_batch_def ensure_directory_exists_def active_symbols_take
        simp del: SYMBOL_COUNT_21)
qed

lemma open_csv_batch_hides_failure_witness:
  "\<exists>hs s'. open_csv_batch ''d'' SYMBOL_COUNT (sample_os\<lparr>os_dirs := {''d''}, os_can_open := (\<lambda>_. False)\<rparr>) = Ends 0 hs s' \<and>
     close_csv_batch hs = None"
proof -
  have "''NIO'' \<in> set active_symbols" by (simp add: active_symbols_def symbols_list_def)
  from open_csv_batch_hides_failure [OF _ this, of "''d''" "sample_os\<lparr>os_dirs := {''d''}, os_can_open := (\<lambda>_. False)\<rparr>"]
  show ?thesis by auto
qed

section \<open>The delay files\<close>

lemma open_writer_loop_ok:
  assumes "\<forall>i \<in> set is. os_can_open s (writer_path folder i)"
  shows "\<exists>s'. open_writer_loop folder is hs s = Ends 0 (hs @ map (\<lambda>i. Some (writer_path folder i)) is) s' \<and>
    os_can_open s' = os_can_open s"
  using assms
proof (induction "is" arbitrary: hs s)
  case (Cons i "is")
  then show ?case
    using Cons.IH [of "s\<lparr>os_opened := os_opened s @ [writer_path folder i]\<rparr>" "hs @ [Some (writer_path folder i)]"]
    by (simp add: fopen_a_def)
qed simp

lemma open_writer_loop_fails:
  assumes "\<exists>i \<in> set is. \<not> os_can_open s (writer_path folder i)"
  shows "\<exists>hs' s'. open_writer_loop folder is hs s = Ends (- 1) hs' s'"
  using assms
proof (induction "is" arbitrary: hs s)
  case (Cons i "is")
  then show ?case
    using Cons.IH [of "s\<lparr>os_opened := os_opened s @ [writer_path folder i]\<rparr>" "hs @ [Some (writer_path folder i)]"]
    by (auto simp: fopen_a_def)
qed simp

definition calc_path :: "string \<Rightarrow> string" where
  "calc_path folder = snprintf FILEPATH_BUFFER_LENGTH (folder @ ''/calculator.csv'')"

text \<open>
  Opening the delay files reports every failure: with the directory in place, the call
  returns 0 with all handles valid if all files can be opened, and -1 otherwise.  The
  directory that it makes sure of is \<^verbatim>\<open>./delays\<close>, whatever folder it is given.
\<close>

theorem open_delay_files_reports:
  assumes "''./delays'' \<in> os_dirs s"
  shows "\<exists>r hs h s'. open_delay_files folder n s = Ends r (hs, h) s' \<and>
    (if (\<forall>i < n. os_can_open s (writer_path folder i)) \<and> os_can_open s (calc_path folder)
     then r = 0 \<and> hs = map (\<lambda>i. Some (writer_path folder i)) [0..<n] \<and> h = Some (calc_path folder)
     else r = - 1) \<and> os_dirs s' = os_dirs s"
proof -
  have dirs: "open_writer_loop folder is hs s = Ends r hs' s' \<Longrightarrow> os_dirs s' = os_dirs s" for "is" hs s r hs' s'
    by (induction "is" arbitrary: hs s) (auto simp: Let_def case_prod_beta split: if_splits)
  show ?thesis
  proof (cases "\<forall>i < n. os_can_open s (writer_path folder i)")
    case True
    then obtain s' where l: "open_writer_loop folder [0..<n] [] s = Ends 0 (map (\<lambda>i. Some (writer_path folder i)) [0..<n]) s'"
      and "os_can_open s' = os_can_open s"
      using open_writer_loop_ok [of "[0..<n]" s folder "[]"] by auto
    then show ?thesis
      using assms True dirs [OF l]
      by (simp add: open_delay_files_def ensure_directory_exists_def calc_path_def fopen_a_def)
  next
    case False
    then obtain hs' s' where l: "open_writer_loop folder [0..<n] [] s = Ends (- 1) hs' s'"
      using open_writer_loop_fails [of "[0..<n]" s folder "[]"] by force
    then show ?thesis
      using assms False dirs [OF l] by (auto simp: open_delay_files_def ensure_directory_exists_def)
  qed
qed

lemma open_delay_files_reports_witness:
  "\<exists>hs h s'. open_delay_files ''./delays'' 2 (sample_os\<lparr>os_dirs := {''./delays''}\<rparr>) = Ends 0 (hs, h) s' \<and> length hs = 2"
proof -
  let ?s = "sample_os\<lparr>os_dirs := {''./delays''}\<rparr>"
  have "os_can_open ?s p" for p by (simp add: sample_os_def)
  then obtain hs h s' where "open_delay_files ''./delays'' 2 ?s = Ends 0 (hs, h) s'"
    and "hs = map (\<lambda>i. Some (writer_path ''./delays'' i)) [0..<2]"
    using open_delay_files_reports [of ?s "''./delays''" 2] by auto
  then show ?thesis by auto
qed

end
