(* ===== verification/MainProgram.thy ===== *)
theory MainProgram
  imports SystemHandling PCQueue
begin

text \<open>
  \<^verbatim>\<open>src/main.c\<close>: the configuration of the key, the opening and closing of all log files
  around the threads, and the figures printed at the end.  The threads themselves are the
  subject of \<open>ThreadRoutines\<close> and \<open>Client\<close>.
\<close>

definition WRITERS_COUNT :: nat where
  "WRITERS_COUNT = 2"

definition API_KEY :: string where
  "API_KEY = ''XXXXXXXX''"

text \<open>
  The key from the arguments, copied with \<^verbatim>\<open>strcpy\<close> into an array of 60 characters:
  \<open>None\<close> if the copy, with its final null character, does not fit.
\<close>

definition main_api_key :: "string list \<Rightarrow> string option" where
  "main_api_key argv = (let src = (if length argv = 2 then argv ! 1 else API_KEY) in
     if length src + 1 \<le> 60 then Some src else None)"

text \<open>The files of the program, in the order in which they are opened.\<close>

record main_files =
  delay_writer_logs :: "handle list"
  delay_calculator_logs :: handle
  transaction_files :: "handle list"
  main_candlestick_files :: "handle list"
  main_avg_files :: "handle list"

text \<open>Opening a batch in \<^verbatim>\<open>main\<close>, which exits on a status other than 0.\<close>

definition main_batch :: "string \<Rightarrow> os \<Rightarrow> handle list ending" where
  "main_batch folder s = (case open_csv_batch folder SYMBOL_COUNT s of
     Exits e s' \<Rightarrow> Exits e s'
   | Ends r hs s' \<Rightarrow> if r \<noteq> 0 then Exits (- 1) s' else Ends 0 hs s')"

definition main_open :: "os \<Rightarrow> main_files ending" where
  "main_open s = (case open_delay_files ''./delays'' WRITERS_COUNT s of
     Exits e s1 \<Rightarrow> Exits e s1
   | Ends r d s1 \<Rightarrow>
       if r \<noteq> 0 then Exits (- 1) s1
       else (case main_batch ''./trade_logs'' s1 of Exits e s2 \<Rightarrow> Exits e s2
       | Ends _ tf s2 \<Rightarrow> (case main_batch ''./candlesticks'' s2 of Exits e s3 \<Rightarrow> Exits e s3
       | Ends _ cf s3 \<Rightarrow> (case main_batch ''./moving_avg'' s3 of Exits e s4 \<Rightarrow> Exits e s4
       | Ends _ af s4 \<Rightarrow> Ends 0 \<lparr>delay_writer_logs = fst d, delay_calculator_logs = snd d,
           transaction_files = tf, main_candlestick_files = cf, main_avg_files = af\<rparr> s4))))"

text \<open>Closing the files: the paths closed, or \<open>None\<close> if a null pointer is closed.\<close>

definition main_close :: "main_files \<Rightarrow> string list option" where
  "main_close m = (case close_csv_batch (transaction_files m) of None \<Rightarrow> None | Some a \<Rightarrow>
    (case close_csv_batch (main_candlestick_files m) of None \<Rightarrow> None | Some b \<Rightarrow>
    (case close_csv_batch (main_avg_files m) of None \<Rightarrow> None | Some c \<Rightarrow>
    (case close_delay_files (delay_writer_logs m) (delay_calculator_logs m) of None \<Rightarrow> None | Some d \<Rightarrow>
      Some (a @ b @ c @ d)))))"

text \<open>The figures at the end, in double precision.\<close>

definition seconds :: "timeval \<Rightarrow> double" where
  "seconds t = dbl (tv_sec t) + ddiv (dbl (tv_usec t)) (dbl 1000000)"

definition program_elapsed_time :: "timeval \<Rightarrow> timeval \<Rightarrow> double" where
  "program_elapsed_time program_start program_end =
     dbl (tv_sec program_end - tv_sec program_start) +
     ddiv (dbl (tv_usec program_end - tv_usec program_start)) (dbl 1000000)"

definition cpu_percentage :: "timeval \<Rightarrow> timeval \<Rightarrow> timeval \<Rightarrow> timeval \<Rightarrow> double" where
  "cpu_percentage ru_utime ru_stime program_start program_end =
     ddiv (seconds ru_utime + seconds ru_stime) (program_elapsed_time program_start program_end) * dbl 100"

section \<open>The files of a run\<close>

definition batch_paths :: "string \<Rightarrow> string list" where
  "batch_paths folder = map (\<lambda>sb. folder @ ''/'' @ sb @ ''.csv'') active_symbols"

definition delay_paths :: "string list" where
  "delay_paths = [''./delays/writer_0.csv'', ''./delays/writer_1.csv'', ''./delays/calculator.csv'']"

definition all_paths :: "string list" where
  "all_paths = batch_paths ''./trade_logs'' @ batch_paths ''./candlesticks'' @ batch_paths ''./moving_avg'' @ delay_paths"

lemma close_csv_batch_some: "close_csv_batch (map Some ps) = Some ps"
  by (induction ps) simp_all

lemma delay_path_texts:
  "writer_path ''./delays'' 0 = ''./delays/writer_0.csv''" "writer_path ''./delays'' 1 = ''./delays/writer_1.csv''"
  "calc_path ''./delays'' = ''./delays/calculator.csv''"
  by code_simp+

lemma distinct_all_paths: "distinct all_paths"
  by code_simp

definition no_obstacle :: "os \<Rightarrow> bool" where
  "no_obstacle s \<longleftrightarrow> (\<forall>d. os_can_mkdir s d) \<and> (\<forall>p. os_can_open s p)"

lemma main_batch_ok:
  assumes "no_obstacle s" and "length folder \<le> 74"
  shows "\<exists>s'. main_batch folder s = Ends 0 (map Some (batch_paths folder)) s' \<and> no_obstacle s'"
proof -
  obtain s1 where e: "ensure_directory_exists folder s = (0, s1)" "no_obstacle s1"
    using assms(1) by (cases "folder \<in> os_dirs s") (auto simp: ensure_directory_exists_def no_obstacle_def)
  obtain s' where l: "open_csv_loop folder active_symbols [] s1 =
      Ends 0 (map (\<lambda>sb. open_attempt s1 (csv_path folder sb)) active_symbols) s'" "no_obstacle s'"
  proof -
    obtain s' where s': "open_csv_loop folder active_symbols [] s1 =
        Ends 0 ([] @ map (\<lambda>sb. open_attempt s1 (csv_path folder sb)) active_symbols) s'"
      "os_can_open s' = os_can_open s1" "os_can_mkdir s' = os_can_mkdir s1"
      using open_csv_loop_result [of folder active_symbols "[]" s1] by blast
    then show ?thesis using that e(2) by (simp add: no_obstacle_def)
  qed
  have "map (\<lambda>sb. open_attempt s1 (csv_path folder sb)) active_symbols = map Some (batch_paths folder)"
    using e(2) assms(2) by (simp add: no_obstacle_def open_attempt_def csv_path_full batch_paths_def)
  then show ?thesis
    using e l by (auto simp: main_batch_def open_csv_batch_def active_symbols_take simp del: SYMBOL_COUNT_21)
qed

lemma main_delay_ok:
  assumes "no_obstacle s"
  shows "\<exists>s'. open_delay_files ''./delays'' WRITERS_COUNT s =
    Ends 0 ([Some ''./delays/writer_0.csv'', Some ''./delays/writer_1.csv''], Some ''./delays/calculator.csv'') s' \<and>
    no_obstacle s'"
  using assms delay_path_texts
  by (auto simp: open_delay_files_def ensure_directory_exists_def WRITERS_COUNT_def fopen_a_def no_obstacle_def
      calc_path_def numeral_2_eq_2)

lemma main_open_all:
  assumes "no_obstacle s"
  shows "\<exists>s'. main_open s = Ends 0 \<lparr>
    delay_writer_logs = [Some ''./delays/writer_0.csv'', Some ''./delays/writer_1.csv''],
    delay_calculator_logs = Some ''./delays/calculator.csv'',
    transaction_files = map Some (batch_paths ''./trade_logs''),
    main_candlestick_files = map Some (batch_paths ''./candlesticks''),
    main_avg_files = map Some (batch_paths ''./moving_avg'')\<rparr> s'"
proof -
  obtain s1 where d: "open_delay_files ''./delays'' WRITERS_COUNT s =
      Ends 0 ([Some ''./delays/writer_0.csv'', Some ''./delays/writer_1.csv''], Some ''./delays/calculator.csv'') s1"
    "no_obstacle s1" using main_delay_ok [OF assms] by blast
  obtain s2 where t: "main_batch ''./trade_logs'' s1 = Ends 0 (map Some (batch_paths ''./trade_logs'')) s2" "no_obstacle s2"
    using main_batch_ok [OF d(2), of "''./trade_logs''"] by auto
  obtain s3 where c: "main_batch ''./candlesticks'' s2 = Ends 0 (map Some (batch_paths ''./candlesticks'')) s3" "no_obstacle s3"
    using main_batch_ok [OF t(2), of "''./candlesticks''"] by auto
  obtain s4 where a: "main_batch ''./moving_avg'' s3 = Ends 0 (map Some (batch_paths ''./moving_avg'')) s4"
    using main_batch_ok [OF c(2), of "''./moving_avg''"] by auto
  show ?thesis using d(1) t(1) c(1) a by (simp add: main_open_def)
qed

text \<open>
  The files of a run.  If directories can be made and files opened, \<^verbatim>\<open>main\<close> opens 66
  different files: one per symbol for the trades, the candlesticks and the averages, each at
  the symbol's position, and one per thread for the delays; and at the end it closes each of
  them exactly once.
\<close>

theorem main_files_of_a_run:
  assumes "no_obstacle s"
  shows "\<exists>m s'. main_open s = Ends 0 m s' \<and>
    transaction_files m = map Some (batch_paths ''./trade_logs'') \<and>
    main_candlestick_files m = map Some (batch_paths ''./candlesticks'') \<and>
    main_avg_files m = map Some (batch_paths ''./moving_avg'') \<and>
    main_close m = Some all_paths \<and> distinct all_paths \<and> length all_paths = 66"
proof -
  have "length all_paths = 66" by (simp add: all_paths_def batch_paths_def delay_paths_def)
  then show ?thesis using main_open_all [OF assms] distinct_all_paths
    by (auto simp: main_close_def close_csv_batch_some close_delay_files_def all_paths_def delay_paths_def)
qed

lemma main_files_of_a_run_witness:
  "\<exists>m s'. main_open sample_os = Ends 0 m s' \<and> main_close m = Some all_paths"
  using main_files_of_a_run [of sample_os] by (auto simp: no_obstacle_def sample_os_def)

end
