(* ===== verification/MainThread.thy ===== *)
theory MainThread
  imports MainProgram
begin

text \<open>
  The thread of \<^verbatim>\<open>main\<close>: the arguments that it gives to the other threads, and the order in
  which it starts them, sets the timer, waits for them and closes the files.  The other
  threads only do here what matters to \<^verbatim>\<open>main\<close>: they write to the files while they run, and
  they return at some time; what they write and when they return is the subject of
  \<open>ThreadRoutines\<close> and \<open>Client\<close>, and of \<open>Program\<close>, where all of them run together.
\<close>

section \<open>Arguments of the threads\<close>

text \<open>A pointer to one of the two queues is given by the queue's name.\<close>

datatype queue_name = Api_queue | Calculation_queue

record WSSClientArgs =
  wa_api_key :: string

record WriterArgs =
  wr_api_queue :: queue_name
  wr_calculation_queue :: queue_name
  wr_transaction_files :: "handle list"
  wr_delay_log_file :: handle
  wr_symbol_count :: nat

record CalculatorArgs =
  ca_calculation_queue :: queue_name
  ca_candlestick_files :: "handle list"
  ca_avg_files :: "handle list"
  ca_delay_log_file :: handle
  ca_symbol_count :: nat

definition writer_args :: "main_files \<Rightarrow> nat \<Rightarrow> WriterArgs" where
  "writer_args m i = \<lparr>wr_api_queue = Api_queue, wr_calculation_queue = Calculation_queue,
     wr_transaction_files = transaction_files m, wr_delay_log_file = delay_writer_logs m ! i,
     wr_symbol_count = SYMBOL_COUNT\<rparr>"

definition calculator_args :: "main_files \<Rightarrow> CalculatorArgs" where
  "calculator_args m = \<lparr>ca_calculation_queue = Calculation_queue,
     ca_candlestick_files = main_candlestick_files m, ca_avg_files = main_avg_files m,
     ca_delay_log_file = delay_calculator_logs m, ca_symbol_count = SYMBOL_COUNT\<rparr>"

section \<open>Starting and joining\<close>

datatype thread = T_client | T_writer nat | T_calculator

text \<open>The order in which \<^verbatim>\<open>main\<close> creates the threads, and later joins them.\<close>

definition main_threads :: "thread list" where
  "main_threads = T_client # map T_writer [0..<WRITERS_COUNT] @ [T_calculator]"

datatype main_pc = M_create nat | M_timer | M_join nat | M_close | M_done | M_exit int

record main_state =
  m_pc :: main_pc
  m_started :: "thread set"
  m_returned :: "thread set"
  m_timer :: bool
  m_closed :: bool
  m_late_writes :: nat

definition main_start :: main_state where
  "main_start = \<lparr>m_pc = M_create 0, m_started = {}, m_returned = {}, m_timer = False, m_closed = False,
     m_late_writes = 0\<rparr>"

text \<open>
  \<open>m_late_writes\<close> counts the writes of threads to files that are closed already; the program
  does not have it.  A failing timer ends the whole process.
\<close>

inductive main_step :: "main_state \<Rightarrow> main_state \<Rightarrow> bool" where
  create: "m_pc s = M_create k \<Longrightarrow> k < length main_threads \<Longrightarrow>
    main_step s (s\<lparr>m_started := insert (main_threads ! k) (m_started s),
      m_pc := (if k + 1 < length main_threads then M_create (k + 1) else M_timer)\<rparr>)"
| timer: "m_pc s = M_timer \<Longrightarrow> main_step s (s\<lparr>m_timer := True, m_pc := M_join 0\<rparr>)"
| timer_fails: "m_pc s = M_timer \<Longrightarrow> main_step s (s\<lparr>m_pc := M_exit 1\<rparr>)"
| join: "m_pc s = M_join k \<Longrightarrow> k < length main_threads \<Longrightarrow> main_threads ! k \<in> m_returned s \<Longrightarrow>
    main_step s (s\<lparr>m_pc := (if k + 1 < length main_threads then M_join (k + 1) else M_close)\<rparr>)"
| close_files: "m_pc s = M_close \<Longrightarrow> main_step s (s\<lparr>m_closed := True, m_pc := M_done\<rparr>)"
| thread_writes: "t \<in> m_started s \<Longrightarrow> t \<notin> m_returned s \<Longrightarrow> (\<forall>e. m_pc s \<noteq> M_exit e) \<Longrightarrow>
    main_step s (s\<lparr>m_late_writes := m_late_writes s + (if m_closed s then 1 else 0)\<rparr>)"
| thread_returns: "t \<in> m_started s \<Longrightarrow> t \<notin> m_returned s \<Longrightarrow> (\<forall>e. m_pc s \<noteq> M_exit e) \<Longrightarrow>
    main_step s (s\<lparr>m_returned := insert t (m_returned s)\<rparr>)"

inductive main_reach :: "main_state \<Rightarrow> bool" where
  start: "main_reach main_start"
| step: "main_reach s \<Longrightarrow> main_step s s' \<Longrightarrow> main_reach s'"

text \<open>The threads created and joined at a program point.\<close>

fun created_at :: "main_pc \<Rightarrow> nat" where
  "created_at (M_create k) = k"
| "created_at _ = length main_threads"

fun joined_at :: "main_pc \<Rightarrow> nat" where
  "joined_at (M_join k) = k"
| "joined_at M_close = length main_threads"
| "joined_at M_done = length main_threads"
| "joined_at _ = 0"

definition inv_main :: "main_state \<Rightarrow> bool" where
  "inv_main s \<longleftrightarrow> m_started s = set (take (created_at (m_pc s)) main_threads) \<and>
     m_returned s \<subseteq> m_started s \<and> set (take (joined_at (m_pc s)) main_threads) \<subseteq> m_returned s \<and>
     (m_closed s \<longleftrightarrow> m_pc s = M_done) \<and> m_late_writes s = 0"

lemma take_next: "k < length xs \<Longrightarrow> set (take (Suc k) xs) = insert (xs ! k) (set (take k xs))"
  by (simp add: take_Suc_conv_app_nth)

lemma take_last: "k < length xs \<Longrightarrow> \<not> Suc k < length xs \<Longrightarrow> set xs = insert (xs ! k) (set (take k xs))"
  using take_next [of k xs] by simp

lemma main_step_inv: "main_step s s' \<Longrightarrow> inv_main s \<Longrightarrow> inv_main s'"
proof (induction rule: main_step.cases)
  case (create s k)
  show ?case
  proof (cases "Suc k < length main_threads")
    case True
    then show ?thesis using create by (auto simp: inv_main_def take_next)
  next
    case False
    then show ?thesis using create take_last [OF create(4) False] by (auto simp: inv_main_def)
  qed
next
  case (join s k)
  show ?case
  proof (cases "Suc k < length main_threads")
    case True
    then show ?thesis using join by (auto simp: inv_main_def take_next)
  next
    case False
    then show ?thesis using join take_last [OF join(4) False] by (auto simp: inv_main_def)
  qed
qed (auto simp: inv_main_def)

lemma main_reach_inv: "main_reach s \<Longrightarrow> inv_main s"
proof (induction rule: main_reach.induct)
  case start
  then show ?case by (simp add: inv_main_def main_start_def)
next
  case (step s s')
  then show ?case by (blast intro: main_step_inv)
qed

lemma main_positions: "main_reach s \<Longrightarrow> m_pc s = M_create k \<or> m_pc s = M_join k \<Longrightarrow> k < length main_threads"
proof (induction arbitrary: k rule: main_reach.induct)
  case start
  then show ?case by (simp add: main_start_def main_threads_def)
next
  case (step s s')
  from step.hyps(2) step.prems step.IH show ?case
    by (cases rule: main_step.cases) (auto simp: main_threads_def split: if_splits)
qed

text \<open>
  The files outlive the threads.  In every reachable state of the program no thread has
  written to a file after its closing; the files are closed only at the very end, when all
  four threads were started and all have returned and the timer was set; and if the timer
  cannot be set the process ends with status 1 and the files are never closed.
\<close>

lemma files_outlive_threads:
  assumes "main_reach s"
  shows "m_late_writes s = 0 \<and>
    (m_closed s \<longrightarrow> m_started s = set main_threads \<and> m_returned s = set main_threads) \<and>
    (\<forall>e. m_pc s = M_exit e \<longrightarrow> \<not> m_closed s) \<and> length main_threads = 4 \<and> distinct main_threads"
  using main_reach_inv [OF assms]
  by (auto simp: inv_main_def main_threads_def WRITERS_COUNT_def numeral_2_eq_2)

text \<open>A whole run in which the threads return in the order of their creation.\<close>

abbreviation m_at :: "main_pc \<Rightarrow> nat \<Rightarrow> nat \<Rightarrow> bool \<Rightarrow> bool \<Rightarrow> main_state" where
  "m_at pc k j t c \<equiv> \<lparr>m_pc = pc, m_started = set (take k main_threads), m_returned = set (take j main_threads),
     m_timer = t, m_closed = c, m_late_writes = 0\<rparr>"

lemma length_main_threads: "length main_threads = 4"
  by (simp add: main_threads_def WRITERS_COUNT_def)

lemma distinct_main_threads: "distinct main_threads"
  by (simp add: main_threads_def WRITERS_COUNT_def numeral_2_eq_2)

lemma run_creates: "k < 4 \<Longrightarrow> main_reach (m_at (M_create k) k 0 False False)"
proof (induction k)
  case 0
  show ?case using main_reach.start by (simp add: main_start_def)
next
  case (Suc k)
  then have "main_reach (m_at (M_create k) k 0 False False)" by simp
  from main_reach.step [OF this main_step.create [of _ k]] Suc.prems
  show ?case by (simp add: length_main_threads take_next)
qed

lemma run_timer: "main_reach (m_at M_timer 4 0 False False)"
  using main_reach.step [OF run_creates [of 3] main_step.create [of _ 3]] take_next [of 3 main_threads]
  by (simp add: length_main_threads)

lemma run_returns: "j \<le> 4 \<Longrightarrow> main_reach (m_at (M_join 0) 4 j True False)"
proof (induction j)
  case 0
  show ?case using main_reach.step [OF run_timer main_step.timer] by simp
next
  case (Suc j)
  let ?t = "main_threads ! j"
  have "?t \<in> set (take 4 main_threads)" using Suc.prems by (simp add: length_main_threads)
  moreover have "?t \<notin> set (take j main_threads)"
    using distinct_main_threads Suc.prems by (auto simp: in_set_conv_nth nth_eq_iff_index_eq length_main_threads)
  ultimately show ?case
    using main_reach.step [OF Suc.IH main_step.thread_returns [of ?t]] Suc.prems
    by (simp add: take_next length_main_threads)
qed

lemma run_joins: "k < 4 \<Longrightarrow> main_reach (m_at (M_join k) 4 4 True False)"
proof (induction k)
  case 0
  show ?case using run_returns [of 4] by simp
next
  case (Suc k)
  then have "main_reach (m_at (M_join k) 4 4 True False)" by simp
  from main_reach.step [OF this main_step.join [of _ k]] Suc.prems
  show ?case by (simp add: length_main_threads)
qed

lemma run_closes: "main_reach (m_at M_done 4 4 True True)"
proof -
  have "main_reach (m_at M_close 4 4 True False)"
    using main_reach.step [OF run_joins [of 3] main_step.join [of _ 3]] by (simp add: length_main_threads)
  from main_reach.step [OF this main_step.close_files] show ?thesis by simp
qed

lemma files_outlive_threads_witness:
  "main_reach (m_at M_done 4 4 True True) \<and> set (take 4 main_threads) = set main_threads"
  using files_outlive_threads [OF run_closes] run_closes by simp

text \<open>
  Each writer gets the trade files of all symbols, which the writers share, and a delay file
  of its own; the calculator gets the files of the rows and the third delay file; and the
  numbers of files are those of the symbols.
\<close>

lemma arguments_of_the_threads:
  assumes "no_obstacle s"
  shows "\<exists>m s'. main_open s = Ends 0 m s' \<and>
    wr_delay_log_file (writer_args m 0) = Some ''./delays/writer_0.csv'' \<and>
    wr_delay_log_file (writer_args m 1) = Some ''./delays/writer_1.csv'' \<and>
    ca_delay_log_file (calculator_args m) = Some ''./delays/calculator.csv'' \<and>
    wr_transaction_files (writer_args m i) = map Some (batch_paths ''./trade_logs'') \<and>
    length (wr_transaction_files (writer_args m i)) = wr_symbol_count (writer_args m i) \<and>
    length (ca_candlestick_files (calculator_args m)) = ca_symbol_count (calculator_args m) \<and>
    length (ca_avg_files (calculator_args m)) = ca_symbol_count (calculator_args m)"
  using main_open_all [OF assms] by (auto simp: writer_args_def calculator_args_def batch_paths_def)

end
