(* ===== verification/Pipeline.thy ===== *)
theory Pipeline
  imports ThreadRoutines
begin

text \<open>
  From arrivals to results: the order of the trade log with one writer, and the calculator's
  handling of a sequence of items seen as minutes of trading of each symbol.
\<close>

section \<open>The trade log of one writer\<close>

definition inv_log_order :: "pipeline \<Rightarrow> bool" where
  "inv_log_order s \<longleftrightarrow> length (p_writers s) = 1 \<longrightarrow>
     filter is_trade (p_arrived s) = p_logged s @ filter is_trade (to_log (p_writers s ! 0)) @
       filter is_trade (contents (p_api s))"

lemma pstep_log_order:
  assumes "pstep n s s'" and "good_queues s" and "inv_log_order s"
  shows "inv_log_order s'"
  using assms(1,2)
proof (cases rule: good_step)
  case (writer_log i x now s1)
  then show ?thesis using assms(3) by (auto simp: inv_log_order_def Writer_log_frame [OF writer_log(4)])
qed (use assms(3) in \<open>auto simp: inv_log_order_def\<close>)

lemma preach_log_order: "preach n w c s \<Longrightarrow> inv_log_order s"
proof (induction rule: preach.induct)
  case start
  then show ?case by (simp add: inv_log_order_def p_start_def)
next
  case (step s s')
  then show ?case using pstep_log_order preach_good by blast
qed

text \<open>The end of a run with one writer.\<close>

definition finished :: "pipeline \<Rightarrow> bool" where
  "finished s \<longleftrightarrow> (\<forall>v \<in> set (p_writers s). v = W_done) \<and> p_calculator s = C_done"

lemma finished_single:
  assumes "preach n 1 c s" and "finished s"
  shows "map fst (p_handled s) = p_arrived s" and "p_logged s = filter is_trade (p_arrived s)"
proof -
  have w: "p_writers s = [W_done]"
    using preach_writers [OF assms(1)] assms(2) by (cases "p_writers s") (auto simp: finished_def)
  then have "contents (p_api s) = []" "contents (p_calcq s) = []"
    using preach_exit [OF assms(1)] assms(2) by (auto simp: inv_exit_def finished_def)
  then show "map fst (p_handled s) = p_arrived s" and "p_logged s = filter is_trade (p_arrived s)"
    using preach_order [OF assms(1)] preach_log_order [OF assms(1)] w assms(2)
    by (simp_all add: inv_order_def inv_log_order_def finished_def)
qed

section \<open>Minutes\<close>

text \<open>A minute of arrivals: its trades and the directive that closes it.\<close>

type_synonym arrivals = "WorkItem list \<times> WorkItem"

definition minutes_of :: "arrivals list \<Rightarrow> WorkItem list" where
  "minutes_of ms = concat (map (\<lambda>(xs, d). xs @ [d]) ms)"

definition minute_ok :: "arrivals \<Rightarrow> bool" where
  "minute_ok m \<longleftrightarrow> (\<forall>x \<in> set (fst m). is_trade x) \<and> \<not> is_trade (snd m)"

definition trades_of :: "nat \<Rightarrow> arrivals \<Rightarrow> Trade list" where
  "trades_of i m = map item_trade (filter (\<lambda>x. symbol_index (item_trade x) = i) (fst m))"

lemma symbol_run_trades:
  "\<forall>x \<in> set xs. is_trade x \<Longrightarrow> symbol_run i xs b =
     b\<lparr>candlestick := add_trades (map item_trade (filter (\<lambda>x. symbol_index (item_trade x) = i) xs)) (candlestick b)\<rparr>"
  by (induction xs arbitrary: b) (simp_all add: symbol_run_def symbol_step_def add_trades_def)

lemma symbol_run_minute:
  assumes "minute_ok m"
  shows "symbol_run i (fst m @ [snd m]) b = trade_minute (trades_of i m) b"
proof -
  have "symbol_run i (fst m @ [snd m]) b = close_minute (symbol_run i (fst m) b)"
    using assms by (simp add: symbol_run_def symbol_step_def minute_ok_def)
  then show ?thesis using assms by (simp add: symbol_run_trades minute_ok_def trade_minute_def trades_of_def)
qed

lemma symbol_run_minutes:
  "\<forall>m \<in> set ms. minute_ok m \<Longrightarrow>
     symbol_run i (minutes_of ms) b = trade_minutes (map (trades_of i) ms) b"
proof (induction ms arbitrary: b)
  case (Cons m ms)
  have "symbol_run i (minutes_of (m # ms)) b = symbol_run i (minutes_of ms) (symbol_run i (fst m @ [snd m]) b)"
    by (simp add: minutes_of_def symbol_run_def case_prod_beta)
  then show ?case using Cons by (simp add: symbol_run_minute trade_minutes_def)
qed (simp add: minutes_of_def symbol_run_def trade_minutes_def)

text \<open>Beyond the first symbol the initialisation leaves the sums at 0.\<close>

lemma fresh_start:
  assumes "calc_ready n c" and "0 < i" and "i < n"
  shows "fresh_buffer (buffers (Calculator_start n c) ! i)"
proof -
  have "init_inv (buffers c) n (buffers (Calculator_start n c))"
    using init_loop [of "buffers c" n] assms(1)
    by (simp add: calc_ready_def Calculator_start_def init_calculator_buffers_def)
  then have "zeroed_rest (candlestick (buffers (Calculator_start n c) ! i))"
    and "marked_empty (buffers (Calculator_start n c) ! i)"
    using assms by (simp_all add: init_inv_def calc_ready_def)
  moreover have "int_window zero_avg (replicate 15 0) (replicate 15 0)"
    using fresh_zero_buffer by (simp add: fresh_buffer_def zero_buffer_def)
  ultimately show ?thesis by (simp add: fresh_buffer_def zeroed_rest_def marked_empty_def)
qed

lemma finished_buffers:
  assumes "preach n 1 c s" and "calc_ready n c" and "finished s" and "i < n"
  shows "buffers (p_calc s) ! i = symbol_run i (p_arrived s) (buffers (Calculator_start n c) ! i)"
  using preach_calc_wf [OF assms(1,2)] finished_single(1) [OF assms(1,3)] assms(3,4)
  by (simp add: finished_def)

section \<open>A run for the examples\<close>

definition two_ready_files :: calc_files where
  "two_ready_files = \<lparr>buffers = [zero_buffer, zero_buffer], candlestick_files = [[], []], avg_files = [[], []],
     calc_delay_file = []\<rparr>"

lemma two_ready: "calc_ready 2 two_ready_files"
  by (simp add: calc_ready_def two_ready_files_def wf_arrays_def zero_buffer_def zero_avg_def)

definition second_trade :: WorkItem where
  "second_trade = \<lparr>item_trade = (unit_trade 100 1)\<lparr>trade_s_index := 1\<rparr>, item_event_time = \<lparr>tv_sec = 59, tv_usec = 0\<rparr>\<rparr>"

lemma second_trade_simps:
  "symbol_index (item_trade second_trade) = 1" "is_trade second_trade"
  by (simp_all add: second_trade_def unit_trade_def symbol_index_def is_trade_def DIRECTIVE_CALCULATE_MINUTE_def
      fp_exact del: of_int_minus)

lemma finished_minute:
  "\<exists>s. preach 2 1 two_ready_files s \<and> finished s \<and> p_arrived s = minutes_of [([second_trade], first_directive)]"
proof -
  let ?x = second_trade and ?d = first_directive and ?sv = "shows_view (preach 2 1 two_ready_files)"
  have valid: "\<forall>z \<in> set [?x, ?d]. is_trade z \<longrightarrow> symbol_index (item_trade z) < 2"
    using second_trade_simps first_items by simp
  note log = alone.move_log [OF _ _ _ two_ready valid] and item = alone.move_calculator_item [OF _ two_ready valid]
  have "?sv ([], False, [], False, [W_get], C_start, [], [], [])" using move_start [of 2 1 two_ready_files] by simp
  from move_arrive [OF move_arrive [OF alone.move_calculator_start [OF this]], of ?x ?d]
  have "?sv ([?x, ?d], False, [], False, [W_get], C_get, [?x, ?d], [], [])" by simp
  from alone.move_get [OF this, of 0] have "?sv ([?d], False, [], False, [W_got ?x], C_get, [?x, ?d], [], [])" by simp
  from log [OF this, of 0] have "?sv ([?d], False, [], False, [W_add ?x], C_get, [?x, ?d], [], [])" by simp
  from alone.move_add [OF this, of 0] have "?sv ([?d], False, [?x], False, [W_get], C_get, [?x, ?d], [], [])" by simp
  from alone.move_get [OF this, of 0] have "?sv ([], False, [?x], False, [W_got ?d], C_get, [?x, ?d], [], [])" by simp
  from log [OF this, of 0] have "?sv ([], False, [?x], False, [W_add ?d], C_get, [?x, ?d], [], [])" by simp
  from alone.move_add [OF this, of 0] have "?sv ([], False, [?x, ?d], False, [W_get], C_get, [?x, ?d], [], [])" by simp
  from item [OF alone.move_calculator_get [OF this]] have "?sv ([], False, [?d], False, [W_get], C_get, [?x, ?d], [?x], [])" by simp
  from item [OF alone.move_calculator_get [OF this]] have "?sv ([], False, [], False, [W_get], C_get, [?x, ?d], [?x, ?d], [])" by simp
  from alone.move_writer_exit [OF move_exit_order [OF this], of 0]
  have "?sv ([], True, [], True, [W_done], C_get, [?x, ?d], [?x, ?d], [])" by simp
  from alone.move_calculator_exit [OF this] show ?thesis
    by (auto simp: shows_view_def view_def finished_def minutes_of_def)
qed

end
