(* ===== verification/Progress.thy ===== *)
theory Progress
  imports Main
begin

text \<open>
  Step relations that run down: the contract of a system whose states keep an invariant, whose
  every step takes off some of a finite amount of work, and which can go on until its goal is
  reached.  Then no run is longer than the work, whatever the schedule, every run can be
  completed, and every run that cannot go on has reached the goal.
\<close>

locale running_down =
  fixes good :: "'s \<Rightarrow> bool" and step :: "'s \<Rightarrow> 's \<Rightarrow> bool" and work :: "'s \<Rightarrow> nat" and goal :: "'s \<Rightarrow> bool"
  assumes good_step: "good s \<Longrightarrow> step s s' \<Longrightarrow> good s'"
    and work_step: "good s \<Longrightarrow> step s s' \<Longrightarrow> work s' < work s"
    and goes_on: "good s \<Longrightarrow> \<not> goal s \<Longrightarrow> \<exists>s'. step s s'"
begin

lemma good_steps: "step\<^sup>*\<^sup>* s s' \<Longrightarrow> good s \<Longrightarrow> good s'"
  by (induction rule: rtranclp_induct) (auto intro: good_step)

lemma bounded: "(step ^^ k) s s' \<Longrightarrow> good s \<Longrightarrow> k + work s' \<le> work s \<and> good s'"
proof (induction k arbitrary: s')
  case (Suc k)
  then obtain t where t: "(step ^^ k) s t" "step t s'" by auto
  with Suc show ?case using work_step good_step by fastforce
qed simp

lemma completed: "good s \<Longrightarrow> \<exists>s'. step\<^sup>*\<^sup>* s s' \<and> goal s'"
proof (induction "work s" arbitrary: s rule: less_induct)
  case less
  show ?case
  proof (cases "goal s")
    case False
    then obtain t where t: "step s t" using goes_on less.prems by blast
    then obtain s' where "step\<^sup>*\<^sup>* t s'" "goal s'"
      using less.hyps [OF work_step] good_step less.prems by blast
    then show ?thesis using t by (blast intro: converse_rtranclp_into_rtranclp)
  qed auto
qed

lemma stuck_at_goal: "(step ^^ k) s s' \<Longrightarrow> good s \<Longrightarrow> (\<And>s''. \<not> step s' s'') \<Longrightarrow> goal s'"
  using bounded goes_on by blast

end

end
