(* ===== verification/Draining.thy ===== *)
theory Draining
  imports Pipeline Progress
begin

text \<open>
  The end of the threads after the exit order: from then on the writers and the calculator only
  run down what the queues still hold, and nothing can stop them.
\<close>

section \<open>Steps of the threads\<close>

definition works :: "nat \<Rightarrow> pipeline \<Rightarrow> pipeline \<Rightarrow> bool" where
  "works n s s' \<longleftrightarrow> pstep n s s' \<and> thread_moves s s'"

lemma queue_take_flag: "queue_take q = (x, q') \<Longrightarrow> q_exit_flag q' = q_exit_flag q"
  using queue_take_simps [of q] by simp

lemma works_frame:
  assumes "works n s s'"
  shows "q_exit_flag (p_api s') = q_exit_flag (p_api s)" and "length (p_writers s') = length (p_writers s)"
    and "p_arrived s' = p_arrived s"
  using assms by (auto elim!: pstep.cases dest: queue_take_flag
      simp: works_def thread_moves_def queue_remove_def Writer_log_frame split: if_splits)

fun writer_work :: "writer_pc \<Rightarrow> nat" where
  "writer_work W_get = 1" | "writer_work (W_got x) = 5" | "writer_work (W_add x) = 4" | "writer_work W_done = 0"

fun calculator_work :: "calculator_pc \<Rightarrow> nat" where
  "calculator_work C_start = 2" | "calculator_work C_get = 1" | "calculator_work (C_got x) = 2"
| "calculator_work C_done = 0"

text \<open>The steps that are still to be made, if every item goes all the way.\<close>

definition work_left :: "pipeline \<Rightarrow> nat" where
  "work_left s = 5 * length (contents (p_api s)) + sum_list (map writer_work (p_writers s)) +
     2 * length (contents (p_calcq s)) + calculator_work (p_calculator s)"

lemma writers_work:
  "i < length ws \<Longrightarrow>
     sum_list (map writer_work (ws[i := b])) + writer_work (ws ! i) = sum_list (map writer_work ws) + writer_work b"
  by (induction ws arbitrary: i) (auto split: nat.split simp: less_Suc_eq_0_disj)

lemma works_less:
  assumes "works n s s'" and "good_queues s"
  shows "work_left s' < work_left s"
proof -
  have "pstep n s s'" and moves: "thread_moves s s'" using assms(1) by (simp_all add: works_def)
  from this(1) assms(2) show ?thesis
  proof (cases rule: good_step)
    case (writer_get i x q)
    then show ?thesis using writers_work [of i "p_writers s" "W_got x"]
      by (simp add: work_left_def del: length_contents)
  next
    case (writer_log i x now s1)
    then show ?thesis using writers_work [of i "p_writers s" "W_add x"]
      by (simp add: work_left_def Writer_log_frame [OF writer_log(4)] del: length_contents)
  next
    case (writer_add i x q)
    then show ?thesis using writers_work [of i "p_writers s" W_get]
      by (simp add: work_left_def del: length_contents)
  next
    case (writer_refused i x)
    then show ?thesis using writers_work [of i "p_writers s" W_get]
      by (simp add: work_left_def del: length_contents)
  next
    case (writer_exit i)
    then show ?thesis using writers_work [of i "p_writers s" W_done]
      by (simp add: work_left_def del: length_contents)
  qed (use moves in \<open>auto simp: thread_moves_def work_left_def simp del: length_contents\<close>)
qed

section \<open>Nothing stops them\<close>

text \<open>A writer that has ended has passed the order on.\<close>

lemma order_passed: "preach n w c s \<Longrightarrow> W_done \<in> set (p_writers s) \<Longrightarrow> q_exit_flag (p_calcq s)"
proof (induction rule: preach.induct)
  case start
  then show ?case by (simp add: p_start_def)
next
  case (step s s')
  from step.hyps(2) show ?case
    by (cases rule: pstep.cases)
      (use step.IH step.prems done_update in \<open>auto simp: Writer_log_frame queue_add_def queue_remove_def dest: queue_take_flag
        split: if_splits\<close>)
qed

definition draining :: "nat \<Rightarrow> nat \<Rightarrow> calc_files \<Rightarrow> pipeline \<Rightarrow> bool" where
  "draining n w c s \<longleftrightarrow> preach n w c s \<and> q_exit_flag (p_api s) \<and> calc_ready n c \<and> 0 < w \<and>
     (\<forall>x \<in> set (p_arrived s). is_trade x \<longrightarrow> symbol_index (item_trade x) < n)"

lemma remove_or_leave:
  assumes "wf_queue q" and "q_exit_flag q"
  obtains x q' where "queue_remove q = Returns 0 (Some x, q')" | q' where "queue_remove q = Returns (- 1) (None, q')"
  using assms queue_remove_item [OF assms(1)] queue_remove_none [OF assms(1)] by (cases "contents q") blast+

lemma worksI:
  assumes "pstep n s s'" and "thread_moves s s'"
  shows "\<exists>s'. works n s s'"
  using assms by (auto simp: works_def)

lemma writer_goes_on:
  assumes "draining n w c s" and "i < length (p_writers s)" and "p_writers s ! i \<noteq> W_done" and "contents (p_calcq s) = []"
  shows "\<exists>s'. works n s s'"
proof -
  have good: "wf_queue (p_api s)" "wf_queue (p_calcq s)" and p: "preach n w c s"
    using assms(1) preach_good by (auto simp: draining_def good_queues_def)
  show ?thesis
  proof (cases "p_writers s ! i")
    case W_get
    have flag: "q_exit_flag (p_api s)" using assms(1) by (simp add: draining_def)
    show ?thesis
    proof (cases rule: remove_or_leave [OF good(1) flag])
      case (1 x q')
      show ?thesis by (rule worksI [OF pstep.writer_get [OF assms(2) W_get 1]]) (use assms(2) W_get in \<open>simp add: alone.moves\<close>)
    next
      case (2 q')
      show ?thesis by (rule worksI [OF pstep.writer_exit [OF assms(2) W_get 2]]) (use assms(2) W_get in \<open>simp add: alone.moves\<close>)
    qed
  next
    case (W_got x)
    have "Writer_log i x (item_event_time x) s \<noteq> None"
      using held_items_processable [OF p, of "item_event_time x"] assms(1,2) W_got unfolding draining_def by blast
    then obtain s1 where s1: "Writer_log i x (item_event_time x) s = Some s1" by blast
    show ?thesis
      by (rule worksI [OF pstep.writer_log [OF assms(2) W_got s1]])
        (use assms(2) W_got in \<open>simp add: alone.moves Writer_log_frame [OF s1]\<close>)
  next
    case (W_add x)
    show ?thesis
    proof (cases "q_exit_flag (p_calcq s)")
      case True
      then have "queue_add (p_calcq s) x = Returns (- 1) (p_calcq s)" by (simp add: queue_add_def)
      from pstep.writer_refused [OF assms(2) W_add this] show ?thesis
        by (rule worksI) (use assms(2) W_add in \<open>simp add: alone.moves\<close>)
    next
      case False
      then have "queue_add (p_calcq s) x = Returns 0 (queue_put x (p_calcq s))"
        using queue_add_room(1) [OF good(2)] assms(4) by simp
      from pstep.writer_add [OF assms(2) W_add this] show ?thesis
        by (rule worksI) (use assms(2) W_add in \<open>simp add: alone.moves\<close>)
    qed
  qed (use assms(3) in simp)
qed

lemma calculator_goes_on:
  assumes "draining n w c s" and "p_calculator s \<noteq> C_done"
    and "contents (p_calcq s) \<noteq> [] \<or> p_calculator s \<noteq> C_get \<or> q_exit_flag (p_calcq s)"
  shows "\<exists>s'. works n s s'"
proof -
  have good: "wf_queue (p_calcq s)" and p: "preach n w c s"
    using assms(1) preach_good by (auto simp: draining_def good_queues_def)
  show ?thesis
  proof (cases "p_calculator s")
    case C_start
    show ?thesis by (rule worksI [OF pstep.calculator_start [OF C_start]]) (simp add: alone.moves C_start)
  next
    case (C_got x)
    then obtain c' where "Calculator_item n (x, \<lambda>_. item_event_time x) (p_calc s) = Some c'"
      using held_items_processable [OF p, of "item_event_time x" "\<lambda>_. item_event_time x"] assms(1) by (auto simp: draining_def)
    from pstep.calculator_item [OF C_got this] show ?thesis by (rule worksI) (simp add: alone.moves C_got)
  next
    case C_get
    show ?thesis
    proof (cases "contents (p_calcq s)")
      case Nil
      then have "queue_remove (p_calcq s) = Returns (- 1) (None, p_calcq s)"
        using queue_remove_none [OF good] assms(3) C_get by simp
      from pstep.calculator_exit [OF C_get this] show ?thesis by (rule worksI) (simp add: alone.moves C_get)
    next
      case (Cons x xs)
      then obtain q' where "queue_remove (p_calcq s) = Returns 0 (Some x, q')" using queue_remove_item [OF good] by blast
      from pstep.calculator_get [OF C_get this] show ?thesis by (rule worksI) (simp add: alone.moves C_get)
    qed
  qed (use assms(2) in simp)
qed

lemma draining_goes_on:
  assumes "draining n w c s" and "\<not> finished s"
  shows "\<exists>s'. works n s s'"
proof (cases "p_calculator s = C_done \<or> p_calculator s = C_get \<and> contents (p_calcq s) = [] \<and> \<not> q_exit_flag (p_calcq s)")
  case False
  then show ?thesis using calculator_goes_on [OF assms(1)] by blast
next
  case True
  have p: "preach n w c s" and w: "0 < w" using assms(1) by (simp_all add: draining_def)
  have empty: "contents (p_calcq s) = []" using True preach_exit [OF p] by (auto simp: inv_exit_def)
  have "\<not> (\<forall>v \<in> set (p_writers s). v = W_done)"
  proof
    assume all: "\<forall>v \<in> set (p_writers s). v = W_done"
    then have "W_done \<in> set (p_writers s)" using preach_writers [OF p] w by (cases "p_writers s") auto
    then have "q_exit_flag (p_calcq s)" by (rule order_passed [OF p])
    then show False using True all assms(2) by (auto simp: finished_def)
  qed
  then obtain i where "i < length (p_writers s)" "p_writers s ! i \<noteq> W_done" by (auto simp: in_set_conv_nth)
  then show ?thesis using writer_goes_on [OF assms(1) _ _ empty] by blast
qed

interpretation drain: running_down "draining n w c" "works n" work_left finished for n w c
proof
  show "draining n w c s'" if "draining n w c s" "works n s s'" for s s'
    using that works_frame [OF that(2)] preach.step by (auto simp: draining_def works_def)
  show "work_left s' < work_left s" if "draining n w c s" "works n s s'" for s s'
    using works_less [OF that(2)] preach_good that(1) by (auto simp: draining_def)
qed (rule draining_goes_on)



end
