(* ===== verification/Program.thy ===== *)
theory Program
  imports Refinement Client MainThread Draining "HOL-Library.Sublist"
begin

text \<open>
  The whole program: the main thread, the connecting thread with the callbacks that the
  library makes from inside it, the two signal handlers, the writers and the calculator, over
  one state.  Its parts are the models of the single components; what this theory adds is how
  they act on each other: the reception of a message item by item, the exit flag that all
  share, and that a thread only runs between its creation and its return.
\<close>

section \<open>State\<close>

text \<open>
  \<open>g_parse\<close> is the reception under way: its time and the events that the parser has not
  reported yet, \<open>g_alarm\<close> is set while the handler of the timer is behind its call of
  \<^verbatim>\<open>queue_add\<close>; in both cases the producer lock is held.  \<open>g_open\<close> is set between the callbacks
  for an established and a closed connection: only then does the library report data.
  \<open>g_texts\<close>, \<open>g_items\<close> and \<open>g_directives\<close> are histories that the program does not have: the
  texts received, and the items that the first queue accepted from them and from the timer.
\<close>

record 'p program =
  g_main :: main_state
  g_client :: client
  g_pipe :: pipeline
  g_ctx :: 'p
  g_vars :: json_state
  g_parse :: "(timeval \<times> json_event list) option"
  g_open :: bool
  g_sent :: "string list"
  g_signals :: nat
  g_reason :: "lws_close_status option"
  g_counters :: counters
  g_alarm :: bool
  g_texts :: "(timeval \<times> string) list"
  g_items :: "WorkItem list"
  g_directives :: "WorkItem list"

definition program_start :: "'p \<Rightarrow> calc_files \<Rightarrow> 'p program" where
  "program_start ctx c = \<lparr>g_main = main_start, g_client = client_start,
     g_pipe = p_start SYMBOL_COUNT WRITERS_COUNT c, g_ctx = ctx, g_vars = json_init, g_parse = None,
     g_open = False, g_sent = [], g_signals = 0, g_reason = None, g_counters = counters_init, g_alarm = False,
     g_texts = [], g_items = [], g_directives = []\<rparr>"

text \<open>The process runs until it exits; a thread runs between its creation and its return.\<close>

definition alive :: "'p program \<Rightarrow> bool" where
  "alive s \<longleftrightarrow> (\<forall>e. m_pc (g_main s) \<noteq> M_exit e) \<and> m_pc (g_main s) \<noteq> M_done"

definition running :: "thread \<Rightarrow> 'p program \<Rightarrow> bool" where
  "running t s \<longleftrightarrow> alive s \<and> t \<in> m_started (g_main s) \<and> t \<notin> m_returned (g_main s)"

text \<open>The end of each thread's function.\<close>

fun at_end :: "thread \<Rightarrow> 'p program \<Rightarrow> bool" where
  "at_end T_client s \<longleftrightarrow> k_pc (g_client s) = K_done"
| "at_end (T_writer i) s \<longleftrightarrow> p_writers (g_pipe s) ! i = W_done"
| "at_end T_calculator s \<longleftrightarrow> p_calculator (g_pipe s) = C_done"

text \<open>What the callback of the connection sees, and what it changes besides the queue.\<close>

definition conn :: "'p program \<Rightarrow> 'p wss" where
  "conn s = \<lparr>json_ctx = g_ctx s, json_vars = g_vars s, api_queue = p_api (g_pipe s),
     producer_held = (g_parse s \<noteq> None \<or> g_alarm s), connection_closed = k_connection_closed (g_client s),
     sent = g_sent s, not_empty_signals = g_signals s, close_reason = g_reason s\<rparr>"

definition put_conn :: "'p wss \<Rightarrow> 'p program \<Rightarrow> 'p program" where
  "put_conn w s = s\<lparr>g_ctx := json_ctx w, g_sent := sent w, g_signals := not_empty_signals w,
     g_reason := close_reason w, g_client := (g_client s)\<lparr>k_connection_closed := connection_closed w\<rparr>\<rparr>"

text \<open>Whether data is reported after a callback: not before success, not after the end.\<close>

definition opened :: "lws_callback_reasons \<Rightarrow> int \<Rightarrow> bool \<Rightarrow> bool" where
  "opened reason r b = (case reason of
     WsClient LWS_CALLBACK_CLIENT_ESTABLISHED \<Rightarrow> r = 0
   | WsClient LWS_CALLBACK_CLIENT_CLOSED \<Rightarrow> False
   | WsClient LWS_CALLBACK_CLIENT_CONNECTION_ERROR \<Rightarrow> False
   | _ \<Rightarrow> b)"

definition receive_reason :: lws_callback_reasons where
  "receive_reason = WsClient LWS_CALLBACK_CLIENT_RECEIVE"

text \<open>The threads of the pipeline that a step moves.\<close>

definition moved :: "pipeline \<Rightarrow> pipeline \<Rightarrow> thread set" where
  "moved p p' = {T_writer i |i. i < length (p_writers p) \<and> p_writers p' ! i \<noteq> p_writers p ! i} \<union>
     (if p_calculator p' \<noteq> p_calculator p then {T_calculator} else {})"

definition arrived_item :: "WorkItem \<Rightarrow> PCQueue \<Rightarrow> pipeline \<Rightarrow> pipeline" where
  "arrived_item x q p = p\<lparr>p_api := q, p_arrived := p_arrived p @ [x]\<rparr>"

section \<open>Steps\<close>

definition order_exit :: "'p program \<Rightarrow> 'p program" where
  "order_exit s = s\<lparr>g_pipe := (g_pipe s)\<lparr>p_api := (p_api (g_pipe s))\<lparr>q_exit_flag := True\<rparr>\<rparr>,
     g_client := (g_client s)\<lparr>k_exit_flag := True\<rparr>\<rparr>"

text \<open>
  One event of a reception: the JSON callback may hand an item to \<^verbatim>\<open>queue_add\<close>, which waits,
  accepts it, or refuses it after the exit order.
\<close>

definition parse_event :: "timeval \<Rightarrow> json_event \<Rightarrow> 'p program \<Rightarrow> 'p program outcome" where
  "parse_event now e s = (let s1 = s\<lparr>g_vars := json_update now (fst e) (snd e) (g_vars s)\<rparr> in
     case json_emit (fst e) (snd e) (g_vars s) of
       None \<Rightarrow> Returns 0 s1
     | Some x \<Rightarrow> (case queue_add (p_api (g_pipe s)) x of
         Waits \<Rightarrow> Waits
       | Returns r q \<Rightarrow> Returns 0 (if r = 0
           then s1\<lparr>g_pipe := arrived_item x q (g_pipe s), g_items := g_items s @ [x]\<rparr> else s1)))"

text \<open>
  The handler of the timer up to the return of \<^verbatim>\<open>queue_add\<close>; the producer lock is free, the clock
  and the unassigned fields of the directive are arbitrary.
\<close>

definition alarm_call :: "timeval \<Rightarrow> Trade \<Rightarrow> 'p program \<Rightarrow> 'p program outcome" where
  "alarm_call now junk s = (let x = directive_item now junk; s1 = s\<lparr>g_counters := count_minute (g_counters s), g_alarm := True\<rparr> in
     case queue_add (p_api (g_pipe s)) x of
       Waits \<Rightarrow> Waits
     | Returns r q \<Rightarrow> Returns 0
         (if r = 0 then s1\<lparr>g_pipe := arrived_item x q (g_pipe s), g_directives := g_directives s @ [x]\<rparr> else s1))"

text \<open>The rest of the handler: the limit of hours, and the producer lock is given back.\<close>

definition alarm_rest :: "'p program \<Rightarrow> 'p program" where
  "alarm_rest s = (if hour_counter (g_counters s) = PROGRAM_MAX_HOUR_LIMIT then order_exit s else s)\<lparr>g_alarm := False\<rparr>"

inductive program_step :: "'p lws_lib \<Rightarrow> string \<Rightarrow> 'p program \<Rightarrow> 'p program \<Rightarrow> bool" for lib key where
  main: "main_step (g_main s) m \<Longrightarrow> m_returned m = m_returned (g_main s) \<Longrightarrow>
    m_late_writes m = m_late_writes (g_main s) \<Longrightarrow> program_step lib key s (s\<lparr>g_main := m\<rparr>)"
| returns: "running t s \<Longrightarrow> at_end t s \<Longrightarrow>
    program_step lib key s (s\<lparr>g_main := (g_main s)\<lparr>m_returned := insert t (m_returned (g_main s))\<rparr>\<rparr>)"
| client: "running T_client s \<Longrightarrow> g_parse s = None \<Longrightarrow> client_step key (g_client s) c \<Longrightarrow>
    k_pc c \<noteq> k_pc (g_client s) \<Longrightarrow> program_step lib key s (s\<lparr>g_client := c\<rparr>)"
| callback: "running T_client s \<Longrightarrow> g_parse s = None \<Longrightarrow> k_pc (g_client s) \<in> {K_setup, K_serving, K_destroy} \<Longrightarrow>
    reason \<noteq> receive_reason \<Longrightarrow> lws_callback lib now reason inp (conn s) = Returns r w \<Longrightarrow>
    program_step lib key s (put_conn w s\<lparr>g_open := opened reason r (g_open s)\<rparr>)"
| receive: "running T_client s \<Longrightarrow> g_parse s = None \<Longrightarrow> k_pc (g_client s) = K_serving \<Longrightarrow> g_open s \<Longrightarrow> \<not> g_alarm s \<Longrightarrow>
    lejp_parse lib (g_ctx s) inp = (ctx, evs, code) \<Longrightarrow>
    program_step lib key s (s\<lparr>g_parse := Some (now, evs), g_ctx := ctx, g_texts := g_texts s @ [(now, inp)]\<rparr>)"
| parse: "running T_client s \<Longrightarrow> g_parse s = Some (now, e # evs) \<Longrightarrow> parse_event now e s = Returns 0 s' \<Longrightarrow>
    program_step lib key s (s'\<lparr>g_parse := Some (now, evs)\<rparr>)"
| parsed: "running T_client s \<Longrightarrow> g_parse s = Some (now, []) \<Longrightarrow>
    program_step lib key s (s\<lparr>g_parse := None, g_ctx := construct_parser (lejp_construct lib)\<rparr>)"
| alarm: "alive s \<Longrightarrow> m_timer (g_main s) \<Longrightarrow> g_parse s = None \<Longrightarrow> \<not> g_alarm s \<Longrightarrow> alarm_call now junk s = Returns 0 s' \<Longrightarrow>
    program_step lib key s s'"
| alarm_end: "alive s \<Longrightarrow> g_alarm s \<Longrightarrow> program_step lib key s (alarm_rest s)"
| interrupt: "alive s \<Longrightarrow> sigint_bound (k_contexts (g_client s)) \<Longrightarrow> program_step lib key s (order_exit s)"
| pipe_step: "pstep SYMBOL_COUNT (g_pipe s) p \<Longrightarrow> moved (g_pipe s) p \<noteq> {} \<Longrightarrow>
    \<forall>t \<in> moved (g_pipe s) p. running t s \<Longrightarrow>
    program_step lib key s (s\<lparr>g_pipe := p, g_main := (g_main s)\<lparr>m_late_writes :=
      m_late_writes (g_main s) + (if m_closed (g_main s) then 1 else 0)\<rparr>\<rparr>)"

inductive program_reach :: "'p lws_lib \<Rightarrow> string \<Rightarrow> 'p \<Rightarrow> calc_files \<Rightarrow> 'p program \<Rightarrow> bool" for lib key ctx c where
  start: "program_reach lib key ctx c (program_start ctx c)"
| step: "program_reach lib key ctx c s \<Longrightarrow> program_step lib key s s' \<Longrightarrow> program_reach lib key ctx c s'"

text \<open>
  The events of a reception one after the other do to the variables and the first queue what
  the branch of \<open>lws_callback\<close> that receives data does.
\<close>

fun parse_events :: "timeval \<Rightarrow> json_event list \<Rightarrow> 'p program \<Rightarrow> 'p program outcome" where
  "parse_events now [] s = Returns 0 s"
| "parse_events now (e # evs) s =
     (case parse_event now e s of Waits \<Rightarrow> Waits | Returns r s' \<Rightarrow> parse_events now evs s')"

lemma parse_event_json:
  "json_callback now (fst e) (snd e) (g_vars s, p_api (g_pipe s)) = (case parse_event now e s of
     Waits \<Rightarrow> Waits | Returns r s' \<Rightarrow> Returns r (g_vars s', p_api (g_pipe s')))"
  by (auto simp: parse_event_def json_callback_def Let_def arrived_item_def queue_add_def
      split: option.splits outcome.splits if_splits)

lemma parse_events_json:
  "json_callbacks now evs (g_vars s, p_api (g_pipe s)) = (case parse_events now evs s of
     Waits \<Rightarrow> Waits | Returns r s' \<Rightarrow> Returns r (g_vars s', p_api (g_pipe s')))"
proof (induction evs arbitrary: s)
  case (Cons e evs)
  then show ?case using parse_event_json [of now e s] by (cases e) (auto split: outcome.splits)
qed simp

section \<open>The parts of the program\<close>

lemma order_exit_parts [simp]:
  "g_main (order_exit s) = g_main s" "g_client (order_exit s) = (g_client s)\<lparr>k_exit_flag := True\<rparr>"
  "g_pipe (order_exit s) = (g_pipe s)\<lparr>p_api := (p_api (g_pipe s))\<lparr>q_exit_flag := True\<rparr>\<rparr>"
  "g_parse (order_exit s) = g_parse s" "g_vars (order_exit s) = g_vars s" "g_ctx (order_exit s) = g_ctx s"
  "g_open (order_exit s) = g_open s" "g_texts (order_exit s) = g_texts s" "g_items (order_exit s) = g_items s"
  "g_directives (order_exit s) = g_directives s" "g_counters (order_exit s) = g_counters s"
  "g_alarm (order_exit s) = g_alarm s"
  by (simp_all add: order_exit_def)

lemma alarm_rest_parts [simp]:
  "g_main (alarm_rest s) = g_main s" "g_parse (alarm_rest s) = g_parse s" "g_vars (alarm_rest s) = g_vars s"
  "g_ctx (alarm_rest s) = g_ctx s" "g_open (alarm_rest s) = g_open s" "g_texts (alarm_rest s) = g_texts s"
  "g_items (alarm_rest s) = g_items s" "g_directives (alarm_rest s) = g_directives s"
  "k_pc (g_client (alarm_rest s)) = k_pc (g_client s)" "p_writers (g_pipe (alarm_rest s)) = p_writers (g_pipe s)"
  "p_calculator (g_pipe (alarm_rest s)) = p_calculator (g_pipe s)" "p_arrived (g_pipe (alarm_rest s)) = p_arrived (g_pipe s)"
  "g_counters (alarm_rest s) = g_counters s" "\<not> g_alarm (alarm_rest s)"
  by (simp_all add: alarm_rest_def)

lemma alarm_rest_exits:
  "g_pipe (alarm_rest s) = g_pipe s \<and> g_client (alarm_rest s) = g_client s \<or>
   g_pipe (alarm_rest s) = g_pipe (order_exit s) \<and> g_client (alarm_rest s) = (g_client s)\<lparr>k_exit_flag := True\<rparr>"
  by (simp add: alarm_rest_def)

lemma put_conn_parts [simp]:
  "g_main (put_conn w s) = g_main s" "g_pipe (put_conn w s) = g_pipe s"
  "g_client (put_conn w s) = (g_client s)\<lparr>k_connection_closed := connection_closed w\<rparr>"
  "g_parse (put_conn w s) = g_parse s" "g_vars (put_conn w s) = g_vars s" "g_ctx (put_conn w s) = json_ctx w"
  "g_texts (put_conn w s) = g_texts s" "g_items (put_conn w s) = g_items s"
  "g_directives (put_conn w s) = g_directives s" "g_counters (put_conn w s) = g_counters s"
  "g_alarm (put_conn w s) = g_alarm s"
  by (simp_all add: put_conn_def)

lemma parse_event_cases:
  assumes "parse_event now e s = Returns r s'"
  obtains (silent) "s' = s\<lparr>g_vars := json_update now (fst e) (snd e) (g_vars s)\<rparr>"
      "json_emit (fst e) (snd e) (g_vars s) = None \<or> q_exit_flag (p_api (g_pipe s))"
  | (accepted) x q where "json_emit (fst e) (snd e) (g_vars s) = Some x"
      "queue_add (p_api (g_pipe s)) x = Returns 0 q" "\<not> q_exit_flag (p_api (g_pipe s))"
      "s' = s\<lparr>g_vars := json_update now (fst e) (snd e) (g_vars s), g_pipe := arrived_item x q (g_pipe s),
        g_items := g_items s @ [x]\<rparr>"
  using assms by (auto simp: parse_event_def Let_def queue_add_def split: option.splits outcome.splits if_splits)

lemma alarm_call_cases:
  assumes "alarm_call now junk s = Returns r s'"
  obtains (refused) "s' = s\<lparr>g_counters := count_minute (g_counters s), g_alarm := True\<rparr>"
  | (accepted) q where "queue_add (p_api (g_pipe s)) (directive_item now junk) = Returns 0 q" "\<not> q_exit_flag (p_api (g_pipe s))"
      "s' = s\<lparr>g_counters := count_minute (g_counters s), g_alarm := True,
        g_pipe := arrived_item (directive_item now junk) q (g_pipe s), g_directives := g_directives s @ [directive_item now junk]\<rparr>"
  using assms by (auto simp: alarm_call_def Let_def queue_add_def split: outcome.splits if_splits)

lemma callback_effect:
  assumes "lws_callback lib now reason inp (conn s) = Returns r w" and "reason \<noteq> receive_reason"
  shows "connection_closed w = k_connection_closed (g_client s) \<or> connection_closed w"
    and "opened reason r b \<Longrightarrow>
      json_ctx w = construct_parser (lejp_construct lib) \<or> b \<and> json_ctx w = g_ctx s"
proof -
  have "(connection_closed w = k_connection_closed (g_client s) \<or> connection_closed w) \<and>
      (opened reason r b \<longrightarrow> json_ctx w = construct_parser (lejp_construct lib) \<or> b \<and> json_ctx w = g_ctx s)"
  proof (cases reason)
    case (WsClient c)
    then show ?thesis
      using assms by (cases c)
        (auto simp: lws_callback_def opened_def conn_def receive_reason_def Let_def split: if_splits prod.splits)
  qed (use assms(1) in \<open>auto simp: lws_callback_def opened_def conn_def\<close>)
  then show "connection_closed w = k_connection_closed (g_client s) \<or> connection_closed w"
    "opened reason r b \<Longrightarrow> json_ctx w = construct_parser (lejp_construct lib) \<or> b \<and> json_ctx w = g_ctx s" by blast+
qed

lemma step_main:
  assumes "program_step lib key s s'"
  shows "g_main s' = g_main s \<or> main_step (g_main s) (g_main s')"
  using assms
proof (cases rule: program_step.cases)
  case (returns t)
  then show ?thesis by (auto simp: running_def alive_def intro!: main_step.thread_returns)
next
  case (parse now e evs s1)
  then show ?thesis by (auto elim!: parse_event_cases)
next
  case (alarm now junk)
  then show ?thesis by (auto elim!: alarm_call_cases)
next
  case (pipe_step p)
  then obtain t where "running t s" by blast
  then show ?thesis using pipe_step main_step.thread_writes [of t "g_main s"] by (auto simp: running_def alive_def)
qed auto

lemma step_client:
  assumes "program_step lib key s s'"
  shows "g_client s' = g_client s \<or> client_step key (g_client s) (g_client s')"
  using assms
proof (cases rule: program_step.cases)
  case (callback reason now inp r w)
  then show ?thesis
    using callback_effect(1) [OF callback(6,5)] client_step.call_back [of "g_client s" key] by (cases "g_client s") auto
next
  case (parse now e evs s1)
  then show ?thesis by (auto elim!: parse_event_cases)
next
  case (alarm now junk)
  then show ?thesis by (auto elim!: alarm_call_cases)
next
  case alarm_end
  then show ?thesis using alarm_rest_exits [of s] client_step.exit_order [of key "g_client s"] by auto
qed (use client_step.exit_order [of key] in auto)

lemma arrived_step: "queue_add (p_api p) x = Returns 0 q \<Longrightarrow> pstep n p (arrived_item x q p)"
  by (simp add: arrived_item_def pstep.arrive)

lemma step_pipe:
  assumes "program_step lib key s s'"
  shows "(pstep SYMBOL_COUNT)\<^sup>*\<^sup>* (g_pipe s) (g_pipe s')"
  using assms
proof (cases rule: program_step.cases)
  case (parse now e evs s1)
  from parse(4) have "g_pipe s1 = g_pipe s \<or> (\<exists>x q. queue_add (p_api (g_pipe s)) x = Returns 0 q \<and>
      g_pipe s1 = arrived_item x q (g_pipe s))"
    by (cases rule: parse_event_cases) auto
  then show ?thesis using parse(1) arrived_step by (auto intro: r_into_rtranclp)
next
  case (alarm now junk)
  from alarm(5) have "g_pipe s' = g_pipe s \<or> (\<exists>x q. queue_add (p_api (g_pipe s)) x = Returns 0 q \<and>
      g_pipe s' = arrived_item x q (g_pipe s))"
    by (cases rule: alarm_call_cases) auto
  then show ?thesis using arrived_step by (auto intro: r_into_rtranclp)
next
  case alarm_end
  then show ?thesis
    using alarm_rest_exits [of s] pstep.exit_order [of SYMBOL_COUNT "g_pipe s"] by (auto intro: r_into_rtranclp)
next
  case (pipe_step p)
  then show ?thesis by auto
qed (use pstep.exit_order in auto)

interpretation whole_main: refinement_map "program_reach lib key ctx c" "program_start ctx c" "program_step lib key"
    main_reach main_step g_main for lib key ctx c
proof
  show "main_reach (g_main (program_start ctx c))" by (simp add: program_start_def main_reach.start)
  show "main_step\<^sup>*\<^sup>* (g_main s) (g_main s')" if "program_step lib key s s'" for s s'
    using step_main [OF that] by (rule step_or_same)
qed (rule program_reach.induct main_reach.step; assumption)+

interpretation whole_client: refinement_map "program_reach lib key ctx c" "program_start ctx c" "program_step lib key"
    "client_reach key" "client_step key" g_client for lib key ctx c
proof
  show "client_reach key (g_client (program_start ctx c))" by (simp add: program_start_def client_reach.start)
  show "(client_step key)\<^sup>*\<^sup>* (g_client s) (g_client s')" if "program_step lib key s s'" for s s'
    using step_client [OF that] by (rule step_or_same)
qed (rule program_reach.induct client_reach.step; assumption)+

interpretation whole_pipe: refinement_map "program_reach lib key ctx c" "program_start ctx c" "program_step lib key"
    "preach SYMBOL_COUNT WRITERS_COUNT c" "pstep SYMBOL_COUNT" g_pipe for lib key ctx c
proof
  show "preach SYMBOL_COUNT WRITERS_COUNT c (g_pipe (program_start ctx c))" by (simp add: program_start_def preach.start)
  show "(pstep SYMBOL_COUNT)\<^sup>*\<^sup>* (g_pipe s) (g_pipe s')" if "program_step lib key s s'" for s s'
    using that by (rule step_pipe)
qed (rule program_reach.induct preach.step; assumption)+

end
