(* ===== verification/ProgramFacts.thy ===== *)
theory ProgramFacts
  imports Program
begin

text \<open>
  What the whole program keeps true.  The facts of the parts hold by the interpretations of
  \<open>Program\<close>; here is what binds the parts together:
  the exit flag, the returned threads, the fresh parser, and the way from the received texts
  to the items of the first queue.
\<close>

section \<open>The exit flag and the returned threads\<close>

definition inv_bind :: "'p lws_lib \<Rightarrow> 'p program \<Rightarrow> bool" where
  "inv_bind lib s \<longleftrightarrow> k_exit_flag (g_client s) = q_exit_flag (p_api (g_pipe s)) \<and>
     length (p_writers (g_pipe s)) = WRITERS_COUNT \<and>
     (\<forall>t \<in> m_returned (g_main s). at_end t s) \<and>
     (g_open s \<and> g_parse s = None \<longrightarrow> g_ctx s = construct_parser (lejp_construct lib))"

lemma moved_moves: "moved p p' \<noteq> {} \<Longrightarrow> thread_moves p p'"
  by (auto simp: moved_def thread_moves_def split: if_splits)

lemma thread_pstep:
  assumes "pstep n p p'" and "moved p p' \<noteq> {}"
  shows "q_exit_flag (p_api p') = q_exit_flag (p_api p)" and "length (p_writers p') = length (p_writers p)"
    and "p_arrived p' = p_arrived p"
  using works_frame [of n p p'] assms moved_moves by (auto simp: works_def)

lemma arrived_item_simps [simp]:
  "p_api (arrived_item x q p) = q" "p_writers (arrived_item x q p) = p_writers p"
  "p_calculator (arrived_item x q p) = p_calculator p" "p_arrived (arrived_item x q p) = p_arrived p @ [x]"
  "p_calcq (arrived_item x q p) = p_calcq p" "p_handled (arrived_item x q p) = p_handled p"
  "p_dropped (arrived_item x q p) = p_dropped p"
  by (simp_all add: arrived_item_def)

lemma queue_add_flag: "queue_add q x = Returns r q' \<Longrightarrow> q_exit_flag q' = q_exit_flag q"
  by (auto simp: queue_add_def split: if_splits)

lemma client_pc_flag: "client_step key c c' \<Longrightarrow> k_pc c' \<noteq> k_pc c \<Longrightarrow> k_exit_flag c' = k_exit_flag c"
  by (erule client_step.cases) (auto simp: client_connect_def Let_def split: prod.splits)

text \<open>A thread that a step leaves alone stays where it is.\<close>

lemma at_end_frame:
  assumes "k_pc (g_client s') = k_pc (g_client s)" and "p_writers (g_pipe s') = p_writers (g_pipe s)"
    and "p_calculator (g_pipe s') = p_calculator (g_pipe s)"
  shows "at_end t s' = at_end t s"
  using assms by (cases t) auto

lemma at_end_unmoved:
  assumes "t \<notin> moved (g_pipe s) (g_pipe s')" and "k_pc (g_client s') = k_pc (g_client s)"
    and "at_end t s" and "\<And>i. t = T_writer i \<Longrightarrow> i < length (p_writers (g_pipe s))"
  shows "at_end t s'"
  using assms by (cases t) (auto simp: moved_def split: if_splits)

lemma returned_threads:
  assumes "program_reach lib key ctx c s" and "t \<in> m_returned (g_main s)"
  shows "t \<in> set main_threads"
proof -
  have "inv_main (g_main s)" using whole_main.mapped [OF assms(1)] by (rule main_reach_inv)
  then have "m_returned (g_main s) \<subseteq> m_started (g_main s)" "m_started (g_main s) \<subseteq> set main_threads"
    by (auto simp: inv_main_def split: main_pc.splits dest: in_set_takeD)
  then show ?thesis using assms(2) by blast
qed

lemma writer_threads: "T_writer i \<in> set main_threads \<longleftrightarrow> i < WRITERS_COUNT"
  by (auto simp: main_threads_def)

text \<open>What a step does to the pipeline, the client's exit flag and the returned threads.\<close>

lemma pipe_change:
  assumes "program_step lib key s s'"
  obtains (same) "g_pipe s' = g_pipe s \<or> g_pipe s' = g_pipe (order_exit s)"
  | (arrives) x q where "queue_add (p_api (g_pipe s)) x = Returns 0 q"
      "g_pipe s' = arrived_item x q (g_pipe s)"
  | (threads) "pstep SYMBOL_COUNT (g_pipe s) (g_pipe s')" "moved (g_pipe s) (g_pipe s') \<noteq> {}"
      "\<forall>t \<in> moved (g_pipe s) (g_pipe s'). running t s"
  using assms
proof (cases rule: program_step.cases)
  case (parse now e evs s1)
  from parse(4) show ?thesis
  proof (cases rule: parse_event_cases)
    case silent
    then show ?thesis using parse(1) by (intro that(1)) simp
  next
    case (accepted x q)
    then show ?thesis using parse(1) by (intro that(2) [of x q]) simp_all
  qed
next
  case (alarm now junk)
  from alarm(5) show ?thesis
  proof (cases rule: alarm_call_cases)
    case refused
    then show ?thesis by (intro that(1)) simp
  next
    case (accepted q)
    then show ?thesis by (intro that(2) [of "directive_item now junk" q]) simp_all
  qed
next
  case alarm_end
  then show ?thesis using that(1) alarm_rest_exits [of s] by blast
next
  case (pipe_step p)
  then show ?thesis using that(3) by simp
qed (auto intro!: that(1))

lemma flags_change:
  assumes "program_step lib key s s'"
  shows "k_exit_flag (g_client s') = k_exit_flag (g_client s) \<and> q_exit_flag (p_api (g_pipe s')) = q_exit_flag (p_api (g_pipe s)) \<or>
    k_exit_flag (g_client s') \<and> q_exit_flag (p_api (g_pipe s'))"
  using assms
proof (cases rule: program_step.cases)
  case (client c)
  then show ?thesis using client_pc_flag by auto
next
  case (parse now e evs s1)
  from parse(4) show ?thesis by (cases rule: parse_event_cases) (use parse(1) queue_add_flag in auto)
next
  case (alarm now junk)
  from alarm(5) show ?thesis by (cases rule: alarm_call_cases) (use queue_add_flag in auto)
next
  case alarm_end
  then show ?thesis using alarm_rest_exits [of s] by auto
next
  case (pipe_step p)
  then show ?thesis using thread_pstep(1) by auto
qed auto

lemma returned_stay:
  assumes "program_step lib key s s'" and "\<forall>t \<in> m_returned (g_main s). at_end t s"
    and "m_returned (g_main s) \<subseteq> set main_threads" and "length (p_writers (g_pipe s)) = WRITERS_COUNT"
  shows "\<forall>t \<in> m_returned (g_main s'). at_end t s'"
proof -
  have pipe: "p_writers (g_pipe s') = p_writers (g_pipe s) \<and> p_calculator (g_pipe s') = p_calculator (g_pipe s) \<or>
      (\<forall>t \<in> moved (g_pipe s) (g_pipe s'). running t s)"
    using assms(1) by (cases rule: pipe_change) auto
  have keeps: "at_end t s'" if t: "t \<in> m_returned (g_main s)" for t
  proof -
    have k: "t = T_client \<Longrightarrow> k_pc (g_client s') = k_pc (g_client s)"
      using assms(1) t by (cases rule: program_step.cases) (auto simp: running_def elim!: parse_event_cases alarm_call_cases)
    have "T_writer i \<notin> moved (g_pipe s) (g_pipe s')" if "t = T_writer i" for i
      using pipe t that by (auto simp: running_def moved_def)
    moreover have "i < WRITERS_COUNT" if "t = T_writer i" for i
      using assms(3) t that writer_threads by blast
    moreover have "t = T_calculator \<Longrightarrow> T_calculator \<notin> moved (g_pipe s) (g_pipe s')"
      using pipe t by (auto simp: running_def moved_def)
    ultimately show ?thesis
      using k assms(2,4) t by (cases t) (auto simp: moved_def split: if_splits)
  qed
  show ?thesis
    using assms(1)
  proof (cases rule: program_step.cases)
    case (returns t)
    have "at_end u s' = at_end u s" for u using returns(1) by (cases u) auto
    then show ?thesis using returns assms(2) by auto
  qed (use keeps in \<open>auto elim!: parse_event_cases alarm_call_cases\<close>)
qed

lemma parser_fresh:
  assumes "program_step lib key s s'" and "g_open s \<and> g_parse s = None \<longrightarrow> g_ctx s = construct_parser (lejp_construct lib)"
  shows "g_open s' \<and> g_parse s' = None \<longrightarrow> g_ctx s' = construct_parser (lejp_construct lib)"
  using assms(1)
proof (cases rule: program_step.cases)
  case (callback reason now inp r w)
  have "opened reason r (g_open s) \<longrightarrow> json_ctx w = construct_parser (lejp_construct lib)"
    using callback_effect(2) [OF callback(6,5), of "g_open s"] assms(2) callback(3) by auto
  then show ?thesis using callback(1) by simp
qed (use assms(2) in \<open>auto elim!: parse_event_cases alarm_call_cases simp: order_exit_def\<close>)

lemma bind_holds: "program_reach lib key ctx c s \<Longrightarrow> inv_bind lib s"
proof (induction rule: program_reach.induct)
  case start
  then show ?case by (simp add: inv_bind_def program_start_def client_start_def p_start_def main_start_def)
next
  case (step s s')
  have "length (p_writers (g_pipe s')) = WRITERS_COUNT"
    using whole_pipe.mapped [OF program_reach.step [OF step.hyps]] preach_writers by blast
  then show ?case
    using step.IH flags_change [OF step.hyps(2)] returned_stay [OF step.hyps(2)] parser_fresh [OF step.hyps(2)]
      returned_threads [OF step.hyps(1)]
    unfolding inv_bind_def by blast
qed

section \<open>From the texts to the items\<close>

text \<open>The variables of the JSON callback after fresh parsers have read the texts.\<close>

definition texts_state :: "'p lws_lib \<Rightarrow> (timeval \<times> string) list \<Rightarrow> json_state \<Rightarrow> json_state" where
  "texts_state lib rs v = foldl (\<lambda>v r. fst (json_run (fst r) (afresh lib (snd r)) v)) v rs"

lemma items_afresh_snoc:
  "items_afresh lib (rs @ [(now, inp)]) v =
     items_afresh lib rs v @ snd (json_run now (afresh lib inp) (texts_state lib rs v))"
  by (induction rs arbitrary: v) (auto simp: texts_state_def case_prod_beta)

lemma texts_state_snoc:
  "texts_state lib (rs @ [(now, inp)]) v = fst (json_run now (afresh lib inp) (texts_state lib rs v))"
  by (simp add: texts_state_def)

text \<open>The rest of the reception under way.\<close>

definition ahead :: "'p program \<Rightarrow> json_state \<times> WorkItem list" where
  "ahead s = (case g_parse s of None \<Rightarrow> (g_vars s, []) | Some (now, evs) \<Rightarrow> json_run now evs (g_vars s))"

lemma ahead_simps:
  "g_parse s = None \<Longrightarrow> ahead s = (g_vars s, [])"
  "g_parse s = Some (now, evs) \<Longrightarrow> ahead s = json_run now evs (g_vars s)"
  by (simp_all add: ahead_def)

lemma ahead_same: "g_parse s' = g_parse s \<Longrightarrow> g_vars s' = g_vars s \<Longrightarrow> ahead s' = ahead s"
  by (simp add: ahead_def split: option.split)

definition inv_items :: "'p lws_lib \<Rightarrow> 'p program \<Rightarrow> bool" where
  "inv_items lib s \<longleftrightarrow> fst (ahead s) = texts_state lib (g_texts s) json_init \<and>
     (\<exists>reported. items_afresh lib (g_texts s) json_init = reported @ snd (ahead s) \<and> prefix (g_items s) reported \<and>
       (\<not> q_exit_flag (p_api (g_pipe s)) \<longrightarrow> g_items s = reported))"

lemma same_items:
  assumes "inv_items lib s" and "ahead s' = ahead s" and "g_texts s' = g_texts s" and "g_items s' = g_items s"
    and "q_exit_flag (p_api (g_pipe s)) \<longrightarrow> q_exit_flag (p_api (g_pipe s'))"
  shows "inv_items lib s'"
  using assms by (auto simp: inv_items_def)

lemma ahead_cons:
  assumes "g_parse s = Some (now, e # evs)"
  shows "ahead s = (let r = json_run now evs (json_update now (fst e) (snd e) (g_vars s)) in
    (fst r, (case json_emit (fst e) (snd e) (g_vars s) of None \<Rightarrow> [] | Some x \<Rightarrow> [x]) @ snd r))"
  using assms by (cases e) (auto simp: ahead_def Let_def case_prod_beta split: option.splits)

lemma items_receive:
  assumes "inv_bind lib s" and "inv_items lib s" and "g_parse s = None" and "g_open s"
    and "lejp_parse lib (g_ctx s) inp = (ctx, evs, code)"
  shows "inv_items lib (s\<lparr>g_parse := Some (now, evs), g_ctx := ctx, g_texts := g_texts s @ [(now, inp)]\<rparr>)"
proof -
  have evs: "evs = afresh lib inp" using assms(1,3-5) by (simp add: inv_bind_def afresh_def)
  have "g_vars s = texts_state lib (g_texts s) json_init" using assms(2,3) by (simp add: inv_items_def ahead_simps)
  then show ?thesis
    using assms(2,3) evs by (simp add: inv_items_def ahead_simps items_afresh_snoc texts_state_snoc)
qed

lemma items_parse:
  assumes "inv_items lib s" and "g_parse s = Some (now, e # evs)" and "parse_event now e s = Returns 0 s1"
  shows "inv_items lib (s1\<lparr>g_parse := Some (now, evs)\<rparr>)"
proof -
  obtain reported where r: "items_afresh lib (g_texts s) json_init = reported @ snd (ahead s)" "prefix (g_items s) reported"
      "\<not> q_exit_flag (p_api (g_pipe s)) \<longrightarrow> g_items s = reported"
      and v: "fst (ahead s) = texts_state lib (g_texts s) json_init"
    using assms(1) by (auto simp: inv_items_def)
  have "g_vars s1 = json_update now (fst e) (snd e) (g_vars s)" using assms(3) by (auto elim: parse_event_cases)
  then have here: "ahead (s1\<lparr>g_parse := Some (now, evs)\<rparr>) = json_run now evs (json_update now (fst e) (snd e) (g_vars s))"
    by (simp add: ahead_def)
  from assms(3) show ?thesis
  proof (cases rule: parse_event_cases)
    case silent
    then show ?thesis
      using r v here assms(2) unfolding inv_items_def
      by (cases "json_emit (fst e) (snd e) (g_vars s)") (auto simp: ahead_cons Let_def)
  next
    case (accepted x q)
    then have "g_items s = reported" using r by blast
    then show ?thesis using accepted r v here assms(2) by (auto simp: inv_items_def ahead_cons Let_def)
  qed
qed

lemma items_step:
  assumes "program_step lib key s s'" and "inv_bind lib s" and "inv_items lib s"
  shows "inv_items lib s'"
proof -
  have flag: "q_exit_flag (p_api (g_pipe s)) \<longrightarrow> q_exit_flag (p_api (g_pipe s'))"
    using flags_change [OF assms(1)] by blast
  note same = same_items [OF assms(3) ahead_same _ _ flag]
  show ?thesis
    using assms(1)
  proof (cases rule: program_step.cases)
    case (receive inp ctx evs code now)
    then show ?thesis using items_receive [OF assms(2,3) receive(3,5,7)] by simp
  next
    case (parse now e evs s1)
    then show ?thesis using items_parse [OF assms(3) parse(3,4)] by simp
  next
    case (parsed now)
    then have "ahead s' = ahead s" by (simp add: ahead_def)
    then show ?thesis by (rule same_items [OF assms(3) _ _ _ flag]) (use parsed in simp_all)
  next
    case (alarm now junk)
    then show ?thesis by (intro same) (auto elim!: alarm_call_cases)
  next
    case alarm_end
    then show ?thesis by (intro same) simp_all
  next
    case (main m)
    then show ?thesis by (intro same) simp_all
  next
    case (returns t)
    then show ?thesis by (intro same) simp_all
  next
    case (client c)
    then show ?thesis by (intro same) simp_all
  next
    case (callback reason now inp r w)
    then show ?thesis by (intro same) simp_all
  next
    case interrupt
    then show ?thesis by (intro same) simp_all
  next
    case (pipe_step p)
    then show ?thesis by (intro same) simp_all
  qed
qed

lemma items_hold: "program_reach lib key ctx c s \<Longrightarrow> inv_items lib s"
proof (induction rule: program_reach.induct)
  case start
  then show ?case by (simp add: inv_items_def ahead_def program_start_def texts_state_def)
next
  case (step s s')
  show ?case by (rule items_step [OF step.hyps(2) bind_holds [OF step.hyps(1)] step.IH])
qed

text \<open>What arrives is the items of the texts and the directives, merged.\<close>

lemma Nil_shuffles: "zs \<in> shuffles xs [] \<longleftrightarrow> zs = xs" "zs \<in> shuffles [] ys \<longleftrightarrow> zs = ys"
  by simp_all

lemma shuffles_snoc:
  assumes "zs \<in> shuffles xs ys"
  shows "zs @ [x] \<in> shuffles (xs @ [x]) ys" and "zs @ [x] \<in> shuffles xs (ys @ [x])"
proof -
  have "zs @ [x] \<in> shuffles (xs @ [x]) ys \<and> zs @ [x] \<in> shuffles xs (ys @ [x])"
    using assms
  proof (induction xs ys arbitrary: zs rule: shuffles.induct)
    case (1 ys)
    then show ?case by (induction ys arbitrary: zs) auto
  next
    case (2 xs)
    then show ?case by (induction xs arbitrary: zs) auto
  next
    case (3 a xs b ys)
    then show ?case by auto
  qed
  then show "zs @ [x] \<in> shuffles (xs @ [x]) ys" and "zs @ [x] \<in> shuffles xs (ys @ [x])" by simp_all
qed

lemma directive_no_trade: "\<not> is_trade (directive_item now junk)"
  by (simp add: is_trade_def directive_item_def DIRECTIVE_CALCULATE_MINUTE_def)

definition inv_arrivals :: "'p program \<Rightarrow> bool" where
  "inv_arrivals s \<longleftrightarrow> p_arrived (g_pipe s) \<in> shuffles (g_items s) (g_directives s) \<and>
     (\<forall>x \<in> set (g_directives s). \<not> is_trade x)"

lemma arrivals_step:
  assumes "program_step lib key s s'" and "inv_arrivals s"
  shows "inv_arrivals s'"
  using assms(1)
proof (cases rule: program_step.cases)
  case (parse now e evs s1)
  from parse(4) show ?thesis
    by (cases rule: parse_event_cases) (use parse(1) assms(2) in \<open>auto simp: inv_arrivals_def intro: shuffles_snoc(1)\<close>)
next
  case (alarm now junk)
  from alarm(5) show ?thesis
    by (cases rule: alarm_call_cases)
      (use assms(2) shuffles_snoc(2) directive_no_trade in \<open>auto simp: inv_arrivals_def\<close>)
next
  case (pipe_step p)
  then show ?thesis using assms(2) thread_pstep(3) by (simp add: inv_arrivals_def)
qed (use assms(2) in \<open>simp_all add: inv_arrivals_def\<close>)

lemma arrivals_hold: "program_reach lib key ctx c s \<Longrightarrow> inv_arrivals s"
proof (induction rule: program_reach.induct)
  case start
  then show ?case by (simp add: inv_arrivals_def program_start_def p_start_def)
next
  case (step s s')
  show ?case by (rule arrivals_step [OF step.hyps(2) step.IH])
qed

section \<open>The positions of the symbols\<close>

definition in_list :: "WorkItem \<Rightarrow> bool" where
  "in_list x \<longleftrightarrow> symbol_index (item_trade x) < SYMBOL_COUNT"

lemma json_update_in_list: "in_list (current_work_item v) \<Longrightarrow> in_list (current_work_item (json_update now r e v))"
proof -
  have sym: "in_list (current_work_item (set_symbol buf v))" if v: "in_list (current_work_item v)" for buf v
  proof (cases "find_symbol buf")
    case (Some i)
    then have "unat (of_nat i :: 8 word) = i" "i < SYMBOL_COUNT" by (simp_all add: find_symbol_iff unat_of_nat)
    then show ?thesis using Some by (simp add: set_symbol_def in_list_def symbol_index_def)
  qed (use v in \<open>simp add: set_symbol_def\<close>)
  show "in_list (current_work_item v) \<Longrightarrow> ?thesis"
    using sym by (cases r) (simp_all add: in_list_def symbol_index_def set_t_def set_v_def set_p_def case_prod_beta)
qed

definition inv_symbols :: "'p program \<Rightarrow> bool" where
  "inv_symbols s \<longleftrightarrow> in_list (current_work_item (g_vars s)) \<and> (\<forall>x \<in> set (g_items s). in_list x)"

lemma json_emit_current: "json_emit r e v = Some x \<Longrightarrow> x = current_work_item v"
  by (cases r) (auto split: if_splits)

lemma symbols_step:
  assumes "program_step lib key s s'" and "inv_symbols s"
  shows "inv_symbols s'"
  using assms(1)
proof (cases rule: program_step.cases)
  case (parse now e evs s1)
  from parse(4) show ?thesis
    by (cases rule: parse_event_cases)
      (use parse(1) assms(2) json_update_in_list json_emit_current in \<open>auto simp: inv_symbols_def\<close>)
next
  case (alarm now junk)
  from alarm(5) show ?thesis
    by (cases rule: alarm_call_cases) (use assms(2) in \<open>auto simp: inv_symbols_def\<close>)
qed (use assms(2) in \<open>simp_all add: inv_symbols_def\<close>)

lemma symbols_hold: "program_reach lib key ctx c s \<Longrightarrow> inv_symbols s"
proof (induction rule: program_reach.induct)
  case start
  then show ?case by (simp add: inv_symbols_def program_start_def in_list_def json_init_def symbol_index_def)
next
  case (step s s')
  show ?case by (rule symbols_step [OF step.hyps(2) step.IH])
qed

lemma arrived_in_list:
  assumes "program_reach lib key ctx c s" and "x \<in> set (p_arrived (g_pipe s))" and "is_trade x"
  shows "symbol_index (item_trade x) < SYMBOL_COUNT"
proof -
  have "inv_arrivals s" "inv_symbols s" by (rule arrivals_hold [OF assms(1)], rule symbols_hold [OF assms(1)])
  then show ?thesis using assms(2,3) by (auto simp: inv_arrivals_def inv_symbols_def in_list_def set_shuffles)
qed

end
