(* ===== verification/ProgramRun.thy ===== *)
theory ProgramRun
  imports ProgramFacts
begin

text \<open>
  Moves of the whole program, from which its example runs are put together.  A run is followed
  through the view of the pipeline and a frame of everything else; the moves of the writers
  and of the calculator are those of \<open>ThreadRoutines\<close>, inside any frame in which they run.
\<close>

section \<open>Frames\<close>

type_synonym frame = "main_state \<times> client_pc \<times> bool \<times> bool \<times> (timeval \<times> json_event list) option \<times> bool \<times>
  WorkItem list \<times> WorkItem list \<times> counters \<times> bool"

definition frame :: "'p program \<Rightarrow> frame" where
  "frame s = (g_main s, k_pc (g_client s), sigint_bound (k_contexts (g_client s)), k_connection_closed (g_client s),
     g_parse s, g_open s, g_items s, g_directives s, g_counters s, g_alarm s)"

text \<open>All threads run and \<^verbatim>\<open>main\<close> waits for the first of them.\<close>

abbreviation waiting :: "bool \<Rightarrow> main_state" where
  "waiting timer \<equiv> m_at (M_join 0) 4 0 timer False"

definition in_frame :: "'p lws_lib \<Rightarrow> string \<Rightarrow> 'p \<Rightarrow> calc_files \<Rightarrow> frame \<Rightarrow> pipeline \<Rightarrow> bool" where
  "in_frame lib key ctx c f p \<longleftrightarrow> fst f = waiting True \<and> (\<exists>s. program_reach lib key ctx c s \<and> frame s = f \<and> g_pipe s = p)"

lemma waiting_runs: "t \<in> set main_threads \<Longrightarrow> g_main s = waiting True \<Longrightarrow> running t s"
  by (simp add: running_def alive_def length_main_threads)

lemma moves_moved: "pstep n p p' \<Longrightarrow> thread_moves p p' \<Longrightarrow> moved p p' \<noteq> {}"
proof -
  assume step: "pstep n p p'" and "thread_moves p p'"
  moreover have "length (p_writers p') = length (p_writers p)"
    using step by (rule pstep.cases) (auto simp: Writer_log_frame)
  ultimately show ?thesis
    by (auto simp: thread_moves_def moved_def list_eq_iff_nth_eq)
qed

lemma moved_threads:
  assumes "length (p_writers p) = WRITERS_COUNT"
  shows "moved p p' \<subseteq> set main_threads"
  using assms by (auto simp: moved_def writer_threads split: if_splits) (auto simp: main_threads_def)

lemma in_frame_moved:
  assumes "in_frame lib key ctx c f p" and "pstep SYMBOL_COUNT p p'" and "thread_moves p p'"
  shows "in_frame lib key ctx c f p'"
proof -
  obtain s where s: "program_reach lib key ctx c s" "frame s = f" "g_pipe s = p" and m: "fst f = waiting True"
    using assms(1) by (auto simp: in_frame_def)
  have main: "g_main s = waiting True" using s(2) m by (auto simp: frame_def)
  have "\<forall>t \<in> moved (g_pipe s) p'. running t s"
    using moved_threads [of "g_pipe s" p'] bind_holds [OF s(1)] waiting_runs main by (auto simp: inv_bind_def)
  from program_reach.step [OF s(1) program_step.pipe_step [OF _ _ this]] moves_moved [OF assms(2,3)] assms(2) s(3)
  have "program_reach lib key ctx c (s\<lparr>g_pipe := p', g_main := (g_main s)\<lparr>m_late_writes :=
      m_late_writes (g_main s) + (if m_closed (g_main s) then 1 else 0)\<rparr>\<rparr>)" (is "program_reach lib key ctx c ?s") by blast
  moreover have "frame ?s = f" using s(2) main by (auto simp: frame_def)
  moreover have "g_pipe ?s = p'" by simp
  ultimately show ?thesis using m unfolding in_frame_def by blast
qed

interpretation amid: thread_runs SYMBOL_COUNT WRITERS_COUNT c "in_frame lib key ctx c f" for lib key ctx c f
proof
  show "preach SYMBOL_COUNT WRITERS_COUNT c p" if "in_frame lib key ctx c f p" for p
    using that whole_pipe.mapped by (auto simp: in_frame_def)
  show "in_frame lib key ctx c f p'" if "in_frame lib key ctx c f p" "pstep SYMBOL_COUNT p p'" "thread_moves p p'" for p p'
    by (rule in_frame_moved [OF that])
qed

section \<open>Moves of the connecting thread\<close>

lemma frame_step:
  assumes "shows_view (in_frame lib key ctx c f) v" and "fst f' = waiting True"
    and "\<And>s. program_reach lib key ctx c s \<Longrightarrow> frame s = f \<Longrightarrow> view (g_pipe s) = v \<Longrightarrow> running T_client s \<Longrightarrow>
      \<exists>s'. program_step lib key s s' \<and> frame s' = f' \<and> view (g_pipe s') = v'"
  shows "shows_view (in_frame lib key ctx c f') v'"
proof -
  obtain s where s: "program_reach lib key ctx c s" "frame s = f" "view (g_pipe s) = v" and m: "fst f = waiting True"
    using assms(1) by (auto simp: shows_view_def in_frame_def)
  have "T_client \<in> set main_threads" by (simp add: main_threads_def)
  then have "running T_client s" using s(2) m by (intro waiting_runs) (auto simp: frame_def)
  then obtain s' where "program_step lib key s s'" "frame s' = f'" "view (g_pipe s') = v'"
    using assms(3) [OF s] by blast
  then show ?thesis
    using program_reach.step [OF s(1)] assms(2) unfolding shows_view_def in_frame_def by blast
qed

lemma client_frame:
  assumes "frame s = (m, k, b, cl, None, o', xs, ds)" and "running T_client s" and "client_step key (g_client s) c"
    and "k_pc c \<noteq> k"
  shows "\<exists>s'. program_step lib key s s' \<and>
    frame s' = (m, k_pc c, sigint_bound (k_contexts c), k_connection_closed c, None, o', xs, ds) \<and> g_pipe s' = g_pipe s"
proof (intro exI conjI)
  show "program_step lib key s (s\<lparr>g_client := c\<rparr>)"
    using assms by (intro program_step.client) (simp_all add: frame_def)
qed (use assms(1) in \<open>auto simp: frame_def\<close>)

lemma move_client:
  assumes "shows_view (in_frame lib key ctx c (m, k, b, cl, None, o', xs, ds)) v"
    and "\<And>s. k_pc (g_client s) = k \<Longrightarrow> sigint_bound (k_contexts (g_client s)) = b \<Longrightarrow> k_connection_closed (g_client s) = cl \<Longrightarrow>
      k_exit_flag (g_client s) = fst (snd v) \<Longrightarrow>
      \<exists>c. client_step key (g_client (s :: 'p program)) c \<and> k_pc c = k' \<and> sigint_bound (k_contexts c) = b' \<and> k_connection_closed c = cl'"
    and "k' \<noteq> k"
  shows "shows_view (in_frame lib key (ctx :: 'p) c (m, k', b', cl', None, o', xs, ds)) v"
proof (rule frame_step [OF assms(1)])
  show "fst (m, k', b', cl', None, o', xs, ds) = waiting True" using assms(1) by (auto simp: shows_view_def in_frame_def)
  fix s assume s: "program_reach lib key ctx c s" "frame s = (m, k, b, cl, None, o', xs, ds)" "view (g_pipe s) = v" "running T_client s"
  have "k_exit_flag (g_client s) = fst (snd v)" using bind_holds [OF s(1)] s(3) by (auto simp: inv_bind_def view_def)
  then obtain d where d: "client_step key (g_client s) d" "k_pc d = k'" "sigint_bound (k_contexts d) = b'" "k_connection_closed d = cl'"
    using assms(2) [of s] s(2) by (auto simp: frame_def)
  then have "k_pc d \<noteq> k" using assms(3) by simp
  from client_frame [OF s(2,4) d(1) this, of lib]
  obtain s' where s': "program_step lib key s s'" "g_pipe s' = g_pipe s"
    "frame s' = (m, k_pc d, sigint_bound (k_contexts d), k_connection_closed d, None, o', xs, ds)"
    by (elim exE conjE)
  show "\<exists>s'. program_step lib key s s' \<and> frame s' = (m, k', b', cl', None, o', xs, ds) \<and> view (g_pipe s') = v"
    by (rule exI [of _ s']) (simp add: s' d(2-4) s(3))
qed

section \<open>Receptions and signals\<close>

lemma pipe_good: "program_reach lib key ctx c s \<Longrightarrow> good_queues (g_pipe s)"
  by (rule preach_good [OF whole_pipe.mapped])

lemma parse_item:
  assumes "program_reach lib key ctx c s" and "json_emit (fst e) (snd e) (g_vars s) = Some x"
    and "view (g_pipe s) = (a, False, q, f, ws, k, ar, h, d)" and "length a < 2000"
  shows "\<exists>s'. parse_event now e s = Returns 0 s' \<and> g_vars s' = json_update now (fst e) (snd e) (g_vars s) \<and>
    frame s' = (case frame s of (m, k, b, cl, pa, op, xs, ds) \<Rightarrow> (m, k, b, cl, pa, op, xs @ [x], ds)) \<and>
    view (g_pipe s') = (a @ [x], False, q, f, ws, k, ar @ [x], h, d)"
proof -
  have "wf_queue (p_api (g_pipe s))" using pipe_good [OF assms(1)] by (simp add: good_queues_def)
  note add = queue_add_room [OF this, of x]
  show ?thesis
    using assms(2-4) add
    by (auto simp: parse_event_def Let_def view_def frame_def)
qed

text \<open>One callback, with or without an item, and then the whole reception.\<close>

definition emitted :: "json_event \<Rightarrow> json_state \<Rightarrow> WorkItem list" where
  "emitted e st = (case json_emit (fst e) (snd e) st of None \<Rightarrow> [] | Some x \<Rightarrow> [x])"

lemma json_run_emitted:
  "snd (json_run now (e # evs) st) = emitted e st @ snd (json_run now evs (json_update now (fst e) (snd e) st))"
  by (cases e) (simp add: emitted_def case_prod_beta split: option.split)

lemma parse_one:
  assumes "program_reach lib key ctx c s" and "frame s = (waiting True, k, b, cl, Some (now, e # evs), op, xs, ds)"
    and "view (g_pipe s) = (a, False, q, f, ws, cp, ar, h, d)" and "length (a @ emitted e (g_vars s)) \<le> 2000"
  shows "\<exists>s'. program_reach lib key ctx c s' \<and> g_vars s' = json_update now (fst e) (snd e) (g_vars s) \<and>
    frame s' = (waiting True, k, b, cl, Some (now, evs), op, xs @ emitted e (g_vars s), ds) \<and>
    view (g_pipe s') = (a @ emitted e (g_vars s), False, q, f, ws, cp, ar @ emitted e (g_vars s), h, d)"
proof -
  have run: "running T_client s" using assms(2) by (intro waiting_runs) (auto simp: frame_def main_threads_def)
  have pa: "g_parse s = Some (now, e # evs)" using assms(2) by (simp add: frame_def)
  show ?thesis
  proof (cases "json_emit (fst e) (snd e) (g_vars s)")
    case None
    then have "parse_event now e s = Returns 0 (s\<lparr>g_vars := json_update now (fst e) (snd e) (g_vars s)\<rparr>)"
      by (simp add: parse_event_def)
    note reach = program_reach.step [OF assms(1) program_step.parse [OF run pa this]]
    show ?thesis
      by (intro exI conjI, rule reach) (use assms(2,3) None in \<open>auto simp: frame_def emitted_def\<close>)
  next
    case (Some x)
    then have "length a < 2000" using assms(4) by (simp add: emitted_def)
    from parse_item [OF assms(1) Some assms(3) this, of now] obtain s1 where
      s1: "parse_event now e s = Returns 0 s1" "g_vars s1 = json_update now (fst e) (snd e) (g_vars s)"
      "frame s1 = (waiting True, k, b, cl, Some (now, e # evs), op, xs @ [x], ds)"
      "view (g_pipe s1) = (a @ [x], False, q, f, ws, cp, ar @ [x], h, d)"
      using assms(2) by auto
    note reach = program_reach.step [OF assms(1) program_step.parse [OF run pa s1(1)]]
    show ?thesis
      by (intro exI conjI, rule reach) (use s1(2-4) Some in \<open>auto simp: frame_def emitted_def\<close>)
  qed
qed

lemma parse_run:
  assumes "program_reach lib key ctx c s" and "frame s = (waiting True, k, b, cl, Some (now, evs), op, xs, ds)"
    and "view (g_pipe s) = (a, False, q, f, ws, cp, ar, h, d)" and "its = snd (json_run now evs (g_vars s))"
    and "length a + length its \<le> 2000"
  shows "\<exists>s'. program_reach lib key ctx c s' \<and> frame s' = (waiting True, k, b, cl, None, op, xs @ its, ds) \<and>
    view (g_pipe s') = (a @ its, False, q, f, ws, cp, ar @ its, h, d)"
  using assms
proof (induction evs arbitrary: s a xs ar its)
  case Nil
  have run: "running T_client s" using Nil(2) by (intro waiting_runs) (auto simp: frame_def main_threads_def)
  have "g_parse s = Some (now, [])" using Nil(2) by (simp add: frame_def)
  from program_reach.step [OF Nil(1) program_step.parsed [OF run this]] show ?case
    using Nil(2-4) by (intro exI [of _ "s\<lparr>g_parse := None, g_ctx := construct_parser (lejp_construct lib)\<rparr>"])
      (auto simp: frame_def)
next
  case (Cons e evs)
  let ?ys = "emitted e (g_vars s)" and ?rest = "snd (json_run now evs (json_update now (fst e) (snd e) (g_vars s)))"
  have its: "its = ?ys @ ?rest" using Cons.prems(4) by (simp only: json_run_emitted)
  then have room: "length (a @ ?ys) \<le> 2000" "length (a @ ?ys) + length ?rest \<le> 2000" using Cons.prems(5) by simp_all
  obtain s1 where s1: "program_reach lib key ctx c s1" "g_vars s1 = json_update now (fst e) (snd e) (g_vars s)"
    "frame s1 = (waiting True, k, b, cl, Some (now, evs), op, xs @ ?ys, ds)"
    "view (g_pipe s1) = (a @ ?ys, False, q, f, ws, cp, ar @ ?ys, h, d)"
    using parse_one [OF Cons.prems(1-3) room(1)] by blast
  from Cons.IH [OF s1(1,3,4) _ room(2)] show ?case by (simp add: s1(2) its)
qed

lemma in_frame_client:
  assumes "frame s = f" and "fst f = waiting True"
  shows "running T_client s"
  using assms by (intro waiting_runs) (auto simp: frame_def main_threads_def)

lemma move_receive:
  assumes "shows_view (in_frame lib key ctx c (waiting True, K_serving, b, cl, None, True, xs, ds, cn, False)) (a, False, q, f, ws, cp, ar, h, d)"
    and "lejp_parse lib (construct_parser (lejp_construct lib)) inp = (ctx', message_events obs, code)"
    and "\<forall>ob \<in> set obs. object_ok ob" and "length a + length obs \<le> 2000"
    and its: "its = map (\<lambda>ob. \<lparr>item_trade = object_trade ob, item_event_time = now\<rparr>) obs"
  shows "shows_view (in_frame lib key ctx c (waiting True, K_serving, b, cl, None, True, xs @ its, ds, cn, False))
    (a @ its, False, q, f, ws, cp, ar @ its, h, d)"
proof -
  obtain s where s: "program_reach lib key ctx c s" "frame s = (waiting True, K_serving, b, cl, None, True, xs, ds, cn, False)"
    "view (g_pipe s) = (a, False, q, f, ws, cp, ar, h, d)"
    using assms(1) by (auto simp: shows_view_def in_frame_def)
  have st: "g_parse s = None" "g_open s" "k_pc (g_client s) = K_serving" "\<not> g_alarm s" using s(2) by (simp_all add: frame_def)
  then have "g_ctx s = construct_parser (lejp_construct lib)" using bind_holds [OF s(1)] by (simp add: inv_bind_def)
  then have parse: "lejp_parse lib (g_ctx s) inp = (ctx', message_events obs, code)" using assms(2) by simp
  have run: "running T_client s" by (rule in_frame_client [OF s(2)]) simp
  let ?s = "s\<lparr>g_parse := Some (now, message_events obs), g_ctx := ctx', g_texts := g_texts s @ [(now, inp)]\<rparr>"
  note reach = program_reach.step [OF s(1) program_step.receive [OF run st(1,3,2,4) parse, of key now]]
  have "frame ?s = (waiting True, K_serving, b, cl, Some (now, message_events obs), True, xs, ds, cn, False)"
    "view (g_pipe ?s) = (a, False, q, f, ws, cp, ar, h, d)" using s(2,3) by (simp_all add: frame_def)
  moreover have "its = snd (json_run now (message_events obs) (g_vars ?s))"
    using message_emits [OF assms(3)] its by simp
  moreover have "length a + length its \<le> 2000" using assms(4) its by simp
  ultimately have "\<exists>s'. program_reach lib key ctx c s' \<and> frame s' = (waiting True, K_serving, b, cl, None, True, xs @ its, ds, cn, False) \<and>
      view (g_pipe s') = (a @ its, False, q, f, ws, cp, ar @ its, h, d)"
    by (rule parse_run [OF reach])
  then show ?thesis by (auto simp: shows_view_def in_frame_def)
qed

lemma subscribe_succeeds:
  assumes "\<And>hist w. 0 \<le> wr hist w"
  shows "fst (subscribe_to_symbols wr hist) = 0"
proof -
  have [simp]: "\<not> wr hist w < 0" for hist w using assms by (simp add: not_less)
  have "fst (subscribe_from wr ss hist) = 0" for ss hist
    by (induction ss arbitrary: hist) (simp_all add: write_to_server_def Let_def)
  then show ?thesis by (simp add: subscribe_to_symbols_def)
qed

lemma move_established:
  fixes lib :: "'p lws_lib"
  assumes "shows_view (in_frame lib key ctx c (waiting True, K_serving, b, cl, None, op, xs, ds)) v"
    and "\<And>hist w. 0 \<le> lws_write lib hist w"
  shows "shows_view (in_frame lib key ctx c (waiting True, K_serving, b, cl, None, True, xs, ds)) v"
proof (rule frame_step [OF assms(1)])
  fix s :: "'p program" assume s: "frame s = (waiting True, K_serving, b, cl, None, op, xs, ds)" "view (g_pipe s) = v" "running T_client s"
  let ?r = "WsClient LWS_CALLBACK_CLIENT_ESTABLISHED"
  have st: "g_parse s = None" "k_pc (g_client s) \<in> {K_setup, K_serving, K_destroy}" using s(1) by (simp_all add: frame_def)
  obtain hist where "subscribe_to_symbols (lws_write lib) (g_sent s) = (0, hist)"
    using subscribe_succeeds [of "lws_write lib" "g_sent s"] assms(2) by (metis prod.collapse)
  then have "lws_callback lib undefined ?r [] (conn s) =
      Returns 0 (conn s\<lparr>json_ctx := construct_parser (lejp_construct lib), sent := hist\<rparr>)" (is "_ = Returns 0 ?w")
    by (simp add: lws_callback_def conn_def)
  from program_step.callback [OF s(3) st _ this, of key]
  have "program_step lib key s (put_conn ?w s\<lparr>g_open := True\<rparr>)" by (simp add: receive_reason_def opened_def)
  then show "\<exists>s'. program_step lib key s s' \<and> frame s' = (waiting True, K_serving, b, cl, None, True, xs, ds) \<and> view (g_pipe s') = v"
    using s(1,2) by (intro exI [of _ "put_conn ?w s\<lparr>g_open := True\<rparr>"]) (simp add: frame_def conn_def)
qed simp

lemma move_alarm_call:
  assumes "shows_view (in_frame lib key ctx c (waiting True, k, b, cl, None, op, xs, ds, cn, False)) (a, False, q, f, ws, cp, ar, h, d)"
    and "length a < 2000" and "x = directive_item now junk"
  shows "shows_view (in_frame lib key ctx c (waiting True, k, b, cl, None, op, xs, ds @ [x], count_minute cn, True))
    (a @ [x], False, q, f, ws, cp, ar @ [x], h, d)"
proof (rule frame_step [OF assms(1)])
  fix s assume s: "program_reach lib key ctx c s" "frame s = (waiting True, k, b, cl, None, op, xs, ds, cn, False)"
    "view (g_pipe s) = (a, False, q, f, ws, cp, ar, h, d)"
  have wf: "wf_queue (p_api (g_pipe s))" using pipe_good [OF s(1)] by (simp add: good_queues_def)
  have "\<not> q_exit_flag (p_api (g_pipe s))" "length (contents (p_api (g_pipe s))) < 2000"
    using s(3) assms(2) by (auto simp: view_def)
  note add = queue_add_room [OF wf this, of x]
  let ?s = "s\<lparr>g_counters := count_minute cn, g_alarm := True, g_pipe := arrived_item x (queue_put x (p_api (g_pipe s))) (g_pipe s),
      g_directives := g_directives s @ [x]\<rparr>"
  have "alarm_call now junk s = Returns 0 ?s"
    using s(2) add assms(3) by (simp add: alarm_call_def Let_def frame_def)
  moreover have "alive s" "m_timer (g_main s)" "g_parse s = None" "\<not> g_alarm s" using s(2) by (auto simp: frame_def alive_def)
  ultimately have "program_step lib key s ?s" by (intro program_step.alarm)
  then show "\<exists>s'. program_step lib key s s' \<and> frame s' = (waiting True, k, b, cl, None, op, xs, ds @ [x], count_minute cn, True) \<and>
      view (g_pipe s') = (a @ [x], False, q, f, ws, cp, ar @ [x], h, d)"
    using s(2,3) add by (intro exI [of _ ?s]) (auto simp: frame_def view_def)
qed simp

lemma move_alarm_end:
  fixes lib :: "'p lws_lib"
  assumes "shows_view (in_frame lib key ctx c (waiting True, k, b, cl, pa, op, xs, ds, cn, True)) v"
    and "hour_counter cn \<noteq> PROGRAM_MAX_HOUR_LIMIT"
  shows "shows_view (in_frame lib key ctx c (waiting True, k, b, cl, pa, op, xs, ds, cn, False)) v"
proof (rule frame_step [OF assms(1)])
  fix s :: "'p program" assume s: "frame s = (waiting True, k, b, cl, pa, op, xs, ds, cn, True)" "view (g_pipe s) = v"
  then have "program_step lib key s (alarm_rest s)" by (intro program_step.alarm_end) (auto simp: frame_def alive_def)
  then show "\<exists>s'. program_step lib key s s' \<and> frame s' = (waiting True, k, b, cl, pa, op, xs, ds, cn, False) \<and> view (g_pipe s') = v"
    using s assms(2) by (intro exI [of _ "alarm_rest s"]) (auto simp: frame_def alarm_rest_def)
qed simp

lemma move_interrupt:
  fixes lib :: "'p lws_lib"
  assumes "shows_view (in_frame lib key ctx c (waiting True, k, True, cl, pa, op, xs, ds)) (a, e, q, f, ws, cp, ar, h, d)"
  shows "shows_view (in_frame lib key ctx c (waiting True, k, True, cl, pa, op, xs, ds)) (a, True, q, f, ws, cp, ar, h, d)"
proof (rule frame_step [OF assms(1)])
  fix s :: "'p program" assume s: "frame s = (waiting True, k, True, cl, pa, op, xs, ds)" "view (g_pipe s) = (a, e, q, f, ws, cp, ar, h, d)"
  have "program_step lib key s (order_exit s)"
    using s(1) by (intro program_step.interrupt) (auto simp: frame_def alive_def)
  then show "\<exists>s'. program_step lib key s s' \<and> frame s' = (waiting True, k, True, cl, pa, op, xs, ds) \<and>
      view (g_pipe s') = (a, True, q, f, ws, cp, ar, h, d)"
    using s by (intro exI [of _ "order_exit s"]) (auto simp: frame_def view_def order_exit_def)
qed simp

section \<open>Start and end\<close>

lemma main_lift:
  assumes "program_reach lib key ctx c (s\<lparr>g_main := m\<rparr>)" and "main_step m m'"
    and "m_returned m' = m_returned m" and "m_late_writes m' = m_late_writes m"
  shows "program_reach lib key ctx c (s\<lparr>g_main := m'\<rparr>)"
  using program_reach.step [OF assms(1) program_step.main [of "s\<lparr>g_main := m\<rparr>" m']] assms(2-4) by simp

lemma program_creates:
  "k < 4 \<Longrightarrow> program_reach lib key ctx c (program_start ctx c\<lparr>g_main := m_at (M_create k) k 0 False False\<rparr>)"
proof (induction k)
  case 0
  have "program_start ctx c\<lparr>g_main := m_at (M_create 0) 0 0 False False\<rparr> = program_start ctx c"
    by (simp add: program_start_def main_start_def)
  then show ?case using program_reach.start by metis
next
  case (Suc k)
  then have "program_reach lib key ctx c (program_start ctx c\<lparr>g_main := m_at (M_create k) k 0 False False\<rparr>)" by simp
  from main_lift [OF this main_step.create [of _ k]] Suc.prems
  show ?case by (simp add: length_main_threads take_next)
qed

lemma program_waits: "program_reach lib key ctx c (program_start ctx c\<lparr>g_main := waiting True\<rparr>)"
proof -
  have "program_reach lib key ctx c (program_start ctx c\<lparr>g_main := m_at M_timer 4 0 False False\<rparr>)"
    using main_lift [OF program_creates [of 3] main_step.create [of _ 3]] take_next [of 3 main_threads]
    by (simp add: length_main_threads)
  from main_lift [OF this main_step.timer] show ?thesis by simp
qed

lemma move_first:
  "shows_view (in_frame lib key ctx c (waiting True, K_loop, False, False, None, False, [], [], counters_init, False))
    ([], False, [], False, [W_get, W_get], C_start, [], [], [])"
  unfolding shows_view_def in_frame_def
  using program_waits [of lib key ctx c]
  by (intro exI [of _ "p_start SYMBOL_COUNT WRITERS_COUNT c"] conjI exI [of _ "program_start ctx c\<lparr>g_main := waiting True\<rparr>"])
    (simp_all add: frame_def program_start_def client_start_def view_def p_start_def WRITERS_COUNT_def numeral_2_eq_2)

lemma program_returns:
  assumes "program_reach lib key ctx c s" and "g_main s = waiting True" and "\<forall>t \<in> set main_threads. at_end t s"
  shows "j \<le> 4 \<Longrightarrow> program_reach lib key ctx c (s\<lparr>g_main := m_at (M_join 0) 4 j True False\<rparr>)"
proof (induction j)
  case 0
  have "s\<lparr>g_main := waiting True\<rparr> = s" using assms(2) by (metis program.surjective program.update_convs(1))
  then show ?case using assms(1) by simp
next
  case (Suc j)
  let ?t = "main_threads ! j" and ?s = "s\<lparr>g_main := m_at (M_join 0) 4 j True False\<rparr>"
  have "?t \<in> set main_threads" using Suc.prems by (simp add: length_main_threads)
  moreover have "?t \<notin> set (take j main_threads)"
    using distinct_main_threads Suc.prems by (auto simp: in_set_conv_nth nth_eq_iff_index_eq length_main_threads)
  ultimately have "running ?t ?s" by (simp add: running_def alive_def length_main_threads)
  moreover have "at_end ?t ?s" using assms(3) \<open>?t \<in> set main_threads\<close> by (cases ?t) auto
  ultimately have "program_step lib key ?s (?s\<lparr>g_main := (g_main ?s)\<lparr>m_returned := insert ?t (m_returned (g_main ?s))\<rparr>\<rparr>)"
    by (rule program_step.returns)
  from program_reach.step [OF Suc.IH this] Suc.prems show ?case
    by (simp add: take_next length_main_threads)
qed

lemma program_closes:
  assumes "program_reach lib key ctx c s" and "g_main s = waiting True" and "\<forall>t \<in> set main_threads. at_end t s"
  shows "program_reach lib key ctx c (s\<lparr>g_main := m_at M_done 4 4 True True\<rparr>)"
proof -
  have joins: "k < 4 \<Longrightarrow> program_reach lib key ctx c (s\<lparr>g_main := m_at (M_join k) 4 4 True False\<rparr>)" for k
  proof (induction k)
    case 0
    show ?case using program_returns [OF assms, of 4] by simp
  next
    case (Suc k)
    then have "program_reach lib key ctx c (s\<lparr>g_main := m_at (M_join k) 4 4 True False\<rparr>)" by simp
    from main_lift [OF this main_step.join [of _ k]] Suc.prems
    show ?case by (simp add: length_main_threads)
  qed
  have "program_reach lib key ctx c (s\<lparr>g_main := m_at M_close 4 4 True False\<rparr>)"
    using main_lift [OF joins [of 3] main_step.join [of _ 3]] by (simp add: length_main_threads)
  from main_lift [OF this main_step.close_files] show ?thesis by simp
qed

section \<open>A run with one trade\<close>

definition all_files :: calc_files where
  "all_files = \<lparr>buffers = replicate SYMBOL_COUNT zero_buffer, candlestick_files = replicate SYMBOL_COUNT [],
     avg_files = replicate SYMBOL_COUNT [], calc_delay_file = []\<rparr>"

lemma all_ready: "calc_ready SYMBOL_COUNT all_files"
  by (simp add: calc_ready_def all_files_def wf_arrays_def zero_buffer_def zero_avg_def)

definition sample_object :: object_text where
  "sample_object = (sample_body ''NVDA'' ''224.5'', ''NVDA'', ''224.5'', ''1727288867235'', ''4'')"

definition run_item :: WorkItem where
  "run_item = \<lparr>item_trade = object_trade sample_object, item_event_time = \<lparr>tv_sec = 5, tv_usec = 6\<rparr>\<rparr>"

definition run_directive :: WorkItem where
  "run_directive = directive_item \<lparr>tv_sec = 60, tv_usec = 0\<rparr> (item_trade sample_item)"

lemma run_item_simps:
  "symbol_index (item_trade run_item) = 4" "is_trade run_item"
proof -
  have "find_symbol ''NVDA'' = Some 4" by code_simp
  then show "symbol_index (item_trade run_item) = 4" "is_trade run_item"
    using sample_numbers
    by (simp_all add: run_item_def sample_object_def object_trade_def trade_of_texts_def symbol_index_def is_trade_def
        DIRECTIVE_CALCULATE_MINUTE_def fp_exact del: of_int_minus)
qed

abbreviation shown :: "client_pc \<Rightarrow> bool \<Rightarrow> bool \<Rightarrow> WorkItem list \<Rightarrow> WorkItem list \<Rightarrow> counters \<Rightarrow> view \<Rightarrow> bool" where
  "shown k b op xs ds cn \<equiv>
     shows_view (in_frame sample_lib ''k'' [] all_files (waiting True, k, b, False, None, op, xs, ds, cn, False))"

text \<open>The connecting thread, from its start to the service of an established connection.\<close>

lemma shown_connects:
  assumes "shown K_loop False False [] [] cn (a, False, v)"
  shows "shown K_serving True True [] [] cn (a, False, v)"
proof -
  let ?lib = "\<lparr>lws_create_context = \<lambda>_. True, lws_client_connect_via_info = \<lambda>_. Some 7\<rparr>"
  have "shown K_setup False False [] [] cn (a, False, v)"
    by (rule move_client [OF assms]) (auto intro!: exI client_step.loop)
  then have "shown K_service True False [] [] cn (a, False, v)"
    by (rule move_client) (auto intro!: exI client_step.attempt [where lib = ?lib] simp: connect_cases)
  then have "shown K_serving True False [] [] cn (a, False, v)"
    by (rule move_client) (auto intro!: exI client_step.service)
  then show ?thesis by (rule move_established) (simp add: sample_lib_def)
qed

text \<open>The same thread after the exit order.\<close>

lemma shown_leaves:
  assumes "shown K_serving True op xs ds cn (a, True, v)"
  shows "shown K_done True op xs ds cn (a, True, v)"
proof -
  have "shown K_check True op xs ds cn (a, True, v)"
    by (rule move_client [OF assms]) (auto intro!: exI client_step.served)
  then have "shown K_destroy True op xs ds cn (a, True, v)"
    by (rule move_client) (auto intro!: exI client_step.check)
  then have "shown K_loop True op xs ds cn (a, True, v)"
    by (rule move_client) (auto intro!: exI client_step.destroy simp: lws_context_destroy_def split: option.splits)
  then have "shown K_close True op xs ds cn (a, True, v)"
    by (rule move_client) (auto intro!: exI client_step.loop)
  then show ?thesis
    by (rule move_client) (auto intro!: exI client_step.finish)
qed

lemma shown_receives: "shown K_serving True True [run_item] [] counters_init
    ([run_item], False, [], False, [W_get, W_get], C_get, [run_item], [], [])"
proof -
  have parse: "lejp_parse sample_lib (construct_parser (lejp_construct sample_lib)) ''{trade}'' = (''{trade}'', message_events [sample_object], 0)"
    by (simp add: sample_lib_def construct_parser_def sample_object_def)
  have "shown K_serving True True [] [] counters_init ([], False, [], False, [W_get, W_get], C_get, [], [], [])"
    using shown_connects [OF amid.move_calculator_start [OF move_first]] .
  from move_receive [OF this parse, of "[run_item]" "\<lparr>tv_sec = 5, tv_usec = 6\<rparr>"]
  show ?thesis using sample_object_ok by (simp add: run_item_def sample_object_def)
qed

lemma interrupted_run:
  "\<exists>s. program_reach sample_lib ''k'' [] all_files s \<and> q_exit_flag (p_api (g_pipe s)) \<and> contents (p_api (g_pipe s)) = [run_item]"
  using move_interrupt [OF shown_receives] by (auto simp: shows_view_def in_frame_def view_def)

lemma program_run:
  "\<exists>s. program_reach sample_lib ''k'' [] all_files s \<and> m_pc (g_main s) = M_done \<and> g_items s = [run_item] \<and>
     g_directives s = [run_directive]"
proof -
  let ?x = run_item and ?d = run_directive and ?cn = "count_minute counters_init"
  have valid: "\<forall>z \<in> set [?x, ?d]. is_trade z \<longrightarrow> symbol_index (item_trade z) < SYMBOL_COUNT"
    using run_item_simps directive_no_trade by (simp add: run_directive_def)
  note log = amid.move_log [OF _ _ _ all_ready valid] and item = amid.move_calculator_item [OF _ all_ready valid]
  have hour: "hour_counter ?cn \<noteq> PROGRAM_MAX_HOUR_LIMIT"
    using sdiv_nonneg [of 1 60] by (simp add: count_minute_def counters_init_def PROGRAM_MAX_HOUR_LIMIT_def)
  note shown_receives
  from move_alarm_end [OF move_alarm_call [OF this _ run_directive_def] hour]
  have "shown K_serving True True [?x] [?d] ?cn ([?x, ?d], False, [], False, [W_get, W_get], C_get, [?x, ?d], [], [])"
    by simp
  from amid.move_get [OF this, of 0]
  have "shown K_serving True True [?x] [?d] ?cn ([?d], False, [], False, [W_got ?x, W_get], C_get, [?x, ?d], [], [])" by simp
  from amid.move_get [OF this, of 1]
  have "shown K_serving True True [?x] [?d] ?cn ([], False, [], False, [W_got ?x, W_got ?d], C_get, [?x, ?d], [], [])" by simp
  from log [OF this, of 0]
  have "shown K_serving True True [?x] [?d] ?cn ([], False, [], False, [W_add ?x, W_got ?d], C_get, [?x, ?d], [], [])" by simp
  from amid.move_add [OF this, of 0]
  have "shown K_serving True True [?x] [?d] ?cn ([], False, [?x], False, [W_get, W_got ?d], C_get, [?x, ?d], [], [])" by simp
  from log [OF this, of 1]
  have "shown K_serving True True [?x] [?d] ?cn ([], False, [?x], False, [W_get, W_add ?d], C_get, [?x, ?d], [], [])" by simp
  from amid.move_add [OF this, of 1]
  have "shown K_serving True True [?x] [?d] ?cn ([], False, [?x, ?d], False, [W_get, W_get], C_get, [?x, ?d], [], [])" by simp
  from item [OF amid.move_calculator_get [OF item [OF amid.move_calculator_get [OF this]]]]
  have "shown K_serving True True [?x] [?d] ?cn ([], False, [], False, [W_get, W_get], C_get, [?x, ?d], [?x, ?d], [])" by simp
  note shown_leaves [OF move_interrupt [OF this]]
  from amid.move_writer_exit [OF this, of 0]
  have "shown K_done True True [?x] [?d] ?cn ([], True, [], True, [W_done, W_get], C_get, [?x, ?d], [?x, ?d], [])" by simp
  from amid.move_writer_exit [OF this, of 1]
  have "shown K_done True True [?x] [?d] ?cn ([], True, [], True, [W_done, W_done], C_get, [?x, ?d], [?x, ?d], [])" by simp
  from amid.move_calculator_exit [OF this] obtain s where s: "program_reach sample_lib ''k'' [] all_files s"
    "frame s = (waiting True, K_done, True, False, None, True, [?x], [?d], ?cn, False)"
    "view (g_pipe s) = ([], True, [], True, [W_done, W_done], C_done, [?x, ?d], [?x, ?d], [])"
    by (auto simp: shows_view_def in_frame_def)
  have "\<forall>t \<in> set main_threads. at_end t s"
    using s(2,3) by (auto simp: main_threads_def frame_def view_def WRITERS_COUNT_def less_2_cases_iff)
  from program_closes [OF s(1) _ this] show ?thesis
    using s(2) by (intro exI [of _ "s\<lparr>g_main := m_at M_done 4 4 True True\<rparr>"]) (auto simp: frame_def)
qed

end
