(* ===== verification/ProgramEnd.thy ===== *)
theory ProgramEnd
  imports ProgramRun
begin

text \<open>
  The properties of the whole program: that it consists of the parts that are modelled one by
  one, how the received texts reach the first queue, and what has been done at the end.
\<close>

section \<open>The program and its parts\<close>



text \<open>
  C3: From the network to the first queue.  At any time, with the timer's directives taken out,
  the items that the first queue has accepted are a prefix of what fresh parsers report for the
  texts received so far, in their order and stamped with the time of their reception; as long
  as no exit was ordered and no reception is under way it is all of it.  The directives come in
  between in some order, and none of them counts as a trade.
\<close>

theorem received_texts_arrive:
  assumes "program_reach lib key ctx c s"
  shows "p_arrived (g_pipe s) \<in> shuffles (g_items s) (g_directives s) \<and> (\<forall>x \<in> set (g_directives s). \<not> is_trade x) \<and>
    prefix (g_items s) (items_afresh lib (g_texts s) json_init) \<and>
    (\<not> q_exit_flag (p_api (g_pipe s)) \<and> g_parse s = None \<longrightarrow> g_items s = items_afresh lib (g_texts s) json_init)"
proof -
  have "inv_items lib s" "inv_arrivals s" by (rule items_hold [OF assms], rule arrivals_hold [OF assms])
  then show ?thesis by (auto simp: inv_items_def inv_arrivals_def ahead_simps intro: prefix_prefix prefix_order.trans)
qed

lemma received_texts_arrive_witness:
  "\<exists>s. program_reach sample_lib ''k'' [] all_files s \<and> p_arrived (g_pipe s) \<in> {[run_item, run_directive], [run_directive, run_item]}"
proof -
  obtain s where s: "program_reach sample_lib ''k'' [] all_files s" "g_items s = [run_item]" "g_directives s = [run_directive]"
    using program_run by blast
  then have "p_arrived (g_pipe s) \<in> shuffles [run_item] [run_directive]"
    using received_texts_arrive [OF s(1)] by simp
  then show ?thesis using s(1) by auto
qed

section \<open>The end of the program\<close>

lemma all_ended:
  assumes "program_reach lib key ctx c s" and "m_pc (g_main s) = M_done"
  shows "k_pc (g_client s) = K_done" and "p_writers (g_pipe s) = [W_done, W_done]" and "p_calculator (g_pipe s) = C_done"
proof -
  have "inv_main (g_main s)" using whole_main.mapped [OF assms(1)] by (rule main_reach_inv)
  then have "m_returned (g_main s) = set main_threads" using assms(2) by (auto simp: inv_main_def)
  then have "\<forall>t \<in> set main_threads. at_end t s" and len: "length (p_writers (g_pipe s)) = 2"
    using bind_holds [OF assms(1)] by (simp_all add: inv_bind_def WRITERS_COUNT_def)
  then have "\<forall>i < 2. p_writers (g_pipe s) ! i = W_done" and k: "at_end T_client s" and c: "at_end T_calculator s"
    by (auto simp: main_threads_def WRITERS_COUNT_def)
  then have "p_writers (g_pipe s) ! 0 = W_done" "p_writers (g_pipe s) ! 1 = W_done" by simp_all
  then show "p_writers (g_pipe s) = [W_done, W_done]"
    using len by (cases "p_writers (g_pipe s)"; cases "tl (p_writers (g_pipe s))") auto
  show "k_pc (g_client s) = K_done" "p_calculator (g_pipe s) = C_done" using k c by simp_all
qed

text \<open>The rows of the trade file of a symbol for some items.\<close>

definition trade_rows :: "nat \<Rightarrow> WorkItem list \<Rightarrow> string list" where
  "trade_rows k xs = map (trade_line \<circ> item_trade) (filter (\<lambda>x. is_trade x \<and> symbol_index (item_trade x) = k) xs)"

lemma trade_rows_logged:
  assumes "mset ls = mset (filter is_trade xs)"
  shows "mset (map (trade_line \<circ> item_trade) (filter (\<lambda>x. symbol_index (item_trade x) = k) ls)) = mset (trade_rows k xs)"
proof -
  have "trade_rows k xs = map (trade_line \<circ> item_trade) (filter (\<lambda>x. symbol_index (item_trade x) = k) (filter is_trade xs))"
    by (simp add: trade_rows_def conj_commute)
  then show ?thesis using assms by (simp only: mset_map mset_filter)
qed

text \<open>
  What the program has done when \<^verbatim>\<open>main\<close> returns.  The exit was ordered, all connections
  that were established are torn down, no thread has written to a closed file, and both queues
  are empty.  The items that were accepted are a prefix of what the received texts contain, the
  trade file of each symbol has exactly one row for each accepted trade of the symbol, and each
  accepted item and directive was either handled by the calculator or refused by the second
  queue.
\<close>

lemma program_accounts:
  assumes "program_reach lib key ctx c s" and "m_pc (g_main s) = M_done"
  shows "q_exit_flag (p_api (g_pipe s)) \<and> live (k_contexts (g_client s)) = k_failed (g_client s) \<and>
    m_late_writes (g_main s) = 0 \<and> contents (p_api (g_pipe s)) = [] \<and> contents (p_calcq (g_pipe s)) = [] \<and>
    prefix (g_items s) (items_afresh lib (g_texts s) json_init) \<and>
    (\<forall>k < SYMBOL_COUNT. mset (p_trade_files (g_pipe s) ! k) = mset (trade_rows k (g_items s))) \<and>
    mset (map fst (p_handled (g_pipe s))) + mset (p_dropped (g_pipe s)) = mset (g_items s) + mset (g_directives s)"
proof -
  let ?p = "g_pipe s"
  note ended = all_ended [OF assms]
  have p: "preach SYMBOL_COUNT WRITERS_COUNT c ?p" by (rule whole_pipe.mapped [OF assms(1)])
  have arr: "inv_arrivals s" and its: "inv_items lib s" by (rule arrivals_hold [OF assms(1)], rule items_hold [OF assms(1)])
  have client: "inv_client (g_client s)" using whole_client.mapped [OF assms(1)] by (rule client_reach_inv)
  have main: "inv_main (g_main s)" using whole_main.mapped [OF assms(1)] by (rule main_reach_inv)
  have flag: "q_exit_flag (p_api ?p)" using preach_exit [OF p] ended(2) by (auto simp: inv_exit_def)
  have accounts: "mset (p_logged ?p) = mset (filter is_trade (p_arrived ?p))"
      "mset (map fst (p_handled ?p)) + mset (p_dropped ?p) = mset (p_arrived ?p)"
      "contents (p_api ?p) = []" "contents (p_calcq ?p) = []"
    using shutdown_accounts [OF p] ended(2,3) by simp_all
  have merged: "mset (p_arrived ?p) = mset (g_items s) + mset (g_directives s)"
    using arr mset_shuffles by (auto simp: inv_arrivals_def)
  have "filter is_trade (g_directives s) = []" using arr by (auto simp: inv_arrivals_def filter_empty_conv)
  then have "mset (filter is_trade (p_arrived ?p)) = mset (filter is_trade (g_items s))"
    using arg_cong [OF merged, of "filter_mset is_trade"] by (simp flip: mset_filter)
  then have logged': "mset (p_logged ?p) = mset (filter is_trade (g_items s))" using accounts(1) by simp
  have rows: "mset (p_trade_files ?p ! k) = mset (trade_rows k (g_items s))" if "k < SYMBOL_COUNT" for k
    using preach_files [OF p] that trade_rows_logged [OF logged', of k] by (simp add: inv_files_def)
  show ?thesis
    using flag accounts(2-4) merged rows client main its ended(1) assms(2)
    by (auto simp: inv_client_def in_use_def inv_main_def inv_items_def intro: prefix_prefix prefix_order.trans)
qed

lemma program_accounts_witness:
  "\<exists>s. program_reach sample_lib ''k'' [] all_files s \<and> m_closed (g_main s) \<and>
     p_trade_files (g_pipe s) ! 4 = [trade_line (item_trade run_item)]"
proof -
  obtain s where s: "program_reach sample_lib ''k'' [] all_files s" "m_pc (g_main s) = M_done" "g_items s = [run_item]"
    using program_run by blast
  have "mset (p_trade_files (g_pipe s) ! 4) = mset (trade_rows 4 (g_items s))"
    using program_accounts [OF s(1,2)] by simp
  then have "p_trade_files (g_pipe s) ! 4 = [trade_line (item_trade run_item)]"
    using run_item_simps s(3) by (simp add: trade_rows_def)
  moreover have "m_closed (g_main s)" using main_reach_inv [OF whole_main.mapped [OF s(1)]] s(2) by (simp add: inv_main_def)
  ultimately show ?thesis using s(1) by blast
qed

end
