(* ===== verification/Interleaved.thy ===== *)
theory Interleaved
  imports StageRuns ProgramEnd
begin

text \<open>
  The whole program of \<open>Program\<close>, with every call on a queue cut at each lock, test, wait, unlock
  and signal as in \<open>Stages\<close>: the steps of the main thread, the connecting thread with its
  callbacks, both signal handlers, the writers and the calculator interleave between and inside
  the calls.  This theory has the model and what its states keep true; \<open>InterleavedRefines\<close>
  relates it to \<open>Program\<close>.
\<close>

section \<open>State\<close>

text \<open>
  On the first queue the threads below \<open>WRITERS_COUNT\<close> are the writers; next come the connecting
  thread and the two handlers.  On the second queue the calculator follows the writers.
\<close>

abbreviation client_id :: nat where
  "client_id \<equiv> WRITERS_COUNT"

abbreviation alarm_id :: nat where
  "alarm_id \<equiv> WRITERS_COUNT + 1"

abbreviation interrupt_id :: nat where
  "interrupt_id \<equiv> WRITERS_COUNT + 2"

text \<open>
  Where \<^verbatim>\<open>send_directive_to_queue\<close> is: not running, with its directive prepared but without the
  producer lock, inside \<^verbatim>\<open>queue_add\<close>, and behind it; in the last two it holds the lock.
\<close>

datatype alarm_stage = A_none | A_ready WorkItem | A_call | A_rest

text \<open>
  The state is that of the program, with the stages instead of its pipeline; \<open>g_pipe\<close> and
  \<open>g_alarm\<close> of \<open>u_prog\<close> are not used.  \<open>u_counters\<close> are the counters before the handler of the
  timer began, a history.
\<close>

record 'p interleaved =
  u_prog :: "'p program"
  u_stages :: stages
  u_alarm :: alarm_stage
  u_counters :: counters

definition interleaved_start :: "'p \<Rightarrow> calc_files \<Rightarrow> 'p interleaved" where
  "interleaved_start ctx c = \<lparr>u_prog = program_start ctx c, u_stages = stages_start SYMBOL_COUNT WRITERS_COUNT c,
     u_alarm = A_none, u_counters = counters_init\<rparr>"

abbreviation api_pc :: "'p interleaved \<Rightarrow> nat \<Rightarrow> pc" where
  "api_pc s \<equiv> monitor.m_pc (st_api (u_stages s))"

abbreviation lock_taken :: "'p interleaved \<Rightarrow> bool" where
  "lock_taken s \<equiv> u_alarm s \<in> {A_call, A_rest}"

text \<open>The state as a callback of the library finds it.\<close>

definition whole :: "'p interleaved \<Rightarrow> 'p program" where
  "whole s = (u_prog s)\<lparr>g_pipe := pipe (u_stages s), g_alarm := lock_taken s\<rparr>"

definition enter :: "nat \<Rightarrow> pc \<Rightarrow> 'p interleaved \<Rightarrow> 'p interleaved" where
  "enter t p s = s\<lparr>u_stages := (u_stages s)\<lparr>st_api := goto t p (st_api (u_stages s))\<rparr>\<rparr>"

text \<open>Who makes the steps of a thread of the first and of the second queue.\<close>

definition api_runs :: "nat \<Rightarrow> 'p interleaved \<Rightarrow> bool" where
  "api_runs t s \<longleftrightarrow> (if t < WRITERS_COUNT then running (T_writer t) (u_prog s)
     else if t = client_id then running T_client (u_prog s) else alive (u_prog s))"

definition calcq_runs :: "nat \<Rightarrow> 'p interleaved \<Rightarrow> bool" where
  "calcq_runs t s \<longleftrightarrow> running (if t < WRITERS_COUNT then T_writer t else T_calculator) (u_prog s)"

fun ended :: "thread \<Rightarrow> 'p interleaved \<Rightarrow> bool" where
  "ended T_client s \<longleftrightarrow> k_pc (g_client (u_prog s)) = K_done"
| "ended (T_writer i) s \<longleftrightarrow> st_writers (u_stages s) ! i = W_done"
| "ended T_calculator s \<longleftrightarrow> st_calculator (u_stages s) = C_done"

text \<open>The histories of accepted items, and the flag that the connecting thread reads.\<close>

fun noted :: "nat \<Rightarrow> effect \<Rightarrow> 'p program \<Rightarrow> 'p program" where
  "noted t Sets_exit p = p\<lparr>g_client := (g_client p)\<lparr>k_exit_flag := True\<rparr>\<rparr>"
| "noted t e p = (if t = client_id then p\<lparr>g_items := g_items p @ put_items e\<rparr>
     else if t = alarm_id then p\<lparr>g_directives := g_directives p @ put_items e\<rparr> else p)"

text \<open>A callback may signal consumers.\<close>

inductive outside_signal :: "nat \<Rightarrow> monitor \<Rightarrow> monitor \<Rightarrow> bool" where
  nothing: "outside_signal 0 m m"
| signal: "signalled Not_empty (monitor.m_pc m) f \<Longrightarrow> outside_signal 1 m (m\<lparr>monitor.m_pc := f\<rparr>)"

definition thread_wrote :: "'p program \<Rightarrow> 'p program" where
  "thread_wrote p = p\<lparr>g_main := (g_main p)\<lparr>m_late_writes :=
     m_late_writes (g_main p) + (if m_closed (g_main p) then 1 else 0)\<rparr>\<rparr>"

section \<open>Steps\<close>

text \<open>The event of a reception that the connecting thread is at is done.\<close>

definition event_done :: "timeval \<Rightarrow> json_event \<Rightarrow> json_event list \<Rightarrow> 'p program \<Rightarrow> 'p program" where
  "event_done now e evs p = p\<lparr>g_vars := json_update now (fst e) (snd e) (g_vars p), g_parse := Some (now, evs)\<rparr>"

inductive interleaved_step :: "'p lws_lib \<Rightarrow> string \<Rightarrow> 'p interleaved \<Rightarrow> 'p interleaved \<Rightarrow> bool" for lib key where
  main: "main_step (g_main (u_prog s)) m \<Longrightarrow> m_returned m = m_returned (g_main (u_prog s)) \<Longrightarrow>
    m_late_writes m = m_late_writes (g_main (u_prog s)) \<Longrightarrow>
    interleaved_step lib key s (s\<lparr>u_prog := (u_prog s)\<lparr>g_main := m\<rparr>\<rparr>)"
| returns: "running t (u_prog s) \<Longrightarrow> ended t s \<Longrightarrow>
    interleaved_step lib key s (s\<lparr>u_prog := (u_prog s)\<lparr>g_main :=
      (g_main (u_prog s))\<lparr>m_returned := insert t (m_returned (g_main (u_prog s)))\<rparr>\<rparr>\<rparr>)"
| client: "running T_client (u_prog s) \<Longrightarrow> g_parse (u_prog s) = None \<Longrightarrow> client_step key (g_client (u_prog s)) c \<Longrightarrow>
    k_pc c \<noteq> k_pc (g_client (u_prog s)) \<Longrightarrow> (k_pc (g_client (u_prog s)) = K_close \<longrightarrow> api_pc s client_id = Closed) \<Longrightarrow>
    interleaved_step lib key s (s\<lparr>u_prog := (u_prog s)\<lparr>g_client := c\<rparr>\<rparr>)"
| close: "running T_client (u_prog s) \<Longrightarrow> k_pc (g_client (u_prog s)) = K_close \<Longrightarrow> api_pc s client_id = Idle \<Longrightarrow>
    interleaved_step lib key s (enter client_id Close_lock s)"
| callback: "running T_client (u_prog s) \<Longrightarrow> g_parse (u_prog s) = None \<Longrightarrow>
    k_pc (g_client (u_prog s)) \<in> {K_setup, K_serving, K_destroy} \<Longrightarrow> reason \<noteq> receive_reason \<Longrightarrow>
    lws_callback lib now reason inp (conn (whole s)) = Returns r w \<Longrightarrow>
    outside_signal (not_empty_signals w - g_signals (u_prog s)) (st_api (u_stages s)) m \<Longrightarrow>
    interleaved_step lib key s (s\<lparr>u_prog := put_conn w (u_prog s)\<lparr>g_open := opened reason r (g_open (u_prog s))\<rparr>,
      u_stages := (u_stages s)\<lparr>st_api := m\<rparr>\<rparr>)"
| receive: "running T_client (u_prog s) \<Longrightarrow> g_parse (u_prog s) = None \<Longrightarrow> k_pc (g_client (u_prog s)) = K_serving \<Longrightarrow>
    g_open (u_prog s) \<Longrightarrow> \<not> lock_taken s \<Longrightarrow> lejp_parse lib (g_ctx (u_prog s)) inp = (ctx, evs, code) \<Longrightarrow>
    interleaved_step lib key s (s\<lparr>u_prog := (u_prog s)\<lparr>g_parse := Some (now, evs), g_ctx := ctx,
      g_texts := g_texts (u_prog s) @ [(now, inp)]\<rparr>\<rparr>)"
| parse_silent: "running T_client (u_prog s) \<Longrightarrow> g_parse (u_prog s) = Some (now, e # evs) \<Longrightarrow>
    json_emit (fst e) (snd e) (g_vars (u_prog s)) = None \<Longrightarrow>
    interleaved_step lib key s (s\<lparr>u_prog := event_done now e evs (u_prog s)\<rparr>)"
| parse_call: "running T_client (u_prog s) \<Longrightarrow> g_parse (u_prog s) = Some (now, e # evs) \<Longrightarrow>
    json_emit (fst e) (snd e) (g_vars (u_prog s)) = Some x \<Longrightarrow> api_pc s client_id = Idle \<Longrightarrow>
    interleaved_step lib key s (enter client_id (Add_lock x) s)"
| parse_return: "running T_client (u_prog s) \<Longrightarrow> g_parse (u_prog s) = Some (now, e # evs) \<Longrightarrow>
    api_pc s client_id = Add_done r \<Longrightarrow>
    interleaved_step lib key s (enter client_id Idle s\<lparr>u_prog := event_done now e evs (u_prog s)\<rparr>)"
| parsed: "running T_client (u_prog s) \<Longrightarrow> g_parse (u_prog s) = Some (now, []) \<Longrightarrow>
    interleaved_step lib key s (s\<lparr>u_prog := (u_prog s)\<lparr>g_parse := None, g_ctx := construct_parser (lejp_construct lib)\<rparr>\<rparr>)"
| alarm: "alive (u_prog s) \<Longrightarrow> m_timer (g_main (u_prog s)) \<Longrightarrow> u_alarm s = A_none \<Longrightarrow>
    interleaved_step lib key s (s\<lparr>u_prog := (u_prog s)\<lparr>g_counters := count_minute (g_counters (u_prog s))\<rparr>,
      u_alarm := A_ready (directive_item now junk), u_counters := g_counters (u_prog s)\<rparr>)"
| alarm_lock: "alive (u_prog s) \<Longrightarrow> u_alarm s = A_ready x \<Longrightarrow> g_parse (u_prog s) = None \<Longrightarrow>
    api_pc s alarm_id = Idle \<Longrightarrow> interleaved_step lib key s (enter alarm_id (Add_lock x) s\<lparr>u_alarm := A_call\<rparr>)"
| alarm_return: "alive (u_prog s) \<Longrightarrow> u_alarm s = A_call \<Longrightarrow> api_pc s alarm_id = Add_done r \<Longrightarrow>
    interleaved_step lib key s (enter alarm_id
      (if hour_counter (g_counters (u_prog s)) = PROGRAM_MAX_HOUR_LIMIT then Limit_set else Idle) s\<lparr>u_alarm := A_rest\<rparr>)"
| alarm_over: "alive (u_prog s) \<Longrightarrow> u_alarm s = A_rest \<Longrightarrow> api_pc s alarm_id = Idle \<Longrightarrow>
    interleaved_step lib key s (s\<lparr>u_alarm := A_none\<rparr>)"
| interrupt: "alive (u_prog s) \<Longrightarrow> sigint_bound (k_contexts (g_client (u_prog s))) \<Longrightarrow> api_pc s interrupt_id = Idle \<Longrightarrow>
    interleaved_step lib key s (enter interrupt_id Int_lock s)"
| first_queue: "t \<le> interrupt_id \<Longrightarrow> api_runs t s \<Longrightarrow> thread_step t (st_api (u_stages s)) m \<Longrightarrow>
    interleaved_step lib key s (s\<lparr>u_prog := noted t (effect_of (st_api (u_stages s)) t) (u_prog s),
      u_stages := (u_stages s)\<lparr>st_api := m,
        st_late := st_late (u_stages s) \<or> is_late (effect_of (st_api (u_stages s)) t)\<rparr>\<rparr>)"
| second_queue: "t \<le> WRITERS_COUNT \<Longrightarrow> calcq_runs t s \<Longrightarrow> thread_step t (st_calcq (u_stages s)) m \<Longrightarrow>
    interleaved_step lib key s (s\<lparr>u_stages := (u_stages s)\<lparr>st_calcq := m,
      st_late := st_late (u_stages s) \<or> is_late (effect_of (st_calcq (u_stages s)) t),
      st_dropped := st_dropped (u_stages s) @ refused_items (effect_of (st_calcq (u_stages s)) t)\<rparr>\<rparr>)"
| writer: "running (T_writer i) (u_prog s) \<Longrightarrow> i < WRITERS_COUNT \<Longrightarrow> writer_own SYMBOL_COUNT i (u_stages s) z \<Longrightarrow>
    interleaved_step lib key s (s\<lparr>u_prog := thread_wrote (u_prog s), u_stages := z\<rparr>)"
| calculator: "running T_calculator (u_prog s) \<Longrightarrow> calculator_own SYMBOL_COUNT (u_stages s) z \<Longrightarrow>
    interleaved_step lib key s (s\<lparr>u_prog := thread_wrote (u_prog s), u_stages := z\<rparr>)"
| spurious_first: "t \<le> interrupt_id \<Longrightarrow> woken v (api_pc s t) = Some p \<Longrightarrow> interleaved_step lib key s (enter t p s)"
| spurious_second: "t \<le> WRITERS_COUNT \<Longrightarrow> woken v (monitor.m_pc (st_calcq (u_stages s)) t) = Some p \<Longrightarrow>
    interleaved_step lib key s (s\<lparr>u_stages := (u_stages s)\<lparr>st_calcq := goto t p (st_calcq (u_stages s))\<rparr>\<rparr>)"

inductive interleaved_reach :: "'p lws_lib \<Rightarrow> string \<Rightarrow> 'p \<Rightarrow> calc_files \<Rightarrow> 'p interleaved \<Rightarrow> bool" for lib key ctx c where
  start: "interleaved_reach lib key ctx c (interleaved_start ctx c)"
| step: "interleaved_reach lib key ctx c s \<Longrightarrow> interleaved_step lib key s s' \<Longrightarrow> interleaved_reach lib key ctx c s'"

section \<open>The parts\<close>

lemma enter_simps [simp]:
  "u_prog (enter t p s) = u_prog s" "u_alarm (enter t p s) = u_alarm s" "u_counters (enter t p s) = u_counters s"
  "u_stages (enter t p s) = (u_stages s)\<lparr>st_api := goto t p (st_api (u_stages s))\<rparr>"
  by (simp_all add: enter_def)

lemma noted_simps [simp]:
  "g_main (noted t e p) = g_main p" "g_parse (noted t e p) = g_parse p" "g_vars (noted t e p) = g_vars p"
  "g_ctx (noted t e p) = g_ctx p" "g_open (noted t e p) = g_open p" "g_counters (noted t e p) = g_counters p"
  "g_client (noted t e p) = (if e = Sets_exit then (g_client p)\<lparr>k_exit_flag := True\<rparr> else g_client p)"
  by (cases e; simp)+

lemma thread_wrote_simps [simp]:
  "g_client (thread_wrote p) = g_client p" "g_parse (thread_wrote p) = g_parse p" "g_vars (thread_wrote p) = g_vars p"
  "g_counters (thread_wrote p) = g_counters p" "m_timer (g_main (thread_wrote p)) = m_timer (g_main p)"
  by (simp_all add: thread_wrote_def)

lemma whole_simps [simp]:
  "g_client (whole s) = g_client (u_prog s)" "g_open (whole s) = g_open (u_prog s)"
  by (simp_all add: whole_def)

lemma event_done_simps [simp]:
  "g_main (event_done now e evs p) = g_main p" "g_client (event_done now e evs p) = g_client p"
  "g_parse (event_done now e evs p) = Some (now, evs)" "g_counters (event_done now e evs p) = g_counters p"
  "g_vars (event_done now e evs p) = json_update now (fst e) (snd e) (g_vars p)"
  by (simp_all add: event_done_def)

lemma interleaved_main:
  assumes "interleaved_step lib key s s'"
  shows "g_main (u_prog s') = g_main (u_prog s) \<or> main_step (g_main (u_prog s)) (g_main (u_prog s'))"
  using assms
proof (cases rule: interleaved_step.cases)
  case (returns t)
  then show ?thesis by (auto simp: running_def alive_def intro!: main_step.thread_returns)
next
  case (writer i z)
  then show ?thesis
    using main_step.thread_writes [of "T_writer i" "g_main (u_prog s)"] by (auto simp: running_def alive_def thread_wrote_def)
next
  case (calculator z)
  then show ?thesis
    using main_step.thread_writes [of T_calculator "g_main (u_prog s)"] by (auto simp: running_def alive_def thread_wrote_def)
qed auto

lemma interleaved_client:
  assumes "interleaved_step lib key s s'"
  shows "g_client (u_prog s') = g_client (u_prog s) \<or> client_step key (g_client (u_prog s)) (g_client (u_prog s'))"
  using assms
proof (cases rule: interleaved_step.cases)
  case (callback reason now inp r w m)
  then show ?thesis
    using callback_effect(1) [OF callback(6,5)] client_step.call_back [of "g_client (u_prog s)" key]
    by (cases "g_client (u_prog s)") auto
next
  case (first_queue t m)
  then show ?thesis using client_step.exit_order [of key] by simp
qed auto

interpretation inter_main: refinement_map "interleaved_reach lib key ctx c" "interleaved_start ctx c"
    "interleaved_step lib key" main_reach main_step "g_main \<circ> u_prog" for lib key ctx c
proof
  show "main_reach ((g_main \<circ> u_prog) (interleaved_start ctx c))"
    by (simp add: interleaved_start_def program_start_def main_reach.start)
  show "main_step\<^sup>*\<^sup>* ((g_main \<circ> u_prog) s) ((g_main \<circ> u_prog) s')" if "interleaved_step lib key s s'" for s s'
    using interleaved_main [OF that] by (simp add: step_or_same)
qed (rule interleaved_reach.induct main_reach.step; assumption)+

interpretation inter_client: refinement_map "interleaved_reach lib key ctx c" "interleaved_start ctx c"
    "interleaved_step lib key" "client_reach key" "client_step key" "g_client \<circ> u_prog" for lib key ctx c
proof
  show "client_reach key ((g_client \<circ> u_prog) (interleaved_start ctx c))"
    by (simp add: interleaved_start_def program_start_def client_reach.start)
  show "(client_step key)\<^sup>*\<^sup>* ((g_client \<circ> u_prog) s) ((g_client \<circ> u_prog) s')" if "interleaved_step lib key s s'" for s s'
    using interleaved_client [OF that] by (simp add: step_or_same)
qed (rule interleaved_reach.induct client_reach.step; assumption)+

text \<open>The connecting thread reads the exit flag of the first queue.\<close>

lemma thread_step_flag:
  assumes "thread_step t m m'"
  shows "q_exit_flag (m_queue m') \<longleftrightarrow> q_exit_flag (m_queue m) \<or> effect_of m t = Sets_exit"
  using assms
proof (cases rule: thread_step.cases)
  case (local p m1)
  then show ?thesis
    using ring.get_nonempty [of "m_queue m"] by (cases "monitor.m_pc m t")
      (auto simp: effect_of_def queue_put_def queue_take_def Let_def split: if_splits)
next
  case (lock p)
  then show ?thesis by (cases "monitor.m_pc m t") (auto simp: effect_of_def)
next
  case (unlock p)
  then show ?thesis by (cases "monitor.m_pc m t") (auto simp: effect_of_def)
next
  case (sleep p)
  then show ?thesis by (cases "monitor.m_pc m t") (auto simp: effect_of_def)
next
  case (signal c p f)
  then show ?thesis by (cases "monitor.m_pc m t") (auto simp: effect_of_def)
qed

lemma own_frame:
  "writer_own n i s z \<Longrightarrow> m_queue (st_api z) = m_queue (st_api s) \<and> (\<forall>t. t \<noteq> i \<longrightarrow> monitor.m_pc (st_api z) t = monitor.m_pc (st_api s) t) \<and>
     st_late z = st_late s"
  "calculator_own n s z \<Longrightarrow> st_api z = st_api s \<and> st_late z = st_late s"
  by (auto elim!: writer_own.cases calculator_own.cases)

lemma outside_signal_queue: "outside_signal k m m' \<Longrightarrow> m_queue m' = m_queue m"
  by (auto elim!: outside_signal.cases)

definition inv_flag :: "'p interleaved \<Rightarrow> bool" where
  "inv_flag s \<longleftrightarrow> k_exit_flag (g_client (u_prog s)) = q_exit_flag (m_queue (st_api (u_stages s)))"

lemma flag_holds: "interleaved_reach lib key ctx c s \<Longrightarrow> inv_flag s"
proof (induction rule: interleaved_reach.induct)
  case start
  then show ?case
    by (simp add: inv_flag_def interleaved_start_def program_start_def client_start_def stages_start_def m_init_def queue_init_def)
next
  case (step s s')
  from step.hyps(2) show ?case
  proof (cases rule: interleaved_step.cases)
    case (client c)
    then show ?thesis using client_pc_flag [of key "g_client (u_prog s)" c] step.IH by (simp add: inv_flag_def)
  next
    case (callback reason now inp r w m)
    then show ?thesis using outside_signal_queue [OF callback(7)] step.IH by (simp add: inv_flag_def)
  next
    case (first_queue t m)
    then show ?thesis using thread_step_flag [OF first_queue(4)] step.IH by (simp add: inv_flag_def)
  qed (use step.IH own_frame in \<open>fastforce simp: inv_flag_def\<close>)+
qed

text \<open>The stages.\<close>

abbreviation handlers :: nat where
  "handlers \<equiv> 3"

lemma entered:
  assumes "writer_count s = WRITERS_COUNT" and "WRITERS_COUNT \<le> t" and "t \<le> interrupt_id"
    and "monitor.m_pc (st_api s) t = Idle" and "entry (m_queue (st_api s)) p" and "p \<noteq> Rem_lock" and "p \<noteq> Pass_flag"
  shows "stage_step SYMBOL_COUNT handlers s (s\<lparr>st_api := goto t p (st_api s)\<rparr>)"
  using outer_step.producer_call [of s t handlers p] assms by (simp add: stage_step_def)

lemma returned:
  assumes "writer_count s = WRITERS_COUNT" and "WRITERS_COUNT \<le> t" and "t \<le> interrupt_id"
    and "monitor.m_pc (st_api s) t = Add_done r"
  shows "stage_step SYMBOL_COUNT handlers s (s\<lparr>st_api := goto t Idle (st_api s)\<rparr>)"
  using own_step.producer_return [of s t handlers r] assms by (simp add: stage_step_def)

lemma returned_and_entered:
  assumes "writer_count s = WRITERS_COUNT" and "monitor.m_pc (st_api s) alarm_id = Add_done r"
  shows "(stage_step SYMBOL_COUNT handlers)\<^sup>*\<^sup>* s (s\<lparr>st_api := goto alarm_id (if b then Limit_set else Idle) (st_api s)\<rparr>)"
proof -
  let ?z = "s\<lparr>st_api := goto alarm_id Idle (st_api s)\<rparr>"
  have ret: "stage_step SYMBOL_COUNT handlers s ?z" using assms(2) by (intro returned [OF assms(1)]) simp_all
  have "stage_step SYMBOL_COUNT handlers ?z (?z\<lparr>st_api := goto alarm_id Limit_set (st_api ?z)\<rparr>)"
    by (rule entered) (simp_all add: assms(1))
  then have "stage_step SYMBOL_COUNT handlers ?z (s\<lparr>st_api := goto alarm_id Limit_set (st_api s)\<rparr>)"
    by (simp add: goto_def)
  then show ?thesis using ret by (auto intro: converse_rtranclp_into_rtranclp simp del: SYMBOL_COUNT_21)
qed

lemma outside_stages:
  assumes "sreach SYMBOL_COUNT handlers WRITERS_COUNT c s" and "outside_signal k (st_api s) m"
  shows "s\<lparr>st_api := m\<rparr> = s \<or> stage_step SYMBOL_COUNT handlers s (s\<lparr>st_api := m\<rparr>)"
  using assms(2)
proof (cases rule: outside_signal.cases)
  case (signal f)
  from signal(3) show ?thesis
  proof (cases rule: signalled.cases)
    case (one u p)
    have "u < WRITERS_COUNT + handlers"
      using reach_threads [OF api.mapped [OF assms(1)]] one(2)
      by (cases "u < WRITERS_COUNT + handlers") (auto simp: inv_threads_def)
    then have "outer_step handlers s (s\<lparr>st_api := goto u p (st_api s)\<rparr>)"
      using one(2) sreach_writers [OF assms(1)] by (intro outer_step.spurious_api) auto
    then show ?thesis using one(1) signal(2) by (simp add: stage_step_def goto_def)
  qed (simp add: signal)
qed simp

lemma interleaved_stages:
  assumes "interleaved_reach lib key ctx c s" and "sreach SYMBOL_COUNT handlers WRITERS_COUNT c (u_stages s)"
    and "interleaved_step lib key s s'"
  shows "(stage_step SYMBOL_COUNT handlers)\<^sup>*\<^sup>* (u_stages s) (u_stages s')"
proof -
  note SYMBOL_COUNT_21 [simp del]
  note w = sreach_writers [OF assms(2)]
  note enters = r_into_rtranclp [of "stage_step SYMBOL_COUNT handlers", OF entered [OF w]]
  from assms(3) show ?thesis
  proof (cases rule: interleaved_step.cases)
    case close
    have "inv_client (g_client (u_prog s))" using client_reach_inv [OF inter_client.mapped [OF assms(1)]] by simp
    then have "q_exit_flag (m_queue (st_api (u_stages s)))"
      using flag_holds [OF assms(1)] close(3) by (simp add: inv_client_def inv_flag_def)
    then show ?thesis using close by (auto intro: enters)
  next
    case (callback reason now inp r w m)
    then show ?thesis using outside_stages [OF assms(2)] by (auto intro: step_or_same)
  next
    case (parse_return now e evs r)
    then show ?thesis by (auto intro!: r_into_rtranclp [of "stage_step SYMBOL_COUNT handlers", OF returned [OF w]])
  next
    case (alarm_return r)
    then show ?thesis using returned_and_entered [OF w, of r] by simp
  next
    case (first_queue t m)
    then show ?thesis using own_step.api_step [of t "u_stages s" handlers m SYMBOL_COUNT] w by (auto simp: stage_step_def)
  next
    case (second_queue t m)
    then show ?thesis using own_step.calc_step [of t "u_stages s" m SYMBOL_COUNT handlers] w by (auto simp: stage_step_def)
  next
    case (writer i z)
    then show ?thesis using own_step.writer [of i "u_stages s" SYMBOL_COUNT z handlers] w by (auto simp: stage_step_def)
  next
    case (calculator z)
    then show ?thesis using own_step.calculator [of SYMBOL_COUNT "u_stages s" z handlers] by (auto simp: stage_step_def)
  next
    case (spurious_first t v p)
    then show ?thesis using outer_step.spurious_api [of t "u_stages s" handlers v p] w by (auto simp: stage_step_def)
  next
    case (spurious_second t v p)
    then show ?thesis using outer_step.spurious_calc [of t "u_stages s" v p handlers] w by (auto simp: stage_step_def)
  qed (auto intro: enters)
qed

interpretation inter_stages: refinement_map "interleaved_reach lib key ctx c" "interleaved_start ctx c"
    "interleaved_step lib key" "sreach SYMBOL_COUNT handlers WRITERS_COUNT c" "stage_step SYMBOL_COUNT handlers" u_stages
  for lib key ctx c
proof
  show "sreach SYMBOL_COUNT handlers WRITERS_COUNT c (u_stages (interleaved_start ctx c))"
    by (simp add: interleaved_start_def sreach.start)
qed (rule interleaved_reach.induct sreach.step interleaved_stages; assumption)+

section \<open>Where the connecting thread and the handlers are\<close>

fun closes :: "pc \<Rightarrow> bool" where
  "closes Close_lock \<longleftrightarrow> True" | "closes Close_test \<longleftrightarrow> True" | "closes Close_unlock \<longleftrightarrow> True"
| "closes Closed \<longleftrightarrow> True" | "closes _ \<longleftrightarrow> False"

fun interrupts :: "pc \<Rightarrow> bool" where
  "interrupts Int_lock \<longleftrightarrow> True" | "interrupts Int_set \<longleftrightarrow> True" | "interrupts Int_unlock \<longleftrightarrow> True"
| "interrupts _ \<longleftrightarrow> False"

definition prepared :: "WorkItem \<Rightarrow> bool" where
  "prepared x \<longleftrightarrow> (\<exists>now junk. x = directive_item now junk)"

text \<open>The item that the event at hand adds.\<close>

definition event_item :: "'p program \<Rightarrow> WorkItem option" where
  "event_item p = (case g_parse p of Some (now, e # evs) \<Rightarrow> json_emit (fst e) (snd e) (g_vars p) | _ \<Rightarrow> None)"

fun client_fits :: "WorkItem option \<Rightarrow> client_pc \<Rightarrow> pc \<Rightarrow> bool" where
  "client_fits (Some x) k b \<longleftrightarrow> b = Idle \<or> adds x b"
| "client_fits None k b \<longleftrightarrow> (if k = K_done then b = Closed else b = Idle \<or> k = K_close \<and> closes b)"

lemma client_fits_idle [simp]: "client_fits x k Idle \<longleftrightarrow> x \<noteq> None \<or> k \<noteq> K_done"
  by (cases x) auto

fun alarm_fits :: "alarm_stage \<Rightarrow> bool \<Rightarrow> pc \<Rightarrow> bool" where
  "alarm_fits A_none l b \<longleftrightarrow> b = Idle"
| "alarm_fits (A_ready x) l b \<longleftrightarrow> b = Idle"
| "alarm_fits A_call l b \<longleftrightarrow> (\<exists>x. prepared x \<and> adds x b)"
| "alarm_fits A_rest l b \<longleftrightarrow> b = Idle \<or> b = Limit_set \<and> l"

abbreviation limit_reached :: "'p program \<Rightarrow> bool" where
  "limit_reached p \<equiv> hour_counter (g_counters p) = PROGRAM_MAX_HOUR_LIMIT"

definition inv_handlers :: "'p interleaved \<Rightarrow> bool" where
  "inv_handlers s \<longleftrightarrow>
     client_fits (event_item (u_prog s)) (k_pc (g_client (u_prog s))) (api_pc s client_id) \<and>
     alarm_fits (u_alarm s) (limit_reached (u_prog s)) (api_pc s alarm_id) \<and>
     (api_pc s interrupt_id = Idle \<or> interrupts (api_pc s interrupt_id) \<and> sigint_bound (k_contexts (g_client (u_prog s))))"

definition inv_timer :: "'p interleaved \<Rightarrow> bool" where
  "inv_timer s \<longleftrightarrow> (g_parse (u_prog s) \<noteq> None \<longrightarrow> k_pc (g_client (u_prog s)) = K_serving \<and> \<not> lock_taken s) \<and>
     (\<forall>x. u_alarm s = A_ready x \<longrightarrow> prepared x) \<and>
     (u_alarm s \<noteq> A_none \<longrightarrow> m_timer (g_main (u_prog s)) \<and> g_counters (u_prog s) = count_minute (u_counters s))"

lemma main_step_timer: "main_step m m' \<Longrightarrow> m_timer m \<Longrightarrow> m_timer m'"
  by (auto elim: main_step.cases)

lemma client_step_bound:
  assumes "client_step key c c'" and "sigint_bound (k_contexts c)"
  shows "sigint_bound (k_contexts c')"
  using assms
proof (cases rule: client_step.cases)
  case (attempt lib)
  consider "\<not> grants_context lib" | "grants_context lib" "grants_wsi lib (created (k_contexts c)) key = None"
    | w where "grants_context lib" "grants_wsi lib (created (k_contexts c)) key = Some w" by blast
  then show ?thesis using attempt assms(2) by cases (simp_all add: connect_cases)
qed (use assms(2) in \<open>auto simp: lws_context_destroy_def split: option.splits\<close>)

lemma client_step_ends:
  assumes "client_step key c c'" and "k_pc c' \<noteq> k_pc c"
  shows "k_pc c \<noteq> K_done" and "k_pc c = K_close \<longleftrightarrow> k_pc c' = K_done"
  using assms by (cases rule: client_step.cases; auto simp: client_connect_def Let_def split: prod.splits)+

lemma timer_holds: "interleaved_reach lib key ctx c s \<Longrightarrow> inv_timer s"
proof (induction rule: interleaved_reach.induct)
  case start
  then show ?case by (simp add: inv_timer_def interleaved_start_def program_start_def)
next
  case (step s s')
  from step.hyps(2) show ?case
  proof (cases rule: interleaved_step.cases)
    case (main m)
    then show ?thesis using step.IH main_step_timer by (auto simp: inv_timer_def)
  next
    case (parse_call now e evs x)
    then show ?thesis using step.IH by (simp add: inv_timer_def)
  qed (use step.IH in \<open>auto simp: inv_timer_def prepared_def\<close>)
qed

text \<open>Inside its calls none of them leaves its place.\<close>

lemma kept_closes: "kept closes" and kept_interrupts: "kept (\<lambda>b. b = Idle \<or> interrupts b)"
  and kept_limit: "kept (\<lambda>b. b = Idle \<or> b = Limit_set \<and> l)" and kept_closed: "kept (\<lambda>b. b = Closed)"
  by (rule keptI; (auto dest!: woken_cases; fail | (case_tac p; auto split: if_splits)))+

lemma kept_ex: "(\<And>x. kept (F x)) \<Longrightarrow> kept (\<lambda>b. \<exists>x. F x b)"
  by (rule keptI) (blast dest: keptD)+

lemma kept_client: "kept (client_fits x k)"
proof (cases x)
  case None
  have "kept (\<lambda>b. (b = Idle \<or> k = K_close \<and> closes b))" by (intro kept_rules kept_closes)
  then show ?thesis
    by (cases "k = K_done") (auto simp: None intro: kept_eq [OF kept_closed] kept_eq)
next
  case (Some y)
  have "kept (\<lambda>b. b = Idle \<or> adds y b)" by (intro kept_rules)
  then show ?thesis by (rule kept_eq) (simp add: Some)
qed

lemma kept_alarm: "kept (alarm_fits a l)"
proof (cases a)
  case A_call
  have "kept (\<lambda>b. \<exists>x. prepared x \<and> adds x b)" by (intro kept_rules kept_ex)
  then show ?thesis by (rule kept_eq) (simp add: A_call)
next
  case A_rest
  show ?thesis by (rule kept_eq [OF kept_limit [of l]]) (simp add: A_rest)
qed (auto intro: kept_eq [OF kept_points(1)])

lemma kept_interrupt: "kept (\<lambda>b. b = Idle \<or> interrupts b \<and> c)"
  by (cases c) (simp_all add: kept_interrupts kept_points)

lemma kept_outside:
  assumes "kept F" and "outside_signal k m m'" and "F (monitor.m_pc m t)"
  shows "F (monitor.m_pc m' t)"
  using assms(2)
proof (cases rule: outside_signal.cases)
  case (signal f)
  then show ?thesis
    using signalled_pointwise [OF signal(3), of t] keptD(6) [OF assms(1,3)] assms(3) by fastforce
qed (use assms(3) in simp)

lemma event_item_same: "g_parse p' = g_parse p \<Longrightarrow> g_vars p' = g_vars p \<Longrightarrow> event_item p' = event_item p"
  by (simp add: event_item_def split: option.split list.split)

lemma handlers_hold: "interleaved_reach lib key ctx c s \<Longrightarrow> inv_handlers s"
proof (induction rule: interleaved_reach.induct)
  case start
  then show ?case
    by (simp add: inv_handlers_def event_item_def interleaved_start_def program_start_def client_start_def stages_start_def m_init_def)
next
  case (step s s')
  note inv = step.IH [unfolded inv_handlers_def] timer_holds [OF step.hyps(1), unfolded inv_timer_def]
  have good: "good_monitor (st_api (u_stages s))" using sreach_good [OF inter_stages.mapped [OF step.hyps(1)]] by simp
  note same = event_item_same [of "u_prog s'" "u_prog s"]
  from step.hyps(2) show ?case
  proof (cases rule: interleaved_step.cases)
    case (client c)
    then show ?thesis
      using inv same client_step_ends [OF client(4,5)] client_step_bound [OF client(4)]
      by (auto simp: inv_handlers_def event_item_def split: if_splits)
  next
    case (callback reason now inp r w m)
    note outside = kept_outside [OF _ callback(7)]
    show ?thesis
      using inv same outside [OF kept_client] outside [OF kept_alarm] outside [OF kept_interrupt]
      by (simp add: callback(1) inv_handlers_def)
  next
    case (first_queue t m)
    note stays = kept_step [OF _ first_queue(4) good_wf [OF good]]
    show ?thesis
      using inv same stays [OF kept_client] stays [OF kept_alarm] stays [OF kept_interrupt]
      by (simp add: first_queue(1) inv_handlers_def)
  next
    case (spurious_first t v p)
    note stays = kept_woken [OF _ spurious_first(3)]
    show ?thesis
      using inv stays [OF kept_client] stays [OF kept_alarm] stays [OF kept_interrupt]
      by (simp add: spurious_first(1) inv_handlers_def)
  next
    case (writer i z)
    then show ?thesis using inv same own_frame(1) [OF writer(4)] by (simp add: inv_handlers_def)
  next
    case (calculator z)
    then show ?thesis using inv same own_frame(2) [OF calculator(3)] by (simp add: inv_handlers_def)
  qed (use inv same in \<open>auto simp: inv_handlers_def event_item_def split: option.splits list.splits if_splits\<close>)
qed

end
