(* ===== verification/InterleavedRefines.thy ===== *)
theory InterleavedRefines
  imports Interleaved
begin

text \<open>
  The model of \<open>Interleaved\<close> implements that of \<open>Program\<close>, where a call on a queue is one step:
  a mapping of the states under which each step is one of the program or none.
\<close>

section \<open>The state as one of the program\<close>

text \<open>
  The event of a reception and the handler of the timer count as done with their call once it
  has taken effect; before that, the handler does not count as begun.
\<close>

definition parse_view :: "phase \<Rightarrow> 'p program \<Rightarrow> 'p program" where
  "parse_view k p = (case g_parse p of
     Some (now, e # evs) \<Rightarrow> if k = Added then event_done now e evs p else p | _ \<Rightarrow> p)"

fun handler_behind :: "alarm_stage \<Rightarrow> phase \<Rightarrow> bool \<Rightarrow> bool" where
  "handler_behind A_call k l \<longleftrightarrow> k = Added" | "handler_behind A_rest k l \<longleftrightarrow> l" | "handler_behind _ k l \<longleftrightarrow> False"

fun handler_before :: "alarm_stage \<Rightarrow> phase \<Rightarrow> bool" where
  "handler_before (A_ready x) k \<longleftrightarrow> True" | "handler_before A_call k \<longleftrightarrow> k \<noteq> Added" | "handler_before _ k \<longleftrightarrow> False"

definition view :: "'p interleaved \<Rightarrow> 'p program" where
  "view s = (let m = st_api (u_stages s); k = phase_of m alarm_id in
     parse_view (phase_of m client_id) (u_prog s)\<lparr>g_pipe := pipe (u_stages s),
       g_alarm := handler_behind (u_alarm s) k (monitor.m_pc m alarm_id = Limit_set),
       g_counters := if handler_before (u_alarm s) k then u_counters s else g_counters (u_prog s)\<rparr>)"

lemma parse_view_simps [simp]:
  "g_main (parse_view k p) = g_main p" "g_client (parse_view k p) = g_client p" "g_ctx (parse_view k p) = g_ctx p"
  "g_open (parse_view k p) = g_open p" "g_sent (parse_view k p) = g_sent p" "g_signals (parse_view k p) = g_signals p"
  "g_reason (parse_view k p) = g_reason p" "g_texts (parse_view k p) = g_texts p" "g_items (parse_view k p) = g_items p"
  "g_directives (parse_view k p) = g_directives p" "g_counters (parse_view k p) = g_counters p"
  by (simp_all add: parse_view_def event_done_def split: option.split list.split)

lemma parse_view_none [simp]: "g_parse p = None \<Longrightarrow> parse_view k p = p" "g_parse p = Some (now, []) \<Longrightarrow> parse_view k p = p"
  "k \<noteq> Added \<Longrightarrow> parse_view k p = p"
  by (simp_all add: parse_view_def split: option.split list.split)

lemma parse_view_added [simp]: "g_parse p = Some (now, e # evs) \<Longrightarrow> parse_view Added p = event_done now e evs p"
  by (simp add: parse_view_def)

lemma parse_view_updates [simp]:
  "parse_view k (p\<lparr>g_client := c\<rparr>) = (parse_view k p)\<lparr>g_client := c\<rparr>"
  "parse_view k (p\<lparr>g_main := m\<rparr>) = (parse_view k p)\<lparr>g_main := m\<rparr>"
  "parse_view k (p\<lparr>g_counters := n\<rparr>) = (parse_view k p)\<lparr>g_counters := n\<rparr>"
  by (simp_all add: parse_view_def event_done_def split: option.split list.split)

lemma view_simps [simp]:
  "g_main (view s) = g_main (u_prog s)" "g_client (view s) = g_client (u_prog s)" "g_ctx (view s) = g_ctx (u_prog s)"
  "g_open (view s) = g_open (u_prog s)" "g_sent (view s) = g_sent (u_prog s)" "g_signals (view s) = g_signals (u_prog s)"
  "g_reason (view s) = g_reason (u_prog s)" "g_texts (view s) = g_texts (u_prog s)" "g_items (view s) = g_items (u_prog s)"
  "g_directives (view s) = g_directives (u_prog s)" "g_pipe (view s) = pipe (u_stages s)"
  by (simp_all add: view_def Let_def)

lemma view_parse: "g_parse (view s) = g_parse (parse_view (phase_of (st_api (u_stages s)) client_id) (u_prog s))"
  "g_vars (view s) = g_vars (parse_view (phase_of (st_api (u_stages s)) client_id) (u_prog s))"
  by (simp_all add: view_def Let_def)

lemma running_view [simp]: "running t (view s) = running t (u_prog s)" "alive (view s) = alive (u_prog s)"
  by (simp_all add: running_def alive_def)

text \<open>Steps of the stages do not matter unless the pipeline, the two calls or their thread see them.\<close>

lemma view_same:
  assumes "u_alarm s' = u_alarm s" and "u_counters s' = u_counters s" and "pipe (u_stages s') = pipe (u_stages s)"
    and "phase_of (st_api (u_stages s')) client_id = phase_of (st_api (u_stages s)) client_id"
    and "phase_of (st_api (u_stages s')) alarm_id = phase_of (st_api (u_stages s)) alarm_id"
    and "api_pc s' alarm_id = Limit_set \<longleftrightarrow> api_pc s alarm_id = Limit_set" and "u_prog s' = u_prog s"
  shows "view s' = view s"
  using assms by (simp add: view_def Let_def)

lemma view_start: "view (interleaved_start ctx c) = program_start ctx c"
  by (simp add: view_def Let_def interleaved_start_def program_start_def pipe_start del: SYMBOL_COUNT_21)

text \<open>A thread at the boundary of a call.\<close>

lemma pipe_goto:
  assumes "good_monitor (st_api z)" and "writer_count z \<le> t" and "\<not> holds (monitor.m_pc (st_api z) t)" and "\<not> holds p"
  shows "pipe (z\<lparr>st_api := goto t p (st_api z)\<rparr>) = pipe z"
  using assms goto_effect [OF good_parts [OF assms(1), THEN conjunct1] assms(3,4), of _ False]
  by (auto simp: pipe_def intro!: views_cong)

lemma entered_phase:
  assumes "good_monitor m" and "\<not> holds (monitor.m_pc m t)" and "\<not> holds p"
  shows "phase_of (goto t p m) u = (if u = t then pc_phase False p else phase_of m u)"
  using goto_effect [OF good_parts [OF assms(1), THEN conjunct1] assms(2,3), of u False] by simp

lemma outside_effect:
  assumes "good_monitor m" and "outside_signal k m m'"
  shows "settled m' = settled m \<and> settled_items m' = settled_items m \<and> phase_of m' = phase_of m \<and>
    (monitor.m_pc m' u = Limit_set \<longleftrightarrow> monitor.m_pc m u = Limit_set)"
  using assms(2)
proof (cases rule: outside_signal.cases)
  case (signal f)
  from signal(3) show ?thesis
  proof (cases rule: signalled.cases)
    case (one v p)
    have "m' = goto v p m" using one(1) signal(2) by (simp add: goto_def)
    moreover have "p \<noteq> Limit_set" "monitor.m_pc m v \<noteq> Limit_set" using woken_cases [OF one(2)] by auto
    ultimately show ?thesis
      using woken_effect [OF good_parts [OF assms(1), THEN conjunct1] one(2)] by (simp add: fun_eq_iff)
  qed (simp add: signal)
qed simp

section \<open>Steps of threads on the pipeline\<close>

lemma pstep_moves:
  assumes "pstep n p p'" and "p' \<noteq> p" and "p_arrived p' = p_arrived p" and "q_exit_flag (p_api p') = q_exit_flag (p_api p)"
  shows "moved p p' \<noteq> {}"
  using assms
proof (cases rule: pstep.cases)
  case (writer_log i x now s1)
  then show ?thesis by (auto simp: moved_def Writer_log_frame [OF writer_log(4)])
qed (auto simp: moved_def)

text \<open>What a producer's step does to the pipeline.\<close>

lemma producer_pipe:
  assumes "inv_places z" and "good_monitor (st_api z)" and "thread_step t (st_api z) m" and "writer_count z \<le> t"
    and "\<not> is_late (effect_of (st_api z) t)"
  shows "pipe (z\<lparr>st_api := m, st_late := b\<rparr>) = (pipe z)\<lparr>p_api := change_queue (effect_of (st_api z) t) (p_api (pipe z)),
    p_arrived := p_arrived (pipe z) @ put_items (effect_of (st_api z) t)\<rparr>"
proof -
  note g = good_parts [OF assms(2)]
  note e = thread_step_effect [OF assms(3) g [THEN conjunct1]]
  have "effect_of (st_api z) t \<noteq> Takes"
    using producer_phases(1) [OF assms(1,4)] effect_tests(3) [OF assms(3) g [THEN conjunct1] g [THEN conjunct2, THEN conjunct2, THEN conjunct1]]
    by blast
  then show ?thesis using api_views [OF assms(1-3) _ assms(5)] e by (simp add: pipe_def)
qed

text \<open>Which threads of the pipeline a step can move.\<close>

lemma moved_only:
  assumes "length (p_writers p') = length (p_writers p)"
    and "\<And>i. i < length (p_writers p) \<Longrightarrow> T_writer i \<noteq> t \<Longrightarrow> p_writers p' ! i = p_writers p ! i"
    and "t \<noteq> T_calculator \<Longrightarrow> p_calculator p' = p_calculator p"
  shows "moved p p' \<subseteq> {t}"
  using assms by (auto simp: moved_def)

lemma api_moves:
  assumes "inv_mutex (st_api z)" and "thread_step t (st_api z) m"
  shows "moved (pipe z) (pipe (z\<lparr>st_api := m, st_late := b\<rparr>)) \<subseteq> {T_writer t}"
  using thread_step_effect [OF assms(2,1)] by (intro moved_only) (auto simp: views_nth)

lemma calcq_moves:
  assumes "inv_mutex (st_calcq z)" and "thread_step t (st_calcq z) m" and "t \<le> writer_count z"
  shows "moved (pipe z) (pipe (z\<lparr>st_calcq := m, st_late := b, st_dropped := d\<rparr>)) \<subseteq>
    {if t < writer_count z then T_writer t else T_calculator}"
  using thread_step_effect [OF assms(2,1)] assms(3) by (intro moved_only) (auto simp: views_nth)

lemma writer_moves:
  assumes "writer_own n i z z'" and "i < writer_count z" and "inv_places z" and "good_monitor (st_api z)"
    and "good_monitor (st_calcq z)"
  shows "moved (pipe z) (pipe z') \<subseteq> {T_writer i}" and "p_api (pipe z') = p_api (pipe z)"
    and "p_arrived (pipe z') = p_arrived (pipe z)"
proof -
  have fits: "writer_fits (monitor.m_pc (st_api z) i) (st_writers z ! i) (monitor.m_pc (st_calcq z) i)"
    using assms(2,3) by (simp add: inv_places_def)
  note ga = goto_effect [OF good_parts [OF assms(4), THEN conjunct1], of i _ _ False]
    and gc = goto_effect [OF good_parts [OF assms(5), THEN conjunct1], of i _ _ False]
  have "settled (st_api z') = settled (st_api z) \<and> settled_items (st_api z') = settled_items (st_api z) \<and>
      writer_count z' = writer_count z \<and> st_calculator z' = st_calculator z \<and>
      (\<forall>u. u \<noteq> i \<longrightarrow> phase_of (st_api z') u = phase_of (st_api z) u \<and> phase_of (st_calcq z') u = phase_of (st_calcq z) u \<and>
        st_writers z' ! u = st_writers z ! u)"
    using assms(1) by cases (use fits ga gc in auto)
  note same = this
  show "moved (pipe z) (pipe z') \<subseteq> {T_writer i}"
    by (rule moved_only) (use same assms(2) in \<open>auto simp: views_nth\<close>)
  show "p_api (pipe z') = p_api (pipe z)" "p_arrived (pipe z') = p_arrived (pipe z)" using same by simp_all
qed

lemma calculator_moves:
  assumes "calculator_own n z z'" and "good_monitor (st_calcq z)" and "inv_places z"
  shows "moved (pipe z) (pipe z') \<subseteq> {T_calculator}" and "p_api (pipe z') = p_api (pipe z)"
    and "p_arrived (pipe z') = p_arrived (pipe z)"
proof -
  have fits: "calculator_fits (st_calculator z) (monitor.m_pc (st_calcq z) (writer_count z))"
    using assms(3) by (simp add: inv_places_def)
  note gc = goto_effect [OF good_parts [OF assms(2), THEN conjunct1], of "writer_count z" _ _ False]
  have "st_api z' = st_api z \<and> st_writers z' = st_writers z \<and>
      (\<forall>u. u \<noteq> writer_count z \<longrightarrow> phase_of (st_calcq z') u = phase_of (st_calcq z) u)"
    using assms(1) by cases (use fits gc in auto)
  note same = this
  show "moved (pipe z) (pipe z') \<subseteq> {T_calculator}"
    by (rule moved_only) (use same in \<open>auto simp: views_nth\<close>)
  show "p_api (pipe z') = p_api (pipe z)" "p_arrived (pipe z') = p_arrived (pipe z)" using same by simp_all
qed

text \<open>A step of one running thread on the pipeline is a step of the program; the files are still open.\<close>

lemma running_open:
  assumes "main_reach (g_main p)" and "running t p"
  shows "\<not> m_closed (g_main p)" and "t \<in> set main_threads"
proof -
  have inv: "inv_main (g_main p)" using assms(1) by (rule main_reach_inv)
  then show "\<not> m_closed (g_main p)" using assms(2) by (simp add: inv_main_def running_def alive_def)
  have "m_started (g_main p) \<subseteq> set main_threads" using inv by (auto simp: inv_main_def dest: in_set_takeD)
  then show "t \<in> set main_threads" using assms(2) by (auto simp: running_def)
qed

lemma thread_program_step:
  assumes "main_reach (g_main p)" and "pstep SYMBOL_COUNT (g_pipe p) q" and "q \<noteq> g_pipe p"
    and "moved (g_pipe p) q \<subseteq> {t}" and "running t p" and "p_arrived q = p_arrived (g_pipe p)"
    and "q_exit_flag (p_api q) = q_exit_flag (p_api (g_pipe p))"
  shows "program_step lib key p (p\<lparr>g_pipe := q\<rparr>)"
proof -
  have "program_step lib key p (p\<lparr>g_pipe := q, g_main := (g_main p)\<lparr>m_late_writes :=
      m_late_writes (g_main p) + (if m_closed (g_main p) then 1 else 0)\<rparr>\<rparr>)"
    using pstep_moves [OF assms(2,3,6,7)] assms(2,4,5) by (intro program_step.pipe_step) auto
  then show ?thesis using running_open(1) [OF assms(1,5)] by simp
qed

section \<open>Steps inside the calls on the first queue\<close>

lemma client_adds:
  assumes "inv_handlers s" and "phase_of (st_api (u_stages s)) client_id = Adding x"
  shows "\<exists>now e evs. g_parse (u_prog s) = Some (now, e # evs) \<and> json_emit (fst e) (snd e) (g_vars (u_prog s)) = Some x"
proof -
  have fits: "client_fits (event_item (u_prog s)) (k_pc (g_client (u_prog s))) (api_pc s client_id)"
    using assms(1) by (simp add: inv_handlers_def)
  have "event_item (u_prog s) = Some x"
  proof (cases "event_item (u_prog s)")
    case None
    then have "api_pc s client_id = Idle \<or> closes (api_pc s client_id)" using fits by (auto split: if_splits)
    then show ?thesis using assms(2) by (cases "api_pc s client_id") (simp_all add: phase_of_def)
  next
    case (Some y)
    then show ?thesis
      using fits assms(2) phase_families(3) [of y "api_pc s client_id" "q_full (m_queue (st_api (u_stages s)))"]
      by (auto simp: phase_of_def)
  qed
  then show ?thesis by (auto simp: event_item_def split: option.splits list.splits prod.splits)
qed

lemma alarm_adds:
  assumes "inv_handlers s" and "phase_of (st_api (u_stages s)) alarm_id = Adding x"
  shows "u_alarm s = A_call \<and> prepared x"
proof -
  have fits: "alarm_fits (u_alarm s) (limit_reached (u_prog s)) (api_pc s alarm_id)"
    using assms(1) by (simp add: inv_handlers_def)
  then show ?thesis
    using assms(2) phase_families(3) [of _ "api_pc s alarm_id" "q_full (m_queue (st_api (u_stages s)))"]
    by (cases "u_alarm s") (auto simp: phase_of_def)
qed

lemma interrupt_phase: "inv_handlers s \<Longrightarrow> phase_of (st_api (u_stages s)) interrupt_id = Free"
  by (cases "api_pc s interrupt_id") (auto simp: inv_handlers_def phase_of_def)

lemma no_limit_entered:
  assumes "thread_step t m m'"
  shows "monitor.m_pc m' t \<noteq> Limit_set" and "u \<noteq> t \<Longrightarrow> monitor.m_pc m' u = Limit_set \<longleftrightarrow> monitor.m_pc m u = Limit_set"
    and "monitor.m_pc m t = Limit_set \<Longrightarrow> effect_of m t = Sets_exit"
proof -
  show "monitor.m_pc m t = Limit_set \<Longrightarrow> effect_of m t = Sets_exit" by (simp add: effect_of_def)
  have "monitor.m_pc m' t \<noteq> Limit_set \<and> (u \<noteq> t \<longrightarrow> (monitor.m_pc m' u = Limit_set \<longleftrightarrow> monitor.m_pc m u = Limit_set))"
    using assms
  proof (cases rule: thread_step.cases)
    case (local p m1)
    then show ?thesis using step_holds(3) [OF local(2)] by (auto elim!: insideE split: if_splits)
  next
    case (signal c p f)
    have "p \<noteq> Limit_set" using signal(2) by (auto elim!: signal_toE split: if_splits)
    then show ?thesis
      using signal(1) signalled_pointwise [OF signal(3), of t] signalled_pointwise [OF signal(3), of u] woken_cases by fastforce
  qed (auto elim!: steps split: if_splits)
  then show "monitor.m_pc m' t \<noteq> Limit_set"
    "u \<noteq> t \<Longrightarrow> monitor.m_pc m' u = Limit_set \<longleftrightarrow> monitor.m_pc m u = Limit_set" by blast+
qed

text \<open>The state after a step of thread \<open>t\<close> on the first queue.\<close>

definition after_step :: "nat \<Rightarrow> monitor \<Rightarrow> 'p interleaved \<Rightarrow> 'p interleaved" where
  "after_step t m s = s\<lparr>u_prog := noted t (effect_of (st_api (u_stages s)) t) (u_prog s),
     u_stages := (u_stages s)\<lparr>st_api := m,
       st_late := st_late (u_stages s) \<or> is_late (effect_of (st_api (u_stages s)) t)\<rparr>\<rparr>"

lemma after_step_simps [simp]:
  "u_prog (after_step t m s) = noted t (effect_of (st_api (u_stages s)) t) (u_prog s)"
  "st_api (u_stages (after_step t m s)) = m" "u_alarm (after_step t m s) = u_alarm s"
  "u_counters (after_step t m s) = u_counters s"
  "u_stages (after_step t m s) = (u_stages s)\<lparr>st_api := m,
     st_late := st_late (u_stages s) \<or> is_late (effect_of (st_api (u_stages s)) t)\<rparr>"
  by (simp_all add: after_step_def)

text \<open>What all reachable states have.\<close>

definition good_state :: "calc_files \<Rightarrow> 'p interleaved \<Rightarrow> bool" where
  "good_state c s \<longleftrightarrow> sreach SYMBOL_COUNT handlers WRITERS_COUNT c (u_stages s) \<and> inv_handlers s \<and> inv_timer s \<and>
     main_reach (g_main (u_prog s))"

lemma reach_state: "interleaved_reach lib key ctx c s \<Longrightarrow> good_state c s"
  using inter_stages.mapped inter_main.mapped handlers_hold timer_holds by (fastforce simp: good_state_def)

lemma good_stateD:
  assumes "good_state c s"
  shows "sreach SYMBOL_COUNT handlers WRITERS_COUNT c (u_stages s)" and "inv_handlers s" and "inv_timer s"
    and "main_reach (g_main (u_prog s))" and "inv_places (u_stages s)" and "good_monitor (st_api (u_stages s))"
    and "good_monitor (st_calcq (u_stages s))" and "writer_count (u_stages s) = WRITERS_COUNT"
    and "inv_mutex (st_api (u_stages s))" and "inv_mutex (st_calcq (u_stages s))"
proof -
  show r: "sreach SYMBOL_COUNT handlers WRITERS_COUNT c (u_stages s)" "inv_handlers s" "inv_timer s"
    "main_reach (g_main (u_prog s))" using assms by (simp_all add: good_state_def del: SYMBOL_COUNT_21)
  show "inv_places (u_stages s)" "good_monitor (st_api (u_stages s))" "good_monitor (st_calcq (u_stages s))"
    "writer_count (u_stages s) = WRITERS_COUNT"
    using sreach_places [OF r(1)] sreach_good [OF r(1)] sreach_writers [OF r(1)] by simp_all
  then show "inv_mutex (st_api (u_stages s))" "inv_mutex (st_calcq (u_stages s))" by (simp_all add: good_monitor_def)
qed

text \<open>A step of a producer or a handler, and the call that it stands for.\<close>

lemma after_pipe:
  assumes "good_state c s" and "thread_step t (st_api (u_stages s)) m" and "WRITERS_COUNT \<le> t"
    and "\<not> is_late (effect_of (st_api (u_stages s)) t)"
  shows "pipe (u_stages (after_step t m s)) =
    (pipe (u_stages s))\<lparr>p_api := change_queue (effect_of (st_api (u_stages s)) t) (settled (st_api (u_stages s))),
      p_arrived := settled_items (st_api (u_stages s)) @ put_items (effect_of (st_api (u_stages s)) t)\<rparr>"
  using producer_pipe [OF good_stateD(5,6) [OF assms(1)] assms(2) _ assms(4)] good_stateD(8) [OF assms(1)] assms(3) by simp

lemma api_tests:
  assumes "good_state c s" and "thread_step t (st_api (u_stages s)) m"
  shows "effect_of (st_api (u_stages s)) t = Puts x \<Longrightarrow> phase_of (st_api (u_stages s)) t = Adding x \<and>
      queue_add (settled (st_api (u_stages s))) x = Returns 0 (queue_put x (settled (st_api (u_stages s))))"
    and "effect_of (st_api (u_stages s)) t = Refuses x \<Longrightarrow> phase_of (st_api (u_stages s)) t = Adding x \<and>
      queue_add (settled (st_api (u_stages s))) x = Returns (- 1) (settled (st_api (u_stages s)))"
    and "effect_of (st_api (u_stages s)) t = Sets_exit \<Longrightarrow> api_pc s t \<in> {Int_set, Limit_set, Pass_flag}"
    and "WRITERS_COUNT \<le> t \<Longrightarrow> effect_of (st_api (u_stages s)) t \<notin> {Takes, Sees_exit}"
proof -
  note g = good_stateD [OF assms(1)]
  note tests = effect_tests [OF assms(2) g(9), OF good_parts [OF g(6), THEN conjunct2, THEN conjunct2, THEN conjunct1]]
  show "effect_of (st_api (u_stages s)) t = Puts x \<Longrightarrow> phase_of (st_api (u_stages s)) t = Adding x \<and>
      queue_add (settled (st_api (u_stages s))) x = Returns 0 (queue_put x (settled (st_api (u_stages s))))"
    using tests(1) by (simp add: queue_add_puts)
  show "effect_of (st_api (u_stages s)) t = Refuses x \<Longrightarrow> phase_of (st_api (u_stages s)) t = Adding x \<and>
      queue_add (settled (st_api (u_stages s))) x = Returns (- 1) (settled (st_api (u_stages s)))"
    using tests(2) by (simp add: queue_add_refuses)
  show "effect_of (st_api (u_stages s)) t = Sets_exit \<Longrightarrow> api_pc s t \<in> {Int_set, Limit_set, Pass_flag}" by (rule tests(5))
  show "WRITERS_COUNT \<le> t \<Longrightarrow> effect_of (st_api (u_stages s)) t \<notin> {Takes, Sees_exit}"
    using tests(3,4) producer_phases(1) [OF g(5), of t] g(8) by auto
qed

lemma view_after_silent:
  assumes "good_state c s" and "thread_step t (st_api (u_stages s)) m" and "WRITERS_COUNT \<le> t"
    and "effect_of (st_api (u_stages s)) t = Silent"
  shows "view (after_step t m s) = view s"
proof -
  have e: "phase_of m u = phase_of (st_api (u_stages s)) u" for u
    using thread_step_effect [OF assms(2) good_stateD(9) [OF assms(1)], of u] assms(4) by simp
  have limit: "monitor.m_pc m alarm_id = Limit_set \<longleftrightarrow> api_pc s alarm_id = Limit_set"
    using no_limit_entered [OF assms(2)] assms(4) by (cases "alarm_id = t") auto
  show ?thesis
    by (rule view_same) (use assms(4) e limit after_pipe [OF assms(1-3)] in \<open>simp_all add: pipe_def\<close>)
qed

text \<open>The connecting thread: its event is done when the item is put or refused.\<close>

lemma client_event:
  assumes "good_state c s" and "thread_step client_id (st_api (u_stages s)) m" and "running T_client (u_prog s)"
    and "effect_of (st_api (u_stages s)) client_id = Puts x \<or> effect_of (st_api (u_stages s)) client_id = Refuses x"
  shows "program_step lib key (view s) (view (after_step client_id m s))"
proof -
  note tests = api_tests [OF assms(1,2)] and e = thread_step_effect [OF assms(2) good_stateD(9) [OF assms(1)]]
  have x: "phase_of (st_api (u_stages s)) client_id = Adding x" using assms(4) tests(1,2) by blast
  have pipe: "pipe (u_stages (after_step client_id m s)) =
      (pipe (u_stages s))\<lparr>p_api := change_queue (effect_of (st_api (u_stages s)) client_id) (settled (st_api (u_stages s))),
        p_arrived := settled_items (st_api (u_stages s)) @ put_items (effect_of (st_api (u_stages s)) client_id)\<rparr>"
    by (rule after_pipe [OF assms(1,2)]) (use assms(4) in auto)
  note limit = no_limit_entered(2) [OF assms(2), of alarm_id]
  obtain now ev evs where at: "g_parse (u_prog s) = Some (now, ev # evs)"
    "json_emit (fst ev) (snd ev) (g_vars (u_prog s)) = Some x"
    using client_adds [OF good_stateD(2) [OF assms(1)] x] by blast
  have before: "g_parse (view s) = Some (now, ev # evs)" "g_vars (view s) = g_vars (u_prog s)"
    by (simp_all add: view_parse x at(1))
  define s1 where "s1 = view (after_step client_id m s)\<lparr>g_parse := Some (now, ev # evs)\<rparr>"
  have "parse_event now ev (view s) = Returns 0 s1"
    using assms(4)
  proof
    assume puts: "effect_of (st_api (u_stages s)) client_id = Puts x"
    then show ?thesis
      using tests(1) at e [of client_id] e [of alarm_id] x limit pipe
      by (simp add: parse_event_def Let_def before s1_def) (simp add: view_def Let_def arrived_item_def event_done_def)
  next
    assume refuses: "effect_of (st_api (u_stages s)) client_id = Refuses x"
    then show ?thesis
      using tests(2) at e [of client_id] e [of alarm_id] x limit pipe
      by (simp add: parse_event_def Let_def before s1_def) (simp add: view_def Let_def event_done_def pipe_def)
  qed
  moreover have "s1\<lparr>g_parse := Some (now, evs)\<rparr> = view (after_step client_id m s)"
    using assms(4) e [of client_id] at(1) by (auto simp: s1_def view_def Let_def event_done_def)
  ultimately show ?thesis using program_step.parse [of "view s" now ev evs s1 lib key] assms(3) before(1) by simp
qed

lemma client_call:
  assumes "good_state c s" and "thread_step client_id (st_api (u_stages s)) m"
    and "\<not> is_late (effect_of (st_api (u_stages s)) client_id)" and "running T_client (u_prog s)"
  shows "view (after_step client_id m s) = view s \<or> program_step lib key (view s) (view (after_step client_id m s))"
proof (cases "effect_of (st_api (u_stages s)) client_id")
  case Silent
  then show ?thesis using view_after_silent [OF assms(1,2)] by simp
next
  case Sets_exit
  then show ?thesis
    using api_tests(3) [OF assms(1,2)] good_stateD(2) [OF assms(1)]
    by (cases "event_item (u_prog s)") (auto simp: inv_handlers_def split: if_splits)
qed (use client_event [OF assms(1,2,4)] api_tests(4) [OF assms(1,2)] assms(3) in auto)

text \<open>The handler of the timer, and the handler of the interrupt.\<close>

lemma alarm_event:
  assumes "good_state c s" and "thread_step alarm_id (st_api (u_stages s)) m" and "alive (u_prog s)"
    and "effect_of (st_api (u_stages s)) alarm_id = Puts x \<or> effect_of (st_api (u_stages s)) alarm_id = Refuses x"
  shows "program_step lib key (view s) (view (after_step alarm_id m s))"
proof -
  note tests = api_tests [OF assms(1,2)] and e = thread_step_effect [OF assms(2) good_stateD(9) [OF assms(1)], of alarm_id]
  have x: "phase_of (st_api (u_stages s)) alarm_id = Adding x" using assms(4) tests(1,2) by blast
  have pipe: "pipe (u_stages (after_step alarm_id m s)) =
      (pipe (u_stages s))\<lparr>p_api := change_queue (effect_of (st_api (u_stages s)) alarm_id) (settled (st_api (u_stages s))),
        p_arrived := settled_items (st_api (u_stages s)) @ put_items (effect_of (st_api (u_stages s)) alarm_id)\<rparr>"
    by (rule after_pipe [OF assms(1,2)]) (use assms(4) in auto)
  obtain now junk where at: "u_alarm s = A_call" "x = directive_item now junk"
    using alarm_adds [OF good_stateD(2) [OF assms(1)] x] by (auto simp: prepared_def)
  then have timer: "g_parse (u_prog s) = None" "m_timer (g_main (u_prog s))"
    "g_counters (u_prog s) = count_minute (u_counters s)"
    using good_stateD(3) [OF assms(1)] by (cases "g_parse (u_prog s)"; auto simp: inv_timer_def)+
  have before: "g_parse (view s) = None" "\<not> g_alarm (view s)" "g_counters (view s) = u_counters s"
    using timer(1) x at(1) by (simp_all add: view_parse) (simp_all add: view_def Let_def)
  have "alarm_call now junk (view s) = Returns 0 (view (after_step alarm_id m s))"
    using assms(4)
  proof
    assume puts: "effect_of (st_api (u_stages s)) alarm_id = Puts x"
    then show ?thesis
      using tests(1) at timer e pipe x
      by (simp add: alarm_call_def Let_def) (simp add: view_def Let_def arrived_item_def)
  next
    assume refuses: "effect_of (st_api (u_stages s)) alarm_id = Refuses x"
    then show ?thesis
      using tests(2) at timer e pipe x by (simp add: alarm_call_def Let_def) (simp add: view_def Let_def pipe_def)
  qed
  then show ?thesis using program_step.alarm [of "view s" now junk _ lib key] assms(3) before timer(2) by simp
qed

lemma alarm_call_step:
  assumes "good_state c s" and "thread_step alarm_id (st_api (u_stages s)) m"
    and "\<not> is_late (effect_of (st_api (u_stages s)) alarm_id)" and "alive (u_prog s)"
  shows "view (after_step alarm_id m s) = view s \<or> program_step lib key (view s) (view (after_step alarm_id m s))"
proof (cases "effect_of (st_api (u_stages s)) alarm_id")
  case Silent
  then show ?thesis using view_after_silent [OF assms(1,2)] by simp
next
  case Sets_exit
  note g = good_stateD [OF assms(1)]
  have at: "u_alarm s = A_rest" "api_pc s alarm_id = Limit_set" "limit_reached (u_prog s)"
    using api_tests(3) [OF assms(1,2) Sets_exit] g(2) by (cases "u_alarm s"; auto simp: inv_handlers_def)+
  have "view (after_step alarm_id m s) = alarm_rest (view s)"
    using at Sets_exit after_pipe [OF assms(1,2) _ assms(3)] thread_step_effect [OF assms(2) g(9), of client_id]
      no_limit_entered(1) [OF assms(2)] g(3)
    by (simp add: alarm_rest_def order_exit_def view_def Let_def pipe_def inv_timer_def)
  moreover have "g_alarm (view s)" using at by (simp add: view_def Let_def)
  ultimately show ?thesis using program_step.alarm_end [of "view s" lib key] assms(4) by simp
qed (use alarm_event [OF assms(1,2,4)] api_tests(4) [OF assms(1,2)] assms(3) in auto)

lemma interrupt_call_step:
  assumes "good_state c s" and "thread_step interrupt_id (st_api (u_stages s)) m" and "alive (u_prog s)"
  shows "view (after_step interrupt_id m s) = view s \<or> program_step lib key (view s) (view (after_step interrupt_id m s))"
proof -
  note g = good_stateD [OF assms(1)]
  note e = thread_step_effect [OF assms(2) g(9)] and tests = api_tests [OF assms(1,2)]
  have at: "api_pc s interrupt_id = Idle \<or> interrupts (api_pc s interrupt_id) \<and> sigint_bound (k_contexts (g_client (u_prog s)))"
    using g(2) by (simp add: inv_handlers_def)
  have late: "\<not> is_late (effect_of (st_api (u_stages s)) interrupt_id)"
    using at by (cases "api_pc s interrupt_id") (auto simp: effect_of_def)
  show ?thesis
  proof (cases "effect_of (st_api (u_stages s)) interrupt_id")
    case Silent
    then show ?thesis using view_after_silent [OF assms(1,2)] by simp
  next
    case Sets_exit
    have bound: "sigint_bound (k_contexts (g_client (view s)))" using tests(3) [OF Sets_exit] at by auto
    have "view (after_step interrupt_id m s) = order_exit (view s)"
      using Sets_exit after_pipe [OF assms(1,2) _ late] e [of client_id] e [of alarm_id]
        no_limit_entered(2) [OF assms(2), of alarm_id]
      by (simp add: order_exit_def view_def Let_def)
    then show ?thesis using program_step.interrupt [OF _ bound, of lib key] assms(3) by simp
  qed (use interrupt_phase [OF g(2)] tests late in auto)
qed

text \<open>A step of a writer.\<close>

lemma writer_call_step:
  assumes "good_state c s" and "thread_step t (st_api (u_stages s)) m" and "t < WRITERS_COUNT"
    and "\<not> st_late (u_stages (after_step t m s))" and "running (T_writer t) (u_prog s)"
  shows "view (after_step t m s) = view s \<or> program_step lib key (view s) (view (after_step t m s))"
proof -
  note g = good_stateD [OF assms(1)]
  note e = thread_step_effect [OF assms(2) g(9)]
  note tests = effect_tests [OF assms(2) g(9), OF good_parts [OF g(6), THEN conjunct2, THEN conjunct2, THEN conjunct1]]
  note limit = no_limit_entered(2) [OF assms(2), of alarm_id]
  have t: "t < writer_count (u_stages s)" using assms(3) g(8) by simp
  have quiet: "put_items (effect_of (st_api (u_stages s)) t) = []" "effect_of (st_api (u_stages s)) t \<noteq> Sets_exit"
    using tests(1,5) writer_phases(2,6) [OF g(5) t] assms(4) by (cases "effect_of (st_api (u_stages s)) t"; auto)+
  have noted: "noted t (effect_of (st_api (u_stages s)) t) (u_prog s) = u_prog s"
    using quiet assms(3) by (cases "effect_of (st_api (u_stages s)) t") auto
  have "stage_step SYMBOL_COUNT handlers (u_stages s) (u_stages (after_step t m s))"
    using own_step.api_step [of t "u_stages s" handlers m SYMBOL_COUNT] t assms(2)
    by (simp add: stage_step_def del: SYMBOL_COUNT_21)
  from pipe_stage_step [OF g(1) this assms(4)]
  have step: "pipe (u_stages (after_step t m s)) = pipe (u_stages s) \<or>
      pstep SYMBOL_COUNT (pipe (u_stages s)) (pipe (u_stages (after_step t m s)))" .
  have view: "view (after_step t m s) = (view s)\<lparr>g_pipe := pipe (u_stages (after_step t m s))\<rparr>"
    using e [of client_id] e [of alarm_id] limit assms(3) noted by (simp add: view_def Let_def)
  show ?thesis
  proof (cases "pipe (u_stages (after_step t m s)) = pipe (u_stages s)")
    case True
    then show ?thesis using view by (simp add: view_def Let_def)
  next
    case False
    have "program_step lib key (view s) ((view s)\<lparr>g_pipe := pipe (u_stages (after_step t m s))\<rparr>)"
    proof (rule thread_program_step [where t = "T_writer t"])
      show "pstep SYMBOL_COUNT (g_pipe (view s)) (pipe (u_stages (after_step t m s)))" using step False by simp
      show "moved (g_pipe (view s)) (pipe (u_stages (after_step t m s))) \<subseteq> {T_writer t}"
        using api_moves [OF g(9) assms(2)] by simp
      show "p_arrived (pipe (u_stages (after_step t m s))) = p_arrived (g_pipe (view s))" using e quiet by simp
      show "q_exit_flag (p_api (pipe (u_stages (after_step t m s)))) = q_exit_flag (p_api (g_pipe (view s)))"
        using e quiet by (cases "effect_of (st_api (u_stages s)) t") (auto simp: queue_take_def Let_def)
    qed (use g(4) False assms(5) in simp_all)
    then show ?thesis using view by simp
  qed
qed

section \<open>Steps outside the calls on the first queue\<close>

lemma second_queue_step:
  assumes "good_state c s" and "thread_step t (st_calcq (u_stages s)) m" and "t \<le> WRITERS_COUNT" and "calcq_runs t s"
    and "z = (u_stages s)\<lparr>st_calcq := m, st_late := st_late (u_stages s) \<or> is_late (effect_of (st_calcq (u_stages s)) t),
      st_dropped := st_dropped (u_stages s) @ refused_items (effect_of (st_calcq (u_stages s)) t)\<rparr>"
    and "\<not> st_late z"
  shows "pipe z = pipe (u_stages s) \<or> program_step lib key (view s) ((view s)\<lparr>g_pipe := pipe z\<rparr>)"
proof (cases "pipe z = pipe (u_stages s)")
  case False
  note g = good_stateD [OF assms(1)]
  have "stage_step SYMBOL_COUNT handlers (u_stages s) z"
    using own_step.calc_step [of t "u_stages s" m SYMBOL_COUNT handlers] g(8) assms(2,3,5)
    by (simp add: stage_step_def del: SYMBOL_COUNT_21)
  then have step: "pstep SYMBOL_COUNT (g_pipe (view s)) (pipe z)"
    using pipe_stage_step [OF g(1) _ assms(6)] False by (auto simp del: SYMBOL_COUNT_21)
  have moves: "moved (g_pipe (view s)) (pipe z) \<subseteq> {if t < WRITERS_COUNT then T_writer t else T_calculator}"
    using calcq_moves [OF g(10) assms(2)] assms(3,5) g(8) by simp
  have "program_step lib key (view s) ((view s)\<lparr>g_pipe := pipe z\<rparr>)"
    by (rule thread_program_step [OF _ step _ moves]) (use g(4) False assms(4,5) in \<open>simp_all add: calcq_runs_def\<close>)
  then show ?thesis ..
qed simp

lemma own_program_step:
  assumes "good_state c s" and "running t (u_prog s)" and "\<not> st_late z"
    and "own_step SYMBOL_COUNT handlers (u_stages s) z" and "moved (pipe (u_stages s)) (pipe z) \<subseteq> {t}"
    and "p_api (pipe z) = p_api (pipe (u_stages s))" and "p_arrived (pipe z) = p_arrived (pipe (u_stages s))"
  shows "pipe z = pipe (u_stages s) \<or> program_step lib key (view s) ((view s)\<lparr>g_pipe := pipe z\<rparr>)"
proof (cases "pipe z = pipe (u_stages s)")
  case False
  note g = good_stateD [OF assms(1)]
  have "pstep SYMBOL_COUNT (g_pipe (view s)) (pipe z)"
    using pipe_stage_step [OF g(1) _ assms(3)] assms(4) False by (auto simp: stage_step_def simp del: SYMBOL_COUNT_21)
  then have "program_step lib key (view s) ((view s)\<lparr>g_pipe := pipe z\<rparr>)"
    using assms(5) by (intro thread_program_step [of "view s"]) (use g(4) False assms in simp_all)
  then show ?thesis ..
qed simp

lemma wrote_nothing_late:
  assumes "good_state c s" and "running t (u_prog s)"
  shows "thread_wrote (u_prog s) = u_prog s"
  using running_open(1) [OF good_stateD(4) [OF assms(1)] assms(2)] by (simp add: thread_wrote_def)

text \<open>A callback other than a reception does not depend on the producer lock.\<close>

lemma callback_without_lock:
  assumes "reason \<noteq> receive_reason"
  shows "lws_callback lib now reason inp (w\<lparr>producer_held := b\<rparr>) = (case lws_callback lib now reason inp w of
    Waits \<Rightarrow> Waits | Returns r w' \<Rightarrow> Returns r (w'\<lparr>producer_held := b\<rparr>))"
proof (cases reason)
  case (WsClient k)
  then show ?thesis
    using assms by (cases k) (auto simp: lws_callback_def receive_reason_def Let_def split: prod.split)
qed (simp_all add: lws_callback_def)

lemma conn_view:
  assumes "g_parse (u_prog s) = None"
  shows "conn (view s) = (conn (whole s))\<lparr>producer_held := g_alarm (view s)\<rparr>"
  using assms by (simp add: conn_def whole_def view_parse)

text \<open>Entering and leaving a call.\<close>

lemma enter_view:
  assumes "good_state c s" and "WRITERS_COUNT \<le> t" and "\<not> holds (api_pc s t)" and "\<not> holds p"
  shows "pipe (u_stages (enter t p s)) = pipe (u_stages s)"
    and "phase_of (st_api (u_stages (enter t p s))) u =
      (if u = t then pc_phase False p else phase_of (st_api (u_stages s)) u)"
  using pipe_goto [of "u_stages s" t p] entered_phase [of "st_api (u_stages s)" t p u] good_stateD(6,8) [OF assms(1)] assms
  by simp_all

lemma client_idle:
  assumes "good_state c s" and "event_item (u_prog s) = None" and "k_pc (g_client (u_prog s)) \<notin> {K_close, K_done}"
  shows "api_pc s client_id = Idle" and "phase_of (st_api (u_stages s)) client_id = Free"
  using good_stateD(2) [OF assms(1)] assms(2,3) by (simp_all add: inv_handlers_def phase_of_def)

lemma serving:
  assumes "good_state c s" and "g_parse (u_prog s) = Some q"
  shows "k_pc (g_client (u_prog s)) = K_serving" and "\<not> lock_taken s"
  using good_stateD(3) [OF assms(1)] assms(2) by (simp_all add: inv_timer_def)

lemma view_callback:
  assumes "good_state c s" and "running T_client (u_prog s)" and "g_parse (u_prog s) = None"
    and "k_pc (g_client (u_prog s)) \<in> {K_setup, K_serving, K_destroy}" and "reason \<noteq> receive_reason"
    and "lws_callback lib now reason inp (conn (whole s)) = Returns r w"
    and "outside_signal (not_empty_signals w - g_signals (u_prog s)) (st_api (u_stages s)) m"
    and "s' = s\<lparr>u_prog := put_conn w (u_prog s)\<lparr>g_open := opened reason r (g_open (u_prog s))\<rparr>,
      u_stages := (u_stages s)\<lparr>st_api := m\<rparr>\<rparr>"
  shows "program_step lib key (view s) (view s')"
proof -
  let ?w = "w\<lparr>producer_held := g_alarm (view s)\<rparr>"
  have call: "lws_callback lib now reason inp (conn (view s)) = Returns r ?w"
    by (simp only: conn_view [OF assms(3)] callback_without_lock [OF assms(5)] assms(6) outcome.case)
  have "program_step lib key (view s) (put_conn ?w (view s)\<lparr>g_open := opened reason r (g_open (view s))\<rparr>)"
    by (rule program_step.callback [OF _ _ _ assms(5) call]) (use assms(2-4) in \<open>simp_all add: view_parse\<close>)
  moreover have "view s' = put_conn ?w (view s)\<lparr>g_open := opened reason r (g_open (view s))\<rparr>"
    using outside_effect [OF good_stateD(6) [OF assms(1)] assms(7), of alarm_id] assms(3)
    by (simp add: assms(8) view_def Let_def put_conn_def pipe_def)
  ultimately show ?thesis by simp
qed

lemma view_parse_silent:
  assumes "good_state c s" and "running T_client (u_prog s)" and "g_parse (u_prog s) = Some (now, e # evs)"
    and "json_emit (fst e) (snd e) (g_vars (u_prog s)) = None"
    and "s' = s\<lparr>u_prog := event_done now e evs (u_prog s)\<rparr>"
  shows "program_step lib key (view s) (view s')"
proof -
  have free: "phase_of (st_api (u_stages s)) client_id = Free"
    using client_idle(2) [OF assms(1)] serving(1) [OF assms(1,3)] assms(3,4) by (simp add: event_item_def)
  then have "parse_event now e (view s) = Returns 0 ((view s)\<lparr>g_vars := json_update now (fst e) (snd e) (g_vars (view s))\<rparr>)"
    using assms(4) by (simp add: parse_event_def Let_def view_parse)
  from program_step.parse [OF _ _ this, of evs lib key]
  have "program_step lib key (view s) ((view s)\<lparr>g_vars := json_update now (fst e) (snd e) (g_vars (view s)), g_parse := Some (now, evs)\<rparr>)"
    using assms(2,3) free by (simp add: view_parse)
  moreover have "view s' = (view s)\<lparr>g_vars := json_update now (fst e) (snd e) (g_vars (view s)), g_parse := Some (now, evs)\<rparr>"
    using free by (simp add: assms(5) view_def Let_def event_done_def)
  ultimately show ?thesis by simp
qed

lemma view_alarm_return:
  assumes "good_state c s" and "alive (u_prog s)" and "u_alarm s = A_call" and "api_pc s alarm_id = Add_done r"
    and "s' = enter alarm_id (if limit_reached (u_prog s) then Limit_set else Idle) s\<lparr>u_alarm := A_rest\<rparr>"
  shows "view s' = view s \<or> program_step lib key (view s) (view s')"
proof -
  note entered = enter_view [OF assms(1), of alarm_id "if limit_reached (u_prog s) then Limit_set else Idle"]
  have added: "phase_of (st_api (u_stages s)) alarm_id = Added" using assms(4) by (simp add: phase_of_def)
  show ?thesis
  proof (cases "limit_reached (u_prog s)")
    case True
    then have "view s' = view s" using entered assms(3-5) added by (simp add: view_def Let_def)
    then show ?thesis ..
  next
    case False
    then have "view s' = alarm_rest (view s)"
      using entered assms(3-5) added by (simp add: view_def Let_def alarm_rest_def)
    moreover have "g_alarm (view s)" using assms(3) added by (simp add: view_def Let_def)
    ultimately show ?thesis using program_step.alarm_end [of "view s" lib key] assms(2) by simp
  qed
qed

text \<open>The steps that do not show.\<close>

lemma view_silent:
  assumes "good_state c s"
  shows "k_pc (g_client (u_prog s)) = K_close \<Longrightarrow> api_pc s client_id = Idle \<Longrightarrow> view (enter client_id Close_lock s) = view s"
    and "api_pc s client_id = Idle \<Longrightarrow> view (enter client_id (Add_lock x) s) = view s"
    and "g_parse (u_prog s) = Some (now, e # evs) \<Longrightarrow> api_pc s client_id = Add_done r \<Longrightarrow>
      view (enter client_id Idle s\<lparr>u_prog := event_done now e evs (u_prog s)\<rparr>) = view s"
    and "u_alarm s = A_none \<Longrightarrow> view (s\<lparr>u_prog := (u_prog s)\<lparr>g_counters := n\<rparr>, u_alarm := A_ready x,
      u_counters := g_counters (u_prog s)\<rparr>) = view s"
    and "u_alarm s = A_ready x \<Longrightarrow> api_pc s alarm_id = Idle \<Longrightarrow> view (enter alarm_id (Add_lock x) s\<lparr>u_alarm := A_call\<rparr>) = view s"
    and "u_alarm s = A_rest \<Longrightarrow> api_pc s alarm_id = Idle \<Longrightarrow> view (s\<lparr>u_alarm := A_none\<rparr>) = view s"
    and "api_pc s interrupt_id = Idle \<Longrightarrow> view (enter interrupt_id Int_lock s) = view s"
proof -
  note entered = enter_view [OF assms]
  note free = phase_between(1) phase_between(3)
  show "k_pc (g_client (u_prog s)) = K_close \<Longrightarrow> api_pc s client_id = Idle \<Longrightarrow> view (enter client_id Close_lock s) = view s"
    "api_pc s client_id = Idle \<Longrightarrow> view (enter client_id (Add_lock x) s) = view s"
    using entered [of client_id] by (simp_all add: view_def Let_def free)
  show "view (enter client_id Idle s\<lparr>u_prog := event_done now e evs (u_prog s)\<rparr>) = view s"
    if "g_parse (u_prog s) = Some (now, e # evs)" "api_pc s client_id = Add_done r"
    using entered [of client_id Idle] that by (simp add: view_def Let_def free)
  show "u_alarm s = A_ready x \<Longrightarrow> api_pc s alarm_id = Idle \<Longrightarrow> view (enter alarm_id (Add_lock x) s\<lparr>u_alarm := A_call\<rparr>) = view s"
    using entered [of alarm_id] by (simp add: view_def Let_def free)
  show "api_pc s interrupt_id = Idle \<Longrightarrow> view (enter interrupt_id Int_lock s) = view s"
    using entered [of interrupt_id] by (simp add: view_def Let_def)
qed (simp_all add: view_def Let_def)

section \<open>Refinement\<close>

lemma view_first_queue:
  assumes "good_state c s" and "t \<le> interrupt_id" and "api_runs t s" and "thread_step t (st_api (u_stages s)) m"
    and "\<not> st_late (u_stages (after_step t m s))"
  shows "view (after_step t m s) = view s \<or> program_step lib key (view s) (view (after_step t m s))"
proof -
  have late: "\<not> is_late (effect_of (st_api (u_stages s)) t)" using assms(5) by simp
  consider "t < WRITERS_COUNT" | "t = client_id" | "t = alarm_id" | "t = interrupt_id" using assms(2) by linarith
  then show ?thesis
  proof cases
    case 1
    then show ?thesis using writer_call_step [OF assms(1,4) _ assms(5)] assms(3) by (simp add: api_runs_def)
  next
    case 2
    then show ?thesis using client_call [OF assms(1)] assms(3,4) late by (simp add: api_runs_def)
  next
    case 3
    then show ?thesis using alarm_call_step [OF assms(1)] assms(3,4) late by (simp add: api_runs_def)
  next
    case 4
    then show ?thesis using interrupt_call_step [OF assms(1)] assms(3,4) by (simp add: api_runs_def)
  qed
qed

text \<open>A step of the stages that only the pipeline sees.\<close>

lemma view_pipe:
  assumes "st_api z = st_api (u_stages s) \<or> (\<forall>t \<ge> WRITERS_COUNT. monitor.m_pc (st_api z) t = api_pc s t) \<and>
      m_queue (st_api z) = m_queue (st_api (u_stages s))"
  shows "view (s\<lparr>u_stages := z\<rparr>) = (view s)\<lparr>g_pipe := pipe z\<rparr>"
proof -
  have "m_queue (st_api z) = m_queue (st_api (u_stages s))" using assms by auto
  moreover have "monitor.m_pc (st_api z) t = api_pc s t" if "WRITERS_COUNT \<le> t" for t using assms that by auto
  ultimately show ?thesis by (simp add: view_def Let_def phase_of_def)
qed

lemma view_pipe_same: "(view s)\<lparr>g_pipe := pipe (u_stages s)\<rparr> = view s"
  by (simp add: view_def Let_def)

lemma view_writer:
  assumes "good_state c s" and "running (T_writer i) (u_prog s)" and "i < WRITERS_COUNT"
    and "writer_own SYMBOL_COUNT i (u_stages s) z" and "\<not> st_late z"
    and "s' = s\<lparr>u_prog := thread_wrote (u_prog s), u_stages := z\<rparr>"
  shows "view s' = view s \<or> program_step lib key (view s) (view s')"
proof -
  note g = good_stateD [OF assms(1)]
  have i: "i < writer_count (u_stages s)" using assms(3) g(8) by simp
  have "view s' = (view s)\<lparr>g_pipe := pipe z\<rparr>"
    using view_pipe [of z s] own_frame(1) [OF assms(4)] assms(3) wrote_nothing_late [OF assms(1,2)] by (simp add: assms(6))
  then show ?thesis
    using own_program_step [OF assms(1,2,5) own_step.writer [OF i assms(4)] writer_moves [OF assms(4) i g(5-7)], of lib key]
    by (auto simp: view_pipe_same)
qed

lemma view_calculator:
  assumes "good_state c s" and "running T_calculator (u_prog s)" and "calculator_own SYMBOL_COUNT (u_stages s) z"
    and "\<not> st_late z" and "s' = s\<lparr>u_prog := thread_wrote (u_prog s), u_stages := z\<rparr>"
  shows "view s' = view s \<or> program_step lib key (view s) (view s')"
proof -
  note g = good_stateD [OF assms(1)]
  have "view s' = (view s)\<lparr>g_pipe := pipe z\<rparr>"
    using view_pipe [of z s] own_frame(2) [OF assms(3)] wrote_nothing_late [OF assms(1,2)] by (simp add: assms(5))
  then show ?thesis
    using own_program_step [OF assms(1,2,4) own_step.calculator [OF assms(3)] calculator_moves [OF assms(3) g(7,5)], of lib key]
    by (auto simp: view_pipe_same)
qed

lemma view_spurious:
  assumes "good_state c s"
  shows "woken v (api_pc s t) = Some p \<Longrightarrow> view (enter t p s) = view s"
    and "woken v (monitor.m_pc (st_calcq (u_stages s)) t) = Some p \<Longrightarrow>
      view (s\<lparr>u_stages := (u_stages s)\<lparr>st_calcq := goto t p (st_calcq (u_stages s))\<rparr>\<rparr>) = view s"
proof -
  note g = good_stateD [OF assms]
  show "view (enter t p s) = view s" if w: "woken v (api_pc s t) = Some p"
  proof (rule view_same)
    note e = woken_effect [OF g(9) w]
    show "pipe (u_stages (enter t p s)) = pipe (u_stages s)" using e by (auto simp: pipe_def intro!: views_cong)
    show "api_pc (enter t p s) alarm_id = Limit_set \<longleftrightarrow> api_pc s alarm_id = Limit_set"
      using woken_cases [OF w] by auto
  qed (use woken_effect [OF g(9) w] in simp_all)
  show "view (s\<lparr>u_stages := (u_stages s)\<lparr>st_calcq := goto t p (st_calcq (u_stages s))\<rparr>\<rparr>) = view s"
    if w: "woken v (monitor.m_pc (st_calcq (u_stages s)) t) = Some p"
    by (rule view_same) (use woken_effect [OF g(10) w] in \<open>auto simp: pipe_def intro!: views_cong\<close>)
qed

lemma view_returns:
  assumes "good_state c s" and "running t (u_prog s)" and "ended t s"
  shows "at_end t (view s)"
proof (cases t)
  case (T_writer i)
  then have "i < writer_count (u_stages s)"
    using running_open(2) [OF good_stateD(4) [OF assms(1)] assms(2)] good_stateD(8) [OF assms(1)] writer_threads by simp
  then show ?thesis using T_writer assms(3) by (simp add: views_nth)
qed (use assms(3) in simp_all)

lemma view_updates:
  "view (s\<lparr>u_prog := (u_prog s)\<lparr>g_main := m\<rparr>\<rparr>) = (view s)\<lparr>g_main := m\<rparr>"
  "view (s\<lparr>u_prog := (u_prog s)\<lparr>g_client := c\<rparr>\<rparr>) = (view s)\<lparr>g_client := c\<rparr>"
  "g_parse (u_prog s) = None \<Longrightarrow> phase_of (st_api (u_stages s)) client_id \<noteq> Added \<Longrightarrow>
     view (s\<lparr>u_prog := (u_prog s)\<lparr>g_parse := Some q, g_ctx := x, g_texts := ts\<rparr>\<rparr>) =
     (view s)\<lparr>g_parse := Some q, g_ctx := x, g_texts := ts\<rparr>"
  "g_parse (u_prog s) = Some (now, []) \<Longrightarrow>
     view (s\<lparr>u_prog := (u_prog s)\<lparr>g_parse := None, g_ctx := x\<rparr>\<rparr>) = (view s)\<lparr>g_parse := None, g_ctx := x\<rparr>"
  by (simp_all add: view_def Let_def)

lemma view_receive:
  assumes "good_state c s" and "running T_client (u_prog s)" and "g_parse (u_prog s) = None"
    and "k_pc (g_client (u_prog s)) = K_serving" and "g_open (u_prog s)" and "\<not> lock_taken s"
    and "lejp_parse lib (g_ctx (u_prog s)) inp = (x, evs, code)"
    and "s' = s\<lparr>u_prog := (u_prog s)\<lparr>g_parse := Some (now, evs), g_ctx := x, g_texts := g_texts (u_prog s) @ [(now, inp)]\<rparr>\<rparr>"
  shows "program_step lib key (view s) (view s')"
proof -
  have "phase_of (st_api (u_stages s)) client_id = Free"
    using client_idle(2) [OF assms(1)] assms(3,4) by (simp add: event_item_def)
  moreover have "\<not> g_alarm (view s)" using assms(6) by (cases "u_alarm s") (simp_all add: view_def Let_def)
  ultimately show ?thesis
    using program_step.receive [of "view s" lib inp x evs code key now] assms by (simp add: view_parse view_updates)
qed

lemma view_second_queue:
  assumes "good_state c s" and "t \<le> WRITERS_COUNT" and "calcq_runs t s" and "thread_step t (st_calcq (u_stages s)) m"
    and "z = (u_stages s)\<lparr>st_calcq := m, st_late := st_late (u_stages s) \<or> is_late (effect_of (st_calcq (u_stages s)) t),
      st_dropped := st_dropped (u_stages s) @ refused_items (effect_of (st_calcq (u_stages s)) t)\<rparr>"
    and "\<not> st_late z"
  shows "view (s\<lparr>u_stages := z\<rparr>) = view s \<or> program_step lib key (view s) (view (s\<lparr>u_stages := z\<rparr>))"
proof -
  have "view (s\<lparr>u_stages := z\<rparr>) = (view s)\<lparr>g_pipe := pipe z\<rparr>" using view_pipe [of z s] assms(5) by simp
  moreover have "pipe z = pipe (u_stages s) \<or> program_step lib key (view s) ((view s)\<lparr>g_pipe := pipe z\<rparr>)"
    by (rule second_queue_step [OF assms(1,4,2,3,5,6)])
  ultimately show ?thesis by (metis view_pipe_same)
qed

lemma view_step:
  assumes "interleaved_reach lib key ctx c s" and "interleaved_step lib key s s'" and "\<not> st_late (u_stages s')"
  shows "view s' = view s \<or> program_step lib key (view s) (view s')"
proof -
  note good = reach_state [OF assms(1)]
  from assms(2) show ?thesis
  proof (cases rule: interleaved_step.cases)
    case (main m)
    then show ?thesis using program_step.main [of "view s" m lib key] by (simp add: view_updates)
  next
    case (returns t)
    then show ?thesis using program_step.returns [OF _ view_returns [OF good returns(2,3)], of lib key]
      by (simp add: view_updates)
  next
    case (client c')
    then show ?thesis using program_step.client [of "view s" key c' lib] by (simp add: view_parse view_updates)
  next
    case (callback reason now inp r w m)
    then show ?thesis using view_callback [OF good callback(2-7)] by blast
  next
    case (receive inp ctx' evs code now)
    then show ?thesis using view_receive [OF good receive(2-7)] by blast
  next
    case (parse_silent now e evs)
    then show ?thesis using view_parse_silent [OF good parse_silent(2-4)] by blast
  next
    case (parsed now)
    then show ?thesis using program_step.parsed [of "view s" now lib key] by (simp add: view_parse view_updates)
  next
    case (alarm_return r)
    then show ?thesis using view_alarm_return [OF good alarm_return(2-4)] by blast
  next
    case (first_queue t m)
    then have "s' = after_step t m s" by (simp add: after_step_def)
    then show ?thesis using view_first_queue [OF good first_queue(2-4)] assms(3) by simp
  next
    case (second_queue t m)
    then show ?thesis using view_second_queue [OF good second_queue(2-4)] assms(3) by simp
  next
    case (writer i z)
    then show ?thesis using view_writer [OF good writer(2-4)] assms(3) by simp
  next
    case (calculator z)
    then show ?thesis using view_calculator [OF good calculator(2,3)] assms(3) by simp
  next
    case (spurious_first t v p)
    then show ?thesis using view_spurious(1) [OF good] by blast
  next
    case (spurious_second t v p)
    then show ?thesis using view_spurious(2) [OF good] by blast
  qed (use view_silent [OF good] in auto)
qed

lemma interleaved_late: "interleaved_step lib key s s' \<Longrightarrow> st_late (u_stages s) \<Longrightarrow> st_late (u_stages s')"
  by (cases rule: interleaved_step.cases, assumption) (use own_frame in auto)

interpretation views: refinement_map "\<lambda>s. interleaved_reach lib key ctx c s \<and> \<not> st_late (u_stages s)" "interleaved_start ctx c"
    "\<lambda>s s'. interleaved_step lib key s s' \<and> \<not> st_late (u_stages s')" "program_reach lib key ctx c" "program_step lib key" view
  for lib key ctx c
proof
  fix s P
  assume s: "interleaved_reach lib key ctx c s \<and> \<not> st_late (u_stages s)" and init: "P (interleaved_start ctx c)"
    and steps: "\<And>s s'. interleaved_reach lib key ctx c s \<and> \<not> st_late (u_stages s) \<Longrightarrow> P s \<Longrightarrow>
      interleaved_step lib key s s' \<and> \<not> st_late (u_stages s') \<Longrightarrow> P s'"
  have "interleaved_reach lib key ctx c s \<Longrightarrow> \<not> st_late (u_stages s) \<longrightarrow> P s"
  proof (induction rule: interleaved_reach.induct)
    case (step s s')
    then show ?case using steps interleaved_late by blast
  qed (simp add: init)
  then show "P s" using s by blast
next
  show "program_reach lib key ctx c (view (interleaved_start ctx c))" by (simp add: view_start program_reach.start)
  show "program_reach lib key ctx c a \<Longrightarrow> program_step lib key a a' \<Longrightarrow> program_reach lib key ctx c a'" for a a'
    by (rule program_reach.step)
  show "interleaved_reach lib key ctx c s \<and> \<not> st_late (u_stages s) \<Longrightarrow>
      interleaved_step lib key s s' \<and> \<not> st_late (u_stages s') \<Longrightarrow> (program_step lib key)\<^sup>*\<^sup>* (view s) (view s')" for s s'
    using view_step [of lib key ctx c s s'] by (intro step_or_same) blast
qed

end
