(* ===== verification/InterleavedRuns.thy ===== *)
theory InterleavedRuns
  imports InterleavedRefines
begin

text \<open>
  Every run of \<open>Program\<close>, with its calls as single steps, is a run of \<open>Interleaved\<close> in which the
  calls are undisturbed.  With the refinement of \<open>InterleavedRefines\<close> both models have the same
  reachable states, as long as no item is put late; what is proved of the end of the program
  then holds with all its locks and waits.
\<close>

section \<open>States between the calls\<close>

fun writer_between :: "pc \<Rightarrow> writer_pc \<Rightarrow> pc \<Rightarrow> bool" where
  "writer_between a W_get b \<longleftrightarrow> (a = Idle \<or> a = Rem_lock) \<and> b = Idle"
| "writer_between a (W_got x) b \<longleftrightarrow> a = Rem_done (Some x) \<and> b = Idle"
| "writer_between a (W_add x) b \<longleftrightarrow> a = Rem_done (Some x) \<and> b = Idle"
| "writer_between a W_done b \<longleftrightarrow> a = Rem_exited \<and> b = Passed"

fun calculator_between :: "calculator_pc \<Rightarrow> pc \<Rightarrow> bool" where
  "calculator_between C_start b \<longleftrightarrow> b = Idle"
| "calculator_between C_get b \<longleftrightarrow> b = Rem_lock"
| "calculator_between (C_got x) b \<longleftrightarrow> b = Rem_done (Some x)"
| "calculator_between C_done b \<longleftrightarrow> b = Rem_exited"

fun alarm_between :: "alarm_stage \<Rightarrow> pc \<Rightarrow> bool" where
  "alarm_between A_none b \<longleftrightarrow> b = Idle"
| "alarm_between A_call b \<longleftrightarrow> (\<exists>r. b = Add_done r)"
| "alarm_between _ b \<longleftrightarrow> False"

definition stages_between :: "stages \<Rightarrow> bool" where
  "stages_between z \<longleftrightarrow> m_owner (st_api z) = None \<and> m_owner (st_calcq z) = None \<and>
     (\<forall>i < WRITERS_COUNT. writer_between (monitor.m_pc (st_api z) i) (st_writers z ! i) (monitor.m_pc (st_calcq z) i)) \<and>
     calculator_between (st_calculator z) (monitor.m_pc (st_calcq z) WRITERS_COUNT)"

lemma writers_between:
  "stages_between z \<Longrightarrow> i < WRITERS_COUNT \<Longrightarrow>
     writer_between (monitor.m_pc (st_api z) i) (st_writers z ! i) (monitor.m_pc (st_calcq z) i)"
  by (simp add: stages_between_def)

definition between :: "'p interleaved \<Rightarrow> bool" where
  "between s \<longleftrightarrow> stages_between (u_stages s) \<and>
     api_pc s client_id = (if k_pc (g_client (u_prog s)) = K_done then Closed else Idle) \<and>
     alarm_between (u_alarm s) (api_pc s alarm_id) \<and> api_pc s interrupt_id = Idle"

definition poised :: "'p lws_lib \<Rightarrow> string \<Rightarrow> 'p \<Rightarrow> calc_files \<Rightarrow> 'p interleaved \<Rightarrow> bool" where
  "poised lib key ctx c s \<longleftrightarrow> interleaved_reach lib key ctx c s \<and> \<not> st_late (u_stages s) \<and> between s"

text \<open>What the program sees of such a state.\<close>

definition flat :: "stages \<Rightarrow> pipeline" where
  "flat z = \<lparr>p_api = m_queue (st_api z), p_calcq = m_queue (st_calcq z), p_writers = st_writers z,
     p_calculator = st_calculator z, p_trade_files = st_trade_files z, p_writer_delays = st_writer_delays z,
     p_calc = st_calc z, p_arrived = m_accepted (st_api z), p_logged = st_logged z, p_handled = st_handled z,
     p_dropped = st_dropped z\<rparr>"

lemma flat_simps [simp]:
  "p_api (flat z) = m_queue (st_api z)" "p_calcq (flat z) = m_queue (st_calcq z)" "p_writers (flat z) = st_writers z"
  "p_calculator (flat z) = st_calculator z" "p_trade_files (flat z) = st_trade_files z"
  "p_writer_delays (flat z) = st_writer_delays z" "p_calc (flat z) = st_calc z" "p_arrived (flat z) = m_accepted (st_api z)"
  "p_logged (flat z) = st_logged z" "p_handled (flat z) = st_handled z" "p_dropped (flat z) = st_dropped z"
  by (simp_all add: flat_def)

lemma pipe_flat:
  assumes "stages_between z" and "writer_count z = WRITERS_COUNT"
  shows "pipe z = flat z"
proof -
  have "writer_view (phase_of (st_api z) i) (st_writers z ! i) (phase_of (st_calcq z) i) = st_writers z ! i"
    if "i < WRITERS_COUNT" for i
    using writers_between [OF assms(1) that] by (cases "st_writers z ! i") (auto simp: phase_of_def)
  then have "writer_views (phase_of (st_api z)) (st_writers z) (phase_of (st_calcq z)) = st_writers z"
    using assms(2) by (intro nth_equalityI) (simp_all add: views_nth)
  moreover have "calculator_view (st_calculator z) (phase_of (st_calcq z) WRITERS_COUNT) = st_calculator z"
    using assms(1) by (cases "st_calculator z") (auto simp: stages_between_def phase_of_def)
  ultimately show ?thesis
    using assms by (simp add: pipe_def flat_def settled_def settled_items_def pending_free stages_between_def)
qed

definition flat_view :: "'p interleaved \<Rightarrow> 'p program" where
  "flat_view s = (u_prog s)\<lparr>g_pipe := flat (u_stages s), g_alarm := u_alarm s = A_call\<rparr>"

lemma view_flat:
  assumes "between s" and "writer_count (u_stages s) = WRITERS_COUNT"
  shows "view s = flat_view s"
proof -
  have "phase_of (st_api (u_stages s)) client_id = Free"
    using assms(1) by (auto simp: between_def phase_of_def split: if_splits)
  then show ?thesis
    using assms pipe_flat [of "u_stages s"]
    by (cases "u_alarm s") (auto simp: between_def view_def flat_view_def Let_def phase_of_def)
qed

lemma poisedD:
  assumes "poised lib key ctx c s"
  shows "interleaved_reach lib key ctx c s" and "\<not> st_late (u_stages s)" and "between s" and "good_state c s"
    and "writer_count (u_stages s) = WRITERS_COUNT" and "view s = flat_view s"
    and "m_owner (st_api (u_stages s)) = None" and "m_owner (st_calcq (u_stages s)) = None"
    and "wf_queue (m_queue (st_api (u_stages s)))" and "wf_queue (m_queue (st_calcq (u_stages s)))"
    and "main_reach (g_main (u_prog s))"
proof -
  show r: "interleaved_reach lib key ctx c s" "\<not> st_late (u_stages s)" "between s" using assms by (simp_all add: poised_def)
  show g: "good_state c s" using r(1) by (rule reach_state)
  show w: "writer_count (u_stages s) = WRITERS_COUNT" using good_stateD(8) [OF g] .
  show "view s = flat_view s" using view_flat [OF r(3) w] .
  show "m_owner (st_api (u_stages s)) = None" "m_owner (st_calcq (u_stages s)) = None"
    using r(3) by (simp_all add: between_def stages_between_def)
  show "wf_queue (m_queue (st_api (u_stages s)))" "wf_queue (m_queue (st_calcq (u_stages s)))"
    using good_wf good_stateD(6,7) [OF g] by auto
  show "main_reach (g_main (u_prog s))" using good_stateD(4) [OF g] .
qed

text \<open>Nobody sleeps in such a state.\<close>

fun sleeping :: "pc \<Rightarrow> bool" where
  "sleeping (Add_wait x) \<longleftrightarrow> True" | "sleeping Rem_wait \<longleftrightarrow> True" | "sleeping _ \<longleftrightarrow> False"

lemma awake_api:
  assumes "between s" and "interleaved_reach lib key ctx c s"
  shows "\<not> sleeping (api_pc s u)"
proof -
  have threads: "inv_threads (WRITERS_COUNT + 3) (st_api (u_stages s))"
    using reach_threads [OF api.mapped [OF inter_stages.mapped [OF assms(2)]]] .
  consider "u < WRITERS_COUNT" | "u = client_id" | "u = alarm_id" | "u = interrupt_id" | "WRITERS_COUNT + 3 \<le> u" by linarith
  then show ?thesis
  proof cases
    case 1
    then show ?thesis
      using assms(1) writers_between [of "u_stages s" u] by (cases "st_writers (u_stages s) ! u") (auto simp: between_def)
  next
    case 3
    then show ?thesis using assms(1) by (cases "u_alarm s") (auto simp: between_def)
  next
    case 5
    then show ?thesis using threads by (simp add: inv_threads_def)
  qed (use assms(1) in \<open>auto simp: between_def split: if_splits\<close>)
qed

lemma awake_calcq:
  assumes "between s" and "interleaved_reach lib key ctx c s"
  shows "\<not> sleeping (monitor.m_pc (st_calcq (u_stages s)) u)"
proof -
  have threads: "inv_threads (WRITERS_COUNT + 1) (st_calcq (u_stages s))"
    using reach_threads [OF calcq.mapped [OF inter_stages.mapped [OF assms(2)]]] .
  consider "u < WRITERS_COUNT" | "u = WRITERS_COUNT" | "WRITERS_COUNT + 1 \<le> u" by linarith
  then show ?thesis
  proof cases
    case 1
    then show ?thesis
      using assms(1) writers_between [of "u_stages s" u] by (cases "st_writers (u_stages s) ! u") (auto simp: between_def)
  next
    case 2
    then show ?thesis using assms(1) by (cases "st_calculator (u_stages s)") (auto simp: between_def stages_between_def)
  next
    case 3
    then show ?thesis using threads by (simp add: inv_threads_def)
  qed
qed

lemma not_sleeping: "\<not> sleeping p \<Longrightarrow> p \<noteq> Rem_wait \<and> p \<noteq> Add_wait x"
  by auto

section \<open>Undisturbed calls of the program\<close>

lemma silent_noted: "noted t Silent p = p"
  by simp

lemma running_noted [simp]: "running u (noted t e p) = running u p" "alive (noted t e p) = alive p"
  by (simp_all add: running_def alive_def)

lemma api_runs_cong: "g_main (u_prog s') = g_main (u_prog s) \<Longrightarrow> api_runs t s' = api_runs t s"
  by (simp add: api_runs_def running_def alive_def)

lemma same_prog: "s\<lparr>u_prog := u_prog s, u_stages := z\<rparr> = s\<lparr>u_stages := z\<rparr>"
  by (cases s) simp

lemma reach_silent_api:
  assumes "(silent_step t)\<^sup>*\<^sup>* (st_api (u_stages s)) m" and "interleaved_reach lib key ctx c s"
    and "t \<le> interrupt_id" and "api_runs t s"
  shows "interleaved_reach lib key ctx c (s\<lparr>u_stages := (u_stages s)\<lparr>st_api := m\<rparr>\<rparr>)"
  using assms(1)
proof (induction rule: rtranclp_induct)
  case base
  then show ?case using assms(2) by simp
next
  case (step y z)
  let ?s = "s\<lparr>u_stages := (u_stages s)\<lparr>st_api := y\<rparr>\<rparr>"
  have "api_runs t ?s" using assms(4) by (simp add: api_runs_def)
  from interleaved_step.first_queue [OF assms(3) this, of z lib key]
  have "interleaved_step lib key ?s (s\<lparr>u_stages := (u_stages s)\<lparr>st_api := z\<rparr>\<rparr>)"
    using step(2) assms(1) by (simp add: silent_step_def silent_noted same_prog del: noted.simps)
  then show ?case using interleaved_reach.step [OF step(3)] by simp
qed

lemma reach_call_api:
  assumes "call t (st_api (u_stages s)) e m" and "\<not> is_late e" and "interleaved_reach lib key ctx c s"
    and "t \<le> interrupt_id" and "api_runs t s"
  shows "interleaved_reach lib key ctx c (s\<lparr>u_prog := noted t e (u_prog s), u_stages := (u_stages s)\<lparr>st_api := m\<rparr>\<rparr>)"
proof -
  obtain a b where ab: "(silent_step t)\<^sup>*\<^sup>* (st_api (u_stages s)) a" "thread_step t a b" "effect_of a t = e"
    "(silent_step t)\<^sup>*\<^sup>* b m" using assms(1) by (auto simp: call_def)
  let ?s1 = "s\<lparr>u_stages := (u_stages s)\<lparr>st_api := a\<rparr>\<rparr>"
  let ?s2 = "s\<lparr>u_prog := noted t e (u_prog s), u_stages := (u_stages s)\<lparr>st_api := b\<rparr>\<rparr>"
  have r1: "interleaved_reach lib key ctx c ?s1" by (rule reach_silent_api [OF ab(1) assms(3-5)])
  have "api_runs t ?s1" using assms(5) by (simp add: api_runs_def)
  from interleaved_step.first_queue [OF assms(4) this, of b lib key]
  have "interleaved_step lib key ?s1 ?s2" using ab(2,3) assms(2) by simp
  then have r2: "interleaved_reach lib key ctx c ?s2" by (rule interleaved_reach.step [OF r1])
  have "api_runs t ?s2" using assms(5) api_runs_cong [of ?s2 s t] by simp
  from reach_silent_api [OF _ r2 assms(4) this, of m] show ?thesis using ab(4) by simp
qed

lemma reach_silent_calcq:
  assumes "(silent_step t)\<^sup>*\<^sup>* (st_calcq (u_stages s)) m" and "interleaved_reach lib key ctx c s"
    and "t \<le> WRITERS_COUNT" and "calcq_runs t s"
  shows "interleaved_reach lib key ctx c (s\<lparr>u_stages := (u_stages s)\<lparr>st_calcq := m\<rparr>\<rparr>)"
  using assms(1)
proof (induction rule: rtranclp_induct)
  case base
  then show ?case using assms(2) by simp
next
  case (step y z)
  let ?s = "s\<lparr>u_stages := (u_stages s)\<lparr>st_calcq := y\<rparr>\<rparr>"
  have "calcq_runs t ?s" using assms(4) by (simp add: calcq_runs_def)
  from interleaved_step.second_queue [OF assms(3) this, of z lib key]
  have "interleaved_step lib key ?s (s\<lparr>u_stages := (u_stages s)\<lparr>st_calcq := z\<rparr>\<rparr>)"
    using step(2) by (simp add: silent_step_def)
  then show ?case using interleaved_reach.step [OF step(3)] by simp
qed

lemma reach_call_calcq:
  assumes "call t (st_calcq (u_stages s)) e m" and "\<not> is_late e" and "interleaved_reach lib key ctx c s"
    and "t \<le> WRITERS_COUNT" and "calcq_runs t s"
  shows "interleaved_reach lib key ctx c
    (s\<lparr>u_stages := (u_stages s)\<lparr>st_calcq := m, st_dropped := st_dropped (u_stages s) @ refused_items e\<rparr>\<rparr>)"
proof -
  obtain a b where ab: "(silent_step t)\<^sup>*\<^sup>* (st_calcq (u_stages s)) a" "thread_step t a b" "effect_of a t = e"
    "(silent_step t)\<^sup>*\<^sup>* b m" using assms(1) by (auto simp: call_def)
  let ?s1 = "s\<lparr>u_stages := (u_stages s)\<lparr>st_calcq := a\<rparr>\<rparr>"
  let ?s2 = "s\<lparr>u_stages := (u_stages s)\<lparr>st_calcq := b, st_dropped := st_dropped (u_stages s) @ refused_items e\<rparr>\<rparr>"
  have r1: "interleaved_reach lib key ctx c ?s1" by (rule reach_silent_calcq [OF ab(1) assms(3-5)])
  have "calcq_runs t ?s1" using assms(5) by (simp add: calcq_runs_def)
  from interleaved_step.second_queue [OF assms(4) this, of b lib key]
  have "interleaved_step lib key ?s1 ?s2" using ab(2,3) assms(2) by simp
  then have r2: "interleaved_reach lib key ctx c ?s2" by (rule interleaved_reach.step [OF r1])
  have "calcq_runs t ?s2" using assms(5) by (simp add: calcq_runs_def)
  from reach_silent_calcq [OF _ r2 assms(4) this, of m] show ?thesis using ab(4) by (cases "u_stages s") simp
qed

section \<open>Each step of the program\<close>

abbreviation shown :: "'p lws_lib \<Rightarrow> string \<Rightarrow> 'p \<Rightarrow> calc_files \<Rightarrow> 'p program \<Rightarrow> bool" where
  "shown lib key ctx c p \<equiv> (\<exists>s. poised lib key ctx c s \<and> view s = p)"

lemma shownI:
  assumes "interleaved_reach lib key ctx c s" and "\<not> st_late (u_stages s)" and "between s" and "flat_view s = p"
  shows "shown lib key ctx c p"
  using assms view_flat [OF assms(3) good_stateD(8) [OF reach_state [OF assms(1)]]] unfolding poised_def by blast

lemma goto_there: "monitor.m_pc m t = p \<Longrightarrow> goto t p m = m"
  by (simp add: goto_def fun_upd_idem)

lemma flat_view_simps [simp]:
  "g_main (flat_view s) = g_main (u_prog s)" "g_client (flat_view s) = g_client (u_prog s)"
  "g_parse (flat_view s) = g_parse (u_prog s)" "g_vars (flat_view s) = g_vars (u_prog s)"
  "g_ctx (flat_view s) = g_ctx (u_prog s)" "g_open (flat_view s) = g_open (u_prog s)"
  "g_counters (flat_view s) = g_counters (u_prog s)" "g_items (flat_view s) = g_items (u_prog s)"
  "g_directives (flat_view s) = g_directives (u_prog s)" "g_texts (flat_view s) = g_texts (u_prog s)"
  "g_pipe (flat_view s) = flat (u_stages s)" "g_alarm (flat_view s) \<longleftrightarrow> u_alarm s = A_call"
  "running t (flat_view s) = running t (u_prog s)" "alive (flat_view s) = alive (u_prog s)"
  by (simp_all add: flat_view_def running_def alive_def)

text \<open>\<open>main\<close> and the connecting thread outside receptions.\<close>

lemma shows_main:
  assumes "poised lib key ctx c s" and "main_step (g_main (u_prog s)) m" and "m_returned m = m_returned (g_main (u_prog s))"
    and "m_late_writes m = m_late_writes (g_main (u_prog s))"
  shows "shown lib key ctx c ((flat_view s)\<lparr>g_main := m\<rparr>)"
proof -
  note d = poisedD [OF assms(1)]
  show ?thesis
    by (rule shownI [OF interleaved_reach.step [OF d(1) interleaved_step.main [OF assms(2-4)]]])
      (use d(2,3) in \<open>simp_all add: between_def flat_view_def\<close>)
qed

lemma shows_returns:
  assumes "poised lib key ctx c s" and "running t (u_prog s)" and "at_end t (flat_view s)"
  shows "shown lib key ctx c ((flat_view s)\<lparr>g_main :=
    (g_main (u_prog s))\<lparr>m_returned := insert t (m_returned (g_main (u_prog s)))\<rparr>\<rparr>)"
proof -
  note d = poisedD [OF assms(1)]
  have "ended t s" using assms(3) by (cases t) simp_all
  from interleaved_step.returns [OF assms(2) this] show ?thesis
    by (rule shownI [OF interleaved_reach.step [OF d(1)]]) (use d(2,3) in \<open>simp_all add: between_def flat_view_def\<close>)
qed

lemma shows_client:
  assumes "poised lib key ctx c s" and "running T_client (u_prog s)" and "g_parse (u_prog s) = None"
    and "client_step key (g_client (u_prog s)) k" and "k_pc k \<noteq> k_pc (g_client (u_prog s))"
  shows "shown lib key ctx c ((flat_view s)\<lparr>g_client := k\<rparr>)"
proof -
  note d = poisedD [OF assms(1)] and ends = client_step_ends [OF assms(4,5)]
  have idle: "api_pc s client_id = Idle" using d(3) ends(1) by (simp add: between_def)
  show ?thesis
  proof (cases "k_pc (g_client (u_prog s)) = K_close")
    case False
    from interleaved_step.client [OF assms(2-5)] False
    have "interleaved_step lib key s (s\<lparr>u_prog := (u_prog s)\<lparr>g_client := k\<rparr>\<rparr>)" by simp
    then show ?thesis
      by (rule shownI [OF interleaved_reach.step [OF d(1)]]) (use d(2,3) ends False in \<open>simp_all add: between_def flat_view_def\<close>)
  next
    case True
    let ?s1 = "enter client_id Close_lock s" and ?s2 = "enter client_id Closed s"
    have r1: "interleaved_reach lib key ctx c ?s1"
      by (rule interleaved_reach.step [OF d(1) interleaved_step.close [OF assms(2) True idle]])
    have "(silent_step client_id)\<^sup>*\<^sup>* (st_api (u_stages ?s1)) (goto client_id Closed (st_api (u_stages ?s1)))"
      by (rule closing) (use d(7) not_sleeping [OF awake_api [OF d(3,1)]] in auto)
    from reach_silent_api [OF this r1] have r2: "interleaved_reach lib key ctx c ?s2"
      using assms(2) by (simp add: api_runs_def enter_def)
    from interleaved_step.client [of ?s2 key k lib] assms(2-5)
    have "interleaved_step lib key ?s2 (?s2\<lparr>u_prog := (u_prog s)\<lparr>g_client := k\<rparr>\<rparr>)" by simp
    then show ?thesis
      by (rule shownI [OF interleaved_reach.step [OF r2]])
        (use d(2,3) ends True in \<open>simp_all add: between_def flat_view_def stages_between_def flat_def\<close>)
  qed
qed

lemma callback_signals:
  assumes "lws_callback lib now reason inp w = Returns r w'" and "reason \<noteq> receive_reason"
  shows "not_empty_signals w' - not_empty_signals w \<in> {0, 1}"
proof (cases reason)
  case (WsClient k)
  then show ?thesis
    using assms by (cases k) (auto simp: lws_callback_def receive_reason_def Let_def split: if_splits prod.splits)
qed (use assms in \<open>auto simp: lws_callback_def\<close>)

lemma unheard_signal: "n \<in> {0, 1} \<Longrightarrow> (\<And>u. \<not> sleeping (monitor.m_pc m u)) \<Longrightarrow> outside_signal n m m"
proof -
  assume n: "n \<in> {0, 1}" and awake: "\<And>u. \<not> sleeping (monitor.m_pc m u)"
  have "woken Not_empty (monitor.m_pc m u) = None" for u using awake [of u] by (cases "monitor.m_pc m u") auto
  then have "outside_signal 1 m (m\<lparr>monitor.m_pc := monitor.m_pc m\<rparr>)" by (intro outside_signal.signal signalled.none)
  then show ?thesis using n outside_signal.nothing by auto
qed

lemma shows_callback:
  assumes "poised lib key ctx c s" and "running T_client (u_prog s)" and "g_parse (u_prog s) = None"
    and "k_pc (g_client (u_prog s)) \<in> {K_setup, K_serving, K_destroy}" and "reason \<noteq> receive_reason"
    and "lws_callback lib now reason inp (conn (view s)) = Returns r w"
  shows "shown lib key ctx c (put_conn w (flat_view s)\<lparr>g_open := opened reason r (g_open (u_prog s))\<rparr>)"
proof -
  note d = poisedD [OF assms(1)]
  let ?w = "w\<lparr>producer_held := producer_held (conn (whole s))\<rparr>"
  have "conn (whole s) = (conn (view s))\<lparr>producer_held := producer_held (conn (whole s))\<rparr>"
    using conn_view [OF assms(3)] by simp
  then have call: "lws_callback lib now reason inp (conn (whole s)) = Returns r ?w"
    using callback_without_lock [OF assms(5), of lib now inp _ "conn (view s)"] assms(6) by (metis outcome.case(1))
  have "not_empty_signals ?w - g_signals (u_prog s) \<in> {0, 1}"
    using callback_signals [OF call assms(5)] by (simp add: conn_def whole_def)
  from unheard_signal [OF this awake_api [OF d(3,1)]]
  have "outside_signal (not_empty_signals ?w - g_signals (u_prog s)) (st_api (u_stages s)) (st_api (u_stages s))" .
  from interleaved_step.callback [OF assms(2-5) call this] show ?thesis
    by (rule shownI [OF interleaved_reach.step [OF d(1)]])
      (use d(2,3) assms(4) in \<open>auto simp: between_def flat_view_def put_conn_def stages_between_def\<close>)
qed

text \<open>A call of \<open>queue_add\<close> on the first queue, from where the thread has entered it.\<close>

lemma added_api:
  assumes "poised lib key ctx c s" and "interleaved_reach lib key ctx c s1" and "api_runs t s" and "t \<le> interrupt_id"
    and "g_main (u_prog s1) = g_main (u_prog s)" and "u_stages s1 = (u_stages s)\<lparr>st_api := goto t (Add_lock x) (st_api (u_stages s))\<rparr>"
    and "queue_add (m_queue (st_api (u_stages s))) x = Returns r q"
  shows "\<exists>e m. (e = Puts x \<and> m = accept x (st_api (u_stages s)) \<and> r = 0 \<and> q = queue_put x (m_queue (st_api (u_stages s))) \<or>
      e = Refuses x \<and> m = st_api (u_stages s) \<and> r = - 1) \<and>
    interleaved_reach lib key ctx c (s1\<lparr>u_prog := noted t e (u_prog s1),
      u_stages := (u_stages s)\<lparr>st_api := goto t (Add_done r) m\<rparr>\<rparr>)"
proof -
  note d = poisedD [OF assms(1)]
  have runs: "api_runs t s1" using api_runs_cong [of s1 s t] assms(3,5) by simp
  let ?m = "goto t (Add_lock x) (st_api (u_stages s))"
  have m: "st_api (u_stages s1) = ?m" by (simp add: assms(6))
  show ?thesis
  proof (cases "q_exit_flag (m_queue (st_api (u_stages s)))")
    case True
    have "call t ?m (Refuses x) (goto t (Add_done (- 1)) ?m)" by (rule call_refuse) (use True d(7) in simp_all)
    from reach_call_api [OF this [folded m] _ assms(2,4) runs] show ?thesis
      using True assms(6,7) by (auto simp: queue_add_def)
  next
    case False
    then have q: "\<not> q_full (m_queue (st_api (u_stages s)))" "r = 0" "q = queue_put x (m_queue (st_api (u_stages s)))"
      using assms(7) by (auto simp: queue_add_def split: if_splits)
    have "call t ?m (Puts x) (goto t (Add_done 0) (accept x ?m))"
      by (rule call_add) (use False q(1) d(7) not_sleeping [OF awake_api [OF d(3,1)]] in auto)
    from reach_call_api [OF this [folded m] _ assms(2,4) runs] show ?thesis
      using q(2,3) by (auto simp: assms(6))
  qed
qed

lemma client_free:
  assumes "poised lib key ctx c s" and "g_parse (u_prog s) = Some (now, evs)"
  shows "api_pc s client_id = Idle" and "u_alarm s = A_none" and "k_pc (g_client (u_prog s)) = K_serving"
proof -
  note d = poisedD [OF assms(1)]
  show k: "k_pc (g_client (u_prog s)) = K_serving" using serving(1) [OF d(4) assms(2)] .
  then show "api_pc s client_id = Idle" using d(3) by (simp add: between_def)
  show "u_alarm s = A_none"
    using serving(2) [OF d(4) assms(2)] d(3) by (cases "u_alarm s") (auto simp: between_def)
qed

lemma accept_there: "monitor.m_pc m t = Idle \<Longrightarrow> goto t Idle (accept x m) = accept x m"
  by (simp add: goto_there)

lemma shows_parse:
  assumes "poised lib key ctx c s" and "running T_client (u_prog s)" and "g_parse (u_prog s) = Some (now, e # evs)"
    and "parse_event now e (flat_view s) = Returns 0 p"
  shows "shown lib key ctx c (p\<lparr>g_parse := Some (now, evs)\<rparr>)"
proof -
  note d = poisedD [OF assms(1)] and free = client_free [OF assms(1,3)]
  show ?thesis
  proof (cases "json_emit (fst e) (snd e) (g_vars (u_prog s))")
    case None
    from interleaved_step.parse_silent [OF assms(2,3) None] show ?thesis
      by (rule shownI [OF interleaved_reach.step [OF d(1)]])
        (use d(2,3) None assms(4) in \<open>auto simp: between_def flat_view_def parse_event_def event_done_def\<close>)
  next
    case (Some x)
    let ?s1 = "enter client_id (Add_lock x) s"
    have r1: "interleaved_reach lib key ctx c ?s1"
      by (rule interleaved_reach.step [OF d(1) interleaved_step.parse_call [OF assms(2,3) Some free(1)]])
    obtain r q where q: "queue_add (m_queue (st_api (u_stages s))) x = Returns r q"
      using assms(4) Some by (auto simp: parse_event_def Let_def split: outcome.splits)
    have runs: "api_runs client_id s" using assms(2) by (simp add: api_runs_def)
    obtain f m where call: "f = Puts x \<and> m = accept x (st_api (u_stages s)) \<and> r = 0 \<and> q = queue_put x (m_queue (st_api (u_stages s))) \<or>
        f = Refuses x \<and> m = st_api (u_stages s) \<and> r = - 1"
      "interleaved_reach lib key ctx c (?s1\<lparr>u_prog := noted client_id f (u_prog ?s1),
        u_stages := (u_stages s)\<lparr>st_api := goto client_id (Add_done r) m\<rparr>\<rparr>)" (is "interleaved_reach lib key ctx c ?s2")
      using added_api [OF assms(1) r1 runs _ _ _ q] by auto
    have idle: "goto client_id Idle m = m" using call(1) free(1) by (auto simp: goto_there)
    have "interleaved_step lib key ?s2 (enter client_id Idle ?s2\<lparr>u_prog := event_done now e evs (u_prog ?s2)\<rparr>)"
      by (rule interleaved_step.parse_return) (use assms(2,3) in simp_all)
    from interleaved_reach.step [OF call(2) this]
    have "interleaved_reach lib key ctx c (s\<lparr>u_stages := (u_stages s)\<lparr>st_api := m\<rparr>,
        u_prog := event_done now e evs (noted client_id f (u_prog s))\<rparr>)" by (simp add: enter_def idle)
    then show ?thesis
      by (rule shownI) (use d(2,3) Some assms(4) q call(1) in
        \<open>auto simp: between_def stages_between_def flat_view_def flat_def parse_event_def event_done_def arrived_item_def Let_def\<close>)
  qed
qed

lemma shows_receive:
  assumes "poised lib key ctx c s" and "running T_client (u_prog s)" and "g_parse (u_prog s) = None"
    and "k_pc (g_client (u_prog s)) = K_serving" and "g_open (u_prog s)" and "u_alarm s \<noteq> A_call"
    and "lejp_parse lib (g_ctx (u_prog s)) inp = (ctx', evs, code)"
  shows "shown lib key ctx c ((flat_view s)\<lparr>g_parse := Some (now, evs), g_ctx := ctx',
    g_texts := g_texts (u_prog s) @ [(now, inp)]\<rparr>)"
proof -
  note d = poisedD [OF assms(1)]
  have "\<not> lock_taken s" using d(3) assms(6) by (cases "u_alarm s") (auto simp: between_def)
  from interleaved_step.receive [OF assms(2-5) this assms(7), of key now] show ?thesis
    by (rule shownI [OF interleaved_reach.step [OF d(1)]]) (use d(2,3) in \<open>simp_all add: between_def flat_view_def\<close>)
qed

lemma shows_parsed:
  assumes "poised lib key ctx c s" and "running T_client (u_prog s)" and "g_parse (u_prog s) = Some (now, [])"
  shows "shown lib key ctx c ((flat_view s)\<lparr>g_parse := None, g_ctx := construct_parser (lejp_construct lib)\<rparr>)"
proof -
  note d = poisedD [OF assms(1)]
  from interleaved_step.parsed [OF assms(2,3), of lib key] show ?thesis
    by (rule shownI [OF interleaved_reach.step [OF d(1)]]) (use d(2,3) in \<open>simp_all add: between_def flat_view_def\<close>)
qed

text \<open>The handlers.\<close>

lemma shows_alarm:
  assumes "poised lib key ctx c s" and "alive (u_prog s)" and "m_timer (g_main (u_prog s))" and "g_parse (u_prog s) = None"
    and "u_alarm s \<noteq> A_call" and "alarm_call now junk (flat_view s) = Returns 0 p"
  shows "shown lib key ctx c p"
proof -
  note d = poisedD [OF assms(1)]
  let ?x = "directive_item now junk"
  have none: "u_alarm s = A_none" "api_pc s alarm_id = Idle" using d(3) assms(5) by (cases "u_alarm s"; auto simp: between_def)+
  let ?s0 = "s\<lparr>u_prog := (u_prog s)\<lparr>g_counters := count_minute (g_counters (u_prog s))\<rparr>,
      u_alarm := A_ready ?x, u_counters := g_counters (u_prog s)\<rparr>"
  let ?s1 = "enter alarm_id (Add_lock ?x) ?s0\<lparr>u_alarm := A_call\<rparr>"
  have "interleaved_reach lib key ctx c ?s0"
    by (rule interleaved_reach.step [OF d(1) interleaved_step.alarm [OF assms(2,3) none(1)]])
  moreover have "interleaved_step lib key ?s0 ?s1"
    by (rule interleaved_step.alarm_lock) (use assms(2,4) none(2) in \<open>simp_all add: alive_def\<close>)
  ultimately have r1: "interleaved_reach lib key ctx c ?s1" by (rule interleaved_reach.step)
  obtain r q where q: "queue_add (m_queue (st_api (u_stages s))) ?x = Returns r q"
    using assms(6) by (auto simp: alarm_call_def Let_def split: outcome.splits)
  have runs: "api_runs alarm_id s" using assms(2) by (simp add: api_runs_def)
  obtain f m where call: "f = Puts ?x \<and> m = accept ?x (st_api (u_stages s)) \<and> r = 0 \<and> q = queue_put ?x (m_queue (st_api (u_stages s))) \<or>
      f = Refuses ?x \<and> m = st_api (u_stages s) \<and> r = - 1"
    "interleaved_reach lib key ctx c (?s1\<lparr>u_prog := noted alarm_id f (u_prog ?s1),
      u_stages := (u_stages s)\<lparr>st_api := goto alarm_id (Add_done r) m\<rparr>\<rparr>)"
    using added_api [OF assms(1) r1 runs _ _ _ q] by auto
  from call(2) show ?thesis
    by (rule shownI) (use d(2,3) assms(6) q call(1) in
      \<open>auto simp: between_def stages_between_def flat_view_def flat_def alarm_call_def arrived_item_def Let_def\<close>)
qed

text \<open>The exit order, by the limit of hours or by the interrupt.\<close>

lemma ordered_api:
  assumes "poised lib key ctx c s" and "interleaved_reach lib key ctx c s1" and "api_runs t s" and "t \<le> interrupt_id"
    and "g_main (u_prog s1) = g_main (u_prog s)" and "u_stages s1 = (u_stages s)\<lparr>st_api := goto t p (st_api (u_stages s))\<rparr>"
    and "p = Int_lock \<or> p = Limit_set"
  shows "interleaved_reach lib key ctx c (s1\<lparr>u_prog := noted t Sets_exit (u_prog s1),
    u_stages := (u_stages s)\<lparr>st_api := goto t Idle (set_exit (st_api (u_stages s)))\<rparr>\<rparr>)"
proof -
  note d = poisedD [OF assms(1)]
  have runs: "api_runs t s1" using api_runs_cong [of s1 s t] assms(3,5) by simp
  let ?m = "goto t p (st_api (u_stages s))"
  have m: "st_api (u_stages s1) = ?m" by (simp add: assms(6))
  have "call t ?m Sets_exit (goto t Idle (set_exit ?m))"
    using assms(7) call_interrupt [of ?m t] call_limit [of ?m t] d(7) by auto
  from reach_call_api [OF this [folded m] _ assms(2,4) runs] show ?thesis by (simp add: assms(6))
qed

lemma shows_interrupt:
  assumes "poised lib key ctx c s" and "alive (u_prog s)" and "sigint_bound (k_contexts (g_client (u_prog s)))"
  shows "shown lib key ctx c (order_exit (flat_view s))"
proof -
  note d = poisedD [OF assms(1)]
  have idle: "api_pc s interrupt_id = Idle" using d(3) by (simp add: between_def)
  let ?s1 = "enter interrupt_id Int_lock s"
  have r1: "interleaved_reach lib key ctx c ?s1"
    by (rule interleaved_reach.step [OF d(1) interleaved_step.interrupt [OF assms(2,3) idle]])
  have runs: "api_runs interrupt_id s" using assms(2) by (simp add: api_runs_def)
  from ordered_api [OF assms(1) r1 runs, of Int_lock]
  have "interleaved_reach lib key ctx c (?s1\<lparr>u_prog := noted interrupt_id Sets_exit (u_prog s),
      u_stages := (u_stages s)\<lparr>st_api := goto interrupt_id Idle (set_exit (st_api (u_stages s)))\<rparr>\<rparr>)" by simp
  then show ?thesis
    by (rule shownI)
      (use d(2,3) in \<open>auto simp: between_def stages_between_def flat_view_def flat_def order_exit_def\<close>)
qed

lemma shows_alarm_end:
  assumes "poised lib key ctx c s" and "alive (u_prog s)" and "u_alarm s = A_call"
  shows "shown lib key ctx c (alarm_rest (flat_view s))"
proof -
  note d = poisedD [OF assms(1)]
  obtain r where r: "api_pc s alarm_id = Add_done r" using d(3) assms(3) by (auto simp: between_def)
  let ?p = "if limit_reached (u_prog s) then Limit_set else Idle"
  let ?s1 = "enter alarm_id ?p s\<lparr>u_alarm := A_rest\<rparr>"
  have r1: "interleaved_reach lib key ctx c ?s1"
    by (rule interleaved_reach.step [OF d(1) interleaved_step.alarm_return [OF assms(2,3) r]])
  have runs: "api_runs alarm_id s" using assms(2) by (simp add: api_runs_def)
  show ?thesis
  proof (cases "limit_reached (u_prog s)")
    case True
    let ?s2 = "?s1\<lparr>u_prog := noted alarm_id Sets_exit (u_prog s),
      u_stages := (u_stages s)\<lparr>st_api := goto alarm_id Idle (set_exit (st_api (u_stages s)))\<rparr>\<rparr>"
    have r2: "interleaved_reach lib key ctx c ?s2"
      using ordered_api [OF assms(1) r1 runs, of Limit_set] True by simp
    have "interleaved_step lib key ?s2 (?s2\<lparr>u_alarm := A_none\<rparr>)"
      by (rule interleaved_step.alarm_over) (use assms(2) in \<open>simp_all add: alive_def\<close>)
    from interleaved_reach.step [OF r2 this] show ?thesis
      by (rule shownI) (use d(2,3) True in
        \<open>auto simp: between_def stages_between_def flat_view_def flat_def order_exit_def alarm_rest_def\<close>)
  next
    case False
    have "interleaved_step lib key ?s1 (?s1\<lparr>u_alarm := A_none\<rparr>)"
      by (rule interleaved_step.alarm_over) (use assms(2) False in simp_all)
    from interleaved_reach.step [OF r1 this] show ?thesis
      by (rule shownI) (use d(2,3) False in
        \<open>auto simp: between_def stages_between_def flat_view_def flat_def alarm_rest_def\<close>)
  qed
qed

text \<open>What a writer and the calculator do between their calls.\<close>

lemma reach_writer:
  assumes "interleaved_reach lib key ctx c s" and "running (T_writer i) (u_prog s)" and "i < WRITERS_COUNT"
    and "writer_own SYMBOL_COUNT i (u_stages s) z"
  shows "interleaved_reach lib key ctx c (s\<lparr>u_stages := z\<rparr>)"
  using interleaved_reach.step [OF assms(1) interleaved_step.writer [OF assms(2-4)]]
    wrote_nothing_late [OF reach_state [OF assms(1)] assms(2)] by (simp add: same_prog)

lemma reach_calculator:
  assumes "interleaved_reach lib key ctx c s" and "running T_calculator (u_prog s)"
    and "calculator_own SYMBOL_COUNT (u_stages s) z"
  shows "interleaved_reach lib key ctx c (s\<lparr>u_stages := z\<rparr>)"
  using interleaved_reach.step [OF assms(1) interleaved_step.calculator [OF assms(2,3)]]
    wrote_nothing_late [OF reach_state [OF assms(1)] assms(2)] by (simp add: same_prog)

text \<open>A new state of the stages between the calls, seen as a pipeline.\<close>

lemma stages_shown:
  assumes "poised lib key ctx c s" and "interleaved_reach lib key ctx c (s\<lparr>u_stages := z\<rparr>)" and "\<not> st_late z"
    and "stages_between z" and "\<forall>t \<ge> WRITERS_COUNT. monitor.m_pc (st_api z) t = api_pc s t" and "flat z = q"
  shows "shown lib key ctx c ((flat_view s)\<lparr>g_pipe := q\<rparr>)"
  using poisedD(3) [OF assms(1)] assms(3-6)
  by (intro shownI [OF assms(2)]) (simp_all add: between_def flat_view_def)

lemma between_update:
  assumes "stages_between z" and "m_owner (st_api z') = None" and "m_owner (st_calcq z') = None"
    and "\<And>u. u \<noteq> i \<Longrightarrow> monitor.m_pc (st_api z') u = monitor.m_pc (st_api z) u \<and>
      monitor.m_pc (st_calcq z') u = monitor.m_pc (st_calcq z) u \<and> st_writers z' ! u = st_writers z ! u"
    and "writer_between (monitor.m_pc (st_api z') i) (st_writers z' ! i) (monitor.m_pc (st_calcq z') i)"
    and "st_calculator z' = st_calculator z" and "i < WRITERS_COUNT"
  shows "stages_between z'"
  unfolding stages_between_def
proof (intro conjI allI impI)
  fix j assume "j < WRITERS_COUNT"
  then show "writer_between (monitor.m_pc (st_api z') j) (st_writers z' ! j) (monitor.m_pc (st_calcq z') j)"
    using assms(1,4,5) by (cases "j = i") (simp_all add: stages_between_def)
qed (use assms in \<open>simp_all add: stages_between_def\<close>)

lemma writer_calls:
  assumes "poised lib key ctx c s" and "running (T_writer i) (u_prog s)" and "i < WRITERS_COUNT"
    and "st_writers (u_stages s) ! i = W_get"
  shows "interleaved_reach lib key ctx c (enter i Rem_lock s)"
proof -
  note d = poisedD [OF assms(1)]
  have "api_pc s i = Idle \<or> api_pc s i = Rem_lock"
    using d(3) writers_between [of "u_stages s" i] assms(3,4) by (simp add: between_def)
  then show ?thesis
  proof
    assume "api_pc s i = Idle"
    from reach_writer [OF d(1) assms(2,3) writer_own.writer_call [OF assms(4) this]] show ?thesis by (simp add: enter_def)
  next
    assume "api_pc s i = Rem_lock"
    then show ?thesis using d(1) by (simp add: enter_def goto_there)
  qed
qed

lemma shows_get:
  assumes "poised lib key ctx c s" and "running (T_writer i) (u_prog s)" and "i < WRITERS_COUNT"
    and "st_writers (u_stages s) ! i = W_get" and "queue_remove (m_queue (st_api (u_stages s))) = Returns 0 (Some x, q)"
  shows "shown lib key ctx c ((flat_view s)\<lparr>g_pipe := set_writer i (W_got x) (flat (u_stages s))\<lparr>p_api := q\<rparr>\<rparr>)"
proof -
  note d = poisedD [OF assms(1)]
  let ?z = "u_stages s" and ?s1 = "enter i Rem_lock s" and ?m = "goto i Rem_lock (st_api (u_stages s))"
  have q: "\<not> q_empty (m_queue (st_api ?z))" "queue_take (m_queue (st_api ?z)) = (Some x, q)"
    using assms(5) by (auto simp: queue_remove_def split: if_splits)
  have "call i ?m Takes (goto i (Rem_done (fst (queue_take (m_queue ?m)))) (deliver ?m))"
    by (rule call_take) (use q d(7) not_sleeping [OF awake_api [OF d(3,1)]] in auto)
  then have call: "call i (st_api (u_stages ?s1)) Takes (goto i (Rem_done (Some x)) (deliver (st_api ?z)))"
    using q(2) by simp
  have runs: "api_runs i ?s1" using assms(2,3) by (simp add: api_runs_def)
  let ?s2 = "s\<lparr>u_stages := ?z\<lparr>st_api := goto i (Rem_done (Some x)) (deliver (st_api ?z))\<rparr>\<rparr>"
  have r2: "interleaved_reach lib key ctx c ?s2"
    using reach_call_api [OF call _ writer_calls [OF assms(1-4)] _ runs] assms(3) by (simp add: enter_def same_prog)
  let ?z' = "?z\<lparr>st_api := goto i (Rem_done (Some x)) (deliver (st_api ?z)), st_writers := (st_writers ?z)[i := W_got x]\<rparr>"
  have "writer_own SYMBOL_COUNT i (u_stages ?s2) ?z'"
    using writer_own.writer_item [of "u_stages ?s2" i x SYMBOL_COUNT] assms(4) by simp
  from reach_writer [OF r2 _ assms(3) this] have r: "interleaved_reach lib key ctx c (s\<lparr>u_stages := ?z'\<rparr>)"
    using assms(2) by simp
  show ?thesis
  proof (rule stages_shown [OF assms(1) r])
    show "stages_between ?z'"
      by (rule between_update [of ?z _ i]) (use d(3,5) assms(3,4) writers_between [of ?z i] in \<open>simp_all add: between_def stages_between_def\<close>)
  qed (use d(2,3) assms(3) q(2) in \<open>auto simp: flat_def set_writer_def\<close>)
qed

lemma shows_log:
  assumes "poised lib key ctx c s" and "running (T_writer i) (u_prog s)" and "i < WRITERS_COUNT"
    and "st_writers (u_stages s) ! i = W_got x" and "Writer_log i x now (flat (u_stages s)) = Some q"
  shows "shown lib key ctx c ((flat_view s)\<lparr>g_pipe := set_writer i (W_add x) q\<rparr>)"
proof -
  note d = poisedD [OF assms(1)]
  let ?z = "u_stages s"
  have "Writer_log i x now (pipe ?z) = Some q"
    using assms(5) pipe_flat [of ?z] d(3,5) by (simp add: between_def)
  from reach_writer [OF d(1) assms(2,3) writer_own.log_item [OF assms(4) this]]
  have r: "interleaved_reach lib key ctx c (s\<lparr>u_stages := ?z\<lparr>st_trade_files := p_trade_files q,
      st_writer_delays := p_writer_delays q, st_logged := p_logged q, st_writers := (st_writers ?z)[i := W_add x]\<rparr>\<rparr>)"
    (is "interleaved_reach lib key ctx c (s\<lparr>u_stages := ?z'\<rparr>)") .
  show ?thesis
  proof (rule stages_shown [OF assms(1) r])
    show "stages_between ?z'"
      by (rule between_update [of ?z _ i]) (use d(3,5) assms(3,4) writers_between [of ?z i] in \<open>simp_all add: between_def stages_between_def\<close>)
    show "flat ?z' = set_writer i (W_add x) q"
      by (rule pipeline.equality) (simp_all add: Writer_log_frame(1-8) [OF assms(5)])
  qed (use d(2) in simp_all)
qed

text \<open>The call on the second queue, accepted or refused.\<close>

lemma added_calcq:
  assumes "poised lib key ctx c s" and "running (T_writer i) (u_prog s)" and "i < WRITERS_COUNT"
    and "st_writers (u_stages s) ! i = W_add x" and "queue_add (m_queue (st_calcq (u_stages s))) x = Returns r q"
  shows "\<exists>e m. (e = Puts x \<and> m = accept x (st_calcq (u_stages s)) \<and> r = 0 \<and> q = queue_put x (m_queue (st_calcq (u_stages s))) \<or>
      e = Refuses x \<and> m = st_calcq (u_stages s) \<and> r = - 1 \<and> q = m_queue (st_calcq (u_stages s))) \<and>
    interleaved_reach lib key ctx c (s\<lparr>u_stages := (u_stages s)\<lparr>st_calcq := goto i (Add_done r) m,
      st_dropped := st_dropped (u_stages s) @ refused_items e\<rparr>\<rparr>)"
proof -
  note d = poisedD [OF assms(1)]
  let ?z = "u_stages s" and ?m = "goto i (Add_lock x) (st_calcq (u_stages s))"
  have "monitor.m_pc (st_calcq ?z) i = Idle"
    using d(3) writers_between [of ?z i] assms(3,4) by (simp add: between_def)
  from reach_writer [OF d(1) assms(2,3) writer_own.writer_call_add [OF assms(4) this]]
  have r1: "interleaved_reach lib key ctx c (s\<lparr>u_stages := ?z\<lparr>st_calcq := ?m\<rparr>\<rparr>)" (is "interleaved_reach lib key ctx c ?s1") .
  have runs: "calcq_runs i ?s1" "i \<le> WRITERS_COUNT" using assms(2,3) by (simp_all add: calcq_runs_def)
  have m: "st_calcq (u_stages ?s1) = ?m" by simp
  show ?thesis
  proof (cases "q_exit_flag (m_queue (st_calcq ?z))")
    case True
    have "call i (st_calcq (u_stages ?s1)) (Refuses x) (goto i (Add_done (- 1)) ?m)"
      unfolding m by (rule call_refuse) (use True d(8) in simp_all)
    from reach_call_calcq [OF this _ r1 runs(2,1)] show ?thesis
      by (intro exI [of _ "Refuses x"] exI [of _ "st_calcq ?z"]) (use True assms(5) in \<open>simp add: queue_add_def\<close>)
  next
    case False
    then have q: "\<not> q_full (m_queue (st_calcq ?z))" "r = 0" "q = queue_put x (m_queue (st_calcq ?z))"
      using assms(5) by (auto simp: queue_add_def split: if_splits)
    have "call i (st_calcq (u_stages ?s1)) (Puts x) (goto i (Add_done 0) (accept x ?m))"
      unfolding m by (rule call_add) (use False q(1) d(8) not_sleeping [OF awake_calcq [OF d(3,1)]] in auto)
    from reach_call_calcq [OF this _ r1 runs(2,1)] show ?thesis
      by (intro exI [of _ "Puts x"] exI [of _ "accept x (st_calcq ?z)"]) (use q(2,3) in simp)
  qed
qed

lemma shows_add:
  assumes "poised lib key ctx c s" and "running (T_writer i) (u_prog s)" and "i < WRITERS_COUNT"
    and "st_writers (u_stages s) ! i = W_add x" and "queue_add (m_queue (st_calcq (u_stages s))) x = Returns r q"
  shows "shown lib key ctx c ((flat_view s)\<lparr>g_pipe := set_writer i W_get (flat (u_stages s))\<lparr>p_calcq := q,
    p_dropped := st_dropped (u_stages s) @ (if r = 0 then [] else [x])\<rparr>\<rparr>)"
proof -
  note d = poisedD [OF assms(1)]
  let ?z = "u_stages s"
  have at: "monitor.m_pc (st_api ?z) i = Rem_done (Some x)" "monitor.m_pc (st_calcq ?z) i = Idle"
    using d(3) writers_between [of ?z i] assms(3,4) by (simp_all add: between_def)
  obtain e m where call: "e = Puts x \<and> m = accept x (st_calcq ?z) \<and> r = 0 \<and> q = queue_put x (m_queue (st_calcq ?z)) \<or>
      e = Refuses x \<and> m = st_calcq ?z \<and> r = - 1 \<and> q = m_queue (st_calcq ?z)"
    "interleaved_reach lib key ctx c (s\<lparr>u_stages := ?z\<lparr>st_calcq := goto i (Add_done r) m,
      st_dropped := st_dropped ?z @ refused_items e\<rparr>\<rparr>)" (is "interleaved_reach lib key ctx c ?s1")
    using added_calcq [OF assms] by blast
  have idle: "goto i Idle m = m" using call(1) at(2) by (auto simp: goto_there)
  let ?z' = "?z\<lparr>st_calcq := m, st_dropped := st_dropped ?z @ refused_items e, st_api := goto i Rem_lock (st_api ?z),
    st_writers := (st_writers ?z)[i := W_get]\<rparr>"
  have "writer_own SYMBOL_COUNT i (u_stages ?s1) ((u_stages ?s1)\<lparr>st_calcq := goto i Idle (st_calcq (u_stages ?s1)),
      st_api := goto i Rem_lock (st_api (u_stages ?s1)), st_writers := (st_writers (u_stages ?s1))[i := W_get]\<rparr>)"
    by (rule writer_own.writer_added) (use assms(4) at(1) in simp_all)
  moreover have "(u_stages ?s1)\<lparr>st_calcq := goto i Idle (st_calcq (u_stages ?s1)),
      st_api := goto i Rem_lock (st_api (u_stages ?s1)), st_writers := (st_writers (u_stages ?s1))[i := W_get]\<rparr> = ?z'"
    using idle by (cases ?z) simp
  ultimately have "writer_own SYMBOL_COUNT i (u_stages ?s1) ?z'" by simp
  from reach_writer [OF call(2) _ assms(3) this] have r: "interleaved_reach lib key ctx c (s\<lparr>u_stages := ?z'\<rparr>)"
    using assms(2) by simp
  show ?thesis
  proof (rule stages_shown [OF assms(1) r])
    show "stages_between ?z'"
      by (rule between_update [of ?z _ i]) (use d(3,5) assms(3) at call(1) in \<open>auto simp: between_def stages_between_def\<close>)
  qed (use d(2) assms(3) call(1) in \<open>auto simp: flat_def set_writer_def\<close>)
qed

lemma queue_remove_exits: "queue_remove q = Returns (- 1) (x, q') \<Longrightarrow> q_empty q \<and> q_exit_flag q \<and> q' = q"
  by (auto simp: queue_remove_def split: if_splits)

lemma queue_takes_item: "queue_remove q = Returns 0 (x, q') \<Longrightarrow> \<not> q_empty q \<and> queue_take q = (x, q')"
  by (auto simp: queue_remove_def split: if_splits)

lemma shows_exit:
  assumes "poised lib key ctx c s" and "running (T_writer i) (u_prog s)" and "i < WRITERS_COUNT"
    and "st_writers (u_stages s) ! i = W_get" and "queue_remove (m_queue (st_api (u_stages s))) = Returns (- 1) (none, q)"
  shows "shown lib key ctx c ((flat_view s)\<lparr>g_pipe := set_writer i W_done (flat (u_stages s))\<lparr>p_api := q,
    p_calcq := (m_queue (st_calcq (u_stages s)))\<lparr>q_exit_flag := True\<rparr>\<rparr>\<rparr>)"
proof -
  note d = poisedD [OF assms(1)] and q = queue_remove_exits [OF assms(5)]
  let ?z = "u_stages s" and ?m = "goto i Rem_lock (st_api (u_stages s))"
  have idle: "monitor.m_pc (st_calcq ?z) i = Idle"
    using d(3) writers_between [of ?z i] assms(3,4) by (simp add: between_def)
  have "st_api (u_stages (enter i Rem_lock s)) = ?m" by simp
  then have "call i (st_api (u_stages (enter i Rem_lock s))) Sees_exit (goto i Rem_exited ?m)"
    by (simp only:) (rule call_exit, use q d(7) not_sleeping [OF awake_api [OF d(3,1)]] in auto)
  from reach_call_api [OF this _ writer_calls [OF assms(1-4)]]
  have r1: "interleaved_reach lib key ctx c (s\<lparr>u_stages := ?z\<lparr>st_api := goto i Rem_exited (st_api ?z)\<rparr>\<rparr>)"
    (is "interleaved_reach lib key ctx c ?s1") using assms(2,3) by (simp add: enter_def same_prog api_runs_def)
  let ?s2 = "s\<lparr>u_stages := ?z\<lparr>st_api := goto i Rem_exited (st_api ?z), st_calcq := goto i Pass_flag (st_calcq ?z)\<rparr>\<rparr>"
  have "writer_own SYMBOL_COUNT i (u_stages ?s1) (u_stages ?s2)"
    using writer_own.writer_pass [of "u_stages ?s1" i SYMBOL_COUNT] assms(4) idle by simp
  from reach_writer [OF r1 _ assms(3) this] have r2: "interleaved_reach lib key ctx c ?s2" using assms(2) by simp
  have "call i (st_calcq (u_stages ?s2)) Sets_exit (goto i Passed (set_exit (st_calcq (u_stages ?s2))))"
    by (rule call_pass) (use not_sleeping [OF awake_calcq [OF d(3,1)]] in auto)
  from reach_call_calcq [OF this _ r2]
  have r3: "interleaved_reach lib key ctx c (s\<lparr>u_stages := ?z\<lparr>st_api := goto i Rem_exited (st_api ?z),
      st_calcq := goto i Passed (set_exit (st_calcq ?z))\<rparr>\<rparr>)" (is "interleaved_reach lib key ctx c ?s3")
    using assms(2,3) by (simp add: calcq_runs_def)
  let ?z' = "?z\<lparr>st_api := goto i Rem_exited (st_api ?z), st_calcq := goto i Passed (set_exit (st_calcq ?z)),
    st_writers := (st_writers ?z)[i := W_done]\<rparr>"
  have "writer_own SYMBOL_COUNT i (u_stages ?s3) ?z'"
    using writer_own.writer_end [of "u_stages ?s3" i SYMBOL_COUNT] assms(4) by simp
  from reach_writer [OF r3 _ assms(3) this] have r: "interleaved_reach lib key ctx c (s\<lparr>u_stages := ?z'\<rparr>)"
    using assms(2) by simp
  show ?thesis
  proof (rule stages_shown [OF assms(1) r])
    show "stages_between ?z'"
      by (rule between_update [of ?z _ i]) (use d(3,5) assms(3) in \<open>auto simp: between_def stages_between_def\<close>)
  qed (use d(2) assms(3) q in \<open>auto simp: flat_def set_writer_def\<close>)
qed

text \<open>The calculator.\<close>

lemma between_calculator:
  assumes "stages_between z" and "st_api z' = st_api z" and "m_owner (st_calcq z') = None" and "st_writers z' = st_writers z"
    and "\<And>u. u \<noteq> WRITERS_COUNT \<Longrightarrow> monitor.m_pc (st_calcq z') u = monitor.m_pc (st_calcq z) u"
    and "calculator_between (st_calculator z') (monitor.m_pc (st_calcq z') WRITERS_COUNT)"
  shows "stages_between z'"
  using assms by (simp add: stages_between_def)

lemma calculator_at: "poised lib key ctx c s \<Longrightarrow>
    calculator_between (st_calculator (u_stages s)) (monitor.m_pc (st_calcq (u_stages s)) WRITERS_COUNT)"
  by (simp add: poised_def between_def stages_between_def)

text \<open>A step of its own that ends between the calls.\<close>

lemma calculator_shown:
  assumes "poised lib key ctx c s" and "running T_calculator (u_prog s)" and "interleaved_reach lib key ctx c (s\<lparr>u_stages := z\<rparr>)"
    and "calculator_own SYMBOL_COUNT z z'" and "st_api z' = st_api (u_stages s)" and "\<not> st_late z'"
    and "m_owner (st_calcq z') = None" and "st_writers z' = st_writers (u_stages s)"
    and "\<And>u. u \<noteq> WRITERS_COUNT \<Longrightarrow> monitor.m_pc (st_calcq z') u = monitor.m_pc (st_calcq (u_stages s)) u"
    and "calculator_between (st_calculator z') (monitor.m_pc (st_calcq z') WRITERS_COUNT)" and "flat z' = q"
  shows "shown lib key ctx c ((flat_view s)\<lparr>g_pipe := q\<rparr>)"
proof (rule stages_shown [OF assms(1) _ assms(6)])
  show "interleaved_reach lib key ctx c (s\<lparr>u_stages := z'\<rparr>)"
    using reach_calculator [OF assms(3), of z'] assms(2,4) by simp
  show "stages_between z'"
    by (rule between_calculator [of "u_stages s"]) (use poisedD(3) [OF assms(1)] assms(5-10) in \<open>simp_all add: between_def\<close>)
qed (use assms(5,11) in simp_all)

lemma shows_calculator_start:
  assumes "poised lib key ctx c s" and "running T_calculator (u_prog s)" and "st_calculator (u_stages s) = C_start"
  shows "shown lib key ctx c ((flat_view s)\<lparr>g_pipe := (flat (u_stages s))\<lparr>p_calculator := C_get,
    p_calc := Calculator_start SYMBOL_COUNT (st_calc (u_stages s))\<rparr>\<rparr>)"
proof -
  note d = poisedD [OF assms(1)]
  have r: "interleaved_reach lib key ctx c (s\<lparr>u_stages := u_stages s\<rparr>)" using d(1) by simp
  have idle: "monitor.m_pc (st_calcq (u_stages s)) (writer_count (u_stages s)) = Idle"
    using calculator_at [OF assms(1)] assms(3) d(5) by simp
  show ?thesis
    by (rule calculator_shown [OF assms(1,2) r calculator_own.calculator_init [OF assms(3) idle]])
      (use d(2,5,8) in \<open>simp_all add: flat_def\<close>)
qed

lemma shows_calculator_item:
  assumes "poised lib key ctx c s" and "running T_calculator (u_prog s)" and "st_calculator (u_stages s) = C_got x"
    and "Calculator_item SYMBOL_COUNT (x, clock) (st_calc (u_stages s)) = Some k"
  shows "shown lib key ctx c ((flat_view s)\<lparr>g_pipe := (flat (u_stages s))\<lparr>p_calculator := C_get, p_calc := k,
    p_handled := st_handled (u_stages s) @ [(x, clock)]\<rparr>\<rparr>)"
proof -
  note d = poisedD [OF assms(1)]
  have r: "interleaved_reach lib key ctx c (s\<lparr>u_stages := u_stages s\<rparr>)" using d(1) by simp
  have has: "monitor.m_pc (st_calcq (u_stages s)) (writer_count (u_stages s)) = Rem_done (Some x)"
    using calculator_at [OF assms(1)] assms(3) d(5) by simp
  show ?thesis
    by (rule calculator_shown [OF assms(1,2) r calculator_own.calculator_does [OF assms(3) has assms(4)]])
      (use d(2,5,8) in \<open>simp_all add: flat_def\<close>)
qed

lemma shows_calculator_get:
  assumes "poised lib key ctx c s" and "running T_calculator (u_prog s)" and "st_calculator (u_stages s) = C_get"
    and "queue_remove (m_queue (st_calcq (u_stages s))) = Returns 0 (Some x, q)"
  shows "shown lib key ctx c ((flat_view s)\<lparr>g_pipe := (flat (u_stages s))\<lparr>p_calculator := C_got x, p_calcq := q\<rparr>\<rparr>)"
proof -
  note d = poisedD [OF assms(1)] and q = queue_takes_item [OF assms(4)]
  let ?z = "u_stages s" and ?w = WRITERS_COUNT
  have at: "monitor.m_pc (st_calcq ?z) ?w = Rem_lock" using calculator_at [OF assms(1)] assms(3) by simp
  have "call ?w (st_calcq ?z) Takes (goto ?w (Rem_done (fst (queue_take (m_queue (st_calcq ?z))))) (deliver (st_calcq ?z)))"
    by (rule call_take) (use at q d(8) not_sleeping [OF awake_calcq [OF d(3,1)]] in auto)
  from reach_call_calcq [OF this _ d(1)]
  have r: "interleaved_reach lib key ctx c (s\<lparr>u_stages := ?z\<lparr>st_calcq := goto ?w (Rem_done (Some x)) (deliver (st_calcq ?z))\<rparr>\<rparr>)"
    using assms(2) q by (simp add: calcq_runs_def)
  show ?thesis
    by (rule calculator_shown [OF assms(1,2) r calculator_own.calculator_got [where x = x]])
      (use d(2,5,8) assms(3) q in \<open>simp_all add: flat_def\<close>)
qed

lemma shows_calculator_exit:
  assumes "poised lib key ctx c s" and "running T_calculator (u_prog s)" and "st_calculator (u_stages s) = C_get"
    and "queue_remove (m_queue (st_calcq (u_stages s))) = Returns (- 1) (none, q)"
  shows "shown lib key ctx c ((flat_view s)\<lparr>g_pipe := (flat (u_stages s))\<lparr>p_calculator := C_done, p_calcq := q\<rparr>\<rparr>)"
proof -
  note d = poisedD [OF assms(1)] and q = queue_remove_exits [OF assms(4)]
  let ?z = "u_stages s" and ?w = WRITERS_COUNT
  have at: "monitor.m_pc (st_calcq ?z) ?w = Rem_lock" using calculator_at [OF assms(1)] assms(3) by simp
  have "call ?w (st_calcq ?z) Sees_exit (goto ?w Rem_exited (st_calcq ?z))"
    by (rule call_exit) (use at q d(8) not_sleeping [OF awake_calcq [OF d(3,1)]] in auto)
  from reach_call_calcq [OF this _ d(1)]
  have r: "interleaved_reach lib key ctx c (s\<lparr>u_stages := ?z\<lparr>st_calcq := goto ?w Rem_exited (st_calcq ?z)\<rparr>\<rparr>)"
    using assms(2) by (simp add: calcq_runs_def)
  show ?thesis
    by (rule calculator_shown [OF assms(1,2) r calculator_own.calculator_end])
      (use d(2,5,8) assms(3) q in \<open>simp_all add: flat_def\<close>)
qed

section \<open>The same states\<close>

lemma thread_moved:
  "i < length (p_writers p) \<Longrightarrow> p_writers q = (p_writers p)[i := w] \<Longrightarrow> p_writers p ! i \<noteq> w \<Longrightarrow> T_writer i \<in> moved p q"
  "p_calculator q \<noteq> p_calculator p \<Longrightarrow> T_calculator \<in> moved p q"
  by (auto simp: moved_def)

lemma shows_pipe:
  assumes "poised lib key ctx c s" and "pstep SYMBOL_COUNT (flat (u_stages s)) q" and "moved (flat (u_stages s)) q \<noteq> {}"
    and "\<forall>t \<in> moved (flat (u_stages s)) q. running t (u_prog s)"
  shows "shown lib key ctx c ((flat_view s)\<lparr>g_pipe := q\<rparr>)"
proof -
  note d = poisedD [OF assms(1)]
  have writer: "i < WRITERS_COUNT \<and> running (T_writer i) (u_prog s)"
    if "i < length (p_writers (flat (u_stages s)))" "p_writers q = (p_writers (flat (u_stages s)))[i := w]"
      "p_writers (flat (u_stages s)) ! i \<noteq> w" for i w
    using that(1) d(5) assms(4) thread_moved(1) [OF that] by simp
  have calculator: "running T_calculator (u_prog s)" if "p_calculator q \<noteq> p_calculator (flat (u_stages s))"
    using assms(4) thread_moved(2) [OF that] by blast
  from assms(2) show ?thesis
  proof (cases rule: pstep.cases)
    case (writer_get i x q')
    then show ?thesis using shows_get [OF assms(1), of i x q'] writer [of i "W_got x"] by simp
  next
    case (writer_log i x now q')
    then show ?thesis
      using shows_log [OF assms(1), of i x now q'] writer [of i "W_add x"] Writer_log_frame(3) [OF writer_log(4)] by simp
  next
    case (writer_add i x q')
    then show ?thesis using shows_add [OF assms(1), of i x 0 q'] writer [of i W_get] by (simp add: flat_def set_writer_def)
  next
    case (writer_refused i x q')
    then show ?thesis using shows_add [OF assms(1), of i x "- 1" q'] writer [of i W_get] by (simp add: flat_def set_writer_def)
  next
    case (writer_exit i none q')
    then show ?thesis using shows_exit [OF assms(1), of i none q'] writer [of i W_done] by simp
  next
    case calculator_start
    then show ?thesis using shows_calculator_start [OF assms(1)] calculator by (simp del: SYMBOL_COUNT_21)
  next
    case (calculator_get x q')
    then show ?thesis using shows_calculator_get [OF assms(1), of x q'] calculator by simp
  next
    case (calculator_item x clock k)
    then show ?thesis
      using shows_calculator_item [OF assms(1), of x clock k] calculator by (simp del: SYMBOL_COUNT_21)
  next
    case (calculator_exit none q')
    then show ?thesis using shows_calculator_exit [OF assms(1), of none q'] calculator by simp
  qed (use assms(3) in \<open>auto simp: moved_def\<close>)
qed

lemma program_step_shown:
  assumes "poised lib key ctx c s" and "program_step lib key (view s) p"
  shows "shown lib key ctx c p"
proof -
  note d = poisedD [OF assms(1)]
  from assms(2) show ?thesis
  proof (cases rule: program_step.cases)
    case (main m)
    then show ?thesis using shows_main [OF assms(1), of m] d(6) by simp
  next
    case (returns t)
    then show ?thesis using shows_returns [OF assms(1), of t] d(6) by simp
  next
    case (client k)
    then show ?thesis using shows_client [OF assms(1), of k] d(6) by simp
  next
    case (callback reason now inp r w)
    then show ?thesis using shows_callback [OF assms(1) _ _ _ callback(5,6)] d(6) by simp
  next
    case (receive inp ctx' evs code now)
    then show ?thesis using shows_receive [OF assms(1), of inp ctx' evs code now] d(6) by simp
  next
    case (parse now e evs p1)
    then show ?thesis using shows_parse [OF assms(1), of now e evs p1] d(6) by simp
  next
    case (parsed now)
    then show ?thesis using shows_parsed [OF assms(1), of now] d(6) by simp
  next
    case (alarm now junk)
    then show ?thesis using shows_alarm [OF assms(1), of now junk p] d(6) by simp
  next
    case alarm_end
    then show ?thesis using shows_alarm_end [OF assms(1)] d(6) by simp
  next
    case interrupt
    then show ?thesis using shows_interrupt [OF assms(1)] d(6) by simp
  next
    case (pipe_step q)
    have step: "pstep SYMBOL_COUNT (flat (u_stages s)) q" "moved (flat (u_stages s)) q \<noteq> {}"
      "\<forall>t \<in> moved (flat (u_stages s)) q. running t (u_prog s)" using pipe_step d(6) by (simp_all del: SYMBOL_COUNT_21)
    then obtain t where "running t (u_prog s)" by blast
    then have "\<not> m_closed (g_main (flat_view s))" using running_open(1) [OF d(11)] by simp
    then have "p = (flat_view s)\<lparr>g_pipe := q\<rparr>" using pipe_step(1) d(6) by (simp add: flat_view_def)
    then show ?thesis using shows_pipe [OF assms(1) step] by simp
  qed
qed

lemma start_poised: "poised lib key ctx c (interleaved_start ctx c)"
proof -
  have "between (interleaved_start ctx c)"
    by (simp add: between_def stages_between_def interleaved_start_def stages_start_def program_start_def client_start_def m_init_def)
  then show ?thesis by (simp add: poised_def interleaved_reach.start) (simp add: interleaved_start_def stages_start_def)
qed

interpretation runs: covering_map "\<lambda>s. interleaved_reach lib key ctx c s \<and> \<not> st_late (u_stages s)" "interleaved_start ctx c"
    "\<lambda>s s'. interleaved_step lib key s s' \<and> \<not> st_late (u_stages s')" "program_reach lib key ctx c" "program_step lib key"
    view between
  for lib key ctx c
proof
  fix s p
  assume "interleaved_reach lib key ctx c s \<and> \<not> st_late (u_stages s)" "between s" "program_step lib key (view s) p"
  then have "shown lib key ctx c p" by (intro program_step_shown [of lib key ctx c s]) (simp_all add: poised_def)
  then show "\<exists>s'. (interleaved_reach lib key ctx c s' \<and> \<not> st_late (u_stages s')) \<and> between s' \<and> view s' = p"
    by (auto simp: poised_def)
next
  show "(interleaved_reach lib key ctx c (interleaved_start ctx c) \<and> \<not> st_late (u_stages (interleaved_start ctx c))) \<and>
      between (interleaved_start ctx c)"
    using start_poised [of lib key ctx c] by (simp add: poised_def)
next
  show "program_reach lib key ctx c p \<Longrightarrow> P (view (interleaved_start ctx c)) \<Longrightarrow>
      (\<And>p p'. program_reach lib key ctx c p \<Longrightarrow> P p \<Longrightarrow> program_step lib key p p' \<Longrightarrow> P p') \<Longrightarrow> P p" for p P
    unfolding view_start by (rule program_reach.induct)
qed

text \<open>
  C7: The program whose calls on the queues are single steps is what the threads and handlers do
  with their locks, waits and signals.  As long as no call that slept on a full queue puts its
  item after the exit order, the state seen through \<open>view\<close> is a reachable state of the program,
  and each step of a thread or handler, inside a call or outside, is a step of the program or
  none.
\<close>

theorem interleaved_refines_program:
  assumes "interleaved_reach lib key ctx c s" and "\<not> st_late (u_stages s)"
  shows "program_reach lib key ctx c (view s) \<and>
    (\<forall>s'. interleaved_step lib key s s' \<and> \<not> st_late (u_stages s') \<longrightarrow> view s' = view s \<or> program_step lib key (view s) (view s'))"
  using views.mapped [of lib key ctx c s] view_step [OF assms(1)] assms by simp

lemma ended_run:
  "\<exists>s. poised sample_lib ''k'' [] all_files s \<and> main_state.m_pc (g_main (u_prog s)) = M_done \<and>
     g_items (u_prog s) = [run_item] \<and> g_directives (u_prog s) = [run_directive]"
proof -
  obtain p where p: "program_reach sample_lib ''k'' [] all_files p" "main_state.m_pc (g_main p) = M_done"
    "g_items p = [run_item]" "g_directives p = [run_directive]" using program_run by blast
  then obtain s where "poised sample_lib ''k'' [] all_files s" "view s = p"
    using runs.covered [OF p(1)] by (auto simp: poised_def)
  then show ?thesis using p(2-4) view_simps(1,9,10) [of s] by auto
qed

lemma interleaved_refines_program_witness:
  "\<exists>s. interleaved_reach sample_lib ''k'' [] all_files s \<and> main_state.m_pc (g_main (view s)) = M_done \<and>
     program_reach sample_lib ''k'' [] all_files (view s) \<and> g_items (view s) = [run_item]"
proof -
  obtain s where s: "poised sample_lib ''k'' [] all_files s" "main_state.m_pc (g_main (u_prog s)) = M_done"
    "g_items (u_prog s) = [run_item]" using ended_run by blast
  then show ?thesis using interleaved_refines_program [OF poisedD(1,2) [OF s(1)]] poisedD(1) [OF s(1)] by auto
qed

text \<open>
  C8: Both models of the whole program have the same states.  A state is reachable when calls are
  single steps exactly if it is the image of a reachable state of the model in which every lock,
  test, wait, unlock and signal is a step and nothing was put late: cutting the calls neither
  adds behaviour to the program nor takes any away.
\<close>

theorem same_reachable_states:
  "program_reach lib key ctx c p \<longleftrightarrow>
     (\<exists>s. interleaved_reach lib key ctx c s \<and> \<not> st_late (u_stages s) \<and> view s = p)"
  using runs.same_states [of lib key ctx c p] by blast

section \<open>The end of the program\<close>

lemma settled_none:
  assumes "inv_fifo m" and "contents (settled m) = []"
  shows "contents (m_queue m) = []"
proof -
  have wf: "wf_queue (m_queue m)" using assms(1) by (simp add: inv_fifo_def)
  have "pending m = [] \<or> (\<exists>x. pending m = [x] \<and> \<not> q_full (m_queue m))"
    by (auto simp: pending_def split: option.split pc.split)
  then show ?thesis using assms(2) ring.items_put [OF wf] by (auto simp: settled_def)
qed

text \<open>
  C1: What the program has done when \<^verbatim>\<open>main\<close> returns, with all its locks and waits.  If no call
  that slept put its item after the exit order: the exit was ordered, all connections that were
  established are torn down, no thread has written to a closed file, and both queues are empty.
  The items that were accepted are a prefix of what the received texts contain, the trade file
  of each symbol has exactly one row for each accepted trade of the symbol, and each accepted
  item and directive was either handled by the calculator or refused by the second queue.
\<close>

theorem interleaved_accounts:
  assumes "interleaved_reach lib key ctx c s" and "main_state.m_pc (g_main (u_prog s)) = M_done" and "\<not> st_late (u_stages s)"
  shows "q_exit_flag (m_queue (st_api (u_stages s))) \<and>
    live (k_contexts (g_client (u_prog s))) = k_failed (g_client (u_prog s)) \<and> m_late_writes (g_main (u_prog s)) = 0 \<and>
    contents (m_queue (st_api (u_stages s))) = [] \<and> contents (m_queue (st_calcq (u_stages s))) = [] \<and>
    prefix (g_items (u_prog s)) (items_afresh lib (g_texts (u_prog s)) json_init) \<and>
    (\<forall>k < SYMBOL_COUNT. mset (st_trade_files (u_stages s) ! k) = mset (trade_rows k (g_items (u_prog s)))) \<and>
    mset (map fst (st_handled (u_stages s))) + mset (st_dropped (u_stages s)) =
      mset (g_items (u_prog s)) + mset (g_directives (u_prog s))"
proof -
  have reach: "program_reach lib key ctx c (view s)" using views.mapped [of lib key ctx c s] assms(1,3) by simp
  have "main_state.m_pc (g_main (view s)) = M_done" using assms(2) by simp
  note ends = program_accounts [OF reach this]
  have good: "inv_fifo (st_api (u_stages s))" "inv_fifo (st_calcq (u_stages s))"
    using good_stateD(6,7) [OF reach_state [OF assms(1)]] by (simp_all add: good_monitor_def)
  have "contents (m_queue (st_api (u_stages s))) = []" "contents (m_queue (st_calcq (u_stages s))) = []"
    using ends settled_none [OF good(1)] settled_none [OF good(2)] by simp_all
  then show ?thesis using ends settled_good(3) [OF good(1)] by simp
qed

lemma interleaved_accounts_witness:
  "\<exists>s. interleaved_reach sample_lib ''k'' [] all_files s \<and> main_state.m_pc (g_main (u_prog s)) = M_done \<and>
     st_trade_files (u_stages s) ! 4 = [trade_line (item_trade run_item)]"
proof -
  obtain s where s: "poised sample_lib ''k'' [] all_files s" "main_state.m_pc (g_main (u_prog s)) = M_done"
    "g_items (u_prog s) = [run_item]" using ended_run by blast
  have "mset (st_trade_files (u_stages s) ! 4) = mset (trade_rows 4 (g_items (u_prog s)))"
    using interleaved_accounts [OF poisedD(1) [OF s(1)] s(2) poisedD(2) [OF s(1)]] by simp
  then have "st_trade_files (u_stages s) ! 4 = [trade_line (item_trade run_item)]"
    using run_item_simps s(3) by (simp add: trade_rows_def)
  then show ?thesis using poisedD(1) [OF s(1)] s(2) by blast
qed

end
