(* ===== verification/ExitRaces.thy ===== *)
theory ExitRaces
  imports Calls
begin

text \<open>
  A race of the exit order with a call that sleeps on a full queue: \<^verbatim>\<open>queue_add\<close> tests
  the exit flag before it waits, not after.  The runs are put together from undisturbed calls
  and single steps; a state between them is described by where the threads stand, the flag and
  the items inside.
\<close>

definition stands :: "nat \<Rightarrow> (nat \<Rightarrow> pc) \<Rightarrow> bool \<Rightarrow> WorkItem list \<Rightarrow> bool" where
  "stands n f e xs \<longleftrightarrow> (\<exists>m. reach n m \<and> m_owner m = None \<and> m_pc m = f \<and> q_exit_flag (m_queue m) = e \<and>
     contents (m_queue m) = xs)"

lemma standsI:
  "reach n m \<Longrightarrow> m_owner m = None \<Longrightarrow> m_pc m = f \<Longrightarrow> q_exit_flag (m_queue m) = e \<Longrightarrow>
     contents (m_queue m) = xs \<Longrightarrow> stands n f e xs"
  by (auto simp: stands_def)

lemma standsE:
  assumes "stands n f e xs"
  obtains m where "reach n m" "m_owner m = None" "m_pc m = f" "q_exit_flag (m_queue m) = e"
    "contents (m_queue m) = xs" "wf_queue (m_queue m)"
  using assms reach_fifo by (fastforce simp: stands_def inv_fifo_def)

lemma stands_call:
  assumes "stands n f e xs" and "t < n" and "f t = Idle" and "p \<in> {Add_lock x, Rem_lock, Int_lock}"
  shows "stands n (f(t := p)) e xs"
proof -
  obtain m where m: "reach n m" "m_owner m = None" "m_pc m = f" "q_exit_flag (m_queue m) = e"
    "contents (m_queue m) = xs" using assms(1) by (rule standsE)
  have "mstep n m (goto t p m)" using assms(2-4) m by (intro mstep.call) auto
  then show ?thesis using m by (intro standsI [of n "goto t p m"]) (auto intro: reach.step)
qed

lemma stands_return:
  assumes "stands n f e xs" and "t < n" and "return_to (f t) = Some p"
  shows "stands n (f(t := p)) e xs"
proof -
  obtain m where m: "reach n m" "m_owner m = None" "m_pc m = f" "q_exit_flag (m_queue m) = e"
    "contents (m_queue m) = xs" using assms(1) by (rule standsE)
  have "mstep n m (goto t p m)" using assms(2,3) m by (intro mstep.return) auto
  then show ?thesis using m by (intro standsI [of n "goto t p m"]) (auto intro: reach.step)
qed

lemma stands_add:
  assumes "stands n f False xs" and "t < n" and "f t = Add_lock x" and "length xs < 2000"
    and "\<And>u. f u \<noteq> Rem_wait"
  shows "stands n (f(t := Add_done 0)) False (xs @ [x])"
proof -
  obtain m where m: "reach n m" "m_owner m = None" "m_pc m = f" "q_exit_flag (m_queue m) = False"
    "contents (m_queue m) = xs" "wf_queue (m_queue m)" using assms(1) by (rule standsE)
  have f: "\<not> q_full (m_queue m)" using ring.full_iff [OF m(6)] m(5) assms(4) by (simp add: QUEUE_SIZE_def)
  have "call t m (Puts x) (goto t (Add_done 0) (accept x m))" using m f assms(3,5) by (intro call_add) auto
  then have "reach n (goto t (Add_done 0) (accept x m))" using call_reach m(1) assms(2) by simp
  then show ?thesis
    using m f ring.items_put [OF m(6) f] by (intro standsI [of n "goto t (Add_done 0) (accept x m)"]) auto
qed

lemma stands_take:
  assumes "stands n f e (x # xs)" and "t < n" and "f t = Rem_lock" and "\<And>u y. f u \<noteq> Add_wait y"
  shows "stands n (f(t := Rem_lock)) e xs"
proof -
  obtain m where m: "reach n m" "m_owner m = None" "m_pc m = f" "q_exit_flag (m_queue m) = e"
    "contents (m_queue m) = x # xs" "wf_queue (m_queue m)" using assms(1) by (rule standsE)
  have ne: "\<not> q_empty (m_queue m)" using ring.empty_iff [OF m(6)] m(5) by simp
  let ?p = "Rem_done (fst (queue_take (m_queue m)))"
  have "call t m Takes (goto t ?p (deliver m))" using m ne assms(3,4) by (intro call_take) auto
  then have "reach n (goto t ?p (deliver m))" using call_reach m(1) assms(2) by simp
  then have "stands n (f(t := ?p)) e xs"
    using m ring.items_get [OF m(6) ne] by (intro standsI [of n "goto t ?p (deliver m)"]) auto
  then show ?thesis using stands_return [of n "f(t := ?p)" e xs t Rem_lock] assms(2) by simp
qed

lemma stands_drain:
  assumes "stands n f e xs" and "t < n" and "f t = Rem_lock" and "\<And>u y. f u \<noteq> Add_wait y"
  shows "stands n f e []"
  using assms(1)
proof (induction xs)
  case (Cons x xs)
  then have "stands n (f(t := Rem_lock)) e xs" using assms(2-4) by (intro stands_take)
  then show ?case using Cons.IH assms(3) by (simp add: fun_upd_idem)
qed simp

lemma stands_fill:
  assumes "stands n f False []" and "t < n" and "f t = Idle" and "\<And>u. f u \<noteq> Rem_wait" and "length xs \<le> 2000"
  shows "stands n f False xs"
  using assms(5)
proof (induction xs rule: rev_induct)
  case (snoc x xs)
  then have "stands n f False xs" by simp
  from stands_call [OF this assms(2,3), of "Add_lock x" x] have "stands n (f(t := Add_lock x)) False xs" by simp
  from stands_add [OF this assms(2), of x] have "stands n (f(t := Add_done 0)) False (xs @ [x])"
    using assms(4) snoc.prems by simp
  from stands_return [OF this assms(2), of Idle] show ?case using assms(3) by (simp add: fun_upd_idem)
qed (rule assms(1))

text \<open>A producer falls asleep on the full queue.\<close>

lemma stands_full:
  assumes "stands n f False xs" and "t < n" and "f t = Add_lock x" and "length xs = 2000"
  shows "stands n (f(t := Add_wait x)) False xs"
proof -
  obtain m where m: "reach n m" "m_owner m = None" "m_pc m = f" "q_exit_flag (m_queue m) = False"
    "contents (m_queue m) = xs" "wf_queue (m_queue m)" using assms(1) by (rule standsE)
  have f: "q_full (m_queue m)" using ring.full_iff [OF m(6)] m(5) assms(4) by (simp add: QUEUE_SIZE_def)
  let ?m1 = "goto t (Add_check x) m\<lparr>m_owner := Some t\<rparr>" and ?m2 = "goto t (Add_test x) m\<lparr>m_owner := Some t\<rparr>"
  have "mstep n m ?m1" using m assms(2,3) by (intro mstep.lock) auto
  moreover have "mstep n ?m1 ?m2" using m assms(2) mstep.local [of t n ?m1 "Add_test x" ?m1] by simp
  moreover have "mstep n ?m2 (goto t (Add_wait x) m)" using m f assms(2) mstep.sleep [of t n ?m2 "Add_wait x"] by simp
  ultimately have "reach n (goto t (Add_wait x) m)" using m(1) by (meson reach.step)
  then show ?thesis using m by (intro standsI [of n "goto t (Add_wait x) m"]) auto
qed

lemma stands_interrupt:
  assumes "stands n f e xs" and "t < n" and "f t = Int_lock"
  shows "stands n (f(t := Idle)) True xs"
proof -
  obtain m where m: "reach n m" "m_owner m = None" "m_pc m = f" "q_exit_flag (m_queue m) = e"
    "contents (m_queue m) = xs" using assms(1) by (rule standsE)
  have "call t m Sets_exit (goto t Idle (set_exit m))" using m assms(3) by (intro call_interrupt) auto
  then have "reach n (goto t Idle (set_exit m))" using call_reach m(1) assms(2) by simp
  then show ?thesis using m by (intro standsI [of n "goto t Idle (set_exit m)"]) auto
qed

text \<open>A consumer takes an item and wakes a sleeping producer.\<close>

lemma stands_take_waking:
  assumes "stands n f e (x # xs)" and "t < n" and "f t = Rem_lock" and "f u = Add_wait y"
  shows "stands n (f(u := Add_woken y)) e xs"
proof -
  obtain m where m: "reach n m" "m_owner m = None" "m_pc m = f" "q_exit_flag (m_queue m) = e"
    "contents (m_queue m) = x # xs" "wf_queue (m_queue m)" using assms(1) by (rule standsE)
  have ne: "\<not> q_empty (m_queue m)" using ring.empty_iff [OF m(6)] m(5) by simp
  have ut: "u \<noteq> t" using assms(3,4) by auto
  let ?x = "fst (queue_take (m_queue m))"
  let ?m1 = "goto t Rem_test m\<lparr>m_owner := Some t\<rparr>" and ?m2 = "goto t (Rem_unlock ?x) (deliver m)\<lparr>m_owner := Some t\<rparr>"
  let ?m3 = "goto t (Rem_signal ?x) (deliver m)"
  let ?f = "(f(t := Rem_done ?x))(u := Add_woken y)"
  have "mstep n m ?m1" using m assms(2,3) by (intro mstep.lock) auto
  moreover have "mstep n ?m1 ?m2" using m ne assms(2) mstep.local [of t n ?m1 "Rem_unlock ?x" "deliver ?m1"] by simp
  moreover have "mstep n ?m2 ?m3" using m assms(2) mstep.unlock [of t n ?m2 "Rem_signal ?x"] by simp
  moreover have "mstep n ?m3 (?m3\<lparr>m_pc := ?f\<rparr>)"
  proof -
    have "signalled Not_full (f(t := Rem_done ?x)) ?f" using assms(4) ut by (intro signalled.one) simp
    then show ?thesis using m assms(2) by (intro mstep.signal [of t n ?m3 Not_full "Rem_done ?x"]) simp_all
  qed
  ultimately have "reach n (?m3\<lparr>m_pc := ?f\<rparr>)" using m(1) by (meson reach.step)
  then have "stands n ?f e xs"
    using m ring.items_get [OF m(6) ne] by (intro standsI [of n "?m3\<lparr>m_pc := ?f\<rparr>"]) auto
  from stands_return [OF this assms(2), of Rem_lock] show ?thesis
    using assms(3) ut by (simp add: fun_upd_twist fun_upd_idem)
qed

text \<open>A consumer finds the queue empty and the exit ordered.\<close>

lemma stands_exit:
  assumes "stands n f True []" and "t < n" and "f t = Rem_lock" and "\<And>u. f u \<noteq> Rem_wait"
  shows "stands n (f(t := Rem_exited)) True []"
proof -
  obtain m where m: "reach n m" "m_owner m = None" "m_pc m = f" "q_exit_flag (m_queue m) = True"
    "contents (m_queue m) = []" "wf_queue (m_queue m)" using assms(1) by (rule standsE)
  have e: "q_empty (m_queue m)" using ring.empty_iff [OF m(6)] m(5) by simp
  have "call t m Sees_exit (goto t Rem_exited m)" using m e assms(3,4) by (intro call_exit) auto
  then have "reach n (goto t Rem_exited m)" using call_reach m(1) assms(2) by simp
  then show ?thesis using m by (intro standsI [of n "goto t Rem_exited m"]) auto
qed

text \<open>A woken producer puts its item, whatever the flag says.\<close>

lemma stands_put_late:
  assumes "stands n f e []" and "t < n" and "f t = Add_woken x" and "\<And>u. f u \<noteq> Rem_wait"
  shows "stands n (f(t := Add_done 0)) e [x]"
proof -
  obtain m where m: "reach n m" "m_owner m = None" "m_pc m = f" "q_exit_flag (m_queue m) = e"
    "contents (m_queue m) = []" "wf_queue (m_queue m)" using assms(1) by (rule standsE)
  have f: "\<not> q_full (m_queue m)" using ring.full_iff [OF m(6)] m(5) by (simp add: QUEUE_SIZE_def)
  let ?m1 = "goto t (Add_test x) m\<lparr>m_owner := Some t\<rparr>" and ?m2 = "goto t Add_unlock (accept x m)\<lparr>m_owner := Some t\<rparr>"
    and ?m3 = "goto t Add_signal (accept x m)"
  have "mstep n m ?m1" using m assms(2,3) by (intro mstep.lock) auto
  moreover have "mstep n ?m1 ?m2" using m f assms(2) mstep.local [of t n ?m1 Add_unlock "accept x ?m1"] by simp
  moreover have "mstep n ?m2 ?m3" using m assms(2) mstep.unlock [of t n ?m2 Add_signal] by simp
  moreover have "mstep n ?m3 (goto t (Add_done 0) (accept x m))"
  proof -
    have "woken Not_empty (f u) = None" for u using assms(4) [of u] by (cases "f u") auto
    then have "thread_step t ?m3 (goto t (Add_done 0) ?m3)" using m by (intro signal_none) auto
    then show ?thesis using thread_step_mstep assms(2) by auto
  qed
  ultimately have "reach n (goto t (Add_done 0) (accept x m))" using m(1) by (meson reach.step)
  then show ?thesis
    using m ring.items_put [OF m(6) f, of x] by (intro standsI [of n "goto t (Add_done 0) (accept x m)"]) auto
qed

text \<open>
  C29: An item can be accepted and never processed.  \<^verbatim>\<open>queue_add\<close> tests the exit flag once,
  before it waits for room.  If the queue is full, a producer sleeps, and \<^verbatim>\<open>SIGINT\<close> arrives,
  the writers can empty the queue and leave before the producer has the lock again: for any
  2000 items and any further one, the producer then puts its item and returns 0, although
  both writers have returned, and the item stays in the queue.
\<close>

theorem item_accepted_after_writers_left:
  fixes xs :: "WorkItem list"
  assumes "length xs = 2000"
  shows "\<exists>m. reach 4 m \<and> q_exit_flag (m_queue m) \<and> m_pc m 0 = Rem_exited \<and> m_pc m 1 = Rem_exited \<and>
    m_pc m 2 = Add_done 0 \<and> contents (m_queue m) = [x]"
proof -
  let ?f = "\<lambda>_. Idle"
  have "stands 4 ?f False []" by (intro standsI [of 4 m_init, OF reach.init]) (simp_all add: m_init_def)
  from stands_fill [OF this, of 2 xs] have "stands 4 ?f False xs" using eq_refl [OF assms] by simp
  from stands_call [OF this, of 2 "Add_lock x" x]
  have "stands 4 (?f(2 := Add_lock x)) False xs" by simp
  from stands_full [OF this, of 2 x] have "stands 4 (?f(2 := Add_wait x)) False xs" using assms by simp
  from stands_call [OF this, of 3 Int_lock] have "stands 4 (?f(2 := Add_wait x, 3 := Int_lock)) False xs" by simp
  from stands_interrupt [OF this, of 3] have "stands 4 (?f(2 := Add_wait x)) True xs" by (simp add: fun_upd_twist fun_upd_idem)
  from stands_call [OF this, of 0 Rem_lock] have "stands 4 (?f(2 := Add_wait x, 0 := Rem_lock)) True xs" by simp
  moreover obtain y ys where "xs = y # ys" using assms by (cases xs) auto
  ultimately have "stands 4 (?f(0 := Rem_lock, 2 := Add_woken x)) True ys"
    using stands_take_waking [of 4 "?f(2 := Add_wait x, 0 := Rem_lock)" True y ys 0 2 x] by (simp add: fun_upd_twist)
  from stands_drain [OF this, of 0] have "stands 4 (?f(0 := Rem_lock, 2 := Add_woken x)) True []" by simp
  from stands_exit [OF this, of 0] have "stands 4 (?f(0 := Rem_exited, 2 := Add_woken x)) True []"
    by (simp add: fun_upd_twist)
  from stands_call [OF this, of 1 Rem_lock]
  have "stands 4 (?f(0 := Rem_exited, 2 := Add_woken x, 1 := Rem_lock)) True []" by simp
  from stands_exit [OF this, of 1]
  have "stands 4 (?f(0 := Rem_exited, 2 := Add_woken x, 1 := Rem_exited)) True []" by simp
  from stands_put_late [OF this, of 2 x]
  have "stands 4 (?f(0 := Rem_exited, 1 := Rem_exited, 2 := Add_done 0)) True [x]" by (simp add: fun_upd_twist)
  then show ?thesis by (auto elim!: standsE)
qed

lemma item_accepted_after_writers_left_witness:
  "\<exists>m. reach 4 m \<and> contents (m_queue m) = [sample_item] \<and> m_pc m 0 = Rem_exited \<and> m_pc m 1 = Rem_exited"
  using item_accepted_after_writers_left [of "replicate 2000 sample_item" sample_item] by auto

end
