(* ===== verification/Signals.thy ===== *)
theory Signals
  imports ThreadSteps
begin

text \<open>
  Signals that reach a thread while it works on the first queue.  Both handlers of
  \<^verbatim>\<open>src/WSSHandling.c\<close> take locks: the one of \<^verbatim>\<open>SIGINT\<close> the mutex of the queue, the one of
  \<^verbatim>\<open>SIGALRM\<close> the producer lock and then, in \<^verbatim>\<open>queue_add\<close>, the mutex.  A handler runs on top of
  whatever the thread was doing, so the thread may hold the lock that its handler waits for.
  The model puts the code that each thread runs on top of the steps of \<open>Monitor\<close>: a thread has
  a stack of interrupted pieces of code under the one that runs.
\<close>

section \<open>Code and stacks\<close>

text \<open>
  The handler of the timer wants the producer lock, then holds it, then is inside or after its
  call of \<^verbatim>\<open>queue_add\<close>.  A reception holds the producer lock or is about to take it.
\<close>

datatype stage = Wants | Holds | Adds

datatype code = Thread_code | Reception bool | Alarm_handler WorkItem stage | Int_handler

record signals =
  s_mon :: monitor
  s_producer :: "nat option"
  s_code :: "nat \<Rightarrow> code"
  s_below :: "nat \<Rightarrow> (code \<times> pc) list"

definition signals_init :: signals where
  "signals_init = \<lparr>s_mon = m_init, s_producer = None, s_code = (\<lambda>_. Thread_code), s_below = (\<lambda>_. [])\<rparr>"

abbreviation s_pc :: "signals \<Rightarrow> nat \<Rightarrow> pc" where
  "s_pc s t \<equiv> m_pc (s_mon s) t"

fun is_alarm :: "code \<Rightarrow> bool" where
  "is_alarm (Alarm_handler x g) \<longleftrightarrow> True" | "is_alarm _ \<longleftrightarrow> False"

definition codes :: "signals \<Rightarrow> nat \<Rightarrow> code list" where
  "codes s t = s_code s t # map fst (s_below s t)"

text \<open>A thread turns to other code, at control point \<open>p\<close>.\<close>

definition turn :: "nat \<Rightarrow> code \<Rightarrow> pc \<Rightarrow> signals \<Rightarrow> signals" where
  "turn t c p s = s\<lparr>s_mon := goto t p (s_mon s), s_code := (s_code s)(t := c)\<rparr>"

definition push :: "nat \<Rightarrow> code \<Rightarrow> pc \<Rightarrow> signals \<Rightarrow> signals" where
  "push t c p s = turn t c p (s\<lparr>s_below := (s_below s)(t := (s_code s t, s_pc s t) # s_below s t)\<rparr>)"

definition pop :: "nat \<Rightarrow> signals \<Rightarrow> signals" where
  "pop t s = (case s_below s t of [] \<Rightarrow> turn t Thread_code Idle s
     | (c, p) # rest \<Rightarrow> turn t c p (s\<lparr>s_below := (s_below s)(t := rest)\<rparr>))"

text \<open>
  A signal can reach a thread that sleeps in \<^verbatim>\<open>pthread_cond_wait\<close>.  It goes on waiting under its
  handler: \<^verbatim>\<open>pthread_cond_signal\<close> can wake it there, and when the handler ends it sleeps again or
  goes on.  A signal of a condition variable is lost only if nobody waits, on top or under a handler.
\<close>

definition sleeper_below :: "cond \<Rightarrow> signals \<Rightarrow> bool" where
  "sleeper_below v s \<longleftrightarrow> (\<exists>u. \<exists>f \<in> set (s_below s u). woken v (snd f) \<noteq> None)"

definition only_below :: "nat \<Rightarrow> signals \<Rightarrow> bool" where
  "only_below t s \<longleftrightarrow> (\<exists>v p. signal_to (s_pc s t) (m_queue (s_mon s)) = Some (v, p) \<and> sleeper_below v s \<and>
     (\<forall>u. woken v (s_pc s u) = None))"

definition wake_frame :: "nat \<Rightarrow> (code \<times> pc) list \<Rightarrow> signals \<Rightarrow> signals" where
  "wake_frame u fs s = s\<lparr>s_below := (s_below s)(u := fs)\<rparr>"

text \<open>
  The steps.  A signal is not delivered to a thread that is still in the handler of the same
  signal.  \<open>run\<close> is a step inside a call on the queue, \<open>wake_below\<close> one that signals a
  condition variable and wakes a thread that waits under a handler.
\<close>

inductive sig_step :: "nat \<Rightarrow> signals \<Rightarrow> signals \<Rightarrow> bool" for n where
  run: "t < n \<Longrightarrow> thread_step t (s_mon s) m \<Longrightarrow> \<not> only_below t s \<Longrightarrow> sig_step n s (s\<lparr>s_mon := m\<rparr>)"
| wake_below: "t < n \<Longrightarrow> signal_to (s_pc s t) (m_queue (s_mon s)) = Some (v, p) \<Longrightarrow>
    s_below s u = fs @ (c, w) # gs \<Longrightarrow> woken v w = Some w' \<Longrightarrow>
    sig_step n s (wake_frame u (fs @ (c, w') # gs) (s\<lparr>s_mon := goto t p (s_mon s)\<rparr>))"
| spurious: "t < n \<Longrightarrow> woken v (s_pc s t) = Some p \<Longrightarrow> sig_step n s (s\<lparr>s_mon := goto t p (s_mon s)\<rparr>)"
| remove: "t < n \<Longrightarrow> s_code s t = Thread_code \<Longrightarrow> s_pc s t = Idle \<Longrightarrow> sig_step n s (turn t Thread_code Rem_lock s)"
| removed: "t < n \<Longrightarrow> s_code s t = Thread_code \<Longrightarrow> s_pc s t = Rem_done y \<Longrightarrow> sig_step n s (turn t Thread_code Rem_lock s)"
| close_client: "t < n \<Longrightarrow> s_code s t = Thread_code \<Longrightarrow> s_pc s t = Idle \<Longrightarrow> q_exit_flag (m_queue (s_mon s)) \<Longrightarrow>
    sig_step n s (turn t Thread_code Close_lock s)"
| receive: "t < n \<Longrightarrow> s_code s t = Thread_code \<Longrightarrow> s_pc s t = Idle \<Longrightarrow> sig_step n s (turn t (Reception False) Idle s)"
| receive_lock: "t < n \<Longrightarrow> s_code s t = Reception False \<Longrightarrow> s_pc s t = Idle \<Longrightarrow> s_producer s = None \<Longrightarrow>
    sig_step n s (turn t (Reception True) Idle (s\<lparr>s_producer := Some t\<rparr>))"
| receive_add: "t < n \<Longrightarrow> s_code s t = Reception True \<Longrightarrow> s_pc s t = Idle \<Longrightarrow> sig_step n s (turn t (Reception True) (Add_lock x) s)"
| receive_added: "t < n \<Longrightarrow> s_code s t = Reception True \<Longrightarrow> s_pc s t = Add_done r \<Longrightarrow> sig_step n s (turn t (Reception True) Idle s)"
| receive_end: "t < n \<Longrightarrow> s_code s t = Reception True \<Longrightarrow> s_pc s t = Idle \<Longrightarrow>
    sig_step n s (turn t Thread_code Idle (s\<lparr>s_producer := None\<rparr>))"
| sigint: "t < n \<Longrightarrow> Int_handler \<notin> set (codes s t) \<Longrightarrow> sig_step n s (push t Int_handler Int_lock s)"
| sigint_end: "t < n \<Longrightarrow> s_code s t = Int_handler \<Longrightarrow> s_pc s t = Idle \<Longrightarrow> sig_step n s (pop t s)"
| sigalrm: "t < n \<Longrightarrow> \<forall>c \<in> set (codes s t). \<not> is_alarm c \<Longrightarrow>
    sig_step n s (push t (Alarm_handler x Wants) Idle s)"
| alarm_lock: "t < n \<Longrightarrow> s_code s t = Alarm_handler x Wants \<Longrightarrow> s_pc s t = Idle \<Longrightarrow> s_producer s = None \<Longrightarrow>
    sig_step n s (turn t (Alarm_handler x Holds) Idle (s\<lparr>s_producer := Some t\<rparr>))"
| alarm_add: "t < n \<Longrightarrow> s_code s t = Alarm_handler x Holds \<Longrightarrow> s_pc s t = Idle \<Longrightarrow>
    sig_step n s (turn t (Alarm_handler x Adds) (Add_lock x) s)"
| alarm_limit: "t < n \<Longrightarrow> s_code s t = Alarm_handler x Adds \<Longrightarrow> s_pc s t = Add_done r \<Longrightarrow>
    sig_step n s (turn t (Alarm_handler x Adds) Limit_set s)"
| alarm_end: "t < n \<Longrightarrow> s_code s t = Alarm_handler x Adds \<Longrightarrow> s_pc s t = Idle \<or> s_pc s t = Add_done r \<Longrightarrow>
    sig_step n s (pop t (s\<lparr>s_producer := None\<rparr>))"

inductive sig_reach :: "nat \<Rightarrow> signals \<Rightarrow> bool" for n where
  start: "sig_reach n signals_init"
| step: "sig_reach n s \<Longrightarrow> sig_step n s s' \<Longrightarrow> sig_reach n s'"

lemma turn_simps [simp]:
  "s_mon (turn t c p s) = goto t p (s_mon s)" "s_producer (turn t c p s) = s_producer s"
  "s_code (turn t c p s) = (s_code s)(t := c)" "s_below (turn t c p s) = s_below s"
  by (simp_all add: turn_def)

lemma push_simps [simp]:
  "s_mon (push t c p s) = goto t p (s_mon s)" "s_producer (push t c p s) = s_producer s"
  "s_code (push t c p s) = (s_code s)(t := c)"
  "s_below (push t c p s) = (s_below s)(t := (s_code s t, s_pc s t) # s_below s t)"
  by (simp_all add: push_def)

lemma wake_frame_simps [simp]:
  "s_mon (wake_frame u fs s) = s_mon s" "s_producer (wake_frame u fs s) = s_producer s"
  "s_code (wake_frame u fs s) = s_code s" "s_below (wake_frame u fs s) = (s_below s)(u := fs)"
  by (simp_all add: wake_frame_def)

lemma pop_simps [simp]:
  "s_producer (pop t s) = s_producer s" "m_queue (s_mon (pop t s)) = m_queue (s_mon s)"
  "m_owner (s_mon (pop t s)) = m_owner (s_mon s)" "m_accepted (s_mon (pop t s)) = m_accepted (s_mon s)"
  "m_delivered (s_mon (pop t s)) = m_delivered (s_mon s)"
  "u \<noteq> t \<Longrightarrow> s_code (pop t s) u = s_code s u \<and> s_pc (pop t s) u = s_pc s u \<and> s_below (pop t s) u = s_below s u"
  by (auto simp: pop_def split: list.split)

lemma pop_top:
  "s_below s t = (c, p) # rest \<Longrightarrow> s_code (pop t s) t = c \<and> s_pc (pop t s) t = p \<and> s_below (pop t s) t = rest"
  "s_below s t = [] \<Longrightarrow> s_code (pop t s) t = Thread_code \<and> s_pc (pop t s) t = Idle \<and> s_below (pop t s) t = []"
  by (simp_all add: pop_def)

section \<open>Who holds the producer lock\<close>

fun takes_producer :: "code \<Rightarrow> bool" where
  "takes_producer (Reception b) \<longleftrightarrow> b" | "takes_producer (Alarm_handler x g) \<longleftrightarrow> g \<noteq> Wants"
| "takes_producer _ \<longleftrightarrow> False"

fun adding :: "pc \<Rightarrow> bool" where
  "adding (Add_lock x) \<longleftrightarrow> True" | "adding (Add_check x) \<longleftrightarrow> True" | "adding Add_refuse \<longleftrightarrow> True"
| "adding (Add_test x) \<longleftrightarrow> True" | "adding (Add_wait x) \<longleftrightarrow> True" | "adding (Add_woken x) \<longleftrightarrow> True"
| "adding Add_unlock \<longleftrightarrow> True" | "adding Add_signal \<longleftrightarrow> True" | "adding (Add_done r) \<longleftrightarrow> True"
| "adding _ \<longleftrightarrow> False"

lemma kept_not_adding: "kept (\<lambda>p. \<not> adding p)"
  by (rule keptI) (auto elim!: steps split: if_splits)

lemma kept_idle: "kept (\<lambda>p. p = Idle)"
  by (rule keptI) (auto elim!: steps)

fun holdings :: "code list \<Rightarrow> nat" where
  "holdings [] = 0" | "holdings (c # cs) = (if takes_producer c then 1 else 0) + holdings cs"

text \<open>
  Each thread has one piece of code that holds the producer lock if it owns the lock, and none
  otherwise; and only such code calls \<^verbatim>\<open>queue_add\<close>.
\<close>

definition add_frame :: "code \<times> pc \<Rightarrow> bool" where
  "add_frame f \<longleftrightarrow> (adding (snd f) \<longrightarrow> takes_producer (fst f))"

definition inv_producer :: "signals \<Rightarrow> bool" where
  "inv_producer s \<longleftrightarrow> wf_queue (m_queue (s_mon s)) \<and> (\<forall>u. holdings (codes s u) = (if s_producer s = Some u then 1 else 0) \<and>
     add_frame (s_code s u, s_pc s u) \<and> (\<forall>f \<in> set (s_below s u). add_frame f))"

lemma codes_turn [simp]: "codes (turn t c p s) u = (if u = t then c # map fst (s_below s t) else codes s u)"
  by (simp add: codes_def)

lemma codes_push [simp]: "codes (push t c p s) u = (if u = t then c # codes s t else codes s u)"
  by (simp add: codes_def)

lemma codes_frame [simp]: "codes (s\<lparr>s_mon := m\<rparr>) u = codes s u" "codes (s\<lparr>s_producer := r\<rparr>) u = codes s u"
  by (simp_all add: codes_def)

lemma thread_step_queue: "thread_step t m m' \<Longrightarrow> wf_queue (m_queue m) \<Longrightarrow> wf_queue (m_queue m')"
  by (erule thread_step.cases) (auto elim!: insideE simp: ring.inv_put ring.inv_get split: if_splits)

lemma adding_kept:
  assumes "thread_step t m m'" and "wf_queue (m_queue m)" and "adding (m_pc m' u)"
  shows "adding (m_pc m u)"
  using kept_step [OF kept_not_adding assms(1,2)] assms(3) by blast

lemma codes_wake_frame: "s_below s u = fs @ (c, w) # gs \<Longrightarrow> codes (wake_frame u (fs @ (c, w') # gs) s) v = codes s v"
  by (simp add: codes_def)

lemma inv_producer_wake_below:
  assumes "inv_producer s" and "signal_to (s_pc s t) (m_queue (s_mon s)) = Some (v, p)"
    and "s_below s u = fs @ (c, w) # gs" and "woken v w = Some w'"
  shows "inv_producer (wake_frame u (fs @ (c, w') # gs) (s\<lparr>s_mon := goto t p (s_mon s)\<rparr>))"
    (is "inv_producer ?s")
proof -
  have woken: "adding w' \<longleftrightarrow> adding w" using assms(4) by (auto elim!: wokenE)
  have p: "adding p \<Longrightarrow> adding (s_pc s t)" using keptD(5) [OF kept_not_adding _ assms(2)] by blast
  have old: "holdings (codes s x) = (if s_producer s = Some x then 1 else 0)" "add_frame (s_code s x, s_pc s x)"
    "\<forall>f \<in> set (s_below s x). add_frame f" "wf_queue (m_queue (s_mon s))" for x
    using assms(1) by (auto simp: inv_producer_def)
  have "add_frame (c, w')" using old(3) [of u] assms(3) woken by (simp add: add_frame_def)
  then have "\<forall>f \<in> set (s_below ?s x). add_frame f" for x using old(3) [of x] assms(3) by auto
  moreover have "add_frame (s_code ?s x, s_pc ?s x)" for x using old(2) [of x] p by (auto simp: add_frame_def)
  moreover have "codes ?s x = codes s x" for x
    using assms(3) codes_wake_frame [of "s\<lparr>s_mon := goto t p (s_mon s)\<rparr>"] by simp
  ultimately show ?thesis using old(1,4) by (simp add: inv_producer_def)
qed

text \<open>What a thread has to keep when it changes its code, and perhaps takes or gives back the lock.\<close>

lemma inv_producer_change:
  assumes "inv_producer s" and "wf_queue (m_queue (s_mon s'))"
    and "\<And>u. u \<noteq> t \<Longrightarrow> codes s' u = codes s u \<and> s_code s' u = s_code s u \<and> s_pc s' u = s_pc s u \<and> s_below s' u = s_below s u"
    and "s_producer s' = s_producer s \<or> s_producer s = None \<and> s_producer s' = Some t \<or> s_producer s = Some t \<and> s_producer s' = None"
    and "holdings (codes s' t) = (if s_producer s' = Some t then 1 else 0)"
    and "add_frame (s_code s' t, s_pc s' t)" and "\<forall>f \<in> set (s_below s' t). add_frame f"
  shows "inv_producer s'"
  unfolding inv_producer_def
proof (intro conjI allI assms(2))
  fix u
  have old: "holdings (codes s u) = (if s_producer s = Some u then 1 else 0)" "add_frame (s_code s u, s_pc s u)"
    "\<forall>f \<in> set (s_below s u). add_frame f"
    using assms(1) by (auto simp: inv_producer_def)
  show "holdings (codes s' u) = (if s_producer s' = Some u then 1 else 0)"
    using old(1) assms(3) [of u] assms(4,5) by (cases "u = t") auto
  show "add_frame (s_code s' u, s_pc s' u)" "\<forall>f \<in> set (s_below s' u). add_frame f"
    using old(2,3) assms(3) [of u] assms(6,7) by (cases "u = t"; simp)+
qed

lemma inv_producer_turn:
  assumes "inv_producer s" and "adding p \<Longrightarrow> takes_producer c"
    and "takes_producer c = takes_producer (s_code s t) \<and> r = s_producer s \<or>
      \<not> takes_producer (s_code s t) \<and> takes_producer c \<and> s_producer s = None \<and> r = Some t \<or>
      takes_producer (s_code s t) \<and> \<not> takes_producer c \<and> r = None"
  shows "inv_producer (turn t c p (s\<lparr>s_producer := r\<rparr>))"
proof -
  have old: "holdings (codes s t) = (if s_producer s = Some t then 1 else 0)" "\<forall>f \<in> set (s_below s t). add_frame f"
    "wf_queue (m_queue (s_mon s))"
    using assms(1) by (auto simp: inv_producer_def)
  have "takes_producer (s_code s t) \<Longrightarrow> s_producer s = Some t" using old(1) by (auto simp: codes_def split: if_splits)
  then have r: "r = s_producer s \<or> s_producer s = None \<and> r = Some t \<or> s_producer s = Some t \<and> r = None"
    using assms(3) by auto
  moreover have "holdings (c # map fst (s_below s t)) = (if r = Some t then 1 else 0)"
    using old(1) assms(3) by (auto simp: codes_def split: if_splits)
  ultimately show ?thesis
    using old(2,3) assms(2) by (intro inv_producer_change [OF assms(1), of _ t]) (auto simp: codes_def add_frame_def)
qed

lemma inv_producer_stay: "inv_producer s \<Longrightarrow> (adding p \<Longrightarrow> takes_producer c) \<Longrightarrow>
    takes_producer c = takes_producer (s_code s t) \<Longrightarrow> inv_producer (turn t c p s)"
  using inv_producer_turn [of s p c t "s_producer s"] by simp

lemma inv_producer_push:
  assumes "inv_producer s" and "\<not> adding p" and "\<not> takes_producer c"
  shows "inv_producer (push t c p s)"
proof -
  have "holdings (codes s t) = (if s_producer s = Some t then 1 else 0)" "\<forall>f \<in> set (s_below s t). add_frame f"
    "add_frame (s_code s t, s_pc s t)" "wf_queue (m_queue (s_mon s))"
    using assms(1) by (auto simp: inv_producer_def)
  then show ?thesis
    using assms(2,3) by (intro inv_producer_change [OF assms(1), of _ t]) (auto simp: codes_def add_frame_def)
qed

lemma inv_producer_pop:
  assumes "inv_producer s" and "\<not> takes_producer (s_code s t) \<and> r = s_producer s \<or> takes_producer (s_code s t) \<and> r = None"
  shows "inv_producer (pop t (s\<lparr>s_producer := r\<rparr>))"
proof -
  have old: "holdings (codes s t) = (if s_producer s = Some t then 1 else 0)" "\<forall>f \<in> set (s_below s t). add_frame f"
    and wf: "wf_queue (m_queue (s_mon s))"
    using assms(1) by (auto simp: inv_producer_def)
  have holds: "takes_producer (s_code s t) \<Longrightarrow> s_producer s = Some t" using old(1) by (auto simp: codes_def split: if_splits)
  let ?s = "s\<lparr>s_producer := r\<rparr>"
  have "holdings (map fst (s_below s t)) = (if r = Some t then 1 else 0)"
    using old(1) assms(2) by (auto simp: codes_def split: if_splits)
  moreover have "codes (pop t ?s) t = (if s_below s t = [] then [Thread_code] else map fst (s_below s t))"
    by (auto simp: codes_def pop_def split: list.split)
  ultimately have "holdings (codes (pop t ?s) t) = (if r = Some t then 1 else 0)" by auto
  moreover have "add_frame (s_code (pop t ?s) t, s_pc (pop t ?s) t) \<and> (\<forall>f \<in> set (s_below (pop t ?s) t). add_frame f)"
    using pop_top [of ?s t] old(2) by (cases "s_below s t") (auto simp: add_frame_def)
  moreover have "r = s_producer s \<or> s_producer s = Some t \<and> r = None" using assms(2) holds by auto
  ultimately show ?thesis
    using wf by (intro inv_producer_change [OF assms(1), of _ t]) (auto simp: codes_def)
qed

lemma sig_step_producer:
  assumes "sig_step n s s'" and "inv_producer s"
  shows "inv_producer s'"
  using assms(1)
proof (cases rule: sig_step.cases)
  case (run t m)
  then show ?thesis
    using assms(2) adding_kept [OF run(3)] thread_step_queue [OF run(3)] by (auto simp: inv_producer_def add_frame_def)
next
  case (spurious t v p)
  have "adding p \<longleftrightarrow> adding (s_pc s t)" using spurious(3) by (auto elim!: wokenE)
  then show ?thesis using spurious(1) assms(2) by (auto simp: inv_producer_def add_frame_def)
next
  case (wake_below t v p u fs c w gs w')
  then show ?thesis using inv_producer_wake_below [OF assms(2)] by simp
next
  case (sigint_end t)
  have "s\<lparr>s_producer := s_producer s\<rparr> = s" by simp
  then show ?thesis using inv_producer_pop [OF assms(2), of t "s_producer s"] sigint_end by simp
next
  case (alarm_end t x r)
  then show ?thesis using inv_producer_pop [OF assms(2), of t None] by simp
qed (simp; (rule inv_producer_stay [OF assms(2)] inv_producer_turn [OF assms(2)] inv_producer_push [OF assms(2)]; simp))+

lemma sig_reach_producer: "sig_reach n s \<Longrightarrow> inv_producer s"
proof (induction rule: sig_reach.induct)
  case start
  then show ?case by (simp add: inv_producer_def signals_init_def codes_def add_frame_def m_init_def)
next
  case (step s s')
  show ?case by (rule sig_step_producer [OF step.hyps(2) step.IH])
qed

section \<open>Who holds the mutex\<close>

fun locked_frames :: "(code \<times> pc) list \<Rightarrow> nat" where
  "locked_frames [] = 0" | "locked_frames (f # fs) = (if holds (snd f) then 1 else 0) + locked_frames fs"

text \<open>The same for the mutex of the queue, by control points.\<close>

definition lock_count :: "signals \<Rightarrow> nat \<Rightarrow> nat" where
  "lock_count s u = (if holds (s_pc s u) then 1 else 0) + locked_frames (s_below s u)"

definition inv_locked :: "signals \<Rightarrow> bool" where
  "inv_locked s \<longleftrightarrow> (\<forall>u. lock_count s u = (if m_owner (s_mon s) = Some u then 1 else 0))"

lemma inv_locked_same:
  assumes "inv_locked s" and "m_owner (s_mon s') = m_owner (s_mon s)" and "\<And>u. lock_count s' u = lock_count s u"
  shows "inv_locked s'"
  using assms by (simp add: inv_locked_def)

lemma inv_locked_turn:
  assumes "inv_locked s" and "\<not> holds (s_pc s t)" and "\<not> holds p"
  shows "inv_locked (turn t c p (s\<lparr>s_producer := r\<rparr>))"
proof (rule inv_locked_same [OF assms(1)])
  show "lock_count (turn t c p (s\<lparr>s_producer := r\<rparr>)) u = lock_count s u" for u
    using assms(2,3) by (cases "u = t") (simp_all add: lock_count_def)
qed simp

lemma inv_locked_stay: "inv_locked s \<Longrightarrow> \<not> holds (s_pc s t) \<Longrightarrow> \<not> holds p \<Longrightarrow> inv_locked (turn t c p s)"
  using inv_locked_turn [of s t p c "s_producer s"] by simp

lemma inv_locked_push:
  assumes "inv_locked s" and "\<not> holds p"
  shows "inv_locked (push t c p s)"
proof (rule inv_locked_same [OF assms(1)])
  show "lock_count (push t c p s) u = lock_count s u" for u
    using assms(2) by (cases "u = t") (simp_all add: lock_count_def)
qed simp

lemma inv_locked_pop:
  assumes "inv_locked s" and "\<not> holds (s_pc s t)"
  shows "inv_locked (pop t (s\<lparr>s_producer := r\<rparr>))"
proof (rule inv_locked_same [OF assms(1)])
  show "lock_count (pop t (s\<lparr>s_producer := r\<rparr>)) u = lock_count s u" for u
  proof (cases "u = t")
    case True
    then show ?thesis using assms(2) by (simp add: lock_count_def pop_def split: list.split)
  qed (simp add: lock_count_def)
qed simp

lemma inv_locked_run:
  assumes "inv_locked s" and "thread_step t (s_mon s) m"
  shows "inv_locked (s\<lparr>s_mon := m\<rparr>)"
proof -
  have old: "(if holds (s_pc s u) then 1 else 0) + locked_frames (s_below s u) = (if m_owner (s_mon s) = Some u then 1 else 0)" for u
    using assms(1) by (simp add: inv_locked_def lock_count_def)
  show ?thesis
    unfolding inv_locked_def lock_count_def
  proof
    fix u
    show "(if holds (s_pc (s\<lparr>s_mon := m\<rparr>) u) then 1 else 0) + locked_frames (s_below (s\<lparr>s_mon := m\<rparr>) u) =
        (if m_owner (s_mon (s\<lparr>s_mon := m\<rparr>)) = Some u then 1 else 0)"
      using assms(2)
    proof (cases rule: thread_step.cases)
      case (lock p)
      then show ?thesis using old [of u] step_holds(2) [OF lock(2)] by (cases "u = t") (auto split: if_splits)
    next
      case (local p m1)
      then show ?thesis using old [of u] step_holds(3) [OF local(2)] by (cases "u = t") auto
    next
      case (unlock p)
      then show ?thesis using old [of u] old [of t] step_holds(4) [OF unlock(2)] by (cases "u = t") (auto split: if_splits)
    next
      case (sleep p)
      then show ?thesis using old [of u] old [of t] step_holds(5) [OF sleep(2)] by (cases "u = t") (auto split: if_splits)
    next
      case (signal c p f)
      have "holds (f u) \<longleftrightarrow> holds (s_pc s u)"
        using signalled_holds [OF signal(3), of u] step_holds(6) [OF signal(2)] by (cases "u = t") auto
      then show ?thesis using old [of u] signal(1) by simp
    qed
  qed
qed

lemma locked_frames_append [simp]: "locked_frames (fs @ gs) = locked_frames fs + locked_frames gs"
  by (induction fs) simp_all

lemma inv_locked_wake_below:
  assumes "inv_locked s" and "signal_to (s_pc s t) (m_queue (s_mon s)) = Some (v, p)"
    and "s_below s u = fs @ (c, w) # gs" and "woken v w = Some w'"
  shows "inv_locked (wake_frame u (fs @ (c, w') # gs) (s\<lparr>s_mon := goto t p (s_mon s)\<rparr>))"
    (is "inv_locked ?s")
proof (rule inv_locked_same [OF assms(1)])
  show "lock_count ?s x = lock_count s x" for x
    using assms(3) step_holds(6) [OF assms(2)] step_holds(7) [OF assms(4)] by (auto simp: lock_count_def)
qed simp

lemma sig_step_locked:
  assumes "sig_step n s s'" and "inv_locked s"
  shows "inv_locked s'"
  using assms(1)
proof (cases rule: sig_step.cases)
  case (run t m)
  then show ?thesis using inv_locked_run [OF assms(2)] by simp
next
  case (spurious t v p)
  have "lock_count s' u = lock_count s u" for u
    using step_holds(7) [OF spurious(3)] spurious(1) by (cases "u = t") (simp_all add: lock_count_def)
  then show ?thesis using spurious(1) by (intro inv_locked_same [OF assms(2)]) auto
next
  case (wake_below t v p u fs c w gs w')
  then show ?thesis using inv_locked_wake_below [OF assms(2)] by simp
next
  case (sigint_end t)
  have "s\<lparr>s_producer := s_producer s\<rparr> = s" by simp
  then show ?thesis using inv_locked_pop [OF assms(2), of t "s_producer s"] sigint_end by simp
next
  case (alarm_end t x r)
  then show ?thesis using inv_locked_pop [OF assms(2), of t None] by auto
qed (simp; (rule inv_locked_stay [OF assms(2)] inv_locked_turn [OF assms(2)] inv_locked_push [OF assms(2)]; simp))+

lemma sig_reach_locked: "sig_reach n s \<Longrightarrow> inv_locked s"
proof (induction rule: sig_reach.induct)
  case start
  then show ?case by (simp add: inv_locked_def lock_count_def signals_init_def m_init_def)
next
  case (step s s')
  show ?case by (rule sig_step_locked [OF step.hyps(2) step.IH])
qed

section \<open>A handler that waits for its own thread\<close>

definition waits_for_producer :: "nat \<Rightarrow> signals \<Rightarrow> bool" where
  "waits_for_producer t s \<longleftrightarrow> s_producer s = Some t \<and> (\<exists>x. s_code s t = Alarm_handler x Wants \<and> s_pc s t = Idle \<or>
     s_code s t = Int_handler \<and> (\<exists>rest. s_below s t = (Alarm_handler x Wants, Idle) # rest))"

lemma takes_owner: "inv_producer s \<Longrightarrow> takes_producer (s_code s u) \<Longrightarrow> s_producer s = Some u"
  by (auto simp: inv_producer_def codes_def split: if_splits)

lemma accepted_step: "thread_step u m m' \<Longrightarrow> m_accepted m' \<noteq> m_accepted m \<Longrightarrow> adding (m_pc m u)"
  by (erule thread_step.cases) (auto elim!: insideE split: if_splits)

lemma waits_for_producer_step:
  assumes "sig_step n s s'" and "inv_producer s" and "waits_for_producer t s"
  shows "waits_for_producer t s' \<and> m_accepted (s_mon s') = m_accepted (s_mon s)"
proof -
  have owner: "s_producer s = Some t" and none: "\<not> takes_producer (s_code s t)"
    using assms(3) by (auto simp: waits_for_producer_def)
  have others: "\<not> takes_producer (s_code s u)" for u
    using takes_owner [OF assms(2), of u] owner none by (cases "u = t") auto
  have wf: "wf_queue (m_queue (s_mon s))" using assms(2) by (simp add: inv_producer_def)
  from assms(1) show ?thesis
  proof (cases rule: sig_step.cases)
    case (run u m)
    have "\<not> adding (s_pc s u)" using others [of u] assms(2) by (auto simp: inv_producer_def add_frame_def)
    then have "m_accepted m = m_accepted (s_mon s)" using accepted_step [OF run(3)] by blast
    moreover have "s_pc s t = Idle \<Longrightarrow> m_pc m t = Idle" using kept_step [OF kept_idle run(3) wf] .
    ultimately show ?thesis using run(1) assms(3) by (auto simp: waits_for_producer_def)
  next
    case (spurious u v p)
    then show ?thesis using assms(3) by (auto simp: waits_for_producer_def elim!: wokenE)
  next
    case (wake_below u v p u' fs c w gs w')
    then show ?thesis
      using assms(3) by (cases fs) (auto simp: waits_for_producer_def elim!: wokenE signal_toE split: if_splits)
  next
    case (sigint_end u)
    then show ?thesis using assms(3) pop_top(1) [of s t] by (cases "u = t") (auto simp: waits_for_producer_def)
  next
    case (sigalrm u x)
    then show ?thesis using assms(3) by (auto simp: waits_for_producer_def codes_def)
  next
    case (receive_end u)
    then show ?thesis using others [of u] by simp
  next
    case (alarm_end u x r)
    then show ?thesis using others [of u] by simp
  qed (use assms(3) in \<open>auto simp: waits_for_producer_def codes_def\<close>)
qed

lemma waits_for_producer_ever:
  "(sig_step n)\<^sup>*\<^sup>* s s' \<Longrightarrow> inv_producer s \<Longrightarrow> waits_for_producer t s \<Longrightarrow>
     waits_for_producer t s' \<and> inv_producer s' \<and> m_accepted (s_mon s') = m_accepted (s_mon s)"
proof (induction rule: rtranclp_induct)
  case (step s1 s2)
  then show ?case using waits_for_producer_step [OF step.hyps(2), of t] sig_step_producer [OF step.hyps(2)] by simp
qed simp

text \<open>
  C26: The timer can stop the program for ever.  If \<^verbatim>\<open>SIGALRM\<close> is delivered to the connecting thread
  at any moment of a reception, from the taking of the producer lock to its release (also while
  it sleeps because the queue is full), the handler waits for a lock that its own thread holds
  under it: whatever happens afterwards, the thread stays in its handler or one above it, the
  lock is never given back, and the first queue never accepts an item again, neither a trade nor
  a directive.
\<close>

theorem alarm_during_reception_blocks:
  assumes "sig_reach n s" and "t < n" and "s_code s t = Reception True"
    and "\<forall>c \<in> set (codes s t). \<not> is_alarm c"
  shows "\<exists>s1. sig_step n s s1 \<and> (\<forall>s'. (sig_step n)\<^sup>*\<^sup>* s1 s' \<longrightarrow>
    s_producer s' = Some t \<and> s_code s' t \<noteq> Reception True \<and> m_accepted (s_mon s') = m_accepted (s_mon s))"
proof -
  fix x
  let ?s = "push t (Alarm_handler x Wants) Idle s"
  have inv: "inv_producer s" using assms(1) by (rule sig_reach_producer)
  have step: "sig_step n s ?s" using assms(2,4) by (rule sig_step.sigalrm)
  have "s_producer s = Some t" using takes_owner [OF inv, of t] assms(3) by simp
  then have "waits_for_producer t ?s" by (simp add: waits_for_producer_def)
  then show ?thesis
    using step waits_for_producer_ever [OF _ sig_step_producer [OF step inv]]
    by (intro exI [of _ ?s]) (fastforce simp: waits_for_producer_def)
qed

lemma reception_run: "\<exists>s. sig_reach 4 s \<and> s_code s 2 = Reception True \<and> s_pc s 2 = Idle \<and> codes s 2 = [Reception True]"
proof -
  let ?s1 = "turn 2 (Reception False) Idle signals_init"
  let ?s2 = "turn 2 (Reception True) Idle (?s1\<lparr>s_producer := Some 2\<rparr>)"
  have "sig_reach 4 ?s1"
    by (rule sig_reach.step [OF sig_reach.start sig_step.receive]) (simp_all add: signals_init_def m_init_def)
  then have "sig_reach 4 ?s2"
    by (rule sig_reach.step [OF _ sig_step.receive_lock]) (simp_all add: signals_init_def)
  then show ?thesis by (intro exI [of _ ?s2]) (simp add: codes_def signals_init_def)
qed

lemma alarm_during_reception_blocks_witness:
  "\<exists>s s1. sig_reach 4 s \<and> sig_step 4 s s1 \<and> (\<forall>s'. (sig_step 4)\<^sup>*\<^sup>* s1 s' \<longrightarrow> s_producer s' = Some 2)"
proof -
  obtain s where s: "sig_reach 4 s" "s_code s 2 = Reception True" "s_pc s 2 = Idle" "codes s 2 = [Reception True]"
    using reception_run by blast
  then show ?thesis using alarm_during_reception_blocks [of 4 s 2] by auto
qed

section \<open>A handler inside a call on the queue\<close>

fun blocked :: "code \<Rightarrow> pc \<Rightarrow> bool" where
  "blocked Int_handler p \<longleftrightarrow> p = Int_lock"
| "blocked (Alarm_handler x Adds) p \<longleftrightarrow> (\<exists>y. p = Add_lock y)"
| "blocked (Alarm_handler x g) p \<longleftrightarrow> p = Idle"
| "blocked c p \<longleftrightarrow> False"

definition waits_for_mutex :: "nat \<Rightarrow> signals \<Rightarrow> bool" where
  "waits_for_mutex t s \<longleftrightarrow> m_owner (s_mon s) = Some t \<and> blocked (s_code s t) (s_pc s t)"

lemma blocked_pc: "blocked c p \<Longrightarrow> p \<in> {Idle, Int_lock} \<or> (\<exists>y. p = Add_lock y)"
  by (cases "(c, p)" rule: blocked.cases) auto

text \<open>While the mutex is held by a thread that does not step inside its call, nothing is put or taken.\<close>

lemma foreign_step:
  assumes "thread_step u m m'" and "\<not> holds (m_pc m u)" and "m_owner m \<noteq> None"
  shows "m_owner m' = m_owner m \<and> m_accepted m' = m_accepted m \<and> m_delivered m' = m_delivered m \<and>
    contents (m_queue m') = contents (m_queue m)"
  using assms(1)
proof (cases rule: thread_step.cases)
  case (local p m1)
  then show ?thesis using assms(2) by (auto elim!: insideE)
qed (use assms(2,3) step_holds(4,5) in auto)

lemma waits_for_mutex_step:
  assumes "sig_step n s s'" and "inv_locked s" and "waits_for_mutex t s"
  shows "waits_for_mutex t s' \<and> m_accepted (s_mon s') = m_accepted (s_mon s) \<and>
    m_delivered (s_mon s') = m_delivered (s_mon s) \<and> contents (m_queue (s_mon s')) = contents (m_queue (s_mon s))"
proof -
  have owner: "m_owner (s_mon s) = Some t" and here: "blocked (s_code s t) (s_pc s t)"
    using assms(3) by (simp_all add: waits_for_mutex_def)
  have pc: "s_pc s t \<in> {Idle, Int_lock} \<or> (\<exists>y. s_pc s t = Add_lock y)" using here by (rule blocked_pc)
  have free: "\<not> holds (s_pc s u)" for u
  proof (cases "u = t")
    case False
    then have "lock_count s u = 0" using assms(2) owner by (simp add: inv_locked_def)
    then show ?thesis by (simp add: lock_count_def split: if_splits)
  qed (use pc in auto)
  from assms(1) show ?thesis
  proof (cases rule: sig_step.cases)
    case (run u m)
    have "u \<noteq> t" using run(3) pc owner by (auto elim!: thread_step.cases)
    moreover have "m_pc m t = s_pc s t"
      using run(3)
    proof (cases rule: thread_step.cases)
      case (local p m1)
      then show ?thesis using step_holds(3) [OF local(2)] \<open>u \<noteq> t\<close> by simp
    next
      case (signal c p f)
      then show ?thesis using signalled_pointwise [OF signal(3), of t] pc \<open>u \<noteq> t\<close> by (auto elim!: wokenE)
    qed (use \<open>u \<noteq> t\<close> in simp_all)
    ultimately show ?thesis
      using foreign_step [OF run(3) free] owner here run(1) by (simp add: waits_for_mutex_def)
  next
    case (spurious u v p)
    then show ?thesis using pc owner here by (cases "u = t") (auto simp: waits_for_mutex_def elim!: wokenE)
  next
    case (wake_below u v p u' fs c w gs w')
    then have "u \<noteq> t" using pc by auto
    then show ?thesis using wake_below(1) owner here by (simp add: waits_for_mutex_def)
  next
    case (sigint_end u)
    then show ?thesis using owner here by (cases "u = t") (auto simp: waits_for_mutex_def)
  next
    case (alarm_end u x r)
    then show ?thesis using owner here by (cases "u = t") (auto simp: waits_for_mutex_def)
  qed (use owner here in \<open>auto simp: waits_for_mutex_def\<close>)
qed

lemma waits_for_mutex_ever:
  "(sig_step n)\<^sup>*\<^sup>* s s' \<Longrightarrow> inv_locked s \<Longrightarrow> waits_for_mutex t s \<Longrightarrow> waits_for_mutex t s' \<and> inv_locked s' \<and>
     m_accepted (s_mon s') = m_accepted (s_mon s) \<and> m_delivered (s_mon s') = m_delivered (s_mon s) \<and>
     contents (m_queue (s_mon s')) = contents (m_queue (s_mon s))"
proof (induction rule: rtranclp_induct)
  case (step s1 s2)
  then show ?case using waits_for_mutex_step [OF step.hyps(2), of t] sig_step_locked [OF step.hyps(2)] by simp
qed simp

text \<open>
  C27: A signal can stop the program for ever in any thread.  If \<^verbatim>\<open>SIGINT\<close> or \<^verbatim>\<open>SIGALRM\<close> is delivered
  to a thread while it holds the mutex of the first queue, inside \<^verbatim>\<open>queue_add\<close>, \<^verbatim>\<open>queue_remove\<close> or
  the end of \<^verbatim>\<open>WSSClient\<close>, its handler waits for that mutex: whatever happens afterwards, the mutex
  is never given back, no item is ever put into the queue or taken out, and the handler never ends.
\<close>

theorem signal_inside_call_blocks:
  assumes "sig_reach n s" and "t < n" and "m_owner (s_mon s) = Some t" and "holds (s_pc s t)"
    and "Int_handler \<notin> set (codes s t)" and "\<forall>c \<in> set (codes s t). \<not> is_alarm c"
  shows "\<exists>s1 s2. sig_step n s s1 \<and> s_code s1 t = Int_handler \<and> sig_step n s s2 \<and> is_alarm (s_code s2 t) \<and>
    (\<forall>s'. (sig_step n)\<^sup>*\<^sup>* s1 s' \<or> (sig_step n)\<^sup>*\<^sup>* s2 s' \<longrightarrow> m_owner (s_mon s') = Some t \<and> blocked (s_code s' t) (s_pc s' t) \<and>
      m_accepted (s_mon s') = m_accepted (s_mon s) \<and> m_delivered (s_mon s') = m_delivered (s_mon s))"
proof -
  fix x
  let ?i = "push t Int_handler Int_lock s" and ?a = "push t (Alarm_handler x Wants) Idle s"
  have inv: "inv_locked s" using assms(1) by (rule sig_reach_locked)
  have i: "sig_step n s ?i" using assms(2) assms(5) by (rule sig_step.sigint)
  have a: "sig_step n s ?a" using assms(2) assms(6) by (rule sig_step.sigalrm)
  have w: "waits_for_mutex t ?i" "waits_for_mutex t ?a" using assms(3) by (simp_all add: waits_for_mutex_def)
  have "m_owner (s_mon s') = Some t \<and> blocked (s_code s' t) (s_pc s' t) \<and> m_accepted (s_mon s') = m_accepted (s_mon s) \<and>
      m_delivered (s_mon s') = m_delivered (s_mon s)" if "(sig_step n)\<^sup>*\<^sup>* ?i s' \<or> (sig_step n)\<^sup>*\<^sup>* ?a s'" for s'
    using that waits_for_mutex_ever [OF _ sig_step_locked [OF i inv] w(1)] waits_for_mutex_ever [OF _ sig_step_locked [OF a inv] w(2)]
    by (auto simp: waits_for_mutex_def)
  then show ?thesis using i a by (intro exI [of _ ?i] exI [of _ ?a]) simp
qed

lemma signal_inside_call_blocks_witness:
  "\<exists>s s1. sig_reach 4 s \<and> holds (s_pc s 0) \<and> sig_step 4 s s1 \<and> (\<forall>s'. (sig_step 4)\<^sup>*\<^sup>* s1 s' \<longrightarrow> m_owner (s_mon s') = Some 0)"
proof -
  let ?s1 = "turn 0 Thread_code Rem_lock signals_init"
  let ?m = "goto 0 Rem_test (s_mon ?s1)\<lparr>m_owner := Some 0\<rparr>"
  have "sig_reach 4 ?s1"
    by (rule sig_reach.step [OF sig_reach.start sig_step.remove]) (simp_all add: signals_init_def m_init_def)
  moreover have "thread_step 0 (s_mon ?s1) ?m"
    by (rule thread_step.lock) (simp_all add: signals_init_def m_init_def)
  ultimately have r: "sig_reach 4 (?s1\<lparr>s_mon := ?m\<rparr>)" (is "sig_reach 4 ?s")
    by (intro sig_reach.step [OF _ sig_step.run]) (simp_all add: only_below_def sleeper_below_def signals_init_def)
  have "m_owner (s_mon ?s) = Some 0" "holds (s_pc ?s 0)" "codes ?s 0 = [Thread_code]"
    by (simp_all add: codes_def signals_init_def)
  then obtain s1 where "sig_step 4 ?s s1" "\<forall>s'. (sig_step 4)\<^sup>*\<^sup>* s1 s' \<longrightarrow> m_owner (s_mon s') = Some 0"
    using signal_inside_call_blocks [OF r, of 0] by auto
  then show ?thesis using r \<open>holds (s_pc ?s 0)\<close> by blast
qed

section \<open>A signal while the mutex is free\<close>

lemma pop_push:
  assumes "s_below s' = (s_below (push t c p s))" and "s_code s' = s_code (push t c p s)"
    and "m_pc (s_mon s') = (s_pc s)(t := q)"
  shows "pop t s' = s\<lparr>s_mon := s_mon s'\<lparr>m_pc := s_pc s\<rparr>, s_producer := s_producer s'\<rparr>"
  using assms by (simp add: pop_def turn_def goto_def)

lemma quiet_run:
  "t < n \<Longrightarrow> signal_to (s_pc s t) (m_queue (s_mon s)) = None \<Longrightarrow> thread_step t (s_mon s) m \<Longrightarrow> sig_step n s (s\<lparr>s_mon := m\<rparr>)"
  by (rule sig_step.run) (auto simp: only_below_def)

text \<open>Steps of the handler of \<^verbatim>\<open>SIGINT\<close> inside its critical section.\<close>

lemma int_moves:
  assumes "t < n"
  shows "s_pc s t = Int_lock \<Longrightarrow> m_owner (s_mon s) = None \<Longrightarrow>
      sig_step n s (s\<lparr>s_mon := goto t Int_set (s_mon s)\<lparr>m_owner := Some t\<rparr>\<rparr>)"
    and "s_pc s t = Int_set \<Longrightarrow> sig_step n s (s\<lparr>s_mon := goto t Int_unlock (set_exit (s_mon s))\<rparr>)"
    and "s_pc s t = Int_unlock \<Longrightarrow> sig_step n s (s\<lparr>s_mon := goto t Idle (s_mon s)\<lparr>m_owner := None\<rparr>\<rparr>)"
  by (rule quiet_run [OF assms]; auto intro: thread_step.intros thread_step.unlock [of _ t Idle])+

text \<open>
  C28: \<^verbatim>\<open>SIGINT\<close> at any other moment sets the exit flag and does nothing else.  If the mutex of the
  first queue is free, the handler can run to its end in whatever thread it reaches, also in one
  that sleeps in \<^verbatim>\<open>pthread_cond_wait\<close> or holds the producer lock: then the exit flag is set, and
  locks, histories, code and control points of all threads are what they were.  In particular
  no sleeping thread is woken to see the flag.
\<close>

theorem sigint_only_sets_flag:
  assumes "t < n" and "m_owner (s_mon s) = None" and "Int_handler \<notin> set (codes s t)"
  shows "(sig_step n)\<^sup>*\<^sup>* s (s\<lparr>s_mon := set_exit (s_mon s)\<rparr>)"
proof -
  let ?s1 = "push t Int_handler Int_lock s"
  let ?s2 = "?s1\<lparr>s_mon := goto t Int_set (s_mon ?s1)\<lparr>m_owner := Some t\<rparr>\<rparr>"
  let ?s3 = "?s2\<lparr>s_mon := goto t Int_unlock (set_exit (s_mon ?s2))\<rparr>"
  let ?s4 = "?s3\<lparr>s_mon := goto t Idle (s_mon ?s3)\<lparr>m_owner := None\<rparr>\<rparr>"
  have "sig_step n s ?s1" using assms(1,3) by (rule sig_step.sigint)
  with rtranclp.rtrancl_refl have "(sig_step n)\<^sup>*\<^sup>* s ?s1" by (rule rtranclp.rtrancl_into_rtrancl)
  moreover have "sig_step n ?s1 ?s2" using assms(2) by (intro int_moves(1) [OF assms(1)]) simp_all
  ultimately have "(sig_step n)\<^sup>*\<^sup>* s ?s2" by (rule rtranclp.rtrancl_into_rtrancl)
  moreover have "sig_step n ?s2 ?s3" by (intro int_moves(2) [OF assms(1)]) simp
  ultimately have "(sig_step n)\<^sup>*\<^sup>* s ?s3" by (rule rtranclp.rtrancl_into_rtrancl)
  moreover have "sig_step n ?s3 ?s4" by (intro int_moves(3) [OF assms(1)]) simp
  ultimately have "(sig_step n)\<^sup>*\<^sup>* s ?s4" by (rule rtranclp.rtrancl_into_rtrancl)
  moreover have "sig_step n ?s4 (pop t ?s4)" using assms(1) by (intro sig_step.sigint_end) simp_all
  ultimately have "(sig_step n)\<^sup>*\<^sup>* s (pop t ?s4)" by (rule rtranclp.rtrancl_into_rtrancl)
  moreover have "pop t ?s4 = s\<lparr>s_mon := (s_mon ?s4)\<lparr>m_pc := s_pc s\<rparr>, s_producer := s_producer ?s4\<rparr>"
    by (rule pop_push) simp_all
  moreover have "\<dots> = s\<lparr>s_mon := set_exit (s_mon s)\<rparr>"
    using assms(2) by (intro signals.equality) (simp_all add: goto_def set_exit_def)
  ultimately show ?thesis by simp
qed

lemma sleeper_run: "\<exists>s. sig_reach 4 s \<and> s_pc s 0 = Rem_wait \<and> m_owner (s_mon s) = None \<and> codes s 0 = [Thread_code]"
proof -
  let ?s1 = "turn 0 Thread_code Rem_lock signals_init"
  let ?s2 = "?s1\<lparr>s_mon := goto 0 Rem_test (s_mon ?s1)\<lparr>m_owner := Some 0\<rparr>\<rparr>"
  let ?s3 = "?s2\<lparr>s_mon := goto 0 Rem_exit_test (s_mon ?s2)\<rparr>"
  let ?s4 = "?s3\<lparr>s_mon := goto 0 Rem_sleep (s_mon ?s3)\<rparr>"
  let ?s5 = "?s4\<lparr>s_mon := goto 0 Rem_wait (s_mon ?s4)\<lparr>m_owner := None\<rparr>\<rparr>"
  have q: "q_empty (m_queue (s_mon signals_init))" "\<not> q_exit_flag (m_queue (s_mon signals_init))"
    "m_owner (s_mon signals_init) = None" "s_pc signals_init 0 = Idle" "s_code signals_init 0 = Thread_code"
    by (simp_all add: signals_init_def m_init_def queue_init_def)
  have "sig_reach 4 ?s1" using q by (intro sig_reach.step [OF sig_reach.start sig_step.remove]) simp_all
  then have "sig_reach 4 ?s2"
    using q by (elim sig_reach.step, intro quiet_run [of 0] thread_step.lock) simp_all
  then have "sig_reach 4 ?s3"
    using q by (elim sig_reach.step, intro quiet_run [of 0] thread_step.local) simp_all
  then have "sig_reach 4 ?s4"
    using q by (elim sig_reach.step, intro quiet_run [of 0] thread_step.local) simp_all
  then have "sig_reach 4 ?s5"
    using q by (elim sig_reach.step, intro quiet_run [of 0] thread_step.sleep) simp_all
  then show ?thesis by (intro exI [of _ ?s5]) (simp add: codes_def signals_init_def)
qed

lemma sigint_only_sets_flag_witness:
  "\<exists>s s'. sig_reach 4 s \<and> s_pc s 0 = Rem_wait \<and> (sig_step 4)\<^sup>*\<^sup>* s s' \<and> s_pc s' 0 = Rem_wait \<and> q_exit_flag (m_queue (s_mon s'))"
proof -
  obtain s where s: "sig_reach 4 s" "s_pc s 0 = Rem_wait" "m_owner (s_mon s) = None" "codes s 0 = [Thread_code]"
    using sleeper_run by blast
  then have "(sig_step 4)\<^sup>*\<^sup>* s (s\<lparr>s_mon := set_exit (s_mon s)\<rparr>)" using sigint_only_sets_flag [of 0 4 s] by simp
  then show ?thesis using s(1,2) by (intro exI [of _ s] exI [of _ "s\<lparr>s_mon := set_exit (s_mon s)\<rparr>"]) simp
qed

end
