(* ===== verification/ProgramCloses.thy ===== *)
theory ProgramCloses
  imports ProgramRun
begin

text \<open>
  The end of the whole program after the exit order: the steps that bring the threads and
  \<^verbatim>\<open>main\<close> forward, the work that they take off, and that one of them can always be made until
  the process ends.
\<close>

section \<open>Steps forward\<close>

text \<open>
  A step forward moves a thread in its own code or reports an event of the reception under way;
  the other steps are new receptions, callbacks and signals.
\<close>

definition forward :: "'p lws_lib \<Rightarrow> string \<Rightarrow> 'p program \<Rightarrow> 'p program \<Rightarrow> bool" where
  "forward lib key s s' \<longleftrightarrow> program_step lib key s s' \<and>
     (m_pc (g_main s') \<noteq> m_pc (g_main s) \<or> m_returned (g_main s') \<noteq> m_returned (g_main s) \<or>
      k_pc (g_client s') \<noteq> k_pc (g_client s) \<or> thread_moves (g_pipe s) (g_pipe s') \<or>
      g_parse s \<noteq> None \<and> g_parse s' \<noteq> g_parse s)"

fun main_work :: "main_pc \<Rightarrow> nat" where
  "main_work (M_create k) = 11 - k" | "main_work M_timer = 7" | "main_work (M_join k) = 6 - k"
| "main_work M_close = 1" | "main_work M_done = 0" | "main_work (M_exit e) = 0"

fun client_work :: "client_pc \<Rightarrow> nat" where
  "client_work K_setup = 7" | "client_work K_service = 6" | "client_work K_serving = 5" | "client_work K_check = 4"
| "client_work K_destroy = 3" | "client_work K_sleep = 3" | "client_work K_loop = 2" | "client_work K_close = 1"
| "client_work K_done = 0"

definition reception_work :: "(timeval \<times> json_event list) option \<Rightarrow> nat" where
  "reception_work r = (case r of None \<Rightarrow> 0 | Some (now, evs) \<Rightarrow> Suc (length evs))"

definition program_work :: "'p program \<Rightarrow> nat" where
  "program_work s = main_work (m_pc (g_main s)) + card (set main_threads - m_returned (g_main s)) +
     client_work (k_pc (g_client s)) + reception_work (g_parse s) + work_left (g_pipe s)"

lemma main_step_work:
  assumes "main_step m m'" and "m_pc m' \<noteq> m_pc m"
  shows "main_work (m_pc m') < main_work (m_pc m)"
  using assms by cases (auto simp: length_main_threads)

lemma client_step_work:
  assumes "client_step key k k'" and "k_pc k' \<noteq> k_pc k" and "k_exit_flag k"
  shows "client_work (k_pc k') < client_work (k_pc k)"
  using assms by cases (auto simp: client_connect_def Let_def split: prod.splits if_splits)

definition closing_down :: "'p lws_lib \<Rightarrow> string \<Rightarrow> 'p \<Rightarrow> calc_files \<Rightarrow> 'p program \<Rightarrow> bool" where
  "closing_down lib key ctx c s \<longleftrightarrow> program_reach lib key ctx c s \<and> q_exit_flag (p_api (g_pipe s)) \<and> calc_ready SYMBOL_COUNT c"

lemma down_draining: "closing_down lib key ctx c s \<Longrightarrow> draining SYMBOL_COUNT WRITERS_COUNT c (g_pipe s)"
  using whole_pipe.mapped arrived_in_list by (auto simp: closing_down_def draining_def WRITERS_COUNT_def)

text \<open>After the exit order neither a reception nor the timer changes the pipeline.\<close>

lemma refused_parse: "parse_event now e s = Returns r s' \<Longrightarrow> q_exit_flag (p_api (g_pipe s)) \<Longrightarrow>
    s' = s\<lparr>g_vars := json_update now (fst e) (snd e) (g_vars s)\<rparr>"
  by (auto elim: parse_event_cases)

lemma returns_work:
  assumes "program_reach lib key ctx c s" and "running t s"
  shows "card (set main_threads - insert t (m_returned (g_main s))) < card (set main_threads - m_returned (g_main s))"
proof -
  have "inv_main (g_main s)" using whole_main.mapped [OF assms(1)] by (rule main_reach_inv)
  then have "t \<in> set main_threads - m_returned (g_main s)"
    using assms(2) by (auto simp: inv_main_def running_def split: main_pc.splits dest: in_set_takeD)
  then show ?thesis by (intro psubset_card_mono) auto
qed

lemma forward_work:
  assumes "closing_down lib key ctx c s" and "forward lib key s s'"
  shows "program_work s' < program_work s"
proof -
  have step: "program_step lib key s s'"
    and fwd: "m_pc (g_main s') \<noteq> m_pc (g_main s) \<or> m_returned (g_main s') \<noteq> m_returned (g_main s) \<or>
      k_pc (g_client s') \<noteq> k_pc (g_client s) \<or> thread_moves (g_pipe s) (g_pipe s') \<or> g_parse s \<noteq> None \<and> g_parse s' \<noteq> g_parse s"
    using assms(2) by (simp_all add: forward_def)
  have still: "\<not> thread_moves p p" for p by (simp add: thread_moves_def)
  have reach: "program_reach lib key ctx c s" and flag: "q_exit_flag (p_api (g_pipe s))" "k_exit_flag (g_client s)"
    using assms(1) bind_holds [of lib key ctx c s] by (auto simp: closing_down_def inv_bind_def)
  from step show ?thesis
  proof (cases rule: program_step.cases)
    case (main m)
    then show ?thesis using fwd main_step_work still by (auto simp: program_work_def)
  next
    case (returns t)
    then show ?thesis using returns_work [OF reach] by (simp add: program_work_def)
  next
    case (client k)
    then show ?thesis using client_step_work flag(2) by (simp add: program_work_def)
  next
    case (parse now e evs s1)
    then show ?thesis using refused_parse [OF parse(4) flag(1)] by (simp add: program_work_def reception_work_def)
  next
    case (alarm now junk)
    from alarm(5) show ?thesis
      by (cases rule: alarm_call_cases) (use fwd flag(1) still in auto)
  next
    case alarm_end
    then show ?thesis using fwd by (auto simp: thread_moves_def)
  next
    case interrupt
    then show ?thesis using fwd by (auto simp: thread_moves_def)
  next
    case (pipe_step p)
    then have "works SYMBOL_COUNT (g_pipe s) p" using moved_moves by (auto simp: works_def)
    from works_less [OF this pipe_good [OF reach]] show ?thesis using pipe_step(1) by (simp add: program_work_def)
  qed (use fwd still in \<open>auto simp: program_work_def reception_work_def\<close>)
qed

lemma down_step:
  assumes "closing_down lib key ctx c s" and "forward lib key s s'"
  shows "closing_down lib key ctx c s'"
  using assms program_reach.step flags_change by (fastforce simp: closing_down_def forward_def)

section \<open>A step forward is always possible\<close>

lemma forwardI:
  assumes "program_step lib key s s'"
  shows "m_returned (g_main s') \<noteq> m_returned (g_main s) \<Longrightarrow> \<exists>s'. forward lib key s s'"
    and "k_pc (g_client s') \<noteq> k_pc (g_client s) \<Longrightarrow> \<exists>s'. forward lib key s s'"
    and "thread_moves (g_pipe s) (g_pipe s') \<Longrightarrow> \<exists>s'. forward lib key s s'"
    and "g_parse s \<noteq> None \<Longrightarrow> g_parse s' \<noteq> g_parse s \<Longrightarrow> \<exists>s'. forward lib key s s'"
  using assms unfolding forward_def by blast+

lemma forward_main:
  "main_step (g_main s) m \<Longrightarrow> m_returned m = m_returned (g_main s) \<Longrightarrow> m_late_writes m = m_late_writes (g_main s) \<Longrightarrow>
     m_pc m \<noteq> m_pc (g_main s) \<Longrightarrow> \<exists>s'. forward lib key s s'"
  using program_step.main [of s m lib key] by (auto simp: forward_def intro!: exI [of _ "s\<lparr>g_main := m\<rparr>"])

lemma client_goes_on: "k_pc k \<noteq> K_done \<Longrightarrow> \<exists>k'. client_step key k k' \<and> k_pc k' \<noteq> k_pc k"
proof (cases "k_pc k")
  case K_setup
  let ?lib = "\<lparr>lws_create_context = \<lambda>_. False, lws_client_connect_via_info = \<lambda>_. None\<rparr>"
  show ?thesis using client_step.attempt [OF K_setup, of key ?lib] K_setup by (intro exI conjI) (auto simp: connect_cases)
next
  case K_service
  show ?thesis
  proof (cases "k_connection_closed k")
    case True
    with client_step.closed [OF K_service True] K_service show ?thesis by (intro exI conjI) auto
  next
    case False
    with client_step.service [OF K_service False] K_service show ?thesis by (intro exI conjI) auto
  qed
next
  case K_loop
  with client_step.loop [OF K_loop, of key] show ?thesis
    by (intro exI [of _ "k\<lparr>k_pc := (if k_exit_flag k then K_close else K_setup)\<rparr>"]) simp
next
  case K_sleep
  with client_step.slept [OF K_sleep, of key] show ?thesis by (intro exI conjI) auto
next
  case K_serving
  with client_step.served [OF K_serving, of key] show ?thesis by (intro exI conjI) auto
next
  case K_check
  with client_step.check [OF K_check, of key] show ?thesis
    by (intro exI [of _ "k\<lparr>k_pc := (if k_exit_flag k then K_destroy else K_service)\<rparr>"]) simp
next
  case K_destroy
  with client_step.destroy [OF K_destroy, of key] show ?thesis by (intro exI conjI) auto
next
  case K_close
  with client_step.finish [OF K_close, of key True] show ?thesis by (intro exI conjI) auto
qed simp

text \<open>The reception under way keeps the connecting thread in the service.\<close>

lemma reception_serving: "program_reach lib key ctx c s \<Longrightarrow> g_parse s \<noteq> None \<longrightarrow> k_pc (g_client s) = K_serving"
proof (induction rule: program_reach.induct)
  case start
  then show ?case by (simp add: program_start_def)
next
  case (step s s')
  from step.hyps(2) step.IH show ?case
    by (cases rule: program_step.cases) (auto elim!: parse_event_cases alarm_call_cases)
qed

lemma threads_move:
  assumes "works SYMBOL_COUNT (g_pipe s) p" and "\<forall>t \<in> m_returned (g_main s). at_end t s"
    and "set main_threads \<subseteq> m_started (g_main s)" and "alive s" and "length (p_writers (g_pipe s)) = WRITERS_COUNT"
  shows "\<exists>s'. forward lib key s s'"
proof -
  have step: "pstep SYMBOL_COUNT (g_pipe s) p" and moves: "thread_moves (g_pipe s) p" using assms(1) by (simp_all add: works_def)
  have "running t s" if "t \<in> moved (g_pipe s) p" for t
  proof -
    have "\<not> at_end t s"
      using step that by cases (auto simp: moved_def nth_list_update Writer_log_frame split: if_splits)
    then show ?thesis using that assms(2-4) moved_threads [OF assms(5), of p] by (auto simp: running_def)
  qed
  then have "program_step lib key s (s\<lparr>g_pipe := p, g_main := (g_main s)\<lparr>m_late_writes :=
      m_late_writes (g_main s) + (if m_closed (g_main s) then 1 else 0)\<rparr>\<rparr>)"
    using moves_moved [OF step moves] by (intro program_step.pipe_step [OF step]) auto
  then show ?thesis by (rule forwardI(3)) (use moves in simp)
qed

lemma reception_goes_on:
  assumes "running T_client s" and "g_parse s = Some (now, evs)" and "q_exit_flag (p_api (g_pipe s))"
  shows "\<exists>s'. forward lib key s s'"
proof (cases evs)
  case Nil
  from program_step.parsed [OF assms(1) assms(2) [unfolded Nil], of lib key] show ?thesis
    by (rule forwardI(4)) (use assms(2) in simp_all)
next
  case (Cons e es)
  let ?s = "s\<lparr>g_vars := json_update now (fst e) (snd e) (g_vars s)\<rparr>"
  have "parse_event now e s = Returns 0 ?s"
    using assms(3) by (simp add: parse_event_def queue_add_def Let_def split: option.splits)
  from program_step.parse [OF assms(1) assms(2) [unfolded Cons] this, of lib key] show ?thesis
    by (rule forwardI(4)) (use assms(2) Cons in simp_all)
qed

lemma connection_goes_on:
  assumes "running T_client s" and "g_parse s = None" and "k_pc (g_client s) \<noteq> K_done"
  shows "\<exists>s'. forward lib key s s'"
proof -
  obtain d where d: "client_step key (g_client s) d" "k_pc d \<noteq> k_pc (g_client s)" using client_goes_on assms(3) by blast
  from program_step.client [OF assms(1,2) d, of lib] show ?thesis
    by (rule forwardI(2)) (use d(2) in simp)
qed

lemma return_goes_on: "running t s \<Longrightarrow> at_end t s \<Longrightarrow> \<exists>s'. forward lib key s s'"
  by (rule forwardI(1) [OF program_step.returns]) (auto simp: running_def)

text \<open>While \<^verbatim>\<open>main\<close> joins the threads, one of them can move or return, or has returned already.\<close>

lemma joining_goes_on:
  assumes "closing_down lib key ctx c s" and "alive s" and "m_pc (g_main s) = M_join k"
  shows "\<exists>s'. forward lib key s s'"
proof -
  have reach: "program_reach lib key ctx c s" and flag: "q_exit_flag (p_api (g_pipe s))"
    using assms(1) by (simp_all add: closing_down_def)
  note main = whole_main.mapped [OF reach]
  have started: "m_started (g_main s) = set main_threads" and k: "k < length main_threads"
    using main_reach_inv [OF main] main_positions [OF main] assms(3) by (auto simp: inv_main_def)
  have ends: "\<forall>t \<in> m_returned (g_main s). at_end t s" and len: "length (p_writers (g_pipe s)) = WRITERS_COUNT"
    using bind_holds [OF reach] by (simp_all add: inv_bind_def)
  have runs: "running t s" if "t \<in> set main_threads" "t \<notin> m_returned (g_main s)" for t
    using that assms(2) started by (simp add: running_def)
  have client: "T_client \<in> set main_threads" by (simp add: main_threads_def)
  consider now evs where "g_parse s = Some (now, evs)" | "g_parse s = None" "k_pc (g_client s) \<noteq> K_done"
    | "\<not> finished (g_pipe s)" | t where "t \<in> set main_threads" "t \<notin> m_returned (g_main s)" "at_end t s"
    | "\<forall>t \<in> set main_threads. t \<in> m_returned (g_main s)"
  proof (cases "g_parse s")
    case None
    have "\<forall>t \<in> set main_threads. at_end t s" if "k_pc (g_client s) = K_done" "finished (g_pipe s)"
      using that len by (auto simp: main_threads_def finished_def)
    then show ?thesis using that(2-5) None by blast
  qed (use that(1) in auto)
  then show ?thesis
  proof cases
    case (1 now evs)
    then have "\<not> at_end T_client s" using reception_serving [OF reach] by simp
    then show ?thesis using reception_goes_on [OF runs [OF client] 1 flag] ends by blast
  next
    case 2
    then show ?thesis using connection_goes_on [OF runs [OF client]] ends by fastforce
  next
    case 3
    then obtain p where "works SYMBOL_COUNT (g_pipe s) p" using draining_goes_on [OF down_draining [OF assms(1)]] by blast
    then show ?thesis using threads_move [OF _ ends _ assms(2) len] started by blast
  next
    case (4 t)
    then show ?thesis using return_goes_on [OF runs] by blast
  next
    case 5
    then have "main_threads ! k \<in> m_returned (g_main s)" using k by simp
    from main_step.join [OF assms(3) k this] show ?thesis by (rule forward_main) (use assms(3) in auto)
  qed
qed

lemma down_goes_on:
  assumes "closing_down lib key ctx c s" and "alive s"
  shows "\<exists>s'. forward lib key s s'"
proof (cases "m_pc (g_main s)")
  case (M_create k)
  have reach: "program_reach lib key ctx c s" using assms(1) by (simp add: closing_down_def)
  have "k < length main_threads" using main_positions [OF whole_main.mapped [OF reach]] M_create by blast
  from main_step.create [OF M_create this] show ?thesis by (rule forward_main) (use M_create in auto)
next
  case M_timer
  from main_step.timer [OF M_timer] show ?thesis by (rule forward_main) (use M_timer in auto)
next
  case M_close
  from main_step.close_files [OF M_close] show ?thesis by (rule forward_main) (use M_close in auto)
next
  case (M_join k)
  then show ?thesis by (rule joining_goes_on [OF assms])
qed (use assms(2) in \<open>simp_all add: alive_def\<close>)

interpretation down: running_down "closing_down lib key ctx c" "forward lib key" program_work "\<lambda>s. \<not> alive s" for lib key ctx c
proof
  show "closing_down lib key ctx c s'" if "closing_down lib key ctx c s" "forward lib key s s'" for s s'
    using that by (rule down_step)
  show "program_work s' < program_work s" if "closing_down lib key ctx c s" "forward lib key s s'" for s s'
    using that by (rule forward_work)
qed (rule down_goes_on; simp)



text \<open>
  C22: No received text leads outside the arrays.  Whatever the parser reports for whatever the
  server sends, the position of the symbol of each trade that arrives is below the number of
  symbols; so whatever item a writer or the calculator holds, logging and handling it succeed.
\<close>

theorem positions_in_range:
  assumes "program_reach lib key ctx c s" and "calc_ready SYMBOL_COUNT c"
  shows "(\<forall>x \<in> set (p_arrived (g_pipe s)). is_trade x \<longrightarrow> symbol_index (item_trade x) < SYMBOL_COUNT) \<and>
    (\<forall>i x. i < length (p_writers (g_pipe s)) \<and> p_writers (g_pipe s) ! i = W_got x \<longrightarrow> Writer_log i x now (g_pipe s) \<noteq> None) \<and>
    (\<forall>x. p_calculator (g_pipe s) = C_got x \<longrightarrow> Calculator_item SYMBOL_COUNT (x, clock) (p_calc (g_pipe s)) \<noteq> None)"
proof -
  have valid: "\<forall>x \<in> set (p_arrived (g_pipe s)). is_trade x \<longrightarrow> symbol_index (item_trade x) < SYMBOL_COUNT"
    using arrived_in_list [OF assms(1)] by blast
  then show ?thesis using held_items_processable [OF whole_pipe.mapped [OF assms(1)] assms(2) valid] by blast
qed

lemma positions_in_range_witness:
  "\<exists>s. program_reach sample_lib ''k'' [] all_files s \<and> run_item \<in> set (p_arrived (g_pipe s)) \<and>
     symbol_index (item_trade run_item) < SYMBOL_COUNT"
proof -
  obtain s where s: "program_reach sample_lib ''k'' [] all_files s" "g_items s = [run_item]" using program_run by blast
  then have "run_item \<in> set (p_arrived (g_pipe s))"
    using arrivals_hold [OF s(1)] by (auto simp: inv_arrivals_def set_shuffles)
  then show ?thesis using positions_in_range [OF s(1) all_ready] run_item_simps(2) s(1) by blast
qed

end
