(* ===== verification/LwsConfig.thy ===== *)
theory LwsConfig
  imports Prelude
begin

text \<open>
  Which members of \<^verbatim>\<open>struct lws_context_creation_info\<close> exist.  The header encloses many of
  them in conditions on the switches of \<^verbatim>\<open>lws_config.h\<close>.  Here are the switches of the
  configuration in the tree, the members with their conditions, and the evaluation of the
  conditions, which gives the members that the records of \<^verbatim>\<open>LwsInfo\<close> have.
\<close>

section \<open>The configuration\<close>

text \<open>A line of the file defines a name or says in a comment that it is not defined.\<close>

definition config_have :: "(string \<times> bool) list" where
  "config_have = [
     (''LWS_INSTALL_DATADIR'', True), (''LWS_INSTALL_LIBDIR'', True),
     (''LWS_LIBRARY_VERSION_MAJOR'', True), (''LWS_LIBRARY_VERSION_MINOR'', True),
     (''LWS_LIBRARY_VERSION_PATCH_ELABORATED'', True), (''LWS_LIBRARY_VERSION_PATCH'', True),
     (''LWS_LIBRARY_VERSION_NUMBER'', True), (''LWS_MAX_SMP'', True),
     (''LWS_ESP_PLATFORM'', False), (''LWS_LIBRARY_VERSION_NUMBER'', False),
     (''LWS_EXT_PTHREAD_LIBRARIES'', False), (''LWS_AVOID_SIGPIPE_IGN'', False),
     (''LWS_BUILD_HASH'', True), (''LWS_BUILTIN_GETIFADDRS'', False),
     (''LWS_BUILTIN_PLUGIN_NAMES'', False), (''LWS_CLIENT_HTTP_PROXYING'', True),
     (''LWS_DETECTED_PLAT_IOS'', False), (''LWS_FALLBACK_GETHOSTBYNAME'', False),
     (''LWS_HAS_INTPTR_T'', True), (''LWS_HAS_GETOPT_LONG'', True),
     (''LWS_HAVE__ATOI64'', False), (''LWS_HAVE_ATOLL'', True),
     (''LWS_HAVE_BN_bn2binpad'', True), (''LWS_HAVE_CLOCK_GETTIME'', True),
     (''LWS_HAVE_EC_POINT_get_affine_coordinates'', True),
     (''LWS_HAVE_EC_KEY_new_by_curve_name'', True), (''LWS_HAVE_ECDSA_SIG_set0'', True),
     (''LWS_HAVE_EVP_MD_CTX_free'', True), (''LWS_HAVE_EVP_aes_128_wrap'', True),
     (''LWS_HAVE_EVP_aes_128_cfb8'', True), (''LWS_HAVE_EVP_aes_128_cfb128'', True),
     (''LWS_HAVE_EVP_aes_192_cfb8'', True), (''LWS_HAVE_EVP_aes_192_cfb128'', True),
     (''LWS_HAVE_EVP_aes_256_cfb8'', True), (''LWS_HAVE_EVP_aes_256_cfb128'', True),
     (''LWS_HAVE_EVP_aes_128_ofb'', True), (''LWS_HAVE_EVP_aes_128_xts'', True),
     (''LWS_HAVE_EVP_aes_128_ctr'', True), (''LWS_HAVE_EVP_aes_128_ecb'', True),
     (''LWS_HAVE_EVP_PKEY_new_raw_private_key'', True), (''LWS_HAVE_EXECVPE'', True),
     (''LWS_HAVE_LOCALTIME_R'', True), (''LWS_HAVE_GMTIME_R'', True),
     (''LWS_HAVE_CTIME_R'', True), (''LWS_HAVE_GETGRGID_R'', True),
     (''LWS_HAVE_GETGRNAM_R'', True), (''LWS_HAVE_GETPWUID_R'', True),
     (''LWS_HAVE_GETPWNAM_R'', True), (''LWS_HAVE_LIBCAP'', False),
     (''LWS_HAVE_HMAC_CTX_new'', True), (''LWS_HAVE_MALLOC_H'', True),
     (''LWS_HAVE_MALLOC_TRIM'', True), (''LWS_HAVE_MALLOC_USABLE_SIZE'', True),
     (''LWS_HAVE_mbedtls_md_setup'', False), (''LWS_HAVE_mbedtls_net_init'', False),
     (''LWS_HAVE_mbedtls_rsa_complete'', False),
     (''LWS_HAVE_mbedtls_internal_aes_encrypt'', False),
     (''LWS_HAVE_mbedtls_ssl_conf_alpn_protocols'', False),
     (''LWS_HAVE_mbedtls_ssl_get_alpn_protocol'', False),
     (''LWS_HAVE_mbedtls_ssl_conf_sni'', False),
     (''LWS_HAVE_mbedtls_ssl_set_hs_ca_chain'', False),
     (''LWS_HAVE_mbedtls_ssl_set_hs_own_cert'', False),
     (''LWS_HAVE_mbedtls_ssl_set_hs_authmode'', False),
     (''LWS_HAVE_mbedtls_ssl_set_verify'', False),
     (''LWS_HAVE_mbedtls_x509_crt_parse_file'', False),
     (''LWS_HAVE_MBEDTLS_NET_SOCKETS'', False),
     (''LWS_HAVE_MBEDTLS_SSL_NEW_SESSION_TICKET'', False),
     (''LWS_HAVE_MBEDTLS_AUTH_KEY_ID'', False), (''LWS_HAVE_NEW_UV_VERSION_H'', False),
     (''LWS_HAVE_OPENSSL_ECDH_H'', True), (''LWS_HAVE_OPENSSL_STACK'', True),
     (''LWS_HAVE_PIPE2'', True), (''LWS_HAVE_EVENTFD'', True), (''LWS_HAVE_PTHREAD_H'', True),
     (''LWS_HAVE_RSA_SET0_KEY'', True), (''LWS_HAVE_RSA_verify_pss_mgf1'', False),
     (''LWS_HAVE_SSL_CTX_get0_certificate'', True),
     (''LWS_HAVE_SSL_CTX_load_verify_file'', False),
     (''LWS_HAVE_SSL_CTX_load_verify_dir'', False), (''LWS_HAVE_SSL_CTX_set1_param'', True),
     (''LWS_HAVE_SSL_CTX_set_ciphersuites'', False),
     (''LWS_HAVE_SSL_CTX_set_keylog_callback'', True),
     (''LWS_HAVE_SSL_EXTRA_CHAIN_CERTS'', True), (''LWS_HAVE_SSL_get0_alpn_selected'', True),
     (''LWS_HAVE_SSL_CTX_EVP_PKEY_new_raw_private_key'', False),
     (''LWS_HAVE_SSL_set_alpn_protos'', True), (''LWS_HAVE_SSL_SET_INFO_CALLBACK'', True),
     (''LWS_HAVE_SSL_SESSION_set_time'', True), (''LWS_HAVE_SSL_SESSION_up_ref'', False),
     (''LWS_HAVE__STAT32I64'', False), (''LWS_HAVE_STDINT_H'', True),
     (''LWS_HAVE_SYS_TYPES_H'', True), (''LWS_HAVE_SYS_CAPABILITY_H'', False),
     (''LWS_HAVE_TIMEGM'', True), (''LWS_HAVE_TLS_CLIENT_METHOD'', True),
     (''LWS_HAVE_TLSV1_2_CLIENT_METHOD'', True), (''LWS_HAVE_SUSECONDS_T'', True),
     (''LWS_HAVE_UV_VERSION_H'', False), (''LWS_HAVE_VFORK'', True),
     (''LWS_HAVE_X509_get_key_usage'', True), (''LWS_HAVE_X509_VERIFY_PARAM_set1_host'', True)]"

definition config_with :: "(string \<times> bool) list" where
  "config_with = [
     (''LWS_LIBRARY_VERSION'', True), (''LWS_LOGGING_BITFIELD_CLEAR'', True),
     (''LWS_LOGGING_BITFIELD_SET'', True), (''LWS_LOG_TAG_LIFECYCLE'', True),
     (''LWS_MINGW_SUPPORT'', False), (''LWS_NO_CLIENT'', False), (''LWS_NO_DAEMONIZE'', True),
     (''LWS_ONLY_SSPC'', False), (''LWS_OPENSSL_CLIENT_CERTS'', True),
     (''LWS_OPENSSL_SUPPORT'', True), (''LWS_OTA_PUBLIC_JWK'', False),
     (''LWS_OTA_VARIANT'', True), (''LWS_PLAT_OPTEE'', False), (''LWS_PLAT_UNIX'', True),
     (''LWS_PLAT_FREERTOS'', False), (''LWS_PLAT_BAREMETAL'', False), (''LWS_ROLE_CGI'', False),
     (''LWS_ROLE_DBUS'', False), (''LWS_ROLE_H1'', True), (''LWS_ROLE_H2'', True),
     (''LWS_ROLE_RAW'', True), (''LWS_ROLE_RAW_FILE'', True), (''LWS_ROLE_RAW_PROXY'', False),
     (''LWS_ROLE_WS'', True), (''LWS_ROLE_MQTT'', False),
     (''LWS_SHA1_USE_OPENSSL_NAME'', False), (''LWS_SSL_CLIENT_USE_OS_CA_CERTS'', True),
     (''LWS_SSL_SERVER_WITH_ECDH_CERT'', False),
     (''LWS_SUPPRESS_DEPRECATED_API_WARNINGS'', True), (''LWS_TLS_LOG_PLAINTEXT_RX'', False),
     (''LWS_TLS_LOG_PLAINTEXT_TX'', False), (''LWS_WITH_ABSTRACT'', False),
     (''LWS_WITH_ACCESS_LOG'', False), (''LWS_WITH_ACME'', False),
     (''LWS_WITH_ALLOC_METADATA_LWS'', False), (''LWS_WITH_ALSA'', False),
     (''LWS_WITH_SYS_ASYNC_DNS'', False), (''LWS_WITH_BORINGSSL'', False),
     (''LWS_WITH_CGI'', False), (''LWS_WITH_COMPRESSED_BACKTRACES'', False),
     (''LWS_COMPRESSED_BACKTRACES_SNIP_PRE'', True),
     (''LWS_COMPRESSED_BACKTRACES_SNIP_POST'', True), (''LWS_WITH_CONMON'', True),
     (''LWS_WITH_COSE'', False), (''LWS_WITH_CUSTOM_HEADERS'', True),
     (''LWS_WITH_DEPRECATED_LWS_DLL'', False), (''LWS_WITH_DETAILED_LATENCY'', False),
     (''LWS_WITH_DIR'', True), (''LWS_WITH_DLO'', True), (''LWS_WITH_DRIVERS'', False),
     (''LWS_WITH_ESP32'', False), (''LWS_HAVE_NET_ETHERNET_H'', True),
     (''LWS_HAVE_EVBACKEND_LINUXAIO'', False), (''LWS_HAVE_EVBACKEND_IOURING'', False),
     (''LWS_WITH_EXTERNAL_POLL'', False), (''LWS_WITH_FILE_OPS'', True),
     (''LWS_WITH_FSMOUNT'', False), (''LWS_WITH_FTS'', False), (''LWS_WITH_GENCRYPTO'', True),
     (''LWS_WITH_GENERIC_SESSIONS'', False), (''LWS_WITH_GLIB'', False),
     (''LWS_WITH_GTK'', False), (''LWS_WITH_GZINFLATE'', True), (''LWS_WITH_HTTP2'', True),
     (''LWS_WITH_HTTP_BASIC_AUTH'', True), (''LWS_WITH_HTTP_DIGEST_AUTH'', True),
     (''LWS_WITH_HTTP_BROTLI'', False), (''LWS_HTTP_HEADERS_ALL'', False),
     (''LWS_WITH_HTTP_PROXY'', False), (''LWS_WITH_HTTP_STREAM_COMPRESSION'', False),
     (''LWS_WITH_HTTP_UNCOMMON_HEADERS'', True), (''LWS_WITH_IPV6'', False),
     (''LWS_WITH_JOSE'', False), (''LWS_WITH_CBOR'', False), (''LWS_WITH_CBOR_FLOAT'', True),
     (''LWS_WITH_JSONRPC'', True), (''LWS_WITH_LEJP'', True), (''LWS_WITH_LHP'', True),
     (''LWS_WITH_LIBEV'', False), (''LWS_WITH_LIBEVENT'', False), (''LWS_WITH_LIBUV'', False),
     (''LWS_WITH_SDEVENT'', False), (''LWS_WITH_LWSAC'', True), (''LWS_LOGS_TIMESTAMP'', True),
     (''LWS_WITH_MBEDTLS'', False), (''LWS_WITH_MINIZ'', False), (''LWS_WITH_NETLINK'', True),
     (''LWS_WITH_NETWORK'', True), (''LWS_WITH_NO_LOGS'', False), (''LWS_WITH_OTA'', False),
     (''LWS_WITH_CACHE_NSCOOKIEJAR'', True), (''LWS_WITH_CLIENT'', True),
     (''LWS_WITHOUT_EXTENSIONS'', True), (''LWS_WITH_SERVER'', True),
     (''LWS_WITH_SPAWN'', False), (''LWS_WITH_PEER_LIMITS'', False), (''LWS_WITH_JPEG'', True),
     (''LWS_WITH_PLUGINS'', False), (''LWS_WITH_PLUGINS_BUILTIN'', False),
     (''LWS_WITH_POLARSSL'', False), (''LWS_WITH_POLL'', True), (''LWS_WITH_RANGES'', False),
     (''LWS_WITH_RFC6724'', False), (''LWS_WITH_SECURE_STREAMS'', True),
     (''LWS_WITH_SECURE_STREAMS_CPP'', False),
     (''LWS_WITH_SECURE_STREAMS_SYS_AUTH_API_AMAZON_COM'', True),
     (''LWS_WITH_SECURE_STREAMS_PROXY_API'', False),
     (''LWS_WITH_SECURE_STREAMS_STATIC_POLICY_ONLY'', False),
     (''LWS_WITH_SECURE_STREAMS_AUTH_SIGV4'', False),
     (''LWS_WITH_SECURE_STREAMS_BUFFER_DUMP'', False),
     (''LWS_WITH_SS_DIRECT_PROTOCOL_STR'', False), (''LWS_WITH_SELFTESTS'', False),
     (''LWS_WITH_SEQUENCER'', False), (''LWS_WITH_SERVER_STATUS'', False),
     (''LWS_WITH_SYS_SMD'', True), (''LWS_WITH_SMTP'', False), (''LWS_WITH_SOCKS5'', False),
     (''LWS_WITH_STATEFUL_URLDECODE'', False), (''LWS_WITH_STATS'', False),
     (''LWS_WITH_STRUCT_SQLITE3'', False), (''LWS_WITH_STRUCT_JSON'', False),
     (''LWS_WITH_SUL_DEBUGGING'', False), (''LWS_WITH_SQLITE3'', False),
     (''LWS_WITH_SYS_DHCP_CLIENT'', False), (''LWS_WITH_SYS_FAULT_INJECTION'', False),
     (''LWS_WITH_SYS_METRICS'', False), (''LWS_WITH_SYS_NTPCLIENT'', False),
     (''LWS_WITH_SYS_STATE'', True), (''LWS_HAVE_SYSTEMD_H'', False),
     (''LWS_WITHOUT_TEST_SERVER'', False), (''LWS_WITHOUT_TESTAPPS'', False),
     (''LWS_WITH_THREADPOOL'', False), (''LWS_WITH_TLS'', True),
     (''LWS_WITH_TLS_JIT_TRUST'', False), (''LWS_WITH_TLS_SESSIONS'', True),
     (''LWS_WITH_UDP'', True), (''LWS_WITH_ULOOP'', False), (''LWS_WITH_UNIX_SOCK'', True),
     (''LWS_WITH_UPNG'', True), (''LWS_WITH_ZIP_FOPS'', False), (''USE_OLD_CYASSL'', False),
     (''USE_WOLFSSL'', False), (''LWS_WITH_EVENT_LIBS'', False),
     (''LWS_WITH_EVLIB_PLUGINS'', True), (''LWS_WITH_LIBUV_INTERNAL'', False),
     (''LWS_WITH_PLUGINS_API'', False), (''LWS_HAVE_RTA_PREF'', True),
     (''PICO_SDK_PATH'', False), (''LWS_HAVE_LINUX_IPV6_H'', True)]"

definition is_defined :: "string \<Rightarrow> bool" where
  "is_defined name \<longleftrightarrow> (name, True) \<in> set config_have \<union> set config_with"

text \<open>The version number is a sum without parentheses around it.\<close>

definition LWS_LIBRARY_VERSION_NUMBER :: int where
  "LWS_LIBRARY_VERSION_NUMBER = (4 * 1000000) + (3 * 1000) + 99"

section \<open>Conditions\<close>

datatype guard = Defined string | Not guard | And guard guard | Or guard guard

primrec holds :: "guard \<Rightarrow> bool" where
  "holds (Defined name) \<longleftrightarrow> is_defined name"
| "holds (Not g) \<longleftrightarrow> \<not> holds g"
| "holds (And g h) \<longleftrightarrow> holds g \<and> holds h"
| "holds (Or g h) \<longleftrightarrow> holds g \<or> holds h"

text \<open>The members that the preprocessor leaves, given the conditions around each group.\<close>

definition compiled :: "(guard list \<times> string list) list \<Rightarrow> string list" where
  "compiled layout = concat (map snd (filter (\<lambda>(gs, ms). list_all holds gs) layout))"

section \<open>The members with their conditions\<close>

definition layout_listen :: "(guard list \<times> string list) list" where
  "layout_listen = [
     ([Defined ''LWS_WITH_NETWORK''],
      [''iface'', ''protocols'']),
     ([Defined ''LWS_WITH_NETWORK'', Defined ''LWS_ROLE_WS''],
      [''extensions'']),
     ([Defined ''LWS_WITH_NETWORK'', Or (Defined ''LWS_ROLE_H1'') (Defined ''LWS_ROLE_H2'')],
      [''token_limits'', ''http_proxy_address'', ''headers'', ''reject_service_keywords'',
       ''pvo'', ''log_filepath'', ''mounts'', ''server_string'', ''error_document_404'',
       ''port'', ''http_proxy_port'', ''max_http_header_data2'', ''max_http_header_pool2'',
       ''keepalive_timeout'', ''http2_settings'', ''max_http_header_data'',
       ''max_http_header_pool''])]"

definition layout_server_tls :: "(guard list \<times> string list) list" where
  "layout_server_tls = [
     ([Defined ''LWS_WITH_NETWORK'', Defined ''LWS_WITH_TLS''],
      [''ssl_private_key_password'', ''ssl_cert_filepath'', ''ssl_private_key_filepath'',
       ''ssl_ca_filepath'', ''ssl_cipher_list'', ''ecdh_curve'', ''tls1_3_plus_cipher_list'',
       ''server_ssl_cert_mem'', ''server_ssl_private_key_mem'', ''server_ssl_ca_mem'',
       ''ssl_options_set'', ''ssl_options_clear'', ''simultaneous_ssl_restriction'',
       ''simultaneous_ssl_handshake_restriction'', ''ssl_info_event_mask'',
       ''server_ssl_cert_mem_len'', ''server_ssl_private_key_mem_len'',
       ''server_ssl_ca_mem_len'', ''alpn''])]"

definition layout_client_tls :: "(guard list \<times> string list) list" where
  "layout_client_tls = [
     ([Defined ''LWS_WITH_NETWORK'', Defined ''LWS_WITH_TLS'', Defined ''LWS_WITH_CLIENT''],
      [''client_ssl_private_key_password'', ''client_ssl_cert_filepath'',
       ''client_ssl_cert_mem'', ''client_ssl_cert_mem_len'',
       ''client_ssl_private_key_filepath'', ''client_ssl_key_mem'',
       ''client_ssl_ca_filepath'', ''client_ssl_ca_mem'', ''client_ssl_cipher_list'',
       ''client_tls_1_3_plus_cipher_list'', ''ssl_client_options_set'',
       ''ssl_client_options_clear'', ''client_ssl_ca_mem_len'', ''client_ssl_key_mem_len'']),
     ([Defined ''LWS_WITH_NETWORK'', Defined ''LWS_WITH_TLS'', Not (Defined ''LWS_WITH_MBEDTLS'')],
      [''provided_client_ssl_ctx'']),
     ([Defined ''LWS_WITH_NETWORK'', Defined ''LWS_WITH_TLS'', Not (Not (Defined ''LWS_WITH_MBEDTLS''))],
      [''mbedtls_client_preload_filepath''])]"

definition layout_timeouts :: "(guard list \<times> string list) list" where
  "layout_timeouts = [
     ([Defined ''LWS_WITH_NETWORK''],
      [''ka_time'', ''ka_probes'', ''ka_interval'', ''timeout_secs'',
       ''connect_timeout_secs'', ''bind_iface'', ''timeout_secs_ah_idle'']),
     ([Defined ''LWS_WITH_TLS_SESSIONS''],
      [''tls_session_timeout'', ''tls_session_cache_max''])]"

definition layout_process :: "(guard list \<times> string list) list" where
  "layout_process = [
     ([],
      [''gid'', ''uid'', ''options'', ''user'', ''count_threads'', ''fd_limit_per_thread'',
       ''vhost_name'']),
     ([Defined ''LWS_WITH_PLUGINS''],
      [''plugin_dirs'']),
     ([],
      [''external_baggage_free_on_destroy'', ''pt_serv_buf_size'']),
     ([Defined ''LWS_WITH_FILE_OPS''],
      [''fops'']),
     ([Defined ''LWS_WITH_SOCKS5''],
      [''socks_proxy_address'', ''socks_proxy_port'']),
     ([And (Defined ''LWS_HAVE_SYS_CAPABILITY_H'') (Defined ''LWS_HAVE_LIBCAP'')],
      [''caps'', ''count_caps'']),
     ([],
      [''foreign_loops'', ''signal_cb'', ''pcontext'', ''finalize'', ''finalize_arg''])]"

definition layout_policy :: "(guard list \<times> string list) list" where
  "layout_policy = [
     ([],
      [''listen_accept_role'', ''listen_accept_protocol'', ''pprotocols'', ''username'',
       ''groupname'', ''unix_socket_perms'', ''system_ops'', ''retry_and_idle_policy'']),
     ([Defined ''LWS_WITH_SYS_STATE''],
      [''register_notifier_list'']),
     ([Defined ''LWS_WITH_SECURE_STREAMS'', Defined ''LWS_WITH_SECURE_STREAMS_STATIC_POLICY_ONLY''],
      [''pss_policies'']),
     ([Defined ''LWS_WITH_SECURE_STREAMS'', Not (Defined ''LWS_WITH_SECURE_STREAMS_STATIC_POLICY_ONLY'')],
      [''pss_policies_json'']),
     ([Defined ''LWS_WITH_SECURE_STREAMS''],
      [''pss_plugins'', ''ss_proxy_bind'', ''ss_proxy_address'', ''ss_proxy_port'',
       ''txp_ops_ssproxy'', ''txp_ssproxy_info'', ''txp_ops_sspc'']),
     ([],
      [''rlimit_nofile'']),
     ([Defined ''LWS_WITH_PEER_LIMITS''],
      [''pl_notify_cb'', ''ip_limit_ah'', ''ip_limit_wsi'']),
     ([Defined ''LWS_WITH_SYS_FAULT_INJECTION''],
      [''fic''])]"

definition layout_rest :: "(guard list \<times> string list) list" where
  "layout_rest = [
     ([Defined ''LWS_WITH_SYS_SMD''],
      [''early_smd_cb'', ''early_smd_opaque'', ''early_smd_class_filter'', ''smd_ttl_us'',
       ''smd_queue_depth'']),
     ([Defined ''LWS_WITH_SYS_METRICS''],
      [''metrics_policies'', ''metrics_prefix'']),
     ([],
      [''fo_listen_queue'', ''event_lib_custom'']),
     ([Defined ''LWS_WITH_TLS_JIT_TRUST''],
      [''jitt_cache_max_footprint'', ''vh_idle_grace_ms'']),
     ([],
      [''log_cx'']),
     ([And (Defined ''LWS_WITH_CACHE_NSCOOKIEJAR'') (Defined ''LWS_WITH_CLIENT'')],
      [''http_nsc_filepath'', ''http_nsc_heap_max_footprint'', ''http_nsc_heap_max_items'',
       ''http_nsc_heap_max_payload'']),
     ([Defined ''LWS_WITH_SYS_ASYNC_DNS''],
      [''async_dns_servers'']),
     ([Defined ''WIN32''],
      [''win32_connect_check_interval_usec'']),
     ([],
      [''default_loglevel'', ''vh_listen_sockfd'', ''_unused''])]"

section \<open>What is compiled\<close>

lemma switches:
  "\<not> is_defined ''LWS_HAVE_LIBCAP''"
  "\<not> is_defined ''LWS_HAVE_SYS_CAPABILITY_H''"
  "is_defined ''LWS_ROLE_H1''"
  "is_defined ''LWS_ROLE_H2''"
  "is_defined ''LWS_ROLE_WS''"
  "is_defined ''LWS_WITH_CACHE_NSCOOKIEJAR''"
  "is_defined ''LWS_WITH_CLIENT''"
  "is_defined ''LWS_WITH_FILE_OPS''"
  "\<not> is_defined ''LWS_WITH_MBEDTLS''"
  "is_defined ''LWS_WITH_NETWORK''"
  "\<not> is_defined ''LWS_WITH_PEER_LIMITS''"
  "\<not> is_defined ''LWS_WITH_PLUGINS''"
  "is_defined ''LWS_WITH_SECURE_STREAMS''"
  "\<not> is_defined ''LWS_WITH_SECURE_STREAMS_STATIC_POLICY_ONLY''"
  "\<not> is_defined ''LWS_WITH_SOCKS5''"
  "\<not> is_defined ''LWS_WITH_SYS_ASYNC_DNS''"
  "\<not> is_defined ''LWS_WITH_SYS_FAULT_INJECTION''"
  "\<not> is_defined ''LWS_WITH_SYS_METRICS''"
  "is_defined ''LWS_WITH_SYS_SMD''"
  "is_defined ''LWS_WITH_SYS_STATE''"
  "is_defined ''LWS_WITH_TLS''"
  "\<not> is_defined ''LWS_WITH_TLS_JIT_TRUST''"
  "is_defined ''LWS_WITH_TLS_SESSIONS''"
  "\<not> is_defined ''WIN32''"
  by (simp_all add: is_defined_def config_have_def config_with_def)

lemmas layouts = compiled_def layout_listen_def layout_server_tls_def layout_client_tls_def
  layout_timeouts_def layout_process_def layout_policy_def layout_rest_def

text \<open>The members of the records, part by part.\<close>

lemma compiled_members:
  "compiled layout_listen = [
     ''iface'', ''protocols'', ''extensions'', ''token_limits'', ''http_proxy_address'',
     ''headers'', ''reject_service_keywords'', ''pvo'', ''log_filepath'', ''mounts'',
     ''server_string'', ''error_document_404'', ''port'', ''http_proxy_port'',
     ''max_http_header_data2'', ''max_http_header_pool2'', ''keepalive_timeout'',
     ''http2_settings'', ''max_http_header_data'', ''max_http_header_pool'']"
  "compiled layout_server_tls = [
     ''ssl_private_key_password'', ''ssl_cert_filepath'', ''ssl_private_key_filepath'',
     ''ssl_ca_filepath'', ''ssl_cipher_list'', ''ecdh_curve'', ''tls1_3_plus_cipher_list'',
     ''server_ssl_cert_mem'', ''server_ssl_private_key_mem'', ''server_ssl_ca_mem'',
     ''ssl_options_set'', ''ssl_options_clear'', ''simultaneous_ssl_restriction'',
     ''simultaneous_ssl_handshake_restriction'', ''ssl_info_event_mask'',
     ''server_ssl_cert_mem_len'', ''server_ssl_private_key_mem_len'',
     ''server_ssl_ca_mem_len'', ''alpn'']"
  "compiled layout_client_tls = [
     ''client_ssl_private_key_password'', ''client_ssl_cert_filepath'',
     ''client_ssl_cert_mem'', ''client_ssl_cert_mem_len'',
     ''client_ssl_private_key_filepath'', ''client_ssl_key_mem'',
     ''client_ssl_ca_filepath'', ''client_ssl_ca_mem'', ''client_ssl_cipher_list'',
     ''client_tls_1_3_plus_cipher_list'', ''ssl_client_options_set'',
     ''ssl_client_options_clear'', ''client_ssl_ca_mem_len'', ''client_ssl_key_mem_len'',
     ''provided_client_ssl_ctx'']"
  "compiled layout_timeouts = [
     ''ka_time'', ''ka_probes'', ''ka_interval'', ''timeout_secs'',
     ''connect_timeout_secs'', ''bind_iface'', ''timeout_secs_ah_idle'',
     ''tls_session_timeout'', ''tls_session_cache_max'']"
  "compiled layout_process = [
     ''gid'', ''uid'', ''options'', ''user'', ''count_threads'', ''fd_limit_per_thread'',
     ''vhost_name'', ''external_baggage_free_on_destroy'', ''pt_serv_buf_size'', ''fops'',
     ''foreign_loops'', ''signal_cb'', ''pcontext'', ''finalize'', ''finalize_arg'']"
  "compiled layout_policy = [
     ''listen_accept_role'', ''listen_accept_protocol'', ''pprotocols'', ''username'',
     ''groupname'', ''unix_socket_perms'', ''system_ops'', ''retry_and_idle_policy'',
     ''register_notifier_list'', ''pss_policies_json'', ''pss_plugins'', ''ss_proxy_bind'',
     ''ss_proxy_address'', ''ss_proxy_port'', ''txp_ops_ssproxy'', ''txp_ssproxy_info'',
     ''txp_ops_sspc'', ''rlimit_nofile'']"
  "compiled layout_rest = [
     ''early_smd_cb'', ''early_smd_opaque'', ''early_smd_class_filter'', ''smd_ttl_us'',
     ''smd_queue_depth'', ''fo_listen_queue'', ''event_lib_custom'', ''log_cx'',
     ''http_nsc_filepath'', ''http_nsc_heap_max_footprint'', ''http_nsc_heap_max_items'',
     ''http_nsc_heap_max_payload'', ''default_loglevel'', ''vh_listen_sockfd'', ''_unused'']"
  by (simp_all add: layouts switches)

end
