(* ===== verification/OpensslErr.thy ===== *)
theory OpensslErr
  imports Enumerations
begin

text \<open>
  \<^verbatim>\<open>openssl/err.h\<close>: how an error of the TLS library is packed into an unsigned long, which has
  32 bits on the target, and read back.  Bit 31 marks the errors of the operating system;
  otherwise there are 8 bits for the library and 23 for the reason, five of which are flags.
\<close>

section \<open>Libraries\<close>

datatype err_lib =
    ERR_LIB_NONE
  | ERR_LIB_SYS
  | ERR_LIB_BN
  | ERR_LIB_RSA
  | ERR_LIB_DH
  | ERR_LIB_EVP
  | ERR_LIB_BUF
  | ERR_LIB_OBJ
  | ERR_LIB_PEM
  | ERR_LIB_DSA
  | ERR_LIB_X509
  | ERR_LIB_ASN1
  | ERR_LIB_CONF
  | ERR_LIB_CRYPTO
  | ERR_LIB_EC
  | ERR_LIB_SSL
  | ERR_LIB_BIO
  | ERR_LIB_PKCS7
  | ERR_LIB_X509V3
  | ERR_LIB_PKCS12
  | ERR_LIB_RAND
  | ERR_LIB_DSO
  | ERR_LIB_ENGINE
  | ERR_LIB_OCSP
  | ERR_LIB_UI
  | ERR_LIB_COMP
  | ERR_LIB_ECDSA
  | ERR_LIB_ECDH
  | ERR_LIB_OSSL_STORE
  | ERR_LIB_FIPS
  | ERR_LIB_CMS
  | ERR_LIB_TS
  | ERR_LIB_HMAC
  | ERR_LIB_CT
  | ERR_LIB_ASYNC
  | ERR_LIB_KDF
  | ERR_LIB_SM2
  | ERR_LIB_ESS
  | ERR_LIB_PROP
  | ERR_LIB_CRMF
  | ERR_LIB_PROV
  | ERR_LIB_CMP
  | ERR_LIB_OSSL_ENCODER
  | ERR_LIB_OSSL_DECODER
  | ERR_LIB_HTTP
  | ERR_LIB_USER

primrec lib_code :: "err_lib \<Rightarrow> int" where
  "lib_code ERR_LIB_NONE = 1"
| "lib_code ERR_LIB_SYS = 2"
| "lib_code ERR_LIB_BN = 3"
| "lib_code ERR_LIB_RSA = 4"
| "lib_code ERR_LIB_DH = 5"
| "lib_code ERR_LIB_EVP = 6"
| "lib_code ERR_LIB_BUF = 7"
| "lib_code ERR_LIB_OBJ = 8"
| "lib_code ERR_LIB_PEM = 9"
| "lib_code ERR_LIB_DSA = 10"
| "lib_code ERR_LIB_X509 = 11"
| "lib_code ERR_LIB_ASN1 = 13"
| "lib_code ERR_LIB_CONF = 14"
| "lib_code ERR_LIB_CRYPTO = 15"
| "lib_code ERR_LIB_EC = 16"
| "lib_code ERR_LIB_SSL = 20"
| "lib_code ERR_LIB_BIO = 32"
| "lib_code ERR_LIB_PKCS7 = 33"
| "lib_code ERR_LIB_X509V3 = 34"
| "lib_code ERR_LIB_PKCS12 = 35"
| "lib_code ERR_LIB_RAND = 36"
| "lib_code ERR_LIB_DSO = 37"
| "lib_code ERR_LIB_ENGINE = 38"
| "lib_code ERR_LIB_OCSP = 39"
| "lib_code ERR_LIB_UI = 40"
| "lib_code ERR_LIB_COMP = 41"
| "lib_code ERR_LIB_ECDSA = 42"
| "lib_code ERR_LIB_ECDH = 43"
| "lib_code ERR_LIB_OSSL_STORE = 44"
| "lib_code ERR_LIB_FIPS = 45"
| "lib_code ERR_LIB_CMS = 46"
| "lib_code ERR_LIB_TS = 47"
| "lib_code ERR_LIB_HMAC = 48"
| "lib_code ERR_LIB_CT = 50"
| "lib_code ERR_LIB_ASYNC = 51"
| "lib_code ERR_LIB_KDF = 52"
| "lib_code ERR_LIB_SM2 = 53"
| "lib_code ERR_LIB_ESS = 54"
| "lib_code ERR_LIB_PROP = 55"
| "lib_code ERR_LIB_CRMF = 56"
| "lib_code ERR_LIB_PROV = 57"
| "lib_code ERR_LIB_CMP = 58"
| "lib_code ERR_LIB_OSSL_ENCODER = 59"
| "lib_code ERR_LIB_OSSL_DECODER = 60"
| "lib_code ERR_LIB_HTTP = 61"
| "lib_code ERR_LIB_USER = 128"

definition err_libs :: "err_lib list" where
  "err_libs = [
     ERR_LIB_NONE,
     ERR_LIB_SYS,
     ERR_LIB_BN,
     ERR_LIB_RSA,
     ERR_LIB_DH,
     ERR_LIB_EVP,
     ERR_LIB_BUF,
     ERR_LIB_OBJ,
     ERR_LIB_PEM,
     ERR_LIB_DSA,
     ERR_LIB_X509,
     ERR_LIB_ASN1,
     ERR_LIB_CONF,
     ERR_LIB_CRYPTO,
     ERR_LIB_EC,
     ERR_LIB_SSL,
     ERR_LIB_BIO,
     ERR_LIB_PKCS7,
     ERR_LIB_X509V3,
     ERR_LIB_PKCS12,
     ERR_LIB_RAND,
     ERR_LIB_DSO,
     ERR_LIB_ENGINE,
     ERR_LIB_OCSP,
     ERR_LIB_UI,
     ERR_LIB_COMP,
     ERR_LIB_ECDSA,
     ERR_LIB_ECDH,
     ERR_LIB_OSSL_STORE,
     ERR_LIB_FIPS,
     ERR_LIB_CMS,
     ERR_LIB_TS,
     ERR_LIB_HMAC,
     ERR_LIB_CT,
     ERR_LIB_ASYNC,
     ERR_LIB_KDF,
     ERR_LIB_SM2,
     ERR_LIB_ESS,
     ERR_LIB_PROP,
     ERR_LIB_CRMF,
     ERR_LIB_PROV,
     ERR_LIB_CMP,
     ERR_LIB_OSSL_ENCODER,
     ERR_LIB_OSSL_DECODER,
     ERR_LIB_HTTP,
     ERR_LIB_USER]"

lemma err_libs_complete [simp]: "l \<in> set err_libs"
  by (cases l) (simp_all add: err_libs_def)

interpretation err_libs: c_enum lib_code err_libs
  by unfold_locales (simp add: err_libs_def)

section \<open>Packing and reading back\<close>

definition ERR_SYSTEM_FLAG :: "32 word" where
  "ERR_SYSTEM_FLAG = 0x7FFFFFFF + 1"

definition ERR_SYSTEM_MASK :: "32 word" where
  "ERR_SYSTEM_MASK = 0x7FFFFFFF"

definition ERR_LIB_OFFSET :: nat where
  "ERR_LIB_OFFSET = 23"

definition ERR_LIB_MASK :: "32 word" where
  "ERR_LIB_MASK = 0xFF"

definition ERR_RFLAGS_OFFSET :: nat where
  "ERR_RFLAGS_OFFSET = 18"

definition ERR_RFLAGS_MASK :: "32 word" where
  "ERR_RFLAGS_MASK = 0x1F"

definition ERR_REASON_MASK :: "32 word" where
  "ERR_REASON_MASK = 0x7FFFFF"

definition ERR_RFLAG_FATAL :: "32 word" where
  "ERR_RFLAG_FATAL = push_bit ERR_RFLAGS_OFFSET 0x1"

definition ERR_RFLAG_COMMON :: "32 word" where
  "ERR_RFLAG_COMMON = push_bit ERR_RFLAGS_OFFSET 0x2"

definition ERR_SYSTEM_ERROR :: "32 word \<Rightarrow> bool" where
  "ERR_SYSTEM_ERROR errcode \<longleftrightarrow> errcode AND ERR_SYSTEM_FLAG \<noteq> 0"

definition ERR_GET_LIB :: "32 word \<Rightarrow> 32 word" where
  "ERR_GET_LIB errcode =
     (if ERR_SYSTEM_ERROR errcode then word_of_int (lib_code ERR_LIB_SYS)
      else drop_bit ERR_LIB_OFFSET errcode AND ERR_LIB_MASK)"

definition ERR_GET_RFLAGS :: "32 word \<Rightarrow> 32 word" where
  "ERR_GET_RFLAGS errcode =
     (if ERR_SYSTEM_ERROR errcode then 0
      else errcode AND push_bit ERR_RFLAGS_OFFSET ERR_RFLAGS_MASK)"

definition ERR_GET_REASON :: "32 word \<Rightarrow> 32 word" where
  "ERR_GET_REASON errcode =
     (if ERR_SYSTEM_ERROR errcode then errcode AND ERR_SYSTEM_MASK
      else errcode AND ERR_REASON_MASK)"

definition ERR_FATAL_ERROR :: "32 word \<Rightarrow> bool" where
  "ERR_FATAL_ERROR errcode \<longleftrightarrow> ERR_GET_RFLAGS errcode AND ERR_RFLAG_FATAL \<noteq> 0"

definition ERR_COMMON_ERROR :: "32 word \<Rightarrow> bool" where
  "ERR_COMMON_ERROR errcode \<longleftrightarrow> ERR_GET_RFLAGS errcode AND ERR_RFLAG_COMMON \<noteq> 0"

definition ERR_PACK :: "32 word \<Rightarrow> 32 word \<Rightarrow> 32 word \<Rightarrow> 32 word" where
  "ERR_PACK lib func reason =
     push_bit ERR_LIB_OFFSET (lib AND ERR_LIB_MASK) OR (reason AND ERR_REASON_MASK)"

section \<open>Reasons of all libraries\<close>

definition ERR_R_FATAL :: "32 word" where
  "ERR_R_FATAL = ERR_RFLAG_FATAL OR ERR_RFLAG_COMMON"

datatype err_lib_reason =
    ERR_R_SYS_LIB
  | ERR_R_BN_LIB
  | ERR_R_RSA_LIB
  | ERR_R_DH_LIB
  | ERR_R_EVP_LIB
  | ERR_R_BUF_LIB
  | ERR_R_OBJ_LIB
  | ERR_R_PEM_LIB
  | ERR_R_DSA_LIB
  | ERR_R_X509_LIB
  | ERR_R_ASN1_LIB
  | ERR_R_CONF_LIB
  | ERR_R_CRYPTO_LIB
  | ERR_R_EC_LIB
  | ERR_R_SSL_LIB
  | ERR_R_BIO_LIB
  | ERR_R_PKCS7_LIB
  | ERR_R_X509V3_LIB
  | ERR_R_PKCS12_LIB
  | ERR_R_RAND_LIB
  | ERR_R_DSO_LIB
  | ERR_R_ENGINE_LIB
  | ERR_R_UI_LIB
  | ERR_R_ECDSA_LIB
  | ERR_R_OSSL_STORE_LIB
  | ERR_R_CMS_LIB
  | ERR_R_TS_LIB
  | ERR_R_CT_LIB
  | ERR_R_PROV_LIB
  | ERR_R_ESS_LIB
  | ERR_R_CMP_LIB
  | ERR_R_OSSL_ENCODER_LIB
  | ERR_R_OSSL_DECODER_LIB

primrec reason_lib :: "err_lib_reason \<Rightarrow> err_lib" where
  "reason_lib ERR_R_SYS_LIB = ERR_LIB_SYS"
| "reason_lib ERR_R_BN_LIB = ERR_LIB_BN"
| "reason_lib ERR_R_RSA_LIB = ERR_LIB_RSA"
| "reason_lib ERR_R_DH_LIB = ERR_LIB_DH"
| "reason_lib ERR_R_EVP_LIB = ERR_LIB_EVP"
| "reason_lib ERR_R_BUF_LIB = ERR_LIB_BUF"
| "reason_lib ERR_R_OBJ_LIB = ERR_LIB_OBJ"
| "reason_lib ERR_R_PEM_LIB = ERR_LIB_PEM"
| "reason_lib ERR_R_DSA_LIB = ERR_LIB_DSA"
| "reason_lib ERR_R_X509_LIB = ERR_LIB_X509"
| "reason_lib ERR_R_ASN1_LIB = ERR_LIB_ASN1"
| "reason_lib ERR_R_CONF_LIB = ERR_LIB_CONF"
| "reason_lib ERR_R_CRYPTO_LIB = ERR_LIB_CRYPTO"
| "reason_lib ERR_R_EC_LIB = ERR_LIB_EC"
| "reason_lib ERR_R_SSL_LIB = ERR_LIB_SSL"
| "reason_lib ERR_R_BIO_LIB = ERR_LIB_BIO"
| "reason_lib ERR_R_PKCS7_LIB = ERR_LIB_PKCS7"
| "reason_lib ERR_R_X509V3_LIB = ERR_LIB_X509V3"
| "reason_lib ERR_R_PKCS12_LIB = ERR_LIB_PKCS12"
| "reason_lib ERR_R_RAND_LIB = ERR_LIB_RAND"
| "reason_lib ERR_R_DSO_LIB = ERR_LIB_DSO"
| "reason_lib ERR_R_ENGINE_LIB = ERR_LIB_ENGINE"
| "reason_lib ERR_R_UI_LIB = ERR_LIB_UI"
| "reason_lib ERR_R_ECDSA_LIB = ERR_LIB_ECDSA"
| "reason_lib ERR_R_OSSL_STORE_LIB = ERR_LIB_OSSL_STORE"
| "reason_lib ERR_R_CMS_LIB = ERR_LIB_CMS"
| "reason_lib ERR_R_TS_LIB = ERR_LIB_TS"
| "reason_lib ERR_R_CT_LIB = ERR_LIB_CT"
| "reason_lib ERR_R_PROV_LIB = ERR_LIB_PROV"
| "reason_lib ERR_R_ESS_LIB = ERR_LIB_ESS"
| "reason_lib ERR_R_CMP_LIB = ERR_LIB_CMP"
| "reason_lib ERR_R_OSSL_ENCODER_LIB = ERR_LIB_OSSL_ENCODER"
| "reason_lib ERR_R_OSSL_DECODER_LIB = ERR_LIB_OSSL_DECODER"

definition lib_reason :: "err_lib_reason \<Rightarrow> 32 word" where
  "lib_reason r = word_of_int (lib_code (reason_lib r)) OR ERR_RFLAG_COMMON"

datatype err_other_reason =
    ERR_R_MALLOC_FAILURE
  | ERR_R_SHOULD_NOT_HAVE_BEEN_CALLED
  | ERR_R_PASSED_NULL_PARAMETER
  | ERR_R_INTERNAL_ERROR
  | ERR_R_DISABLED
  | ERR_R_INIT_FAIL
  | ERR_R_PASSED_INVALID_ARGUMENT
  | ERR_R_OPERATION_FAIL
  | ERR_R_INVALID_PROVIDER_FUNCTIONS
  | ERR_R_INTERRUPTED_OR_CANCELLED
  | ERR_R_NESTED_ASN1_ERROR
  | ERR_R_MISSING_ASN1_EOS
  | ERR_R_UNSUPPORTED
  | ERR_R_FETCH_FAILED
  | ERR_R_INVALID_PROPERTY_DEFINITION
  | ERR_R_UNABLE_TO_GET_READ_LOCK
  | ERR_R_UNABLE_TO_GET_WRITE_LOCK

primrec other_reason :: "err_other_reason \<Rightarrow> 32 word" where
  "other_reason ERR_R_MALLOC_FAILURE = 256 OR ERR_R_FATAL"
| "other_reason ERR_R_SHOULD_NOT_HAVE_BEEN_CALLED = 257 OR ERR_R_FATAL"
| "other_reason ERR_R_PASSED_NULL_PARAMETER = 258 OR ERR_R_FATAL"
| "other_reason ERR_R_INTERNAL_ERROR = 259 OR ERR_R_FATAL"
| "other_reason ERR_R_DISABLED = 260 OR ERR_R_FATAL"
| "other_reason ERR_R_INIT_FAIL = 261 OR ERR_R_FATAL"
| "other_reason ERR_R_PASSED_INVALID_ARGUMENT = 262 OR ERR_RFLAG_COMMON"
| "other_reason ERR_R_OPERATION_FAIL = 263 OR ERR_R_FATAL"
| "other_reason ERR_R_INVALID_PROVIDER_FUNCTIONS = 264 OR ERR_R_FATAL"
| "other_reason ERR_R_INTERRUPTED_OR_CANCELLED = 265 OR ERR_RFLAG_COMMON"
| "other_reason ERR_R_NESTED_ASN1_ERROR = 266 OR ERR_RFLAG_COMMON"
| "other_reason ERR_R_MISSING_ASN1_EOS = 267 OR ERR_RFLAG_COMMON"
| "other_reason ERR_R_UNSUPPORTED = 268 OR ERR_RFLAG_COMMON"
| "other_reason ERR_R_FETCH_FAILED = 269 OR ERR_RFLAG_COMMON"
| "other_reason ERR_R_INVALID_PROPERTY_DEFINITION = 270 OR ERR_RFLAG_COMMON"
| "other_reason ERR_R_UNABLE_TO_GET_READ_LOCK = 271 OR ERR_R_FATAL"
| "other_reason ERR_R_UNABLE_TO_GET_WRITE_LOCK = 272 OR ERR_R_FATAL"

section \<open>The layout in bits\<close>

lemma err_masks:
  "ERR_LIB_MASK = mask 8" "ERR_REASON_MASK = mask 23" "ERR_SYSTEM_MASK = mask 31" "ERR_RFLAGS_MASK = mask 5"
  by (simp_all add: ERR_LIB_MASK_def ERR_REASON_MASK_def ERR_SYSTEM_MASK_def ERR_RFLAGS_MASK_def mask_eq_exp_minus_1)

lemma system_error_bit: "ERR_SYSTEM_ERROR e \<longleftrightarrow> bit e 31"
proof -
  have f: "ERR_SYSTEM_FLAG = shl 31" by (simp add: ERR_SYSTEM_FLAG_def shl_def)
  show ?thesis by (simp add: ERR_SYSTEM_ERROR_def f and_shl_nonzero)
qed

lemma bit_pack: "bit (ERR_PACK lib func reason) n \<longleftrightarrow>
    (if n < 23 then bit reason n else n < 31 \<and> bit lib (n - 23))"
  by (auto simp: ERR_PACK_def ERR_LIB_OFFSET_def err_masks bit_simps)

text \<open>
  Packing and reading an error are inverse.  A packed error is never one of the operating
  system, its library and its reason are those that were packed, cut to 8 and 23 bits, and
  every error that is not one of the operating system is the packing of the library and the
  reason that are read from it.
\<close>

lemma error_pack_roundtrip:
  "\<not> ERR_SYSTEM_ERROR (ERR_PACK lib func reason) \<and>
   ERR_GET_LIB (ERR_PACK lib func reason) = take_bit 8 lib \<and>
   ERR_GET_REASON (ERR_PACK lib func reason) = take_bit 23 reason \<and>
   (ERR_SYSTEM_ERROR e \<or> ERR_PACK (ERR_GET_LIB e) func (ERR_GET_REASON e) = e)"
proof -
  have p: "\<not> ERR_SYSTEM_ERROR (ERR_PACK lib func reason)"
    by (simp add: system_error_bit bit_pack)
  have l: "ERR_GET_LIB (ERR_PACK lib func reason) = take_bit 8 lib"
    using p by (intro bit_eqI) (auto simp: ERR_GET_LIB_def ERR_LIB_OFFSET_def err_masks bit_simps bit_pack)
  have r: "ERR_GET_REASON (ERR_PACK lib func reason) = take_bit 23 reason"
    using p by (intro bit_eqI) (auto simp: ERR_GET_REASON_def err_masks bit_simps bit_pack)
  have "ERR_PACK (ERR_GET_LIB e) func (ERR_GET_REASON e) = e" if s: "\<not> ERR_SYSTEM_ERROR e"
  proof (rule bit_eqI)
    fix n
    assume "possible_bit TYPE(32 word) n"
    then have "n < 31 \<or> n = 31" by auto
    then show "bit (ERR_PACK (ERR_GET_LIB e) func (ERR_GET_REASON e)) n = bit e n"
      using s by (auto simp: bit_pack ERR_GET_LIB_def ERR_GET_REASON_def ERR_LIB_OFFSET_def err_masks
          bit_simps system_error_bit)
  qed
  with p l r show ?thesis by blast
qed

lemma flag_bits: "ERR_RFLAG_FATAL = shl 18" "ERR_RFLAG_COMMON = shl 19"
  by (simp_all add: ERR_RFLAG_FATAL_def ERR_RFLAG_COMMON_def ERR_RFLAGS_OFFSET_def shl_def)

lemma packed_flags:
  "ERR_COMMON_ERROR (ERR_PACK lib func reason) \<longleftrightarrow> bit reason 19"
  "ERR_FATAL_ERROR (ERR_PACK lib func reason) \<longleftrightarrow> bit reason 18"
  unfolding ERR_COMMON_ERROR_def ERR_FATAL_ERROR_def flag_bits and_shl_nonzero
  by (auto simp: ERR_GET_RFLAGS_def ERR_RFLAGS_OFFSET_def err_masks system_error_bit bit_pack bit_shl bit_simps)

lemma lib_reason_flags: "bit (lib_reason r) 19 \<and> \<not> bit (lib_reason r) 18 \<and> take_bit 18 (lib_reason r) < 256"
  by (cases r) (simp_all add: lib_reason_def ERR_RFLAG_COMMON_def ERR_RFLAGS_OFFSET_def)

lemma other_reason_flags: "bit (other_reason q) 19 \<and> 256 \<le> take_bit 18 (other_reason q)"
  by (cases q) (simp_all add: ERR_R_FATAL_def ERR_RFLAG_FATAL_def ERR_RFLAG_COMMON_def ERR_RFLAGS_OFFSET_def)

text \<open>
  The reasons that all libraries share carry the flag for it.  Packed with any library,
  each of them is read back as common, it is fatal exactly if it was defined with the fatal
  flag, and the reasons that name a library, and only these, are below 256 without the flags.
\<close>

theorem shared_reasons_flagged:
  "ERR_COMMON_ERROR (ERR_PACK lib func (lib_reason r)) \<and> \<not> ERR_FATAL_ERROR (ERR_PACK lib func (lib_reason r)) \<and>
   take_bit 18 (lib_reason r) < 256 \<and>
   ERR_COMMON_ERROR (ERR_PACK lib func (other_reason q)) \<and>
   (ERR_FATAL_ERROR (ERR_PACK lib func (other_reason q)) \<longleftrightarrow> has_bits (other_reason q) ERR_R_FATAL) \<and>
   256 \<le> take_bit 18 (other_reason q)"
proof -
  have "has_bits (other_reason q) ERR_R_FATAL \<longleftrightarrow> bit (other_reason q) 18"
    using other_reason_flags [of q] by (auto simp: has_bits_iff ERR_R_FATAL_def flag_bits bit_or_iff bit_shl)
  then show ?thesis using lib_reason_flags [of r] other_reason_flags [of q] by (simp add: packed_flags)
qed

end
