(* ===== verification/TlsVerify.thy ===== *)
theory TlsVerify
  imports Enumerations
begin

text \<open>
  \<^verbatim>\<open>openssl/x509_vfy.h\<close>: the results of the verification of a certificate, which is what a
  verified TLS connection stands on, and the flags that change the verification.
\<close>

section \<open>Results\<close>

text \<open>The results about the certificate itself, then those about policies, hosts and strictness.\<close>

datatype chain_result =
    X509_V_OK
  | X509_V_ERR_UNSPECIFIED
  | X509_V_ERR_UNABLE_TO_GET_ISSUER_CERT
  | X509_V_ERR_UNABLE_TO_GET_CRL
  | X509_V_ERR_UNABLE_TO_DECRYPT_CERT_SIGNATURE
  | X509_V_ERR_UNABLE_TO_DECRYPT_CRL_SIGNATURE
  | X509_V_ERR_UNABLE_TO_DECODE_ISSUER_PUBLIC_KEY
  | X509_V_ERR_CERT_SIGNATURE_FAILURE
  | X509_V_ERR_CRL_SIGNATURE_FAILURE
  | X509_V_ERR_CERT_NOT_YET_VALID
  | X509_V_ERR_CERT_HAS_EXPIRED
  | X509_V_ERR_CRL_NOT_YET_VALID
  | X509_V_ERR_CRL_HAS_EXPIRED
  | X509_V_ERR_ERROR_IN_CERT_NOT_BEFORE_FIELD
  | X509_V_ERR_ERROR_IN_CERT_NOT_AFTER_FIELD
  | X509_V_ERR_ERROR_IN_CRL_LAST_UPDATE_FIELD
  | X509_V_ERR_ERROR_IN_CRL_NEXT_UPDATE_FIELD
  | X509_V_ERR_OUT_OF_MEM
  | X509_V_ERR_DEPTH_ZERO_SELF_SIGNED_CERT
  | X509_V_ERR_SELF_SIGNED_CERT_IN_CHAIN
  | X509_V_ERR_UNABLE_TO_GET_ISSUER_CERT_LOCALLY
  | X509_V_ERR_UNABLE_TO_VERIFY_LEAF_SIGNATURE
  | X509_V_ERR_CERT_CHAIN_TOO_LONG
  | X509_V_ERR_CERT_REVOKED
  | X509_V_ERR_NO_ISSUER_PUBLIC_KEY
  | X509_V_ERR_PATH_LENGTH_EXCEEDED
  | X509_V_ERR_INVALID_PURPOSE
  | X509_V_ERR_CERT_UNTRUSTED
  | X509_V_ERR_CERT_REJECTED
  | X509_V_ERR_SUBJECT_ISSUER_MISMATCH
  | X509_V_ERR_AKID_SKID_MISMATCH
  | X509_V_ERR_AKID_ISSUER_SERIAL_MISMATCH
  | X509_V_ERR_KEYUSAGE_NO_CERTSIGN
  | X509_V_ERR_UNABLE_TO_GET_CRL_ISSUER
  | X509_V_ERR_UNHANDLED_CRITICAL_EXTENSION
  | X509_V_ERR_KEYUSAGE_NO_CRL_SIGN
  | X509_V_ERR_UNHANDLED_CRITICAL_CRL_EXTENSION
  | X509_V_ERR_INVALID_NON_CA
  | X509_V_ERR_PROXY_PATH_LENGTH_EXCEEDED
  | X509_V_ERR_KEYUSAGE_NO_DIGITAL_SIGNATURE
  | X509_V_ERR_PROXY_CERTIFICATES_NOT_ALLOWED
  | X509_V_ERR_INVALID_EXTENSION
  | X509_V_ERR_INVALID_POLICY_EXTENSION
  | X509_V_ERR_NO_EXPLICIT_POLICY
  | X509_V_ERR_DIFFERENT_CRL_SCOPE
  | X509_V_ERR_UNSUPPORTED_EXTENSION_FEATURE
  | X509_V_ERR_UNNESTED_RESOURCE
  | X509_V_ERR_PERMITTED_VIOLATION
  | X509_V_ERR_EXCLUDED_VIOLATION
  | X509_V_ERR_SUBTREE_MINMAX

primrec chain_code :: "chain_result \<Rightarrow> int" where
  "chain_code X509_V_OK = 0"
| "chain_code X509_V_ERR_UNSPECIFIED = 1"
| "chain_code X509_V_ERR_UNABLE_TO_GET_ISSUER_CERT = 2"
| "chain_code X509_V_ERR_UNABLE_TO_GET_CRL = 3"
| "chain_code X509_V_ERR_UNABLE_TO_DECRYPT_CERT_SIGNATURE = 4"
| "chain_code X509_V_ERR_UNABLE_TO_DECRYPT_CRL_SIGNATURE = 5"
| "chain_code X509_V_ERR_UNABLE_TO_DECODE_ISSUER_PUBLIC_KEY = 6"
| "chain_code X509_V_ERR_CERT_SIGNATURE_FAILURE = 7"
| "chain_code X509_V_ERR_CRL_SIGNATURE_FAILURE = 8"
| "chain_code X509_V_ERR_CERT_NOT_YET_VALID = 9"
| "chain_code X509_V_ERR_CERT_HAS_EXPIRED = 10"
| "chain_code X509_V_ERR_CRL_NOT_YET_VALID = 11"
| "chain_code X509_V_ERR_CRL_HAS_EXPIRED = 12"
| "chain_code X509_V_ERR_ERROR_IN_CERT_NOT_BEFORE_FIELD = 13"
| "chain_code X509_V_ERR_ERROR_IN_CERT_NOT_AFTER_FIELD = 14"
| "chain_code X509_V_ERR_ERROR_IN_CRL_LAST_UPDATE_FIELD = 15"
| "chain_code X509_V_ERR_ERROR_IN_CRL_NEXT_UPDATE_FIELD = 16"
| "chain_code X509_V_ERR_OUT_OF_MEM = 17"
| "chain_code X509_V_ERR_DEPTH_ZERO_SELF_SIGNED_CERT = 18"
| "chain_code X509_V_ERR_SELF_SIGNED_CERT_IN_CHAIN = 19"
| "chain_code X509_V_ERR_UNABLE_TO_GET_ISSUER_CERT_LOCALLY = 20"
| "chain_code X509_V_ERR_UNABLE_TO_VERIFY_LEAF_SIGNATURE = 21"
| "chain_code X509_V_ERR_CERT_CHAIN_TOO_LONG = 22"
| "chain_code X509_V_ERR_CERT_REVOKED = 23"
| "chain_code X509_V_ERR_NO_ISSUER_PUBLIC_KEY = 24"
| "chain_code X509_V_ERR_PATH_LENGTH_EXCEEDED = 25"
| "chain_code X509_V_ERR_INVALID_PURPOSE = 26"
| "chain_code X509_V_ERR_CERT_UNTRUSTED = 27"
| "chain_code X509_V_ERR_CERT_REJECTED = 28"
| "chain_code X509_V_ERR_SUBJECT_ISSUER_MISMATCH = 29"
| "chain_code X509_V_ERR_AKID_SKID_MISMATCH = 30"
| "chain_code X509_V_ERR_AKID_ISSUER_SERIAL_MISMATCH = 31"
| "chain_code X509_V_ERR_KEYUSAGE_NO_CERTSIGN = 32"
| "chain_code X509_V_ERR_UNABLE_TO_GET_CRL_ISSUER = 33"
| "chain_code X509_V_ERR_UNHANDLED_CRITICAL_EXTENSION = 34"
| "chain_code X509_V_ERR_KEYUSAGE_NO_CRL_SIGN = 35"
| "chain_code X509_V_ERR_UNHANDLED_CRITICAL_CRL_EXTENSION = 36"
| "chain_code X509_V_ERR_INVALID_NON_CA = 37"
| "chain_code X509_V_ERR_PROXY_PATH_LENGTH_EXCEEDED = 38"
| "chain_code X509_V_ERR_KEYUSAGE_NO_DIGITAL_SIGNATURE = 39"
| "chain_code X509_V_ERR_PROXY_CERTIFICATES_NOT_ALLOWED = 40"
| "chain_code X509_V_ERR_INVALID_EXTENSION = 41"
| "chain_code X509_V_ERR_INVALID_POLICY_EXTENSION = 42"
| "chain_code X509_V_ERR_NO_EXPLICIT_POLICY = 43"
| "chain_code X509_V_ERR_DIFFERENT_CRL_SCOPE = 44"
| "chain_code X509_V_ERR_UNSUPPORTED_EXTENSION_FEATURE = 45"
| "chain_code X509_V_ERR_UNNESTED_RESOURCE = 46"
| "chain_code X509_V_ERR_PERMITTED_VIOLATION = 47"
| "chain_code X509_V_ERR_EXCLUDED_VIOLATION = 48"
| "chain_code X509_V_ERR_SUBTREE_MINMAX = 49"

definition chain_results :: "chain_result list" where
  "chain_results = [
     X509_V_OK,
     X509_V_ERR_UNSPECIFIED,
     X509_V_ERR_UNABLE_TO_GET_ISSUER_CERT,
     X509_V_ERR_UNABLE_TO_GET_CRL,
     X509_V_ERR_UNABLE_TO_DECRYPT_CERT_SIGNATURE,
     X509_V_ERR_UNABLE_TO_DECRYPT_CRL_SIGNATURE,
     X509_V_ERR_UNABLE_TO_DECODE_ISSUER_PUBLIC_KEY,
     X509_V_ERR_CERT_SIGNATURE_FAILURE,
     X509_V_ERR_CRL_SIGNATURE_FAILURE,
     X509_V_ERR_CERT_NOT_YET_VALID,
     X509_V_ERR_CERT_HAS_EXPIRED,
     X509_V_ERR_CRL_NOT_YET_VALID,
     X509_V_ERR_CRL_HAS_EXPIRED,
     X509_V_ERR_ERROR_IN_CERT_NOT_BEFORE_FIELD,
     X509_V_ERR_ERROR_IN_CERT_NOT_AFTER_FIELD,
     X509_V_ERR_ERROR_IN_CRL_LAST_UPDATE_FIELD,
     X509_V_ERR_ERROR_IN_CRL_NEXT_UPDATE_FIELD,
     X509_V_ERR_OUT_OF_MEM,
     X509_V_ERR_DEPTH_ZERO_SELF_SIGNED_CERT,
     X509_V_ERR_SELF_SIGNED_CERT_IN_CHAIN,
     X509_V_ERR_UNABLE_TO_GET_ISSUER_CERT_LOCALLY,
     X509_V_ERR_UNABLE_TO_VERIFY_LEAF_SIGNATURE,
     X509_V_ERR_CERT_CHAIN_TOO_LONG,
     X509_V_ERR_CERT_REVOKED,
     X509_V_ERR_NO_ISSUER_PUBLIC_KEY,
     X509_V_ERR_PATH_LENGTH_EXCEEDED,
     X509_V_ERR_INVALID_PURPOSE,
     X509_V_ERR_CERT_UNTRUSTED,
     X509_V_ERR_CERT_REJECTED,
     X509_V_ERR_SUBJECT_ISSUER_MISMATCH,
     X509_V_ERR_AKID_SKID_MISMATCH,
     X509_V_ERR_AKID_ISSUER_SERIAL_MISMATCH,
     X509_V_ERR_KEYUSAGE_NO_CERTSIGN,
     X509_V_ERR_UNABLE_TO_GET_CRL_ISSUER,
     X509_V_ERR_UNHANDLED_CRITICAL_EXTENSION,
     X509_V_ERR_KEYUSAGE_NO_CRL_SIGN,
     X509_V_ERR_UNHANDLED_CRITICAL_CRL_EXTENSION,
     X509_V_ERR_INVALID_NON_CA,
     X509_V_ERR_PROXY_PATH_LENGTH_EXCEEDED,
     X509_V_ERR_KEYUSAGE_NO_DIGITAL_SIGNATURE,
     X509_V_ERR_PROXY_CERTIFICATES_NOT_ALLOWED,
     X509_V_ERR_INVALID_EXTENSION,
     X509_V_ERR_INVALID_POLICY_EXTENSION,
     X509_V_ERR_NO_EXPLICIT_POLICY,
     X509_V_ERR_DIFFERENT_CRL_SCOPE,
     X509_V_ERR_UNSUPPORTED_EXTENSION_FEATURE,
     X509_V_ERR_UNNESTED_RESOURCE,
     X509_V_ERR_PERMITTED_VIOLATION,
     X509_V_ERR_EXCLUDED_VIOLATION,
     X509_V_ERR_SUBTREE_MINMAX]"

datatype policy_result =
    X509_V_ERR_APPLICATION_VERIFICATION
  | X509_V_ERR_UNSUPPORTED_CONSTRAINT_TYPE
  | X509_V_ERR_UNSUPPORTED_CONSTRAINT_SYNTAX
  | X509_V_ERR_UNSUPPORTED_NAME_SYNTAX
  | X509_V_ERR_CRL_PATH_VALIDATION_ERROR
  | X509_V_ERR_PATH_LOOP
  | X509_V_ERR_SUITE_B_INVALID_VERSION
  | X509_V_ERR_SUITE_B_INVALID_ALGORITHM
  | X509_V_ERR_SUITE_B_INVALID_CURVE
  | X509_V_ERR_SUITE_B_INVALID_SIGNATURE_ALGORITHM
  | X509_V_ERR_SUITE_B_LOS_NOT_ALLOWED
  | X509_V_ERR_SUITE_B_CANNOT_SIGN_P_384_WITH_P_256
  | X509_V_ERR_HOSTNAME_MISMATCH
  | X509_V_ERR_EMAIL_MISMATCH
  | X509_V_ERR_IP_ADDRESS_MISMATCH
  | X509_V_ERR_DANE_NO_MATCH
  | X509_V_ERR_EE_KEY_TOO_SMALL
  | X509_V_ERR_CA_KEY_TOO_SMALL
  | X509_V_ERR_CA_MD_TOO_WEAK
  | X509_V_ERR_INVALID_CALL
  | X509_V_ERR_STORE_LOOKUP
  | X509_V_ERR_NO_VALID_SCTS
  | X509_V_ERR_PROXY_SUBJECT_NAME_VIOLATION
  | X509_V_ERR_OCSP_VERIFY_NEEDED
  | X509_V_ERR_OCSP_VERIFY_FAILED
  | X509_V_ERR_OCSP_CERT_UNKNOWN
  | X509_V_ERR_UNSUPPORTED_SIGNATURE_ALGORITHM
  | X509_V_ERR_SIGNATURE_ALGORITHM_MISMATCH
  | X509_V_ERR_SIGNATURE_ALGORITHM_INCONSISTENCY
  | X509_V_ERR_INVALID_CA
  | X509_V_ERR_PATHLEN_INVALID_FOR_NON_CA
  | X509_V_ERR_PATHLEN_WITHOUT_KU_KEY_CERT_SIGN
  | X509_V_ERR_KU_KEY_CERT_SIGN_INVALID_FOR_NON_CA
  | X509_V_ERR_ISSUER_NAME_EMPTY
  | X509_V_ERR_SUBJECT_NAME_EMPTY
  | X509_V_ERR_MISSING_AUTHORITY_KEY_IDENTIFIER
  | X509_V_ERR_MISSING_SUBJECT_KEY_IDENTIFIER
  | X509_V_ERR_EMPTY_SUBJECT_ALT_NAME
  | X509_V_ERR_EMPTY_SUBJECT_SAN_NOT_CRITICAL
  | X509_V_ERR_CA_BCONS_NOT_CRITICAL
  | X509_V_ERR_AUTHORITY_KEY_IDENTIFIER_CRITICAL
  | X509_V_ERR_SUBJECT_KEY_IDENTIFIER_CRITICAL
  | X509_V_ERR_CA_CERT_MISSING_KEY_USAGE
  | X509_V_ERR_EXTENSIONS_REQUIRE_VERSION_3
  | X509_V_ERR_EC_KEY_EXPLICIT_PARAMS
  | X509_V_ERR_RPK_UNTRUSTED

primrec policy_code :: "policy_result \<Rightarrow> int" where
  "policy_code X509_V_ERR_APPLICATION_VERIFICATION = 50"
| "policy_code X509_V_ERR_UNSUPPORTED_CONSTRAINT_TYPE = 51"
| "policy_code X509_V_ERR_UNSUPPORTED_CONSTRAINT_SYNTAX = 52"
| "policy_code X509_V_ERR_UNSUPPORTED_NAME_SYNTAX = 53"
| "policy_code X509_V_ERR_CRL_PATH_VALIDATION_ERROR = 54"
| "policy_code X509_V_ERR_PATH_LOOP = 55"
| "policy_code X509_V_ERR_SUITE_B_INVALID_VERSION = 56"
| "policy_code X509_V_ERR_SUITE_B_INVALID_ALGORITHM = 57"
| "policy_code X509_V_ERR_SUITE_B_INVALID_CURVE = 58"
| "policy_code X509_V_ERR_SUITE_B_INVALID_SIGNATURE_ALGORITHM = 59"
| "policy_code X509_V_ERR_SUITE_B_LOS_NOT_ALLOWED = 60"
| "policy_code X509_V_ERR_SUITE_B_CANNOT_SIGN_P_384_WITH_P_256 = 61"
| "policy_code X509_V_ERR_HOSTNAME_MISMATCH = 62"
| "policy_code X509_V_ERR_EMAIL_MISMATCH = 63"
| "policy_code X509_V_ERR_IP_ADDRESS_MISMATCH = 64"
| "policy_code X509_V_ERR_DANE_NO_MATCH = 65"
| "policy_code X509_V_ERR_EE_KEY_TOO_SMALL = 66"
| "policy_code X509_V_ERR_CA_KEY_TOO_SMALL = 67"
| "policy_code X509_V_ERR_CA_MD_TOO_WEAK = 68"
| "policy_code X509_V_ERR_INVALID_CALL = 69"
| "policy_code X509_V_ERR_STORE_LOOKUP = 70"
| "policy_code X509_V_ERR_NO_VALID_SCTS = 71"
| "policy_code X509_V_ERR_PROXY_SUBJECT_NAME_VIOLATION = 72"
| "policy_code X509_V_ERR_OCSP_VERIFY_NEEDED = 73"
| "policy_code X509_V_ERR_OCSP_VERIFY_FAILED = 74"
| "policy_code X509_V_ERR_OCSP_CERT_UNKNOWN = 75"
| "policy_code X509_V_ERR_UNSUPPORTED_SIGNATURE_ALGORITHM = 76"
| "policy_code X509_V_ERR_SIGNATURE_ALGORITHM_MISMATCH = 77"
| "policy_code X509_V_ERR_SIGNATURE_ALGORITHM_INCONSISTENCY = 78"
| "policy_code X509_V_ERR_INVALID_CA = 79"
| "policy_code X509_V_ERR_PATHLEN_INVALID_FOR_NON_CA = 80"
| "policy_code X509_V_ERR_PATHLEN_WITHOUT_KU_KEY_CERT_SIGN = 81"
| "policy_code X509_V_ERR_KU_KEY_CERT_SIGN_INVALID_FOR_NON_CA = 82"
| "policy_code X509_V_ERR_ISSUER_NAME_EMPTY = 83"
| "policy_code X509_V_ERR_SUBJECT_NAME_EMPTY = 84"
| "policy_code X509_V_ERR_MISSING_AUTHORITY_KEY_IDENTIFIER = 85"
| "policy_code X509_V_ERR_MISSING_SUBJECT_KEY_IDENTIFIER = 86"
| "policy_code X509_V_ERR_EMPTY_SUBJECT_ALT_NAME = 87"
| "policy_code X509_V_ERR_EMPTY_SUBJECT_SAN_NOT_CRITICAL = 88"
| "policy_code X509_V_ERR_CA_BCONS_NOT_CRITICAL = 89"
| "policy_code X509_V_ERR_AUTHORITY_KEY_IDENTIFIER_CRITICAL = 90"
| "policy_code X509_V_ERR_SUBJECT_KEY_IDENTIFIER_CRITICAL = 91"
| "policy_code X509_V_ERR_CA_CERT_MISSING_KEY_USAGE = 92"
| "policy_code X509_V_ERR_EXTENSIONS_REQUIRE_VERSION_3 = 93"
| "policy_code X509_V_ERR_EC_KEY_EXPLICIT_PARAMS = 94"
| "policy_code X509_V_ERR_RPK_UNTRUSTED = 95"

definition policy_results :: "policy_result list" where
  "policy_results = [
     X509_V_ERR_APPLICATION_VERIFICATION,
     X509_V_ERR_UNSUPPORTED_CONSTRAINT_TYPE,
     X509_V_ERR_UNSUPPORTED_CONSTRAINT_SYNTAX,
     X509_V_ERR_UNSUPPORTED_NAME_SYNTAX,
     X509_V_ERR_CRL_PATH_VALIDATION_ERROR,
     X509_V_ERR_PATH_LOOP,
     X509_V_ERR_SUITE_B_INVALID_VERSION,
     X509_V_ERR_SUITE_B_INVALID_ALGORITHM,
     X509_V_ERR_SUITE_B_INVALID_CURVE,
     X509_V_ERR_SUITE_B_INVALID_SIGNATURE_ALGORITHM,
     X509_V_ERR_SUITE_B_LOS_NOT_ALLOWED,
     X509_V_ERR_SUITE_B_CANNOT_SIGN_P_384_WITH_P_256,
     X509_V_ERR_HOSTNAME_MISMATCH,
     X509_V_ERR_EMAIL_MISMATCH,
     X509_V_ERR_IP_ADDRESS_MISMATCH,
     X509_V_ERR_DANE_NO_MATCH,
     X509_V_ERR_EE_KEY_TOO_SMALL,
     X509_V_ERR_CA_KEY_TOO_SMALL,
     X509_V_ERR_CA_MD_TOO_WEAK,
     X509_V_ERR_INVALID_CALL,
     X509_V_ERR_STORE_LOOKUP,
     X509_V_ERR_NO_VALID_SCTS,
     X509_V_ERR_PROXY_SUBJECT_NAME_VIOLATION,
     X509_V_ERR_OCSP_VERIFY_NEEDED,
     X509_V_ERR_OCSP_VERIFY_FAILED,
     X509_V_ERR_OCSP_CERT_UNKNOWN,
     X509_V_ERR_UNSUPPORTED_SIGNATURE_ALGORITHM,
     X509_V_ERR_SIGNATURE_ALGORITHM_MISMATCH,
     X509_V_ERR_SIGNATURE_ALGORITHM_INCONSISTENCY,
     X509_V_ERR_INVALID_CA,
     X509_V_ERR_PATHLEN_INVALID_FOR_NON_CA,
     X509_V_ERR_PATHLEN_WITHOUT_KU_KEY_CERT_SIGN,
     X509_V_ERR_KU_KEY_CERT_SIGN_INVALID_FOR_NON_CA,
     X509_V_ERR_ISSUER_NAME_EMPTY,
     X509_V_ERR_SUBJECT_NAME_EMPTY,
     X509_V_ERR_MISSING_AUTHORITY_KEY_IDENTIFIER,
     X509_V_ERR_MISSING_SUBJECT_KEY_IDENTIFIER,
     X509_V_ERR_EMPTY_SUBJECT_ALT_NAME,
     X509_V_ERR_EMPTY_SUBJECT_SAN_NOT_CRITICAL,
     X509_V_ERR_CA_BCONS_NOT_CRITICAL,
     X509_V_ERR_AUTHORITY_KEY_IDENTIFIER_CRITICAL,
     X509_V_ERR_SUBJECT_KEY_IDENTIFIER_CRITICAL,
     X509_V_ERR_CA_CERT_MISSING_KEY_USAGE,
     X509_V_ERR_EXTENSIONS_REQUIRE_VERSION_3,
     X509_V_ERR_EC_KEY_EXPLICIT_PARAMS,
     X509_V_ERR_RPK_UNTRUSTED]"

datatype verify_result = Chain chain_result | Policy policy_result

primrec verify_code :: "verify_result \<Rightarrow> int" where
  "verify_code (Chain r) = chain_code r"
| "verify_code (Policy r) = policy_code r"

definition verify_results :: "verify_result list" where
  "verify_results = map Chain chain_results @ map Policy policy_results"

lemma verify_results_complete [simp]: "r \<in> set verify_results"
proof (cases r)
  case (Chain c)
  then show ?thesis by (cases c) (simp_all add: verify_results_def chain_results_def)
next
  case (Policy p)
  then show ?thesis by (cases p) (simp_all add: verify_results_def policy_results_def)
qed

lemma verify_codes: "map verify_code verify_results = [0..95]"
proof -
  have "map verify_code verify_results = [
      0, 1, 2, 3, 4, 5, 6, 7, 8, 9, 10, 11, 12, 13, 14, 15, 16, 17, 18, 19, 20, 21, 22, 23,
      24, 25, 26, 27, 28, 29, 30, 31, 32, 33, 34, 35, 36, 37, 38, 39, 40, 41, 42, 43, 44,
      45, 46, 47, 48, 49, 50, 51, 52, 53, 54, 55, 56, 57, 58, 59, 60, 61, 62, 63, 64, 65,
      66, 67, 68, 69, 70, 71, 72, 73, 74, 75, 76, 77, 78, 79, 80, 81, 82, 83, 84, 85, 86,
      87, 88, 89, 90, 91, 92, 93, 94, 95]"
    by (simp add: verify_results_def chain_results_def policy_results_def)
  also have "\<dots> = [0..95]" by code_simp
  finally show ?thesis .
qed

interpretation verify_results: c_enum verify_code verify_results
  by unfold_locales (simp add: verify_codes)

text \<open>The results are numbered without a gap, and only 0 means success.\<close>

lemma verify_result_range:
  "(\<exists>r. verify_code r = i) \<longleftrightarrow> 0 \<le> i \<and> i \<le> 95" "verify_code r = 0 \<longleftrightarrow> r = Chain X509_V_OK"
proof -
  have "verify_code ` set verify_results = {0..95}"
    using arg_cong [OF verify_codes, of set] by simp
  then show "(\<exists>r. verify_code r = i) \<longleftrightarrow> 0 \<le> i \<and> i \<le> 95"
    by (metis (full_types) atLeastAtMost_iff imageE imageI verify_results_complete)
  show "verify_code r = 0 \<longleftrightarrow> r = Chain X509_V_OK"
    using verify_results.code_eq_iff [of r "Chain X509_V_OK"] by simp
qed

section \<open>Flags\<close>

text \<open>One flag is deprecated and has no bit; one is the combination of two others.\<close>

datatype verify_flag =
    X509_V_FLAG_CB_ISSUER_CHECK
  | X509_V_FLAG_USE_CHECK_TIME
  | X509_V_FLAG_CRL_CHECK
  | X509_V_FLAG_CRL_CHECK_ALL
  | X509_V_FLAG_IGNORE_CRITICAL
  | X509_V_FLAG_X509_STRICT
  | X509_V_FLAG_ALLOW_PROXY_CERTS
  | X509_V_FLAG_POLICY_CHECK
  | X509_V_FLAG_EXPLICIT_POLICY
  | X509_V_FLAG_INHIBIT_ANY
  | X509_V_FLAG_INHIBIT_MAP
  | X509_V_FLAG_NOTIFY_POLICY
  | X509_V_FLAG_EXTENDED_CRL_SUPPORT
  | X509_V_FLAG_USE_DELTAS
  | X509_V_FLAG_CHECK_SS_SIGNATURE
  | X509_V_FLAG_TRUSTED_FIRST
  | X509_V_FLAG_SUITEB_128_LOS_ONLY
  | X509_V_FLAG_SUITEB_192_LOS
  | X509_V_FLAG_SUITEB_128_LOS
  | X509_V_FLAG_PARTIAL_CHAIN
  | X509_V_FLAG_NO_ALT_CHAINS
  | X509_V_FLAG_NO_CHECK_TIME

primrec verify_flag_mask :: "verify_flag \<Rightarrow> 32 word" where
  "verify_flag_mask X509_V_FLAG_CB_ISSUER_CHECK = 0x0"
| "verify_flag_mask X509_V_FLAG_USE_CHECK_TIME = 0x2"
| "verify_flag_mask X509_V_FLAG_CRL_CHECK = 0x4"
| "verify_flag_mask X509_V_FLAG_CRL_CHECK_ALL = 0x8"
| "verify_flag_mask X509_V_FLAG_IGNORE_CRITICAL = 0x10"
| "verify_flag_mask X509_V_FLAG_X509_STRICT = 0x20"
| "verify_flag_mask X509_V_FLAG_ALLOW_PROXY_CERTS = 0x40"
| "verify_flag_mask X509_V_FLAG_POLICY_CHECK = 0x80"
| "verify_flag_mask X509_V_FLAG_EXPLICIT_POLICY = 0x100"
| "verify_flag_mask X509_V_FLAG_INHIBIT_ANY = 0x200"
| "verify_flag_mask X509_V_FLAG_INHIBIT_MAP = 0x400"
| "verify_flag_mask X509_V_FLAG_NOTIFY_POLICY = 0x800"
| "verify_flag_mask X509_V_FLAG_EXTENDED_CRL_SUPPORT = 0x1000"
| "verify_flag_mask X509_V_FLAG_USE_DELTAS = 0x2000"
| "verify_flag_mask X509_V_FLAG_CHECK_SS_SIGNATURE = 0x4000"
| "verify_flag_mask X509_V_FLAG_TRUSTED_FIRST = 0x8000"
| "verify_flag_mask X509_V_FLAG_SUITEB_128_LOS_ONLY = 0x10000"
| "verify_flag_mask X509_V_FLAG_SUITEB_192_LOS = 0x20000"
| "verify_flag_mask X509_V_FLAG_SUITEB_128_LOS = 0x30000"
| "verify_flag_mask X509_V_FLAG_PARTIAL_CHAIN = 0x80000"
| "verify_flag_mask X509_V_FLAG_NO_ALT_CHAINS = 0x100000"
| "verify_flag_mask X509_V_FLAG_NO_CHECK_TIME = 0x200000"

text \<open>The bit of each flag; the two flags without one of their own get numbers outside the word.\<close>

primrec verify_flag_bit :: "verify_flag \<Rightarrow> nat" where
  "verify_flag_bit X509_V_FLAG_CB_ISSUER_CHECK = 40"
| "verify_flag_bit X509_V_FLAG_USE_CHECK_TIME = 1"
| "verify_flag_bit X509_V_FLAG_CRL_CHECK = 2"
| "verify_flag_bit X509_V_FLAG_CRL_CHECK_ALL = 3"
| "verify_flag_bit X509_V_FLAG_IGNORE_CRITICAL = 4"
| "verify_flag_bit X509_V_FLAG_X509_STRICT = 5"
| "verify_flag_bit X509_V_FLAG_ALLOW_PROXY_CERTS = 6"
| "verify_flag_bit X509_V_FLAG_POLICY_CHECK = 7"
| "verify_flag_bit X509_V_FLAG_EXPLICIT_POLICY = 8"
| "verify_flag_bit X509_V_FLAG_INHIBIT_ANY = 9"
| "verify_flag_bit X509_V_FLAG_INHIBIT_MAP = 10"
| "verify_flag_bit X509_V_FLAG_NOTIFY_POLICY = 11"
| "verify_flag_bit X509_V_FLAG_EXTENDED_CRL_SUPPORT = 12"
| "verify_flag_bit X509_V_FLAG_USE_DELTAS = 13"
| "verify_flag_bit X509_V_FLAG_CHECK_SS_SIGNATURE = 14"
| "verify_flag_bit X509_V_FLAG_TRUSTED_FIRST = 15"
| "verify_flag_bit X509_V_FLAG_SUITEB_128_LOS_ONLY = 16"
| "verify_flag_bit X509_V_FLAG_SUITEB_192_LOS = 17"
| "verify_flag_bit X509_V_FLAG_SUITEB_128_LOS = 41"
| "verify_flag_bit X509_V_FLAG_PARTIAL_CHAIN = 19"
| "verify_flag_bit X509_V_FLAG_NO_ALT_CHAINS = 20"
| "verify_flag_bit X509_V_FLAG_NO_CHECK_TIME = 21"

fun verify_flag_provides :: "verify_flag \<Rightarrow> verify_flag list" where
  "verify_flag_provides X509_V_FLAG_CB_ISSUER_CHECK = []"
| "verify_flag_provides X509_V_FLAG_SUITEB_128_LOS =
     [X509_V_FLAG_SUITEB_128_LOS_ONLY, X509_V_FLAG_SUITEB_192_LOS]"
| "verify_flag_provides f = [f]"

definition X509_V_FLAG_POLICY_MASK :: "32 word" where
  "X509_V_FLAG_POLICY_MASK = verify_flag_mask X509_V_FLAG_POLICY_CHECK OR
     verify_flag_mask X509_V_FLAG_EXPLICIT_POLICY OR
     verify_flag_mask X509_V_FLAG_INHIBIT_ANY OR
     verify_flag_mask X509_V_FLAG_INHIBIT_MAP"

definition verify_flags :: "verify_flag list" where
  "verify_flags = [
     X509_V_FLAG_CB_ISSUER_CHECK,
     X509_V_FLAG_USE_CHECK_TIME,
     X509_V_FLAG_CRL_CHECK,
     X509_V_FLAG_CRL_CHECK_ALL,
     X509_V_FLAG_IGNORE_CRITICAL,
     X509_V_FLAG_X509_STRICT,
     X509_V_FLAG_ALLOW_PROXY_CERTS,
     X509_V_FLAG_POLICY_CHECK,
     X509_V_FLAG_EXPLICIT_POLICY,
     X509_V_FLAG_INHIBIT_ANY,
     X509_V_FLAG_INHIBIT_MAP,
     X509_V_FLAG_NOTIFY_POLICY,
     X509_V_FLAG_EXTENDED_CRL_SUPPORT,
     X509_V_FLAG_USE_DELTAS,
     X509_V_FLAG_CHECK_SS_SIGNATURE,
     X509_V_FLAG_TRUSTED_FIRST,
     X509_V_FLAG_SUITEB_128_LOS_ONLY,
     X509_V_FLAG_SUITEB_192_LOS,
     X509_V_FLAG_SUITEB_128_LOS,
     X509_V_FLAG_PARTIAL_CHAIN,
     X509_V_FLAG_NO_ALT_CHAINS,
     X509_V_FLAG_NO_CHECK_TIME]"

lemma verify_flags_complete [simp]: "f \<in> set verify_flags"
  by (cases f) (simp_all add: verify_flags_def)

lemma verify_flag_bit_inject: "verify_flag_bit f = verify_flag_bit g \<Longrightarrow> f = g"
proof -
  have "distinct (map verify_flag_bit verify_flags)" by (simp add: verify_flags_def)
  then show "verify_flag_bit f = verify_flag_bit g \<Longrightarrow> f = g"
    by (auto simp: distinct_map dest: inj_onD)
qed

lemma verify_flag_mask_or:
  "verify_flag_mask f = or_all (map (\<lambda>g. shl (verify_flag_bit g)) (verify_flag_provides f))"
  by (cases f) (simp_all add: shl_def)

lemma verify_flag_provides_bits: "g \<in> set (verify_flag_provides f) \<Longrightarrow> verify_flag_bit g < 32"
  by (cases f) auto

interpretation verify_flags: bit_options verify_flag_mask verify_flag_bit verify_flag_provides
proof
  show "bit (verify_flag_mask f) n \<longleftrightarrow> (\<exists>g \<in> set (verify_flag_provides f). n = verify_flag_bit g)" for f n
    by (auto simp: verify_flag_mask_or bit_or_all bit_shl dest: verify_flag_provides_bits)
qed (rule verify_flag_bit_inject)

text \<open>
  A combination of flags contains the mask of the policy flags exactly if it contains all four
  of them, and the 128-bit mode of suite B exactly if both of its parts were put in.
\<close>

lemma verify_flags_read_back:
  "has_bits (or_all (map verify_flag_mask fs)) (verify_flag_mask X509_V_FLAG_SUITEB_128_LOS) \<longleftrightarrow>
    X509_V_FLAG_SUITEB_128_LOS \<in> set fs \<or>
    X509_V_FLAG_SUITEB_128_LOS_ONLY \<in> set fs \<and> X509_V_FLAG_SUITEB_192_LOS \<in> set fs"
proof -
  have inv: "g \<in> set (verify_flag_provides f) \<longleftrightarrow> f = g \<or> f = X509_V_FLAG_SUITEB_128_LOS"
    if "g = X509_V_FLAG_SUITEB_128_LOS_ONLY \<or> g = X509_V_FLAG_SUITEB_192_LOS" for f g
    using that by (cases f) auto
  show ?thesis unfolding verify_flags.read_options by (auto simp: inv)
qed

end
