(* ===== verification/TlsNumbers.thy ===== *)
theory TlsNumbers
  imports Enumerations
begin

text \<open>
  \<^verbatim>\<open>openssl/tls1.h\<close>: the numbers of the TLS protocol that a connection exchanges, that is
  alerts, extensions and cipher suites.
\<close>

section \<open>Alerts\<close>

datatype tls_alert =
    TLS1_AD_DECRYPTION_FAILED
  | TLS1_AD_RECORD_OVERFLOW
  | TLS1_AD_UNKNOWN_CA
  | TLS1_AD_ACCESS_DENIED
  | TLS1_AD_DECODE_ERROR
  | TLS1_AD_DECRYPT_ERROR
  | TLS1_AD_EXPORT_RESTRICTION
  | TLS1_AD_PROTOCOL_VERSION
  | TLS1_AD_INSUFFICIENT_SECURITY
  | TLS1_AD_INTERNAL_ERROR
  | TLS1_AD_INAPPROPRIATE_FALLBACK
  | TLS1_AD_USER_CANCELLED
  | TLS1_AD_NO_RENEGOTIATION
  | TLS13_AD_MISSING_EXTENSION
  | TLS13_AD_CERTIFICATE_REQUIRED
  | TLS1_AD_UNSUPPORTED_EXTENSION
  | TLS1_AD_CERTIFICATE_UNOBTAINABLE
  | TLS1_AD_UNRECOGNIZED_NAME
  | TLS1_AD_BAD_CERTIFICATE_STATUS_RESPONSE
  | TLS1_AD_BAD_CERTIFICATE_HASH_VALUE
  | TLS1_AD_UNKNOWN_PSK_IDENTITY
  | TLS1_AD_NO_APPLICATION_PROTOCOL

primrec alert_code :: "tls_alert \<Rightarrow> int" where
  "alert_code TLS1_AD_DECRYPTION_FAILED = 21"
| "alert_code TLS1_AD_RECORD_OVERFLOW = 22"
| "alert_code TLS1_AD_UNKNOWN_CA = 48"
| "alert_code TLS1_AD_ACCESS_DENIED = 49"
| "alert_code TLS1_AD_DECODE_ERROR = 50"
| "alert_code TLS1_AD_DECRYPT_ERROR = 51"
| "alert_code TLS1_AD_EXPORT_RESTRICTION = 60"
| "alert_code TLS1_AD_PROTOCOL_VERSION = 70"
| "alert_code TLS1_AD_INSUFFICIENT_SECURITY = 71"
| "alert_code TLS1_AD_INTERNAL_ERROR = 80"
| "alert_code TLS1_AD_INAPPROPRIATE_FALLBACK = 86"
| "alert_code TLS1_AD_USER_CANCELLED = 90"
| "alert_code TLS1_AD_NO_RENEGOTIATION = 100"
| "alert_code TLS13_AD_MISSING_EXTENSION = 109"
| "alert_code TLS13_AD_CERTIFICATE_REQUIRED = 116"
| "alert_code TLS1_AD_UNSUPPORTED_EXTENSION = 110"
| "alert_code TLS1_AD_CERTIFICATE_UNOBTAINABLE = 111"
| "alert_code TLS1_AD_UNRECOGNIZED_NAME = 112"
| "alert_code TLS1_AD_BAD_CERTIFICATE_STATUS_RESPONSE = 113"
| "alert_code TLS1_AD_BAD_CERTIFICATE_HASH_VALUE = 114"
| "alert_code TLS1_AD_UNKNOWN_PSK_IDENTITY = 115"
| "alert_code TLS1_AD_NO_APPLICATION_PROTOCOL = 120"

definition tls_alerts :: "tls_alert list" where
  "tls_alerts = [
     TLS1_AD_DECRYPTION_FAILED,
     TLS1_AD_RECORD_OVERFLOW,
     TLS1_AD_UNKNOWN_CA,
     TLS1_AD_ACCESS_DENIED,
     TLS1_AD_DECODE_ERROR,
     TLS1_AD_DECRYPT_ERROR,
     TLS1_AD_EXPORT_RESTRICTION,
     TLS1_AD_PROTOCOL_VERSION,
     TLS1_AD_INSUFFICIENT_SECURITY,
     TLS1_AD_INTERNAL_ERROR,
     TLS1_AD_INAPPROPRIATE_FALLBACK,
     TLS1_AD_USER_CANCELLED,
     TLS1_AD_NO_RENEGOTIATION,
     TLS13_AD_MISSING_EXTENSION,
     TLS13_AD_CERTIFICATE_REQUIRED,
     TLS1_AD_UNSUPPORTED_EXTENSION,
     TLS1_AD_CERTIFICATE_UNOBTAINABLE,
     TLS1_AD_UNRECOGNIZED_NAME,
     TLS1_AD_BAD_CERTIFICATE_STATUS_RESPONSE,
     TLS1_AD_BAD_CERTIFICATE_HASH_VALUE,
     TLS1_AD_UNKNOWN_PSK_IDENTITY,
     TLS1_AD_NO_APPLICATION_PROTOCOL]"

interpretation alerts: c_enum alert_code tls_alerts
  by unfold_locales (simp add: tls_alerts_def)

text \<open>The alerts that the header marks as fatal.\<close>

definition alert_fatal :: "tls_alert \<Rightarrow> bool" where
  "alert_fatal a \<longleftrightarrow> a \<in> {
     TLS1_AD_UNKNOWN_CA,
     TLS1_AD_ACCESS_DENIED,
     TLS1_AD_DECODE_ERROR,
     TLS1_AD_EXPORT_RESTRICTION,
     TLS1_AD_PROTOCOL_VERSION,
     TLS1_AD_INSUFFICIENT_SECURITY,
     TLS1_AD_INTERNAL_ERROR,
     TLS1_AD_INAPPROPRIATE_FALLBACK,
     TLS13_AD_MISSING_EXTENSION,
     TLS13_AD_CERTIFICATE_REQUIRED,
     TLS1_AD_UNKNOWN_PSK_IDENTITY,
     TLS1_AD_NO_APPLICATION_PROTOCOL}"

section \<open>Extensions\<close>

datatype tls_extension =
    TLSEXT_TYPE_server_name
  | TLSEXT_TYPE_max_fragment_length
  | TLSEXT_TYPE_client_certificate_url
  | TLSEXT_TYPE_trusted_ca_keys
  | TLSEXT_TYPE_truncated_hmac
  | TLSEXT_TYPE_status_request
  | TLSEXT_TYPE_user_mapping
  | TLSEXT_TYPE_client_authz
  | TLSEXT_TYPE_server_authz
  | TLSEXT_TYPE_cert_type
  | TLSEXT_TYPE_supported_groups
  | TLSEXT_TYPE_ec_point_formats
  | TLSEXT_TYPE_srp
  | TLSEXT_TYPE_signature_algorithms
  | TLSEXT_TYPE_use_srtp
  | TLSEXT_TYPE_application_layer_protocol_negotiation
  | TLSEXT_TYPE_signed_certificate_timestamp
  | TLSEXT_TYPE_client_cert_type
  | TLSEXT_TYPE_server_cert_type
  | TLSEXT_TYPE_padding
  | TLSEXT_TYPE_encrypt_then_mac
  | TLSEXT_TYPE_extended_master_secret
  | TLSEXT_TYPE_compress_certificate
  | TLSEXT_TYPE_session_ticket
  | TLSEXT_TYPE_psk
  | TLSEXT_TYPE_early_data
  | TLSEXT_TYPE_supported_versions
  | TLSEXT_TYPE_cookie
  | TLSEXT_TYPE_psk_kex_modes
  | TLSEXT_TYPE_certificate_authorities
  | TLSEXT_TYPE_post_handshake_auth
  | TLSEXT_TYPE_signature_algorithms_cert
  | TLSEXT_TYPE_key_share
  | TLSEXT_TYPE_quic_transport_parameters
  | TLSEXT_TYPE_renegotiate
  | TLSEXT_TYPE_next_proto_neg

primrec extension_code :: "tls_extension \<Rightarrow> int" where
  "extension_code TLSEXT_TYPE_server_name = 0"
| "extension_code TLSEXT_TYPE_max_fragment_length = 1"
| "extension_code TLSEXT_TYPE_client_certificate_url = 2"
| "extension_code TLSEXT_TYPE_trusted_ca_keys = 3"
| "extension_code TLSEXT_TYPE_truncated_hmac = 4"
| "extension_code TLSEXT_TYPE_status_request = 5"
| "extension_code TLSEXT_TYPE_user_mapping = 6"
| "extension_code TLSEXT_TYPE_client_authz = 7"
| "extension_code TLSEXT_TYPE_server_authz = 8"
| "extension_code TLSEXT_TYPE_cert_type = 9"
| "extension_code TLSEXT_TYPE_supported_groups = 10"
| "extension_code TLSEXT_TYPE_ec_point_formats = 11"
| "extension_code TLSEXT_TYPE_srp = 12"
| "extension_code TLSEXT_TYPE_signature_algorithms = 13"
| "extension_code TLSEXT_TYPE_use_srtp = 14"
| "extension_code TLSEXT_TYPE_application_layer_protocol_negotiation = 16"
| "extension_code TLSEXT_TYPE_signed_certificate_timestamp = 18"
| "extension_code TLSEXT_TYPE_client_cert_type = 19"
| "extension_code TLSEXT_TYPE_server_cert_type = 20"
| "extension_code TLSEXT_TYPE_padding = 21"
| "extension_code TLSEXT_TYPE_encrypt_then_mac = 22"
| "extension_code TLSEXT_TYPE_extended_master_secret = 23"
| "extension_code TLSEXT_TYPE_compress_certificate = 27"
| "extension_code TLSEXT_TYPE_session_ticket = 35"
| "extension_code TLSEXT_TYPE_psk = 41"
| "extension_code TLSEXT_TYPE_early_data = 42"
| "extension_code TLSEXT_TYPE_supported_versions = 43"
| "extension_code TLSEXT_TYPE_cookie = 44"
| "extension_code TLSEXT_TYPE_psk_kex_modes = 45"
| "extension_code TLSEXT_TYPE_certificate_authorities = 47"
| "extension_code TLSEXT_TYPE_post_handshake_auth = 49"
| "extension_code TLSEXT_TYPE_signature_algorithms_cert = 50"
| "extension_code TLSEXT_TYPE_key_share = 51"
| "extension_code TLSEXT_TYPE_quic_transport_parameters = 57"
| "extension_code TLSEXT_TYPE_renegotiate = 65281"
| "extension_code TLSEXT_TYPE_next_proto_neg = 13172"

definition tls_extensions :: "tls_extension list" where
  "tls_extensions = [
     TLSEXT_TYPE_server_name,
     TLSEXT_TYPE_max_fragment_length,
     TLSEXT_TYPE_client_certificate_url,
     TLSEXT_TYPE_trusted_ca_keys,
     TLSEXT_TYPE_truncated_hmac,
     TLSEXT_TYPE_status_request,
     TLSEXT_TYPE_user_mapping,
     TLSEXT_TYPE_client_authz,
     TLSEXT_TYPE_server_authz,
     TLSEXT_TYPE_cert_type,
     TLSEXT_TYPE_supported_groups,
     TLSEXT_TYPE_ec_point_formats,
     TLSEXT_TYPE_srp,
     TLSEXT_TYPE_signature_algorithms,
     TLSEXT_TYPE_use_srtp,
     TLSEXT_TYPE_application_layer_protocol_negotiation,
     TLSEXT_TYPE_signed_certificate_timestamp,
     TLSEXT_TYPE_client_cert_type,
     TLSEXT_TYPE_server_cert_type,
     TLSEXT_TYPE_padding,
     TLSEXT_TYPE_encrypt_then_mac,
     TLSEXT_TYPE_extended_master_secret,
     TLSEXT_TYPE_compress_certificate,
     TLSEXT_TYPE_session_ticket,
     TLSEXT_TYPE_psk,
     TLSEXT_TYPE_early_data,
     TLSEXT_TYPE_supported_versions,
     TLSEXT_TYPE_cookie,
     TLSEXT_TYPE_psk_kex_modes,
     TLSEXT_TYPE_certificate_authorities,
     TLSEXT_TYPE_post_handshake_auth,
     TLSEXT_TYPE_signature_algorithms_cert,
     TLSEXT_TYPE_key_share,
     TLSEXT_TYPE_quic_transport_parameters,
     TLSEXT_TYPE_renegotiate,
     TLSEXT_TYPE_next_proto_neg]"

interpretation extensions: c_enum extension_code tls_extensions
  by unfold_locales (simp add: tls_extensions_def)

text \<open>An extension is sent as two bytes, an alert as one.\<close>

lemma numbers_fit:
  "0 \<le> alert_code a \<and> alert_code a < 256" "0 \<le> extension_code x \<and> extension_code x < 65536"
  by (cases a; simp) (cases x; simp)

section \<open>Cipher suites\<close>

text \<open>
  The number of a suite has the version 3.0 in its upper half and the two bytes that are sent
  in its lower half.
\<close>

definition cipher_suites_psk :: "(string \<times> int) list" where
  "cipher_suites_psk = [
     (''TLS1_CK_PSK_WITH_RC4_128_SHA'', 0x0300008A),
     (''TLS1_CK_PSK_WITH_3DES_EDE_CBC_SHA'', 0x0300008B),
     (''TLS1_CK_PSK_WITH_AES_128_CBC_SHA'', 0x0300008C),
     (''TLS1_CK_PSK_WITH_AES_256_CBC_SHA'', 0x0300008D),
     (''TLS1_CK_DHE_PSK_WITH_RC4_128_SHA'', 0x0300008E),
     (''TLS1_CK_DHE_PSK_WITH_3DES_EDE_CBC_SHA'', 0x0300008F),
     (''TLS1_CK_DHE_PSK_WITH_AES_128_CBC_SHA'', 0x03000090),
     (''TLS1_CK_DHE_PSK_WITH_AES_256_CBC_SHA'', 0x03000091),
     (''TLS1_CK_RSA_PSK_WITH_RC4_128_SHA'', 0x03000092),
     (''TLS1_CK_RSA_PSK_WITH_3DES_EDE_CBC_SHA'', 0x03000093),
     (''TLS1_CK_RSA_PSK_WITH_AES_128_CBC_SHA'', 0x03000094),
     (''TLS1_CK_RSA_PSK_WITH_AES_256_CBC_SHA'', 0x03000095),
     (''TLS1_CK_PSK_WITH_AES_128_GCM_SHA256'', 0x030000A8),
     (''TLS1_CK_PSK_WITH_AES_256_GCM_SHA384'', 0x030000A9),
     (''TLS1_CK_DHE_PSK_WITH_AES_128_GCM_SHA256'', 0x030000AA),
     (''TLS1_CK_DHE_PSK_WITH_AES_256_GCM_SHA384'', 0x030000AB),
     (''TLS1_CK_RSA_PSK_WITH_AES_128_GCM_SHA256'', 0x030000AC),
     (''TLS1_CK_RSA_PSK_WITH_AES_256_GCM_SHA384'', 0x030000AD),
     (''TLS1_CK_PSK_WITH_AES_128_CBC_SHA256'', 0x030000AE),
     (''TLS1_CK_PSK_WITH_AES_256_CBC_SHA384'', 0x030000AF),
     (''TLS1_CK_PSK_WITH_NULL_SHA256'', 0x030000B0),
     (''TLS1_CK_PSK_WITH_NULL_SHA384'', 0x030000B1),
     (''TLS1_CK_DHE_PSK_WITH_AES_128_CBC_SHA256'', 0x030000B2),
     (''TLS1_CK_DHE_PSK_WITH_AES_256_CBC_SHA384'', 0x030000B3),
     (''TLS1_CK_DHE_PSK_WITH_NULL_SHA256'', 0x030000B4),
     (''TLS1_CK_DHE_PSK_WITH_NULL_SHA384'', 0x030000B5),
     (''TLS1_CK_RSA_PSK_WITH_AES_128_CBC_SHA256'', 0x030000B6),
     (''TLS1_CK_RSA_PSK_WITH_AES_256_CBC_SHA384'', 0x030000B7),
     (''TLS1_CK_RSA_PSK_WITH_NULL_SHA256'', 0x030000B8),
     (''TLS1_CK_RSA_PSK_WITH_NULL_SHA384'', 0x030000B9),
     (''TLS1_CK_PSK_WITH_NULL_SHA'', 0x0300002C),
     (''TLS1_CK_DHE_PSK_WITH_NULL_SHA'', 0x0300002D),
     (''TLS1_CK_RSA_PSK_WITH_NULL_SHA'', 0x0300002E),
     (''TLS1_CK_RSA_WITH_AES_128_SHA'', 0x0300002F),
     (''TLS1_CK_DH_DSS_WITH_AES_128_SHA'', 0x03000030),
     (''TLS1_CK_DH_RSA_WITH_AES_128_SHA'', 0x03000031),
     (''TLS1_CK_DHE_DSS_WITH_AES_128_SHA'', 0x03000032),
     (''TLS1_CK_DHE_RSA_WITH_AES_128_SHA'', 0x03000033),
     (''TLS1_CK_ADH_WITH_AES_128_SHA'', 0x03000034),
     (''TLS1_CK_RSA_WITH_AES_256_SHA'', 0x03000035),
     (''TLS1_CK_DH_DSS_WITH_AES_256_SHA'', 0x03000036),
     (''TLS1_CK_DH_RSA_WITH_AES_256_SHA'', 0x03000037),
     (''TLS1_CK_DHE_DSS_WITH_AES_256_SHA'', 0x03000038),
     (''TLS1_CK_DHE_RSA_WITH_AES_256_SHA'', 0x03000039),
     (''TLS1_CK_ADH_WITH_AES_256_SHA'', 0x0300003A),
     (''TLS1_CK_RSA_WITH_NULL_SHA256'', 0x0300003B),
     (''TLS1_CK_RSA_WITH_AES_128_SHA256'', 0x0300003C),
     (''TLS1_CK_RSA_WITH_AES_256_SHA256'', 0x0300003D),
     (''TLS1_CK_DH_DSS_WITH_AES_128_SHA256'', 0x0300003E),
     (''TLS1_CK_DH_RSA_WITH_AES_128_SHA256'', 0x0300003F),
     (''TLS1_CK_DHE_DSS_WITH_AES_128_SHA256'', 0x03000040),
     (''TLS1_CK_RSA_WITH_CAMELLIA_128_CBC_SHA'', 0x03000041),
     (''TLS1_CK_DH_DSS_WITH_CAMELLIA_128_CBC_SHA'', 0x03000042),
     (''TLS1_CK_DH_RSA_WITH_CAMELLIA_128_CBC_SHA'', 0x03000043),
     (''TLS1_CK_DHE_DSS_WITH_CAMELLIA_128_CBC_SHA'', 0x03000044),
     (''TLS1_CK_DHE_RSA_WITH_CAMELLIA_128_CBC_SHA'', 0x03000045),
     (''TLS1_CK_ADH_WITH_CAMELLIA_128_CBC_SHA'', 0x03000046),
     (''TLS1_CK_DHE_RSA_WITH_AES_128_SHA256'', 0x03000067),
     (''TLS1_CK_DH_DSS_WITH_AES_256_SHA256'', 0x03000068),
     (''TLS1_CK_DH_RSA_WITH_AES_256_SHA256'', 0x03000069),
     (''TLS1_CK_DHE_DSS_WITH_AES_256_SHA256'', 0x0300006A),
     (''TLS1_CK_DHE_RSA_WITH_AES_256_SHA256'', 0x0300006B),
     (''TLS1_CK_ADH_WITH_AES_128_SHA256'', 0x0300006C),
     (''TLS1_CK_ADH_WITH_AES_256_SHA256'', 0x0300006D),
     (''TLS1_CK_RSA_WITH_CAMELLIA_256_CBC_SHA'', 0x03000084),
     (''TLS1_CK_DH_DSS_WITH_CAMELLIA_256_CBC_SHA'', 0x03000085),
     (''TLS1_CK_DH_RSA_WITH_CAMELLIA_256_CBC_SHA'', 0x03000086),
     (''TLS1_CK_DHE_DSS_WITH_CAMELLIA_256_CBC_SHA'', 0x03000087),
     (''TLS1_CK_DHE_RSA_WITH_CAMELLIA_256_CBC_SHA'', 0x03000088),
     (''TLS1_CK_ADH_WITH_CAMELLIA_256_CBC_SHA'', 0x03000089),
     (''TLS1_CK_RSA_WITH_SEED_SHA'', 0x03000096),
     (''TLS1_CK_DH_DSS_WITH_SEED_SHA'', 0x03000097),
     (''TLS1_CK_DH_RSA_WITH_SEED_SHA'', 0x03000098),
     (''TLS1_CK_DHE_DSS_WITH_SEED_SHA'', 0x03000099),
     (''TLS1_CK_DHE_RSA_WITH_SEED_SHA'', 0x0300009A),
     (''TLS1_CK_ADH_WITH_SEED_SHA'', 0x0300009B),
     (''TLS1_CK_RSA_WITH_AES_128_GCM_SHA256'', 0x0300009C),
     (''TLS1_CK_RSA_WITH_AES_256_GCM_SHA384'', 0x0300009D),
     (''TLS1_CK_DHE_RSA_WITH_AES_128_GCM_SHA256'', 0x0300009E),
     (''TLS1_CK_DHE_RSA_WITH_AES_256_GCM_SHA384'', 0x0300009F),
     (''TLS1_CK_DH_RSA_WITH_AES_128_GCM_SHA256'', 0x030000A0),
     (''TLS1_CK_DH_RSA_WITH_AES_256_GCM_SHA384'', 0x030000A1),
     (''TLS1_CK_DHE_DSS_WITH_AES_128_GCM_SHA256'', 0x030000A2),
     (''TLS1_CK_DHE_DSS_WITH_AES_256_GCM_SHA384'', 0x030000A3),
     (''TLS1_CK_DH_DSS_WITH_AES_128_GCM_SHA256'', 0x030000A4),
     (''TLS1_CK_DH_DSS_WITH_AES_256_GCM_SHA384'', 0x030000A5),
     (''TLS1_CK_ADH_WITH_AES_128_GCM_SHA256'', 0x030000A6),
     (''TLS1_CK_ADH_WITH_AES_256_GCM_SHA384'', 0x030000A7),
     (''TLS1_CK_RSA_WITH_AES_128_CCM'', 0x0300C09C),
     (''TLS1_CK_RSA_WITH_AES_256_CCM'', 0x0300C09D),
     (''TLS1_CK_DHE_RSA_WITH_AES_128_CCM'', 0x0300C09E),
     (''TLS1_CK_DHE_RSA_WITH_AES_256_CCM'', 0x0300C09F),
     (''TLS1_CK_RSA_WITH_AES_128_CCM_8'', 0x0300C0A0),
     (''TLS1_CK_RSA_WITH_AES_256_CCM_8'', 0x0300C0A1),
     (''TLS1_CK_DHE_RSA_WITH_AES_128_CCM_8'', 0x0300C0A2),
     (''TLS1_CK_DHE_RSA_WITH_AES_256_CCM_8'', 0x0300C0A3),
     (''TLS1_CK_PSK_WITH_AES_128_CCM'', 0x0300C0A4),
     (''TLS1_CK_PSK_WITH_AES_256_CCM'', 0x0300C0A5),
     (''TLS1_CK_DHE_PSK_WITH_AES_128_CCM'', 0x0300C0A6),
     (''TLS1_CK_DHE_PSK_WITH_AES_256_CCM'', 0x0300C0A7),
     (''TLS1_CK_PSK_WITH_AES_128_CCM_8'', 0x0300C0A8),
     (''TLS1_CK_PSK_WITH_AES_256_CCM_8'', 0x0300C0A9),
     (''TLS1_CK_DHE_PSK_WITH_AES_128_CCM_8'', 0x0300C0AA),
     (''TLS1_CK_DHE_PSK_WITH_AES_256_CCM_8'', 0x0300C0AB),
     (''TLS1_CK_ECDHE_ECDSA_WITH_AES_128_CCM'', 0x0300C0AC),
     (''TLS1_CK_ECDHE_ECDSA_WITH_AES_256_CCM'', 0x0300C0AD),
     (''TLS1_CK_ECDHE_ECDSA_WITH_AES_128_CCM_8'', 0x0300C0AE),
     (''TLS1_CK_ECDHE_ECDSA_WITH_AES_256_CCM_8'', 0x0300C0AF),
     (''TLS1_CK_RSA_WITH_CAMELLIA_128_CBC_SHA256'', 0x030000BA),
     (''TLS1_CK_DH_DSS_WITH_CAMELLIA_128_CBC_SHA256'', 0x030000BB),
     (''TLS1_CK_DH_RSA_WITH_CAMELLIA_128_CBC_SHA256'', 0x030000BC),
     (''TLS1_CK_DHE_DSS_WITH_CAMELLIA_128_CBC_SHA256'', 0x030000BD),
     (''TLS1_CK_DHE_RSA_WITH_CAMELLIA_128_CBC_SHA256'', 0x030000BE),
     (''TLS1_CK_ADH_WITH_CAMELLIA_128_CBC_SHA256'', 0x030000BF),
     (''TLS1_CK_RSA_WITH_CAMELLIA_256_CBC_SHA256'', 0x030000C0),
     (''TLS1_CK_DH_DSS_WITH_CAMELLIA_256_CBC_SHA256'', 0x030000C1),
     (''TLS1_CK_DH_RSA_WITH_CAMELLIA_256_CBC_SHA256'', 0x030000C2),
     (''TLS1_CK_DHE_DSS_WITH_CAMELLIA_256_CBC_SHA256'', 0x030000C3),
     (''TLS1_CK_DHE_RSA_WITH_CAMELLIA_256_CBC_SHA256'', 0x030000C4)]"

definition cipher_suites_ecc :: "(string \<times> int) list" where
  "cipher_suites_ecc = [
     (''TLS1_CK_ADH_WITH_CAMELLIA_256_CBC_SHA256'', 0x030000C5),
     (''TLS1_CK_ECDH_ECDSA_WITH_NULL_SHA'', 0x0300C001),
     (''TLS1_CK_ECDH_ECDSA_WITH_RC4_128_SHA'', 0x0300C002),
     (''TLS1_CK_ECDH_ECDSA_WITH_DES_192_CBC3_SHA'', 0x0300C003),
     (''TLS1_CK_ECDH_ECDSA_WITH_AES_128_CBC_SHA'', 0x0300C004),
     (''TLS1_CK_ECDH_ECDSA_WITH_AES_256_CBC_SHA'', 0x0300C005),
     (''TLS1_CK_ECDHE_ECDSA_WITH_NULL_SHA'', 0x0300C006),
     (''TLS1_CK_ECDHE_ECDSA_WITH_RC4_128_SHA'', 0x0300C007),
     (''TLS1_CK_ECDHE_ECDSA_WITH_DES_192_CBC3_SHA'', 0x0300C008),
     (''TLS1_CK_ECDHE_ECDSA_WITH_AES_128_CBC_SHA'', 0x0300C009),
     (''TLS1_CK_ECDHE_ECDSA_WITH_AES_256_CBC_SHA'', 0x0300C00A),
     (''TLS1_CK_ECDH_RSA_WITH_NULL_SHA'', 0x0300C00B),
     (''TLS1_CK_ECDH_RSA_WITH_RC4_128_SHA'', 0x0300C00C),
     (''TLS1_CK_ECDH_RSA_WITH_DES_192_CBC3_SHA'', 0x0300C00D),
     (''TLS1_CK_ECDH_RSA_WITH_AES_128_CBC_SHA'', 0x0300C00E),
     (''TLS1_CK_ECDH_RSA_WITH_AES_256_CBC_SHA'', 0x0300C00F),
     (''TLS1_CK_ECDHE_RSA_WITH_NULL_SHA'', 0x0300C010),
     (''TLS1_CK_ECDHE_RSA_WITH_RC4_128_SHA'', 0x0300C011),
     (''TLS1_CK_ECDHE_RSA_WITH_DES_192_CBC3_SHA'', 0x0300C012),
     (''TLS1_CK_ECDHE_RSA_WITH_AES_128_CBC_SHA'', 0x0300C013),
     (''TLS1_CK_ECDHE_RSA_WITH_AES_256_CBC_SHA'', 0x0300C014),
     (''TLS1_CK_ECDH_anon_WITH_NULL_SHA'', 0x0300C015),
     (''TLS1_CK_ECDH_anon_WITH_RC4_128_SHA'', 0x0300C016),
     (''TLS1_CK_ECDH_anon_WITH_DES_192_CBC3_SHA'', 0x0300C017),
     (''TLS1_CK_ECDH_anon_WITH_AES_128_CBC_SHA'', 0x0300C018),
     (''TLS1_CK_ECDH_anon_WITH_AES_256_CBC_SHA'', 0x0300C019),
     (''TLS1_CK_SRP_SHA_WITH_3DES_EDE_CBC_SHA'', 0x0300C01A),
     (''TLS1_CK_SRP_SHA_RSA_WITH_3DES_EDE_CBC_SHA'', 0x0300C01B),
     (''TLS1_CK_SRP_SHA_DSS_WITH_3DES_EDE_CBC_SHA'', 0x0300C01C),
     (''TLS1_CK_SRP_SHA_WITH_AES_128_CBC_SHA'', 0x0300C01D),
     (''TLS1_CK_SRP_SHA_RSA_WITH_AES_128_CBC_SHA'', 0x0300C01E),
     (''TLS1_CK_SRP_SHA_DSS_WITH_AES_128_CBC_SHA'', 0x0300C01F),
     (''TLS1_CK_SRP_SHA_WITH_AES_256_CBC_SHA'', 0x0300C020),
     (''TLS1_CK_SRP_SHA_RSA_WITH_AES_256_CBC_SHA'', 0x0300C021),
     (''TLS1_CK_SRP_SHA_DSS_WITH_AES_256_CBC_SHA'', 0x0300C022),
     (''TLS1_CK_ECDHE_ECDSA_WITH_AES_128_SHA256'', 0x0300C023),
     (''TLS1_CK_ECDHE_ECDSA_WITH_AES_256_SHA384'', 0x0300C024),
     (''TLS1_CK_ECDH_ECDSA_WITH_AES_128_SHA256'', 0x0300C025),
     (''TLS1_CK_ECDH_ECDSA_WITH_AES_256_SHA384'', 0x0300C026),
     (''TLS1_CK_ECDHE_RSA_WITH_AES_128_SHA256'', 0x0300C027),
     (''TLS1_CK_ECDHE_RSA_WITH_AES_256_SHA384'', 0x0300C028),
     (''TLS1_CK_ECDH_RSA_WITH_AES_128_SHA256'', 0x0300C029),
     (''TLS1_CK_ECDH_RSA_WITH_AES_256_SHA384'', 0x0300C02A),
     (''TLS1_CK_ECDHE_ECDSA_WITH_AES_128_GCM_SHA256'', 0x0300C02B),
     (''TLS1_CK_ECDHE_ECDSA_WITH_AES_256_GCM_SHA384'', 0x0300C02C),
     (''TLS1_CK_ECDH_ECDSA_WITH_AES_128_GCM_SHA256'', 0x0300C02D),
     (''TLS1_CK_ECDH_ECDSA_WITH_AES_256_GCM_SHA384'', 0x0300C02E),
     (''TLS1_CK_ECDHE_RSA_WITH_AES_128_GCM_SHA256'', 0x0300C02F),
     (''TLS1_CK_ECDHE_RSA_WITH_AES_256_GCM_SHA384'', 0x0300C030),
     (''TLS1_CK_ECDH_RSA_WITH_AES_128_GCM_SHA256'', 0x0300C031),
     (''TLS1_CK_ECDH_RSA_WITH_AES_256_GCM_SHA384'', 0x0300C032),
     (''TLS1_CK_ECDHE_PSK_WITH_RC4_128_SHA'', 0x0300C033),
     (''TLS1_CK_ECDHE_PSK_WITH_3DES_EDE_CBC_SHA'', 0x0300C034),
     (''TLS1_CK_ECDHE_PSK_WITH_AES_128_CBC_SHA'', 0x0300C035),
     (''TLS1_CK_ECDHE_PSK_WITH_AES_256_CBC_SHA'', 0x0300C036),
     (''TLS1_CK_ECDHE_PSK_WITH_AES_128_CBC_SHA256'', 0x0300C037),
     (''TLS1_CK_ECDHE_PSK_WITH_AES_256_CBC_SHA384'', 0x0300C038),
     (''TLS1_CK_ECDHE_PSK_WITH_NULL_SHA'', 0x0300C039),
     (''TLS1_CK_ECDHE_PSK_WITH_NULL_SHA256'', 0x0300C03A),
     (''TLS1_CK_ECDHE_PSK_WITH_NULL_SHA384'', 0x0300C03B),
     (''TLS1_CK_ECDHE_ECDSA_WITH_CAMELLIA_128_CBC_SHA256'', 0x0300C072),
     (''TLS1_CK_ECDHE_ECDSA_WITH_CAMELLIA_256_CBC_SHA384'', 0x0300C073),
     (''TLS1_CK_ECDH_ECDSA_WITH_CAMELLIA_128_CBC_SHA256'', 0x0300C074),
     (''TLS1_CK_ECDH_ECDSA_WITH_CAMELLIA_256_CBC_SHA384'', 0x0300C075),
     (''TLS1_CK_ECDHE_RSA_WITH_CAMELLIA_128_CBC_SHA256'', 0x0300C076),
     (''TLS1_CK_ECDHE_RSA_WITH_CAMELLIA_256_CBC_SHA384'', 0x0300C077),
     (''TLS1_CK_ECDH_RSA_WITH_CAMELLIA_128_CBC_SHA256'', 0x0300C078),
     (''TLS1_CK_ECDH_RSA_WITH_CAMELLIA_256_CBC_SHA384'', 0x0300C079),
     (''TLS1_CK_PSK_WITH_CAMELLIA_128_CBC_SHA256'', 0x0300C094),
     (''TLS1_CK_PSK_WITH_CAMELLIA_256_CBC_SHA384'', 0x0300C095),
     (''TLS1_CK_DHE_PSK_WITH_CAMELLIA_128_CBC_SHA256'', 0x0300C096),
     (''TLS1_CK_DHE_PSK_WITH_CAMELLIA_256_CBC_SHA384'', 0x0300C097),
     (''TLS1_CK_RSA_PSK_WITH_CAMELLIA_128_CBC_SHA256'', 0x0300C098),
     (''TLS1_CK_RSA_PSK_WITH_CAMELLIA_256_CBC_SHA384'', 0x0300C099),
     (''TLS1_CK_ECDHE_PSK_WITH_CAMELLIA_128_CBC_SHA256'', 0x0300C09A),
     (''TLS1_CK_ECDHE_PSK_WITH_CAMELLIA_256_CBC_SHA384'', 0x0300C09B),
     (''TLS1_CK_ECDHE_RSA_WITH_CHACHA20_POLY1305'', 0x0300CCA8),
     (''TLS1_CK_ECDHE_ECDSA_WITH_CHACHA20_POLY1305'', 0x0300CCA9),
     (''TLS1_CK_DHE_RSA_WITH_CHACHA20_POLY1305'', 0x0300CCAA),
     (''TLS1_CK_PSK_WITH_CHACHA20_POLY1305'', 0x0300CCAB),
     (''TLS1_CK_ECDHE_PSK_WITH_CHACHA20_POLY1305'', 0x0300CCAC),
     (''TLS1_CK_DHE_PSK_WITH_CHACHA20_POLY1305'', 0x0300CCAD),
     (''TLS1_CK_RSA_PSK_WITH_CHACHA20_POLY1305'', 0x0300CCAE),
     (''TLS1_3_CK_AES_128_GCM_SHA256'', 0x03001301),
     (''TLS1_3_CK_AES_256_GCM_SHA384'', 0x03001302),
     (''TLS1_3_CK_CHACHA20_POLY1305_SHA256'', 0x03001303),
     (''TLS1_3_CK_AES_128_CCM_SHA256'', 0x03001304),
     (''TLS1_3_CK_AES_128_CCM_8_SHA256'', 0x03001305),
     (''TLS1_3_CK_SHA256_SHA256'', 0x0300C0B4),
     (''TLS1_3_CK_SHA384_SHA384'', 0x0300C0B5),
     (''TLS1_CK_RSA_WITH_ARIA_128_GCM_SHA256'', 0x0300C050),
     (''TLS1_CK_RSA_WITH_ARIA_256_GCM_SHA384'', 0x0300C051),
     (''TLS1_CK_DHE_RSA_WITH_ARIA_128_GCM_SHA256'', 0x0300C052),
     (''TLS1_CK_DHE_RSA_WITH_ARIA_256_GCM_SHA384'', 0x0300C053),
     (''TLS1_CK_DH_RSA_WITH_ARIA_128_GCM_SHA256'', 0x0300C054),
     (''TLS1_CK_DH_RSA_WITH_ARIA_256_GCM_SHA384'', 0x0300C055),
     (''TLS1_CK_DHE_DSS_WITH_ARIA_128_GCM_SHA256'', 0x0300C056),
     (''TLS1_CK_DHE_DSS_WITH_ARIA_256_GCM_SHA384'', 0x0300C057),
     (''TLS1_CK_DH_DSS_WITH_ARIA_128_GCM_SHA256'', 0x0300C058),
     (''TLS1_CK_DH_DSS_WITH_ARIA_256_GCM_SHA384'', 0x0300C059),
     (''TLS1_CK_DH_anon_WITH_ARIA_128_GCM_SHA256'', 0x0300C05A),
     (''TLS1_CK_DH_anon_WITH_ARIA_256_GCM_SHA384'', 0x0300C05B),
     (''TLS1_CK_ECDHE_ECDSA_WITH_ARIA_128_GCM_SHA256'', 0x0300C05C),
     (''TLS1_CK_ECDHE_ECDSA_WITH_ARIA_256_GCM_SHA384'', 0x0300C05D),
     (''TLS1_CK_ECDH_ECDSA_WITH_ARIA_128_GCM_SHA256'', 0x0300C05E),
     (''TLS1_CK_ECDH_ECDSA_WITH_ARIA_256_GCM_SHA384'', 0x0300C05F),
     (''TLS1_CK_ECDHE_RSA_WITH_ARIA_128_GCM_SHA256'', 0x0300C060),
     (''TLS1_CK_ECDHE_RSA_WITH_ARIA_256_GCM_SHA384'', 0x0300C061),
     (''TLS1_CK_ECDH_RSA_WITH_ARIA_128_GCM_SHA256'', 0x0300C062),
     (''TLS1_CK_ECDH_RSA_WITH_ARIA_256_GCM_SHA384'', 0x0300C063),
     (''TLS1_CK_PSK_WITH_ARIA_128_GCM_SHA256'', 0x0300C06A),
     (''TLS1_CK_PSK_WITH_ARIA_256_GCM_SHA384'', 0x0300C06B),
     (''TLS1_CK_DHE_PSK_WITH_ARIA_128_GCM_SHA256'', 0x0300C06C),
     (''TLS1_CK_DHE_PSK_WITH_ARIA_256_GCM_SHA384'', 0x0300C06D),
     (''TLS1_CK_RSA_PSK_WITH_ARIA_128_GCM_SHA256'', 0x0300C06E),
     (''TLS1_CK_RSA_PSK_WITH_ARIA_256_GCM_SHA384'', 0x0300C06F)]"

definition cipher_suites :: "(string \<times> int) list" where
  "cipher_suites = cipher_suites_psk @ cipher_suites_ecc"

definition suite_bytes :: "int \<Rightarrow> int \<times> int" where
  "suite_bytes i = (i div 256 mod 256, i mod 256)"

definition suite_of_bytes :: "int \<times> int \<Rightarrow> int" where
  "suite_of_bytes b = 0x03000000 + fst b * 256 + snd b"

lemma suite_numbers: "map snd cipher_suites = [
    0x0300008A, 0x0300008B, 0x0300008C, 0x0300008D, 0x0300008E, 0x0300008F, 0x03000090,
    0x03000091, 0x03000092, 0x03000093, 0x03000094, 0x03000095, 0x030000A8, 0x030000A9,
    0x030000AA, 0x030000AB, 0x030000AC, 0x030000AD, 0x030000AE, 0x030000AF, 0x030000B0,
    0x030000B1, 0x030000B2, 0x030000B3, 0x030000B4, 0x030000B5, 0x030000B6, 0x030000B7,
    0x030000B8, 0x030000B9, 0x0300002C, 0x0300002D, 0x0300002E, 0x0300002F, 0x03000030,
    0x03000031, 0x03000032, 0x03000033, 0x03000034, 0x03000035, 0x03000036, 0x03000037,
    0x03000038, 0x03000039, 0x0300003A, 0x0300003B, 0x0300003C, 0x0300003D, 0x0300003E,
    0x0300003F, 0x03000040, 0x03000041, 0x03000042, 0x03000043, 0x03000044, 0x03000045,
    0x03000046, 0x03000067, 0x03000068, 0x03000069, 0x0300006A, 0x0300006B, 0x0300006C,
    0x0300006D, 0x03000084, 0x03000085, 0x03000086, 0x03000087, 0x03000088, 0x03000089,
    0x03000096, 0x03000097, 0x03000098, 0x03000099, 0x0300009A, 0x0300009B, 0x0300009C,
    0x0300009D, 0x0300009E, 0x0300009F, 0x030000A0, 0x030000A1, 0x030000A2, 0x030000A3,
    0x030000A4, 0x030000A5, 0x030000A6, 0x030000A7, 0x0300C09C, 0x0300C09D, 0x0300C09E,
    0x0300C09F, 0x0300C0A0, 0x0300C0A1, 0x0300C0A2, 0x0300C0A3, 0x0300C0A4, 0x0300C0A5,
    0x0300C0A6, 0x0300C0A7, 0x0300C0A8, 0x0300C0A9, 0x0300C0AA, 0x0300C0AB, 0x0300C0AC,
    0x0300C0AD, 0x0300C0AE, 0x0300C0AF, 0x030000BA, 0x030000BB, 0x030000BC, 0x030000BD,
    0x030000BE, 0x030000BF, 0x030000C0, 0x030000C1, 0x030000C2, 0x030000C3, 0x030000C4,
    0x030000C5, 0x0300C001, 0x0300C002, 0x0300C003, 0x0300C004, 0x0300C005, 0x0300C006,
    0x0300C007, 0x0300C008, 0x0300C009, 0x0300C00A, 0x0300C00B, 0x0300C00C, 0x0300C00D,
    0x0300C00E, 0x0300C00F, 0x0300C010, 0x0300C011, 0x0300C012, 0x0300C013, 0x0300C014,
    0x0300C015, 0x0300C016, 0x0300C017, 0x0300C018, 0x0300C019, 0x0300C01A, 0x0300C01B,
    0x0300C01C, 0x0300C01D, 0x0300C01E, 0x0300C01F, 0x0300C020, 0x0300C021, 0x0300C022,
    0x0300C023, 0x0300C024, 0x0300C025, 0x0300C026, 0x0300C027, 0x0300C028, 0x0300C029,
    0x0300C02A, 0x0300C02B, 0x0300C02C, 0x0300C02D, 0x0300C02E, 0x0300C02F, 0x0300C030,
    0x0300C031, 0x0300C032, 0x0300C033, 0x0300C034, 0x0300C035, 0x0300C036, 0x0300C037,
    0x0300C038, 0x0300C039, 0x0300C03A, 0x0300C03B, 0x0300C072, 0x0300C073, 0x0300C074,
    0x0300C075, 0x0300C076, 0x0300C077, 0x0300C078, 0x0300C079, 0x0300C094, 0x0300C095,
    0x0300C096, 0x0300C097, 0x0300C098, 0x0300C099, 0x0300C09A, 0x0300C09B, 0x0300CCA8,
    0x0300CCA9, 0x0300CCAA, 0x0300CCAB, 0x0300CCAC, 0x0300CCAD, 0x0300CCAE, 0x03001301,
    0x03001302, 0x03001303, 0x03001304, 0x03001305, 0x0300C0B4, 0x0300C0B5, 0x0300C050,
    0x0300C051, 0x0300C052, 0x0300C053, 0x0300C054, 0x0300C055, 0x0300C056, 0x0300C057,
    0x0300C058, 0x0300C059, 0x0300C05A, 0x0300C05B, 0x0300C05C, 0x0300C05D, 0x0300C05E,
    0x0300C05F, 0x0300C060, 0x0300C061, 0x0300C062, 0x0300C063, 0x0300C06A, 0x0300C06B,
    0x0300C06C, 0x0300C06D, 0x0300C06E, 0x0300C06F]"
  by (simp add: cipher_suites_def cipher_suites_psk_def cipher_suites_ecc_def)

text \<open>Every suite is read back from the two bytes, and no two suites share them.\<close>

lemma suite_version: "list_all (\<lambda>i. i div 65536 = 0x0300) (map snd cipher_suites)"
  unfolding suite_numbers by simp

lemma suites_read_back: "i \<in> set (map snd cipher_suites) \<Longrightarrow> suite_of_bytes (suite_bytes i) = i"
proof -
  assume "i \<in> set (map snd cipher_suites)"
  then have "i div 65536 = 768" using suite_version unfolding list_all_iff by blast
  then have "i = 768 * 65536 + i mod 65536" using div_mult_mod_eq [of i 65536] by simp
  moreover have "i mod (256 * 256) = 256 * (i div 256 mod 256) + i mod 256" by (rule zmod_zmult2_eq) simp
  ultimately show ?thesis by (simp add: suite_of_bytes_def suite_bytes_def)
qed

lemma suites_distinct: "distinct (map snd cipher_suites)"
  unfolding suite_numbers by simp

lemma suite_bytes_distinct: "distinct (map (suite_bytes \<circ> snd) cipher_suites)"
proof -
  have "inj_on suite_bytes (set (map snd cipher_suites))"
    using suites_read_back by (intro inj_on_inverseI [where g = suite_of_bytes]) simp
  then have "distinct (map suite_bytes (map snd cipher_suites))"
    using suites_distinct by (simp only: distinct_map)
  then show ?thesis by (simp only: map_map)
qed

end
