(* ===== verification/Spec2Isabelle.thy ===== *)
theory Spec2Isabelle
  imports InterleavedRuns ExitRaces Signals ProgramCloses LwsConfig OpensslErr TlsVerify TlsNumbers
begin

text \<open>
  A model of the real-time stock statistics program (\<^verbatim>\<open>src/\<close> and \<^verbatim>\<open>include/\<close> of
  the repository): a C program that subscribes to the trades of 21 symbols over a secure
  web socket, logs every trade, and writes a candlestick and a 15-minute moving average per
  symbol and minute.

  \<^bold>\<open>The program.\<close>  \<^verbatim>\<open>main\<close> opens the log files and starts four threads.
  \<^verbatim>\<open>WSSClient\<close> runs libwebsockets, whose callback feeds received text to the LEJP parser,
  whose callback assembles a work item per trade object and adds it to the first queue.  A
  timer signal adds a directive to the same queue at every full minute.  Two \<^verbatim>\<open>Writer\<close>
  threads take the items, log the trades and pass every item on to a second queue.  The
  \<^verbatim>\<open>Calculator\<close> takes them from there, adds trades to the symbols' candlesticks, and on a
  directive rolls the averages, writes the rows of the minute and resets the candlesticks.
  \<^verbatim>\<open>SIGINT\<close> or the limit of 48 hours set the exit flag of the first queue; the writers pass
  the order on to the second one.

  \<^bold>\<open>Ground.\<close>  \<open>Prelude\<close>: shared lemmas.  \<open>Rounding\<close>: rounding of rationals to 53 bits, half
  to even.  \<open>Binary64\<close>: the type \<^verbatim>\<open>double\<close> as IEEE 754 binary64 values with the program's
  operators and comparisons, and the exactness of integer arithmetic up to \<open>2 ^ 53\<close>.  \<open>CLib\<close>:
  what the program uses of the C library, that is \<^verbatim>\<open>strtoull\<close>, \<^verbatim>\<open>strtod\<close>,
  the conversions \<^verbatim>\<open>%f\<close>, \<^verbatim>\<open>%d\<close> and \<^verbatim>\<open>PRIu64\<close>, and \<^verbatim>\<open>snprintf\<close>, with
  their round trips.

  \<^bold>\<open>Components.\<close>
  \<^item> \<open>TradeProcessing\<close>, \<open>MovingAverage\<close>, \<open>CalculatorBuffers\<close> model \<^verbatim>\<open>TradeProcessing.c\<close> and
    its header.  The structures are records; \<open>add_price\<close>, \<open>add_volume\<close>, \<open>roll\<close>,
    \<open>moving_average\<close>, \<open>candlestick_entry\<close>, \<open>reset_candlestick\<close> are the pieces of
    \<^verbatim>\<open>add_trade_to_buffers\<close> and \<^verbatim>\<open>write_and_reset_buffers\<close> in their order; a file is
    the list of texts written to it.  The lemmas show what a candlestick and its row contain,
    that the rings are sliding windows, which totals are exact, and that a minute is closed
    for all symbols.  The \<^verbatim>\<open>memset\<close> of the initialisation is modelled on the byte layout
    of the structures.
  \<^item> \<open>Fifo\<close>, \<open>PCQueue\<close>, \<open>Monitor\<close> model \<^verbatim>\<open>PCQueue.c\<close>.  \<open>Fifo\<close> is the contract of a queue
    as a locale and its consequences, \<open>PCQueue\<close> the ring buffer with its critical sections and
    the interpretation of the contract, \<open>Monitor\<close> the two operations cut at every lock, test,
    wait, unlock and signal, for any number of threads: mutual exclusion, order, no lost
    wake-up, progress, and the ways of the exit order; the accounts of wake-ups of the
    two condition variables are two interpretations of one locale.  \<open>ThreadSteps\<close> says which of these steps
    take effect and which are silent, \<open>Calls\<close> has the undisturbed calls of which runs are made; \<open>ExitRaces\<close> is the run in which an item is accepted after
    the consumers have left; \<open>Signals\<close> puts the two signal handlers on top of the code that they
    interrupt, with the producer lock and a stack per thread, and shows which deliveries stop
    the program for ever and that \<^verbatim>\<open>SIGINT\<close> is harmless at all other moments.
  \<^item> \<open>Symbols\<close>, \<open>JSONParsing\<close> model \<^verbatim>\<open>JSONParsing.c\<close> and the symbol list of
    \<^verbatim>\<open>main.c\<close>: the search for a symbol, the callback as an update of its static variables
    and an item handed over, a message as the sequence of the parser's callbacks.
  \<^item> \<open>Connection\<close>, \<open>WSSHandling\<close> model \<^verbatim>\<open>WSSHandling.c\<close>: what the setup of the connection
    asks of the library, its results and contexts; the callback of the connection,
    subscribing, the timer and the signal handlers.
  \<^item> \<open>ThreadRoutines\<close>, \<open>Pipeline\<close>, \<open>Client\<close> model \<^verbatim>\<open>ThreadRoutines.c\<close>: writers and calculator as a step
    relation over both queues with histories of what arrived, was logged, handled and refused;
    the connecting thread as a step relation of its own.  \<open>Pipeline\<close> reads a finished run
    as minutes of trading, for the two theorems at the end of this file; \<open>Draining\<close> shows that the
    threads end after the exit order.  In these theories a call on a queue is one step; \<open>Stages\<close>
    has the same threads over two monitors, with every call cut at its synchronisation, and
    \<open>StageRuns\<close> proves that it refines the pipeline, except for an item that is put late.
  \<^item> \<open>SystemHandling\<close>, \<open>MainProgram\<close>, \<open>MainThread\<close> model \<^verbatim>\<open>SystemHandling.c\<close> and \<^verbatim>\<open>main.c\<close>:
    directories, log files, the key, the figures at the end; the arguments of the threads, and
    their creation, joining and the closing of the files as steps of the main thread.
  \<^item> \<open>Program\<close> is the whole program, one step relation over the states of all parts: the main
    thread, the connecting thread with the callbacks and the receptions item by item, the two
    signal handlers, the writers and the calculator.  \<open>ProgramFacts\<close> has its invariants, \<open>ProgramRun\<close>
    the moves of example runs, \<open>ProgramEnd\<close> the theorems from the received texts to the files at
    the end, \<open>ProgramCloses\<close> that the exit order ends the program.
  \<^item> \<open>Interleaved\<close> is the whole program once more, with every call on a queue cut as in \<open>Stages\<close>: between
    any two steps inside the calls any other thread or handler may step.  \<open>InterleavedRefines\<close> maps its
    states to those of \<open>Program\<close> and shows that each step is one of the program or none;
    \<open>InterleavedRuns\<close> carries out each step of the program with undisturbed calls, so that both models
    have the same states, and has the theorem about the end of the program.  Both need that no item is
    put late (\<open>st_late\<close>), the race of \<open>ExitRaces\<close>.
  \<^item> \<open>Refinement\<close> and \<open>Progress\<close> are the contracts that these share: mappings of step relations
    (locale \<open>refinement_map\<close>, which carries the parts into the program, the pipeline into the
    stages and the program into its interleaved form; \<open>covering_map\<close> extends it by the other direction) and relations that run down a finite amount of work (locale \<open>running_down\<close>, for the
    threads and for the program).

  \<^bold>\<open>The libraries' headers\<close> under \<^verbatim>\<open>cross-compile/libroot/include\<close>, as far as they define
  data or code and not only declare functions.  \<open>Enumerations\<close> is the ground: integers of
  enumerators read back (locale \<open>c_enum\<close>) and option bits read back (locale \<open>bit_options\<close>).
  \<^item> \<open>LwsCallbacks\<close> is \<^verbatim>\<open>lws-callbacks.h\<close>: all reasons of the callback with their numbers, one
    datatype per heading of the header.  They are the reasons that \<open>lws_callback\<close> switches on.
  \<^item> \<open>LwsOptions\<close> are the option bits of \<^verbatim>\<open>lws-context-vhost.h\<close> and the flags of
    \<^verbatim>\<open>lws-client.h\<close>; \<open>LwsInfo\<close> the structures that the program fills, which \<open>Connection\<close> uses;
    \<open>LwsConfig\<close> the switches of \<^verbatim>\<open>lws_config.h\<close> and the members that they compile in.
  \<^item> \<open>LwsWrite\<close> are \<^verbatim>\<open>lws-write.h\<close>, \<^verbatim>\<open>lws-ws-close.h\<close> and the padding in \<^verbatim>\<open>libwebsockets.h\<close>, which
    the writes and the closing of \<open>WSSHandling\<close> use.
  \<^item> \<open>Lejp\<close> is \<^verbatim>\<open>lws-lejp.h\<close>: states, results, callbacks, limits and context of the parser.
  \<^item> \<open>OpensslErr\<close> is \<^verbatim>\<open>openssl/err.h\<close>: packing and reading error codes of the TLS library;
    \<open>TlsVerify\<close> the results and flags of the verification of certificates
    (\<^verbatim>\<open>openssl/x509_vfy.h\<close>); \<open>TlsNumbers\<close> the alerts, extensions and cipher suites of
    \<^verbatim>\<open>openssl/tls1.h\<close>.

  \<^bold>\<open>Parameters.\<close>  The functions of LEJP and libwebsockets are only there as object files: the
  parser is a constructor and a parse function that yields the callbacks it makes; contexts,
  connections and writes answer as a parameter says, given what they are asked.  The clock, the directories and the success of
  opening files are inputs, the contents of uninitialised memory is arbitrary.

  \<^bold>\<open>Conventions.\<close>  An access outside an array, or an undefined call, is \<open>None\<close>.  A call
  that would have to wait is \<open>Waits\<close>, so results are only claimed for calls that return, and
  \<open>Monitor\<close> and \<open>StageRuns\<close> show that waiting threads are woken.  Loops over arrays are folds or structural
  recursion, so every modelled operation terminates and no fuel is used.  Sizes are those of
  the code: 2000 slots, 15 minutes, 21 symbols, buffers of 100 and 256 characters.  The one
  loop that only a sentinel stops, over the symbols, is also given as a partial function and
  shown to return.  The headers are those of the 32-bit ARM target.

  \<^bold>\<open>Not modelled.\<close>  Messages to the terminal; failing allocation; the sign of a NaN and
  fused operations of a compiler; \<^verbatim>\<open>SIGINT\<close> before its handler is installed, which ends the process;
  in \<open>Interleaved\<close>, where a handler is a thread of its own, that it stops the thread that it
  interrupts (\<open>Signals\<close> has that); the network, the build files, and the recorded session data
  with its plotting script.  Of the libraries' headers: declarations of functions that the program does not call, and the
  data of the parts that it does not use (other protocols, cryptography, certificates).
\<close>

section \<open>From arrivals to results\<close>

text \<open>
  C12: What a run leaves behind is determined by what arrived.  When a run of the pipeline with
  one writer has finished, each trade file holds the rows of its symbol's trades in the order
  of arrival, and each symbol's buffer is the result of its trades and the minute directives
  in that order, whatever the interleaving was.
\<close>

theorem run_determined_by_arrivals:
  assumes "preach n 1 c s" and "calc_ready n c" and "finished s" and "i < n"
  shows "p_trade_files s ! i =
      map (trade_line \<circ> item_trade) (filter (\<lambda>x. symbol_index (item_trade x) = i) (filter is_trade (p_arrived s))) \<and>
    buffers (p_calc s) ! i = symbol_run i (p_arrived s) (buffers (Calculator_start n c) ! i)"
  using preach_files [OF assms(1)] finished_single(2) [OF assms(1,3)] finished_buffers [OF assms] assms(4)
  by (simp add: inv_files_def)

lemma run_determined_by_arrivals_witness:
  "\<exists>s. preach 2 1 two_ready_files s \<and> p_trade_files s ! 1 = [trade_line (item_trade second_trade)]"
proof -
  obtain s where s: "preach 2 1 two_ready_files s" "finished s"
    "p_arrived s = minutes_of [([second_trade], first_directive)]" using finished_minute by blast
  from run_determined_by_arrivals [OF s(1) two_ready s(2), of 1] s(1,3)
  show ?thesis using second_trade_simps first_items by (auto simp: minutes_of_def)
qed



end
